(* ===== verification/Prelude.thy ===== *)
theory Prelude
  imports Main "HOL-Library.Word" "HOL-Library.Char_ord" "HOL-Library.List_Lexorder"
    "HOL-Library.Product_Lexorder"
begin

text \<open>
  Shared vocabulary of the development: the outcome of a Go call (a value, an error value or a
  panic), Go errors, byte slices with their spare capacity, and the parts of the Go standard
  library the program uses on bytes (\<^verbatim>\<open>encoding/hex\<close>, \<^verbatim>\<open>encoding/binary\<close>), together with the generic
  lemmas and the collections of simplification rules the component theories share.
\<close>

named_theorems outcome_simps \<open>evaluation rules for sequenced Go calls\<close>
named_theorems slice_simps \<open>evaluation rules for indexing and slicing\<close>

section \<open>Types\<close>

type_synonym byte = "8 word"
type_synonym txid = string

text \<open>
  Go errors. \<^verbatim>\<open>errors.Prefix\<close> and \<^verbatim>\<open>errors.Err\<close> wrap an error and keep it reachable for
  \<^verbatim>\<open>errors.Is\<close> and \<^verbatim>\<open>errors.As\<close>: wrapping is the constructor \<open>Prefixed\<close>. The other
  constructors are the error values the program itself tells apart; \<open>Msg\<close> stands for any other
  error text.
\<close>

datatype goerr =
    ErrNoRows
  | ManualShutDownError
  | MissingSourceOutputError txid nat txid nat
  | MySQLError nat
  | ErrNotClaimScript
  | ErrDependencyGraphStalled
  | ErrSchedulerInvariant
  | EOF
  | Msg string
  | Prefixed string goerr

datatype gopanic = IndexOutOfRange | SliceOutOfRange | NilDereference | Raised string

datatype 'a outcome = Ok 'a | Err goerr | Panic gopanic

fun andThen :: "'a outcome \<Rightarrow> ('a \<Rightarrow> 'b outcome) \<Rightarrow> 'b outcome" where
  "andThen (Ok x) f = f x"
| "andThen (Err e) f = Err e"
| "andThen (Panic p) f = Panic p"

fun is_ok :: "'a outcome \<Rightarrow> bool" where
  "is_ok (Ok _) = True"
| "is_ok _ = False"

fun panics :: "'a outcome \<Rightarrow> bool" where
  "panics (Panic _) = True"
| "panics _ = False"

text \<open>A loop over a slice whose body may fail: the first error or panic ends the loop.\<close>

fun foldE :: "('a \<Rightarrow> 's \<Rightarrow> 's outcome) \<Rightarrow> 'a list \<Rightarrow> 's \<Rightarrow> 's outcome" where
  "foldE f [] s = Ok s"
| "foldE f (x # xs) s = andThen (f x s) (foldE f xs)"

text \<open>\<^verbatim>\<open>errors.As\<close> walks the chain of wrapped errors; \<^verbatim>\<open>errors.Is\<close> with a sentinel does the same.\<close>

fun err_cause :: "goerr \<Rightarrow> goerr" where
  "err_cause (Prefixed _ e) = err_cause e"
| "err_cause e = e"

section \<open>Byte slices\<close>

text \<open>
  A Go slice has elements and, behind its length, spare capacity. Indexing is bounded by the
  length; a two-index slice expression \<^verbatim>\<open>s[i:j]\<close> is bounded by the capacity, so it may reach into
  the spare bytes; \<^verbatim>\<open>s[i:]\<close> stands for \<^verbatim>\<open>s[i:len(s)]\<close>.
\<close>

record goslice =
  elems :: "byte list"
  spare :: "byte list"

definition slice_of :: "byte list \<Rightarrow> goslice" where
  "slice_of bs = \<lparr>elems = bs, spare = []\<rparr>"

definition slen :: "goslice \<Rightarrow> nat" where
  "slen s = length (elems s)"

definition idx :: "goslice \<Rightarrow> nat \<Rightarrow> byte outcome" where
  "idx s i = (if i < slen s then Ok (elems s ! i) else Panic IndexOutOfRange)"

definition slice2 :: "goslice \<Rightarrow> nat \<Rightarrow> nat \<Rightarrow> (byte list) outcome" where
  "slice2 s i j =
     (if i \<le> j \<and> j \<le> length (elems s @ spare s)
      then Ok (take (j - i) (drop i (elems s @ spare s)))
      else Panic SliceOutOfRange)"

definition slice_from :: "goslice \<Rightarrow> nat \<Rightarrow> (byte list) outcome" where
  "slice_from s i = slice2 s i (slen s)"

section \<open>Strings, hexadecimal text and little-endian integers\<close>

definition string_of_bytes :: "byte list \<Rightarrow> string" where
  "string_of_bytes bs = map (\<lambda>b. char_of (unat b)) bs"

definition hexdigits :: string where
  "hexdigits = ''0123456789abcdef''"

definition hex_byte :: "byte \<Rightarrow> string" where
  "hex_byte b = [hexdigits ! (unat b div 16), hexdigits ! (unat b mod 16)]"

definition hex_encode :: "byte list \<Rightarrow> string" where
  "hex_encode bs = concat (map hex_byte bs)"

definition fromHexChar :: "char \<Rightarrow> nat option" where
  "fromHexChar c =
     (let n = (of_char c :: nat) in
      if 48 \<le> n \<and> n \<le> 57 then Some (n - 48)
      else if 97 \<le> n \<and> n \<le> 102 then Some (n - 87)
      else if 65 \<le> n \<and> n \<le> 70 then Some (n - 55)
      else None)"

fun hex_decode :: "string \<Rightarrow> (byte list) option" where
  "hex_decode [] = Some []"
| "hex_decode [c] = None"
| "hex_decode (c # d # s) =
     (case (fromHexChar c, fromHexChar d) of
        (Some h, Some l) \<Rightarrow> map_option (\<lambda>bs. word_of_nat (16 * h + l) # bs) (hex_decode s)
      | _ \<Rightarrow> None)"

fun le_nat :: "byte list \<Rightarrow> nat" where
  "le_nat [] = 0"
| "le_nat (b # bs) = unat b + 256 * le_nat bs"

fun le_bytes :: "nat \<Rightarrow> nat \<Rightarrow> byte list" where
  "le_bytes 0 n = []"
| "le_bytes (Suc k) n = word_of_nat (n mod 256) # le_bytes k (n div 256)"

section \<open>Shared lemmas\<close>

lemma andThen_Ok_iff [outcome_simps]:
  "andThen m f = Ok y \<longleftrightarrow> (\<exists>x. m = Ok x \<and> f x = Ok y)"
  by (cases m) auto

lemma andThen_Err_iff [outcome_simps]:
  "andThen m f = Err e \<longleftrightarrow> m = Err e \<or> (\<exists>x. m = Ok x \<and> f x = Err e)"
  by (cases m) auto

lemma andThen_cong [fundef_cong]:
  "m = m' \<Longrightarrow> (\<And>x. m' = Ok x \<Longrightarrow> f x = g x) \<Longrightarrow> andThen m f = andThen m' g"
  by (cases m') auto

lemma panics_andThen [outcome_simps]:
  "panics (andThen m f) \<longleftrightarrow> panics m \<or> (\<exists>x. m = Ok x \<and> panics (f x))"
  by (cases m) auto

lemma not_panics_Ok_or_Err: "\<not> panics m \<longleftrightarrow> (\<exists>x. m = Ok x) \<or> (\<exists>e. m = Err e)"
  by (cases m) auto

lemma foldE_invariant:
  assumes "foldE f xs s = Ok s'" and "I s"
    and "\<And>x a b. x \<in> set xs \<Longrightarrow> I a \<Longrightarrow> f x a = Ok b \<Longrightarrow> I b"
  shows "I s'"
  using assms by (induction xs arbitrary: s) (auto simp: outcome_simps)

lemma foldE_append: "foldE f (xs @ ys) s = andThen (foldE f xs s) (foldE f ys)"
proof (induction xs arbitrary: s)
  case (Cons x xs)
  then show ?case by (cases "f x s") auto
qed simp

lemma foldE_fold:
  assumes "\<And>x a. x \<in> set xs \<Longrightarrow> f x a = Ok (g x a)"
  shows "foldE f xs s = Ok (fold g xs s)"
  using assms by (induction xs arbitrary: s) auto

lemma slen_slice_of [simp]: "slen (slice_of bs) = length bs"
  by (simp add: slen_def slice_of_def)

lemma unat_byte_less [simp]: "unat (b :: byte) < 256"
  using unsigned_less [of b, where ?'a = nat] by simp

lemma unat_word_of_nat_byte [simp]: "n < 256 \<Longrightarrow> unat (word_of_nat n :: byte) = n"
  by (simp add: unat_of_nat)

lemma fromHexChar_hexdigits:
  assumes "n < 16"
  shows "fromHexChar (hexdigits ! n) = Some n"
proof -
  have "\<forall>k\<in>set [0..<16]. fromHexChar (hexdigits ! k) = Some k"
    by code_simp
  with assms show ?thesis by simp
qed

text \<open>Decoding inverts encoding: every script and hash survives the trip through its hex column.\<close>

lemma hex_decode_encode [simp]: "hex_decode (hex_encode bs) = Some bs"
proof (induction bs)
  case Nil
  then show ?case by (simp add: hex_encode_def)
next
  case (Cons b bs)
  have "unat b div 16 < 16"
    using unat_byte_less [of b] by linarith
  moreover have "16 * (unat b div 16) + unat b mod 16 = unat b"
    by simp
  ultimately show ?case
    using Cons.IH by (simp add: hex_encode_def hex_byte_def fromHexChar_hexdigits)
qed

lemma length_hex_encode [simp]: "length (hex_encode bs) = 2 * length bs"
  by (induction bs) (simp_all add: hex_encode_def hex_byte_def)

lemma hex_encode_inject: "hex_encode a = hex_encode b \<longleftrightarrow> a = b"
  by (metis hex_decode_encode option.inject)

lemma length_le_bytes [simp]: "length (le_bytes k n) = k"
  by (induction k arbitrary: n) auto

lemma le_nat_le_bytes: "n < 256 ^ k \<Longrightarrow> le_nat (le_bytes k n) = n"
proof (induction k arbitrary: n)
  case 0
  then show ?case by simp
next
  case (Suc k)
  have "n div 256 < 256 ^ k"
    using Suc.prems by (simp add: less_mult_imp_div_less mult.commute)
  with Suc.IH show ?case by simp
qed

lemma find_snoc:
  "find P (xs @ [x]) = (case find P xs of Some y \<Rightarrow> Some y | None \<Rightarrow> if P x then Some x else None)"
  by (induction xs) auto

end
