(* ===== verification/Util.thy ===== *)
theory Util
  imports Prelude
begin

text \<open>
  \<^verbatim>\<open>util/utility.go\<close>: the integer minimum and the byte reversal used to switch endianness of
  transaction and claim hashes.
\<close>

section \<open>Definitions\<close>

definition Min :: "int \<Rightarrow> int \<Rightarrow> int" where
  "Min x y = (if x < y then x else y)"

text \<open>
  The loop of \<^verbatim>\<open>ReverseBytes\<close> walks two indices towards each other and swaps from \<open>b\<close> into the
  fresh slice \<open>r\<close>, which \<^verbatim>\<open>make\<close> has filled with zeros.
\<close>

function reverse_loop :: "byte list \<Rightarrow> byte list \<Rightarrow> int \<Rightarrow> int \<Rightarrow> byte list" where
  "reverse_loop b r left right =
     (if left < right
      then reverse_loop b (r[nat left := b ! nat right, nat right := b ! nat left]) (left + 1) (right - 1)
      else r)"
  by pat_completeness auto
termination
  by (relation "measure (\<lambda>(b, r, left, right). nat (right - left))") auto

declare reverse_loop.simps [simp del]

definition ReverseBytes :: "byte list \<Rightarrow> byte list" where
  "ReverseBytes b = reverse_loop b (replicate (length b) 0) 0 (int (length b) - 1)"

section \<open>The loop\<close>

lemma length_reverse_loop [simp]: "length (reverse_loop b r l h) = length r"
  by (induction b r l h rule: reverse_loop.induct) (subst reverse_loop.simps, simp)

text \<open>What the loop writes, position by position: the positions between the two indices are
  mirrored, except the one where the indices meet.\<close>

lemma reverse_loop_nth:
  assumes "0 \<le> l" and "h < int (length b)" and "length r = length b" and "i < length b"
    and "l + h = int (length b) - 1"
  shows "reverse_loop b r l h ! i =
    (if l \<le> int i \<and> int i \<le> h \<and> 2 * i + 1 \<noteq> length b then b ! (length b - 1 - i) else r ! i)"
  using assms
proof (induction b r l h rule: reverse_loop.induct)
  case (1 b r l h)
  show ?case
  proof (cases "l < h")
    case False
    with "1.prems" show ?thesis
      by (subst reverse_loop.simps) auto
  next
    case True
    let ?r = "r[nat l := b ! nat h, nat h := b ! nat l]"
    have IH: "reverse_loop b ?r (l + 1) (h - 1) ! i =
      (if l + 1 \<le> int i \<and> int i \<le> h - 1 \<and> 2 * i + 1 \<noteq> length b then b ! (length b - 1 - i) else ?r ! i)"
      using True "1.prems" by (intro "1.IH") auto
    have lh: "nat h = length b - 1 - nat l" "nat l = length b - 1 - nat h"
      using "1.prems" True by linarith+
    have upd: "?r ! i = (if i = nat h then b ! nat l else if i = nat l then b ! nat h else r ! i)"
      using "1.prems" True by (auto simp: nth_list_update)
    have eq: "reverse_loop b r l h = reverse_loop b ?r (l + 1) (h - 1)"
      using True by (subst reverse_loop.simps) simp
    consider "i = nat l" | "i = nat h" | "i \<noteq> nat l" "i \<noteq> nat h" by blast
    then show ?thesis
    proof cases
      case 1
      then have "int i = l" "length b - 1 - i = nat h" "2 * i + 1 \<noteq> length b" "i \<noteq> nat h"
        using True "1.prems" by linarith+
      with True 1 show ?thesis unfolding eq IH upd by simp
    next
      case 2
      then have "int i = h" "length b - 1 - i = nat l" "2 * i + 1 \<noteq> length b"
        using True "1.prems" by linarith+
      with True 2 show ?thesis unfolding eq IH upd by simp
    next
      case 3
      then have "l + 1 \<le> int i \<and> int i \<le> h - 1 \<longleftrightarrow> l \<le> int i \<and> int i \<le> h"
        using True "1.prems" by linarith
      with 3 show ?thesis unfolding eq IH upd by simp
    qed
  qed
qed

section \<open>What ReverseBytes computes\<close>

lemma length_ReverseBytes [simp]: "length (ReverseBytes b) = length b"
  by (simp add: ReverseBytes_def)

lemma ReverseBytes_nth:
  "i < length b \<Longrightarrow>
     ReverseBytes b ! i = (if 2 * i + 1 = length b then 0 else b ! (length b - 1 - i))"
  by (simp add: ReverseBytes_def reverse_loop_nth)

lemma ReverseBytes_even [simp]: "even (length b) \<Longrightarrow> ReverseBytes b = rev b"
proof (rule nth_equalityI)
  fix i assume "even (length b)" and "i < length (ReverseBytes b)"
  moreover from this have "2 * i + 1 \<noteq> length b" by presburger
  ultimately show "ReverseBytes b ! i = rev b ! i"
    by (simp add: ReverseBytes_nth rev_nth)
qed simp

lemma ReverseBytes_odd:
  "odd (length b) \<Longrightarrow> ReverseBytes b = (rev b)[length b div 2 := 0]"
proof (rule nth_equalityI)
  fix i assume "odd (length b)" and "i < length (ReverseBytes b)"
  moreover from this have "2 * i + 1 = length b \<longleftrightarrow> i = length b div 2" by presburger
  ultimately show "ReverseBytes b ! i = (rev b)[length b div 2 := 0] ! i"
    by (simp add: ReverseBytes_nth rev_nth nth_list_update)
qed simp

end
