(* ===== verification/Script.thy ===== *)
theory Script
  imports Util
begin

text \<open>
  \<^verbatim>\<open>lbrycrd/script.go\<close> and \<^verbatim>\<open>lbrycrd/blockchain.go\<close>: recognising and parsing the claim, support,
  update and purchase scripts of transaction outputs, the derivation of a claim id from its
  outpoint, and the dispatch to the address of a script. The hash functions, the protobuf decoder
  and the address codecs come from packages outside the repository: they are the fields of
  \<open>externals\<close>, an argument of the definitions that call them.
\<close>

section \<open>Constants and parameters\<close>

definition opClaimName :: nat where "opClaimName = 181"
definition opSupportClaim :: nat where "opSupportClaim = 182"
definition opUpdateClaim :: nat where "opUpdateClaim = 183"
definition opReturn :: nat where "opReturn = 106"
definition purchase :: nat where "purchase = 80"
definition opDup :: nat where "opDup = 118"
definition opChecksig :: nat where "opChecksig = 172"
definition op2drop :: nat where "op2drop = 109"
definition opEqualverify :: nat where "opEqualverify = 136"
definition opHash160 :: nat where "opHash160 = 169"
definition opPushdata1 :: nat where "opPushdata1 = 76"
definition opPushdata2 :: nat where "opPushdata2 = 77"
definition opPushdata4 :: nat where "opPushdata4 = 78"

lemmas opcode_defs = opClaimName_def opSupportClaim_def opUpdateClaim_def opReturn_def purchase_def
  opDup_def opChecksig_def op2drop_def opEqualverify_def opHash160_def opPushdata1_def
  opPushdata2_def opPushdata4_def

definition NonStandard :: string where "NonStandard = ''nonstandard''"
definition NullData :: string where "NullData = ''nulldata''"

record chain_params =
  PubKeyHashAddrID :: nat
  ScriptHashAddrID :: nat
  PrivateKeyID :: nat
  Bech32HRPSegwit :: string

record externals =
  sha256 :: "byte list \<Rightarrow> byte list"
  ripemd160 :: "byte list \<Rightarrow> byte list"
  unmarshalPurchase :: "byte list \<Rightarrow> goerr + byte list"
  extractAddrs :: "chain_params \<Rightarrow> byte list \<Rightarrow> string list"
  isPayToWitnessPubKeyHash :: "byte list \<Rightarrow> bool"
  isPayToWitnessScriptHash :: "byte list \<Rightarrow> bool"
  newAddressPubKey :: "byte list \<Rightarrow> chain_params \<Rightarrow> goerr + string"
  newAddressPubKeyHash :: "byte list \<Rightarrow> chain_params \<Rightarrow> goerr + string"
  newAddressScriptHashFromHash :: "byte list \<Rightarrow> chain_params \<Rightarrow> goerr + string"
  newAddressWitnessPubKeyHash :: "byte list \<Rightarrow> chain_params \<Rightarrow> goerr + string"
  newAddressWitnessScriptHash :: "byte list \<Rightarrow> chain_params \<Rightarrow> goerr + string"

definition mainNetParams :: chain_params where
  "mainNetParams = \<lparr>PubKeyHashAddrID = 85, ScriptHashAddrID = 122, PrivateKeyID = 28,
     Bech32HRPSegwit = ''lbc''\<rparr>"

definition testNetParams :: chain_params where
  "testNetParams = \<lparr>PubKeyHashAddrID = 111, ScriptHashAddrID = 196, PrivateKeyID = 28,
     Bech32HRPSegwit = ''tlbc''\<rparr>"

definition regTestNetParams :: chain_params where
  "regTestNetParams = \<lparr>PubKeyHashAddrID = 111, ScriptHashAddrID = 196, PrivateKeyID = 28,
     Bech32HRPSegwit = ''rlbc''\<rparr>"

definition paramsMap :: "string \<rightharpoonup> chain_params" where
  "paramsMap = [''lbrycrd_main'' \<mapsto> mainNetParams, ''lbrycrd_testnet'' \<mapsto> testNetParams,
     ''lbrycrd_regtest'' \<mapsto> regTestNetParams]"

text \<open>The configured \<^verbatim>\<open>global.BlockChainName\<close> is the argument \<open>chain\<close>.\<close>

definition GetChainParams :: "string \<Rightarrow> chain_params outcome" where
  "GetChainParams chain =
     (case paramsMap chain of
        None \<Rightarrow> Err (Msg (''unknown chain name '' @ chain))
      | Some p \<Rightarrow> Ok p)"

section \<open>Recognising scripts\<close>

definition IsClaimScript :: "goslice \<Rightarrow> bool outcome" where
  "IsClaimScript script =
     andThen (idx script 0) (\<lambda>b0.
       Ok (unat b0 = opSupportClaim \<or> unat b0 = opClaimName \<or> unat b0 = opUpdateClaim))"

definition IsClaimNameScript :: "goslice \<Rightarrow> bool" where
  "IsClaimNameScript script = (slen script > 0 \<and> unat (elems script ! 0) = opClaimName)"

definition IsClaimSupportScript :: "goslice \<Rightarrow> bool" where
  "IsClaimSupportScript script = (slen script > 0 \<and> unat (elems script ! 0) = opSupportClaim)"

definition IsClaimUpdateScript :: "goslice \<Rightarrow> bool" where
  "IsClaimUpdateScript script = (slen script > 0 \<and> unat (elems script ! 0) = opUpdateClaim)"

section \<open>Parsing claim scripts\<close>

text \<open>
  The three parsers start with the same name push. \<^verbatim>\<open>ParseClaimNameScript\<close> panics on a push opcode
  above \<^verbatim>\<open>OP_PUSHDATA1\<close>, the other two return an error: \<open>bad\<close> is what the caller does there.
\<close>

definition name_push :: "goslice \<Rightarrow> (nat \<times> nat) outcome \<Rightarrow> (nat \<times> nat) outcome" where
  "name_push script bad =
     andThen (idx script 1) (\<lambda>b1.
       if unat b1 = opPushdata1 then andThen (idx script 2) (\<lambda>b2. Ok (unat b2, 3))
       else if unat b1 > opPushdata1 then bad
       else Ok (unat b1, 2))"

text \<open>
  The value push at position \<open>at\<close>, written out three times in the source: a direct length, or
  \<^verbatim>\<open>OP_PUSHDATA1\<close>, \<^verbatim>\<open>OP_PUSHDATA2\<close>, \<^verbatim>\<open>OP_PUSHDATA4\<close> with a little-endian length. The result is the
  value and the position behind it.
\<close>

definition value_push :: "goslice \<Rightarrow> nat \<Rightarrow> (nat \<times> nat) outcome" where
  "value_push script at =
     andThen (idx script at) (\<lambda>b.
       let dataPushType = unat b in
       if dataPushType = opPushdata1 then
         andThen (idx script (at + 1)) (\<lambda>l. Ok (unat l, at + 2))
       else if dataPushType = opPushdata2 then
         andThen (slice2 script (at + 1) (at + 3)) (\<lambda>l. Ok (le_nat l, at + 3))
       else if dataPushType = opPushdata4 then
         andThen (slice2 script (at + 1) (at + 5)) (\<lambda>l. Ok (le_nat l, at + 5))
       else Ok (dataPushType, at + 1))"

definition read_value :: "goslice \<Rightarrow> nat \<Rightarrow> (byte list \<times> nat) outcome" where
  "read_value script at =
     andThen (value_push script at) (\<lambda>(valueBytesToRead, valueStart).
       let valueEnd = valueStart + valueBytesToRead in
       andThen (slice2 script valueStart valueEnd) (\<lambda>v. Ok (v, valueEnd)))"

definition read_claimid :: "goslice \<Rightarrow> nat \<Rightarrow> (string \<times> nat) outcome" where
  "read_claimid script nameEnd =
     andThen (idx script nameEnd) (\<lambda>n.
       let claimidStart = nameEnd + 1; claimidEnd = claimidStart + unat n in
       andThen (slice2 script claimidStart claimidEnd) (\<lambda>c.
         Ok (hex_encode (ReverseBytes c), claimidEnd)))"

text \<open>The optional value of a support: it is there unless \<^verbatim>\<open>OP_2DROP\<close> follows the claim id. The result is
  the value and the start of the public key script.\<close>

definition read_support_value :: "goslice \<Rightarrow> nat \<Rightarrow> (byte list \<times> nat) outcome" where
  "read_support_value script claimidEnd =
     andThen (idx script claimidEnd) (\<lambda>b.
       if unat b \<noteq> op2drop
       then andThen (read_value script claimidEnd) (\<lambda>(value, valueEnd). Ok (value, valueEnd + 2))
       else Ok ([], claimidEnd + 2))"

definition ParseClaimNameScript :: "goslice \<Rightarrow> (string \<times> byte list \<times> byte list) outcome" where
  "ParseClaimNameScript script =
     andThen (name_push script (Panic (Raised ''Bytes to read is more than next byte! '')))
       (\<lambda>(nameBytesToRead, nameStart).
       let nameEnd = nameStart + nameBytesToRead in
       andThen (slice2 script nameStart nameEnd) (\<lambda>name.
       andThen (read_value script nameEnd) (\<lambda>(value, valueEnd).
       andThen (slice_from script (valueEnd + 2)) (\<lambda>pubkeyscript.
         Ok (string_of_bytes name, value, pubkeyscript)))))"

definition ParseClaimSupportScript ::
    "goslice \<Rightarrow> (string \<times> string \<times> byte list \<times> byte list) outcome" where
  "ParseClaimSupportScript script =
     andThen (name_push script (Err (Msg ''Bytes to read is more than next byte! '')))
       (\<lambda>(nameBytesToRead, nameStart).
       let nameEnd = nameStart + nameBytesToRead in
       andThen (slice2 script nameStart nameEnd) (\<lambda>name.
       andThen (read_claimid script nameEnd) (\<lambda>(claimid, claimidEnd).
       andThen (read_support_value script claimidEnd) (\<lambda>(value, pksStart).
       andThen (slice_from script pksStart) (\<lambda>pubkeyscript.
         Ok (string_of_bytes name, claimid, value, pubkeyscript))))))"

definition ParseClaimUpdateScript ::
    "goslice \<Rightarrow> (string \<times> string \<times> byte list \<times> byte list) outcome" where
  "ParseClaimUpdateScript script =
     andThen (name_push script
         (Err (Msg ''ParseClaimUpdateScript: Bytes to read is more than next byte! '')))
       (\<lambda>(nameBytesToRead, nameStart).
       let nameEnd = nameStart + nameBytesToRead in
       andThen (slice2 script nameStart nameEnd) (\<lambda>name.
       andThen (read_claimid script nameEnd) (\<lambda>(claimid, claimidEnd).
       andThen (read_value script claimidEnd) (\<lambda>(value, valueEnd).
       andThen (slice_from script (valueEnd + 2)) (\<lambda>pubkeyscript.
         Ok (string_of_bytes name, claimid, value, pubkeyscript))))))"

definition GetPubKeyScriptFromClaimPKS :: "goslice \<Rightarrow> (byte list) outcome" where
  "GetPubKeyScriptFromClaimPKS script =
     andThen (IsClaimScript script) (\<lambda>c.
       if c then
         if IsClaimNameScript script then
           andThen (ParseClaimNameScript script) (\<lambda>(_, _, pubkeyscript). Ok pubkeyscript)
         else if IsClaimUpdateScript script then
           andThen (ParseClaimUpdateScript script) (\<lambda>(_, _, _, pubkeyscript). Ok pubkeyscript)
         else if IsClaimSupportScript script then
           andThen (ParseClaimSupportScript script) (\<lambda>(_, _, _, pubkeyscript). Ok pubkeyscript)
         else Ok []
       else Err ErrNotClaimScript)"

section \<open>Purchases\<close>

definition parseDataScript :: "goslice \<Rightarrow> (byte list) outcome" where
  "parseDataScript script =
     (if slen script \<le> 1 then Err (Msg ''there is no script to parse'')
      else if unat (elems script ! 0) \<noteq> opReturn
      then Err (Msg ''the first byte of script must be an OP_RETURN to quality as un-spendable data'')
      else
        let dataBytesToRead = unat (elems script ! 1) in
        if int (slen script) - int dataBytesToRead - 2 \<noteq> 0
        then Err (Msg ''supposed to have bytes to read'')
        else slice_from script 2)"

definition ParsePurchaseScript :: "externals \<Rightarrow> goslice \<Rightarrow> (byte list) outcome" where
  "ParsePurchaseScript E script =
     andThen (parseDataScript script) (\<lambda>d.
       andThen (idx (slice_of d) 0) (\<lambda>b0.
         if unat b0 \<noteq> purchase
         then Err (Msg ''the first byte must be P to be a purchase script'')
         else case unmarshalPurchase E (tl d) of Inl e \<Rightarrow> Err e | Inr p \<Rightarrow> Ok p))"

definition IsPurchaseScript :: "externals \<Rightarrow> goslice \<Rightarrow> bool outcome" where
  "IsPurchaseScript E script =
     (if slen script > 2 then
        if unat (elems script ! 0) = opReturn \<and> unat (elems script ! 2) = purchase then
          (case ParsePurchaseScript E script of
             Ok _ \<Rightarrow> Ok True | Err _ \<Rightarrow> Ok False | Panic p \<Rightarrow> Panic p)
        else Ok False
      else Ok False)"

section \<open>Addresses and claim ids\<close>

definition GetAddressFromPublicKeyScript :: "externals \<Rightarrow> string \<Rightarrow> byte list \<Rightarrow> string" where
  "GetAddressFromPublicKeyScript E chain script =
     (case GetChainParams chain of
        Ok params \<Rightarrow> (case extractAddrs E params script of [] \<Rightarrow> '''' | a # _ \<Rightarrow> a)
      | _ \<Rightarrow> '''')"

text \<open>The four bytes \<^verbatim>\<open>binary.BigEndian.PutUint32\<close> writes, of the output index cut to 32 bits.\<close>

definition be32 :: "nat \<Rightarrow> byte list" where
  "be32 n = rev (le_bytes 4 (n mod 2 ^ 32))"

definition ClaimIDFromOutpoint :: "externals \<Rightarrow> string \<Rightarrow> nat \<Rightarrow> string outcome" where
  "ClaimIDFromOutpoint E txid nout =
     (case hex_decode txid of
        None \<Rightarrow> Err (Msg ''encoding/hex'')
      | Some txidBytes \<Rightarrow>
          Ok (hex_encode (ReverseBytes
            (ripemd160 E (sha256 E (ReverseBytes txidBytes @ be32 nout))))))"

text \<open>The five address helpers differ in the constructor of \<^verbatim>\<open>btcutil\<close> they call.\<close>

definition address_with ::
    "(byte list \<Rightarrow> chain_params \<Rightarrow> goerr + string) \<Rightarrow> string \<Rightarrow> string \<Rightarrow> string outcome" where
  "address_with mk chain hexstring =
     (case hex_decode hexstring of
        None \<Rightarrow> Err (Msg ''encoding/hex'')
      | Some bs \<Rightarrow>
          andThen (GetChainParams chain) (\<lambda>params.
            case mk bs params of Inl e \<Rightarrow> Err e | Inr address \<Rightarrow> Ok address))"

definition getAddressFromP2PK :: "externals \<Rightarrow> string \<Rightarrow> string \<Rightarrow> string outcome" where
  "getAddressFromP2PK E chain hexstring = address_with (newAddressPubKey E) chain hexstring"

definition getAddressFromP2PKH :: "externals \<Rightarrow> string \<Rightarrow> string \<Rightarrow> string outcome" where
  "getAddressFromP2PKH E chain hexstring = address_with (newAddressPubKeyHash E) chain hexstring"

definition getAddressFromP2SH :: "externals \<Rightarrow> string \<Rightarrow> string \<Rightarrow> string outcome" where
  "getAddressFromP2SH E chain hexstring =
     address_with (newAddressScriptHashFromHash E) chain hexstring"

definition getAddressFromP2WPKH :: "externals \<Rightarrow> string \<Rightarrow> string \<Rightarrow> string outcome" where
  "getAddressFromP2WPKH E chain hexstring =
     address_with (newAddressWitnessPubKeyHash E) chain hexstring"

definition getAddressFromP2WSH :: "externals \<Rightarrow> string \<Rightarrow> string \<Rightarrow> string outcome" where
  "getAddressFromP2WSH E chain hexstring =
     address_with (newAddressWitnessScriptHash E) chain hexstring"

section \<open>Script types\<close>

definition isPayToScriptHashScript :: "goslice \<Rightarrow> bool" where
  "isPayToScriptHashScript script = (slen script > 0 \<and> unat (elems script ! 0) = opUpdateClaim)"

text \<open>The conjunction is evaluated from left to right and stops at the first false conjunct; an
  index below zero or past the end panics.\<close>

definition isPayToPublicKey :: "goslice \<Rightarrow> bool outcome" where
  "isPayToPublicKey script =
     (if slen script = 0 then Panic IndexOutOfRange
      else if unat (elems script ! (slen script - 1)) \<noteq> opChecksig then Ok False
      else if slen script = 1 then Panic IndexOutOfRange
      else Ok (unat (elems script ! (slen script - 2)) = opEqualverify \<and>
               unat (elems script ! 0) \<noteq> opDup))"

definition isPayToPublicKeyHashScript :: "goslice \<Rightarrow> bool outcome" where
  "isPayToPublicKeyHashScript script =
     (if slen script > 0 \<and> unat (elems script ! 0) = opDup
      then andThen (idx script 1) (\<lambda>b. Ok (unat b = opHash160))
      else Ok False)"

definition getPublicKeyScriptType :: "externals \<Rightarrow> goslice \<Rightarrow> string outcome" where
  "getPublicKeyScriptType E script =
     andThen (isPayToPublicKey script) (\<lambda>pk.
       if pk then Ok ''pubkey'' else
       andThen (isPayToPublicKeyHashScript script) (\<lambda>pkh.
         if pkh then Ok ''pubkeyhash''
         else if isPayToScriptHashScript script then Ok ''scripthash''
         else if isPayToWitnessPubKeyHash E (elems script) then Ok ''witness_v0_keyhash''
         else if isPayToWitnessScriptHash E (elems script) then Ok ''witness_v0_scripthash''
         else Ok NonStandard))"

section \<open>Compact sizes\<close>

text \<open>
  \<^verbatim>\<open>bytes.Buffer.Read\<close> fills the given buffer as far as the remaining bytes go: it reports the end
  of the buffer only when nothing is left, so a short read leaves zeros behind.
\<close>

definition buf_read :: "nat \<Rightarrow> byte list \<Rightarrow> (byte list \<times> byte list) outcome" where
  "buf_read k bs =
     (if bs = [] \<and> k > 0 then Err EOF
      else Ok (take k bs @ replicate (k - length bs) 0, drop k bs))"

definition readBytes :: "nat \<Rightarrow> byte list \<Rightarrow> (byte list \<times> byte list) outcome" where
  "readBytes toRead bs = buf_read toRead bs"

definition readUint32 :: "byte list \<Rightarrow> (nat \<times> byte list \<times> byte list) outcome" where
  "readUint32 bs = andThen (readBytes 4 bs) (\<lambda>(buf, bs'). Ok (le_nat buf, buf, bs'))"

text \<open>The result is the size, the bytes read and the buffer that is left.\<close>

definition readCompactSize :: "byte list \<Rightarrow> (nat \<times> byte list \<times> byte list) outcome" where
  "readCompactSize bs =
     andThen (buf_read 1 bs) (\<lambda>(bSize, bs1).
       let size = unat (hd bSize) in
       if size < 253 then Ok (size, bSize, bs1)
       else if size = 253 then
         andThen (buf_read 2 bs1) (\<lambda>(buf, bs2). Ok (le_nat buf, bSize @ buf, bs2))
       else if size = 254 then
         andThen (readUint32 bs1) (\<lambda>(v, buf, bs2). Ok (v, bSize @ buf, bs2))
       else if size = 255 then
         let buf = replicate 8 0 in Ok (le_nat buf, bSize @ buf, bs1)
       else Err (Msg ''size is greater than 255''))"

end
