(* ===== verification/Script_Spec.thy ===== *)
theory Script_Spec
  imports Script
begin

text \<open>
  The layout of claim scripts as the comments of \<^verbatim>\<open>lbrycrd/script.go\<close> state it, as encoders, and the
  correctness of the parsers against them: round trips for claims, supports, updates and
  purchases, the segments a successful parse returns, and the behaviour on malformed scripts.
\<close>

section \<open>The documented layout\<close>

definition push_header :: "nat \<Rightarrow> byte list" where
  "push_header n =
     (if n < 76 then [word_of_nat n]
      else if n < 256 then [76, word_of_nat n]
      else if n < 65536 then 77 # le_bytes 2 n
      else 78 # le_bytes 4 n)"

definition push_data :: "byte list \<Rightarrow> byte list" where
  "push_data bs = push_header (length bs) @ bs"

definition claim_name_script :: "byte list \<Rightarrow> byte list \<Rightarrow> byte list \<Rightarrow> byte list" where
  "claim_name_script name value pks = 181 # push_data name @ push_data value @ [109, 117] @ pks"

definition claim_update_script ::
    "byte list \<Rightarrow> byte list \<Rightarrow> byte list \<Rightarrow> byte list \<Rightarrow> byte list" where
  "claim_update_script name cid value pks =
     183 # push_data name @ push_data cid @ push_data value @ [109, 109] @ pks"

definition claim_support_script ::
    "byte list \<Rightarrow> byte list \<Rightarrow> byte list option \<Rightarrow> byte list \<Rightarrow> byte list" where
  "claim_support_script name cid v pks =
     182 # push_data name @ push_data cid @
     (case v of None \<Rightarrow> [109, 117] | Some u \<Rightarrow> push_data u @ [109, 109]) @ pks"

definition purchase_script :: "byte list \<Rightarrow> byte list" where
  "purchase_script msg = 106 # word_of_nat (Suc (length msg)) # 80 # msg"

section \<open>Reading parts of a slice\<close>

lemma idx_mid [slice_simps]: "elems s = pre @ b # post \<Longrightarrow> i = length pre \<Longrightarrow> idx s i = Ok b"
  by (simp add: idx_def slen_def)

lemma slice2_mid [slice_simps]:
  "elems s = pre @ mid @ post \<Longrightarrow> i = length pre \<Longrightarrow> j = i + length mid \<Longrightarrow> slice2 s i j = Ok mid"
  by (simp add: slice2_def)

lemma slice_from_suffix [slice_simps]:
  "elems s = pre @ post \<Longrightarrow> i = length pre \<Longrightarrow> slice_from s i = Ok post"
  by (simp add: slice_from_def slice2_def slen_def)

lemma idx_Ok_iff: "idx s i = Ok b \<longleftrightarrow> i < slen s \<and> b = elems s ! i"
  by (auto simp: idx_def)

lemma slice2_Ok_within:
  "j \<le> slen s \<Longrightarrow> slice2 s i j = Ok x \<longleftrightarrow> i \<le> j \<and> x = take (j - i) (drop i (elems s))"
  by (auto simp: slice2_def slen_def)

lemma slice2_OkD: "slice2 s i j = Ok x \<Longrightarrow> i \<le> j"
  by (auto simp: slice2_def split: if_splits)

lemma slice2_length: "slice2 s i j = Ok x \<Longrightarrow> length x = j - i"
  by (auto simp: slice2_def split: if_splits)

lemma slice_from_Ok_iff: "slice_from s i = Ok x \<longleftrightarrow> i \<le> slen s \<and> x = drop i (elems s)"
  by (auto simp: slice_from_def slice2_Ok_within slen_def)

text \<open>A slice that is within the length of the script does not depend on its capacity.\<close>

lemma slice2_spare:
  "j \<le> slen s \<Longrightarrow> slice2 s i j = slice2 (slice_of (elems s)) i j"
  by (auto simp: slice2_def slice_of_def slen_def)

lemma idx_spare [simp]: "idx (slice_of (elems s)) i = idx s i"
  by (simp add: idx_def slen_def slice_of_def)

lemma slice_from_spare [simp]: "slice_from (slice_of (elems s)) i = slice_from s i"
  by (auto simp: slice_from_def slice2_def slice_of_def slen_def)

lemma slice2_grow: "slice2 (slice_of (elems s)) i j = Ok x \<Longrightarrow> slice2 s i j = Ok x"
  by (auto simp: slice2_def slice_of_def split: if_splits)

section \<open>Value pushes\<close>

lemma value_push_encoded [slice_simps]:
  assumes e: "elems s = pre @ push_header n @ post" and n: "n < 2 ^ 32" and i: "i = length pre"
  shows "value_push s i = Ok (n, length pre + length (push_header n))"
proof -
  consider "n < 76" | "76 \<le> n" "n < 256" | "256 \<le> n" "n < 65536" | "65536 \<le> n" by linarith
  then show ?thesis
  proof cases
    case 1
    with e have "elems s = pre @ word_of_nat n # post" by (simp add: push_header_def)
    with 1 i show ?thesis
      by (simp add: value_push_def idx_mid opcode_defs push_header_def)
  next
    case 2
    with e have "elems s = pre @ 76 # word_of_nat n # post"
      and "elems s = (pre @ [76]) @ word_of_nat n # post" by (simp_all add: push_header_def)
    with 2 i show ?thesis
      by (simp add: value_push_def idx_mid [of s pre] idx_mid [of s "pre @ [76]"]
          opcode_defs push_header_def)
  next
    case 3
    with e have "elems s = pre @ 77 # le_bytes 2 n @ post"
      and "elems s = (pre @ [77]) @ le_bytes 2 n @ post" by (simp_all add: push_header_def)
    moreover have "le_nat (le_bytes 2 n) = n"
      using 3 by (intro le_nat_le_bytes) simp
    ultimately show ?thesis
      using 3 i by (simp add: value_push_def idx_mid [of s pre] slice2_mid [of s "pre @ [77]"]
          opcode_defs push_header_def)
  next
    case 4
    with e have "elems s = pre @ 78 # le_bytes 4 n @ post"
      and "elems s = (pre @ [78]) @ le_bytes 4 n @ post" by (simp_all add: push_header_def)
    moreover have "le_nat (le_bytes 4 n) = n"
      using n by (intro le_nat_le_bytes) simp
    ultimately show ?thesis
      using 4 i by (simp add: value_push_def idx_mid [of s pre] slice2_mid [of s "pre @ [78]"]
          opcode_defs push_header_def)
  qed
qed

lemma read_value_encoded [slice_simps]:
  assumes e: "elems s = pre @ push_data v @ post" and n: "length v < 2 ^ 32"
    and i: "i = length pre"
  shows "read_value s i = Ok (v, length pre + length (push_data v))"
proof -
  let ?h = "push_header (length v)"
  have "slice2 s (length pre + length ?h) (length pre + length ?h + length v) = Ok v"
    using e by (intro slice2_mid [where pre = "pre @ ?h" and post = post]) (auto simp: push_data_def)
  moreover have "value_push s i = Ok (length v, length pre + length ?h)"
    using e n i by (intro value_push_encoded [where post = "v @ post"]) (auto simp: push_data_def)
  ultimately show ?thesis
    by (simp add: read_value_def Let_def push_data_def)
qed

lemma read_claimid_encoded [slice_simps]:
  assumes e: "elems s = pre @ push_data c @ post" and n: "length c < 76" and i: "i = length pre"
  shows "read_claimid s i = Ok (hex_encode (ReverseBytes c), length pre + length (push_data c))"
proof -
  have p: "push_data c = word_of_nat (length c) # c"
    using n by (simp add: push_data_def push_header_def)
  have "slice2 s (Suc (length pre)) (Suc (length pre + length c)) = Ok c"
    using e p by (intro slice2_mid [where pre = "pre @ [word_of_nat (length c)]" and post = post]) auto
  moreover have "idx s i = Ok (word_of_nat (length c))"
    using e p i by (intro idx_mid [where post = "c @ post"]) simp_all
  ultimately show ?thesis
    using p n i by (simp add: read_claimid_def Let_def)
qed

lemma name_push_encoded [slice_simps]:
  assumes e: "elems s = opc # push_header n @ post" and n: "n < 256"
  shows "name_push s bad = Ok (n, Suc (length (push_header n)))"
proof (cases "n < 76")
  case True
  with e have "elems s = [opc] @ word_of_nat n # post" by (simp add: push_header_def)
  then have "idx s 1 = Ok (word_of_nat n)" by (rule idx_mid) simp
  with True show ?thesis
    by (simp add: name_push_def push_header_def opcode_defs)
next
  case False
  with e n have "elems s = [opc] @ 76 # word_of_nat n # post"
    and "elems s = [opc, 76] @ word_of_nat n # post" by (simp_all add: push_header_def)
  then have "idx s 1 = Ok 76" "idx s 2 = Ok (word_of_nat n)"
    by (simp_all add: idx_def slen_def)
  with False n show ?thesis
    by (simp add: name_push_def push_header_def opcode_defs)
qed

lemma name_slice_encoded [slice_simps]:
  "elems s = opc # push_header (length name) @ name @ post \<Longrightarrow>
   slice2 s (Suc (length (push_header (length name)))) (Suc (length (push_header (length name)) + length name))
     = Ok name"
  by (rule slice2_mid [where pre = "opc # push_header (length name)" and post = post]) auto

section \<open>Round trips\<close>

text \<open>The name push and the name, shared by the three parsers.\<close>

lemma name_encoded:
  assumes e: "elems s = opc # push_data name @ post" and n: "length name \<le> 255"
  shows "name_push s bad = Ok (length name, Suc (length (push_header (length name))))"
    and "slice2 s (Suc (length (push_header (length name))))
      (Suc (length (push_header (length name)) + length name)) = Ok name"
proof -
  from e have *: "elems s = opc # push_header (length name) @ name @ post"
    by (simp add: push_data_def)
  from * n show "name_push s bad = Ok (length name, Suc (length (push_header (length name))))"
    by (intro name_push_encoded [where post = "name @ post"]) auto
  from * show "slice2 s (Suc (length (push_header (length name))))
      (Suc (length (push_header (length name)) + length name)) = Ok name"
    by (rule name_slice_encoded)
qed

text \<open>C31: A claim script laid out as documented, with a name of at most 255 bytes and a value of
  any length a push can carry, parses back to its name, its value and its public key script,
  whatever spare capacity the byte slice has.\<close>

theorem ParseClaimNameScript_roundtrip:
  assumes "length name \<le> 255" and "length value < 2 ^ 32"
  shows "ParseClaimNameScript \<lparr>elems = claim_name_script name value pks, spare = sp\<rparr>
    = Ok (string_of_bytes name, value, pks)"
proof -
  let ?s = "\<lparr>elems = claim_name_script name value pks, spare = sp\<rparr>"
  let ?pre = "181 # push_data name"
  have e1: "elems ?s = 181 # push_data name @ push_data value @ [109, 117] @ pks"
    and e2: "elems ?s = ?pre @ push_data value @ ([109, 117] @ pks)"
    and e3: "elems ?s = (?pre @ push_data value @ [109, 117]) @ pks"
    by (simp_all add: claim_name_script_def)
  note name_encoded [OF e1 assms(1)]
  moreover have "read_value ?s (Suc (length (push_header (length name)) + length name))
      = Ok (value, length ?pre + length (push_data value))"
    using assms(2) by (intro read_value_encoded [OF e2]) (simp_all add: push_data_def)
  moreover have "slice_from ?s (length ?pre + length (push_data value) + 2) = Ok pks"
    by (rule slice_from_suffix [OF e3]) simp
  ultimately show ?thesis
    by (simp add: ParseClaimNameScript_def Let_def)
qed

lemma ParseClaimNameScript_roundtrip_witness:
  "ParseClaimNameScript \<lparr>elems = claim_name_script [104, 105] [1, 2, 3] [118, 169], spare = [7]\<rparr>
    = Ok (''hi'', [1, 2, 3], [118, 169])"
proof -
  have "string_of_bytes [104, 105] = ''hi''" by code_simp
  then show ?thesis
    using ParseClaimNameScript_roundtrip [of "[104, 105]" "[1, 2, 3]" "[118, 169]" "[7]"] by simp
qed

text \<open>C32: An update script laid out as documented parses back to its name, the claim id (the hex
  text of the reversed claim hash), its value and its public key script.\<close>

theorem ParseClaimUpdateScript_roundtrip:
  assumes "length name \<le> 255" and "length cid = 20" and "length value < 2 ^ 32"
  shows "ParseClaimUpdateScript \<lparr>elems = claim_update_script name cid value pks, spare = sp\<rparr>
    = Ok (string_of_bytes name, hex_encode (rev cid), value, pks)"
proof -
  let ?s = "\<lparr>elems = claim_update_script name cid value pks, spare = sp\<rparr>"
  let ?pre = "183 # push_data name"
  have e1: "elems ?s = 183 # push_data name @ push_data cid @ push_data value @ [109, 109] @ pks"
    and e2: "elems ?s = ?pre @ push_data cid @ (push_data value @ [109, 109] @ pks)"
    and e3: "elems ?s = (?pre @ push_data cid) @ push_data value @ ([109, 109] @ pks)"
    and e4: "elems ?s = (?pre @ push_data cid @ push_data value @ [109, 109]) @ pks"
    by (simp_all add: claim_update_script_def)
  note name_encoded [OF e1 assms(1)]
  moreover have "read_claimid ?s (Suc (length (push_header (length name)) + length name))
      = Ok (hex_encode (ReverseBytes cid), length ?pre + length (push_data cid))"
    using assms(2) by (intro read_claimid_encoded [OF e2]) (simp_all add: push_data_def)
  moreover have "read_value ?s (length ?pre + length (push_data cid))
      = Ok (value, length (?pre @ push_data cid) + length (push_data value))"
    using assms(3) by (intro read_value_encoded [OF e3]) simp_all
  moreover have "slice_from ?s (length (?pre @ push_data cid) + length (push_data value) + 2) = Ok pks"
    by (rule slice_from_suffix [OF e4]) simp
  ultimately show ?thesis
    using assms(2) by (simp add: ParseClaimUpdateScript_def Let_def)
qed

lemma ParseClaimUpdateScript_roundtrip_witness:
  "ParseClaimUpdateScript
     \<lparr>elems = claim_update_script [104, 105] (replicate 19 0 @ [255]) [9] [118], spare = []\<rparr>
    = Ok (''hi'', ''ff'' @ replicate 38 (CHR ''0''), [9], [118])"
proof -
  have "string_of_bytes [104, 105] = ''hi''" by code_simp
  moreover have "hex_encode (rev (replicate 19 0 @ [255])) = ''ff'' @ replicate 38 (CHR ''0'')"
    by code_simp
  ultimately show ?thesis
    using ParseClaimUpdateScript_roundtrip
      [of "[104, 105]" "replicate 19 0 @ [255]" "[9]" "[118]" "[]"] by simp
qed

text \<open>A value push never starts with the byte of \<^verbatim>\<open>OP_2DROP\<close>, so the support parser cannot mistake a
  value for the end of the script.\<close>

lemma push_header_not_2drop: "unat (hd (push_header n)) \<noteq> op2drop"
  by (auto simp: push_header_def op2drop_def)

lemma idx_push_data:
  "elems s = pre @ push_data v @ post \<Longrightarrow> i = length pre \<Longrightarrow> idx s i = Ok (hd (push_header (length v)))"
  by (rule idx_mid [where post = "tl (push_header (length v)) @ v @ post"])
    (auto simp: push_data_def push_header_def)

lemma read_support_value_encoded:
  assumes e: "elems s = pre @ (case v of None \<Rightarrow> [109, 117] | Some u \<Rightarrow> push_data u @ [109, 109]) @ pks"
    and n: "case v of None \<Rightarrow> True | Some u \<Rightarrow> length u < 2 ^ 32" and i: "i = length pre"
  shows "\<exists>k. read_support_value s i = Ok (case v of None \<Rightarrow> [] | Some u \<Rightarrow> u, k) \<and> slice_from s k = Ok pks"
proof (cases v)
  case None
  with e have "elems s = pre @ 109 # 117 # pks" and "elems s = (pre @ [109, 117]) @ pks" by simp_all
  with None i show ?thesis
    by (simp add: read_support_value_def idx_mid [of s pre] slice_from_suffix [of s "pre @ [109, 117]"]
        op2drop_def)
next
  case (Some u)
  with e have e1: "elems s = pre @ push_data u @ ([109, 109] @ pks)"
    and e2: "elems s = (pre @ push_data u @ [109, 109]) @ pks" by simp_all
  have "read_value s i = Ok (u, length pre + length (push_data u))"
    using n Some i by (intro read_value_encoded [OF e1]) simp_all
  moreover have "slice_from s (length pre + length (push_data u) + 2) = Ok pks"
    by (rule slice_from_suffix [OF e2]) simp
  ultimately show ?thesis
    using Some i by (simp add: read_support_value_def idx_push_data [OF e1] push_header_not_2drop)
qed

text \<open>A support script laid out as documented, with or without a support value, parses back to
  its name, the claim id, its value (empty when there is none) and its public key script.\<close>

theorem ParseClaimSupportScript_roundtrip:
  assumes "length name \<le> 255" and "length cid = 20"
    and "case v of None \<Rightarrow> True | Some u \<Rightarrow> length u < 2 ^ 32"
  shows "ParseClaimSupportScript \<lparr>elems = claim_support_script name cid v pks, spare = sp\<rparr>
    = Ok (string_of_bytes name, hex_encode (rev cid), (case v of None \<Rightarrow> [] | Some u \<Rightarrow> u), pks)"
proof -
  let ?tl = "case v of None \<Rightarrow> [109, 117] | Some u \<Rightarrow> push_data u @ [109, 109]"
  let ?s = "\<lparr>elems = claim_support_script name cid v pks, spare = sp\<rparr>"
  let ?pre = "182 # push_data name"
  have e1: "elems ?s = 182 # push_data name @ push_data cid @ ?tl @ pks"
    and e2: "elems ?s = ?pre @ push_data cid @ (?tl @ pks)"
    and e3: "elems ?s = (?pre @ push_data cid) @ ?tl @ pks"
    by (simp_all add: claim_support_script_def)
  note name_encoded [OF e1 assms(1)]
  moreover have "read_claimid ?s (Suc (length (push_header (length name)) + length name))
      = Ok (hex_encode (ReverseBytes cid), length ?pre + length (push_data cid))"
    using assms(2) by (intro read_claimid_encoded [OF e2]) (simp_all add: push_data_def)
  moreover obtain k where "read_support_value ?s (length ?pre + length (push_data cid))
      = Ok (case v of None \<Rightarrow> [] | Some u \<Rightarrow> u, k)" and "slice_from ?s k = Ok pks"
    using read_support_value_encoded [OF e3 assms(3) refl] by auto
  ultimately show ?thesis
    using assms(2) by (simp add: ParseClaimSupportScript_def Let_def)
qed

lemma ParseClaimSupportScript_roundtrip_witness:
  "ParseClaimSupportScript
     \<lparr>elems = claim_support_script [104, 105] (replicate 20 0) (Some [9]) [118], spare = []\<rparr>
    = Ok (''hi'', replicate 40 (CHR ''0''), [9], [118])"
proof -
  have "string_of_bytes [104, 105] = ''hi''" by code_simp
  moreover have "hex_encode (rev (replicate 20 0)) = replicate 40 (CHR ''0'')" by code_simp
  ultimately show ?thesis
    using ParseClaimSupportScript_roundtrip
      [of "[104, 105]" "replicate 20 0" "Some [9]" "[118]" "[]"] by simp
qed

section \<open>What a successful parse returns\<close>

lemma value_push_Ok:
  assumes "value_push s k = Ok (n, e)"
  shows "k < e" and "e - k \<in> {1, 2, 3, 5}"
  using assms by (auto simp: value_push_def outcome_simps Let_def split: if_splits)

lemma read_value_Ok:
  assumes "read_value s k = Ok (v, e)" and "e \<le> slen s"
  shows "\<exists>hdr. drop k (elems s) = hdr @ v @ drop e (elems s) \<and> length hdr \<in> {1, 2, 3, 5} \<and> k < e"
proof -
  from assms(1) obtain n b where vp: "value_push s k = Ok (n, b)" and e: "e = b + n"
    and sl: "slice2 s b e = Ok v"
    by (auto simp: read_value_def outcome_simps Let_def)
  from sl assms(2) e have v: "v = take (e - b) (drop b (elems s))"
    by (simp add: slice2_Ok_within)
  have "drop k (elems s) = take (b - k) (drop k (elems s)) @ drop b (elems s)"
    using value_push_Ok(1) [OF vp] append_take_drop_id [of "b - k" "drop k (elems s)"] by simp
  moreover have "drop b (elems s) = v @ drop e (elems s)"
    using v e append_take_drop_id [of n "drop b (elems s)"] by (simp add: add.commute)
  moreover have "length (take (b - k) (drop k (elems s))) \<in> {1, 2, 3, 5}"
    using value_push_Ok [OF vp] assms(2) e by (auto simp: slen_def)
  ultimately show ?thesis
    using value_push_Ok(1) [OF vp] e by (intro exI [of _ "take (b - k) (drop k (elems s))"]) simp
qed

lemma name_push_Ok:
  assumes "name_push s bad = Ok (n, b)" and "\<And>x. bad \<noteq> Ok x"
  shows "b \<in> {2, 3}" and "b \<le> slen s"
  using assms by (auto simp: name_push_def outcome_simps idx_Ok_iff split: if_splits)

text \<open>Whatever bytes the claim parser is given, if it returns then the name, the value and the
  public key script are consecutive segments of the script, in this order, separated only by push
  headers and the two drop opcodes: it never returns bytes from outside the script, even though a
  Go slice expression may reach into the spare capacity.\<close>

theorem ParseClaimNameScript_segments:
  assumes "ParseClaimNameScript s = Ok (name, val, pks)"
  shows "\<exists>h nm hdr drops. elems s = h @ nm @ hdr @ val @ drops @ pks \<and> name = string_of_bytes nm \<and>
    length h \<in> {2, 3} \<and> length hdr \<in> {1, 2, 3, 5} \<and> length drops = 2"
proof -
  from assms obtain n b nm e where np: "name_push s (Panic (Raised ''Bytes to read is more than next byte! '')) = Ok (n, b)"
    and sl: "slice2 s b (b + n) = Ok nm" and rv: "read_value s (b + n) = Ok (val, e)"
    and pk: "slice_from s (e + 2) = Ok pks" and name: "name = string_of_bytes nm"
    by (auto simp: ParseClaimNameScript_def outcome_simps Let_def)
  from pk have e: "e + 2 \<le> slen s" and pks: "pks = drop (e + 2) (elems s)"
    by (simp_all add: slice_from_Ok_iff)
  obtain hdr where hdr: "drop (b + n) (elems s) = hdr @ val @ drop e (elems s)"
    and hl: "length hdr \<in> {1, 2, 3, 5}" and lt: "b + n < e"
    using read_value_Ok [OF rv] e by auto
  have b: "b \<in> {2, 3}" "b \<le> slen s"
    using name_push_Ok [OF np] by auto
  have nm: "nm = take n (drop b (elems s))"
    using sl lt e by (simp add: slice2_Ok_within)
  have "elems s = take b (elems s) @ nm @ drop (b + n) (elems s)"
    using nm append_take_drop_id [of n "drop b (elems s)"] by (simp add: add.commute)
  moreover have "drop e (elems s) = take 2 (drop e (elems s)) @ pks"
    using pks append_take_drop_id [of 2 "drop e (elems s)"] by (simp add: add.commute)
  ultimately have "elems s = take b (elems s) @ nm @ hdr @ val @ take 2 (drop e (elems s)) @ pks"
    using hdr by simp
  moreover have "length (take 2 (drop e (elems s))) = 2" "length (take b (elems s)) \<in> {2, 3}"
    using e b by (auto simp: slen_def)
  ultimately show ?thesis
    using name hl by blast
qed

lemma ParseClaimNameScript_segments_witness:
  "\<exists>h nm hdr drops. [181, 1, 97, 2, 8, 9, 109, 117, 118] = h @ nm @ hdr @ [8, 9 :: byte] @ drops @ [118] \<and>
    ''a'' = string_of_bytes nm \<and> length h \<in> {2, 3} \<and> length hdr \<in> {1, 2, 3, 5} \<and> length drops = 2"
proof -
  have "ParseClaimNameScript (slice_of [181, 1, 97, 2, 8, 9, 109, 117, 118]) = Ok (''a'', [8, 9], [118])"
    by code_simp
  from ParseClaimNameScript_segments [OF this] show ?thesis
    by (simp add: slice_of_def)
qed

text \<open>Success does not depend on the spare capacity.\<close>

lemma value_push_grow: "value_push (slice_of (elems s)) k = Ok r \<Longrightarrow> value_push s k = Ok r"
  by (cases "idx s k") (auto simp: value_push_def outcome_simps Let_def dest: slice2_grow split: if_splits)

lemma value_push_shrink:
  "value_push s k = Ok (n, e) \<Longrightarrow> e \<le> slen s \<Longrightarrow> value_push (slice_of (elems s)) k = Ok (n, e)"
  by (cases "idx s k") (auto simp: value_push_def outcome_simps Let_def slice2_spare split: if_splits)

lemma read_value_grow:
  assumes "read_value (slice_of (elems s)) k = Ok r"
  shows "read_value s k = Ok r"
proof -
  from assms obtain n b v where "value_push (slice_of (elems s)) k = Ok (n, b)"
    and "slice2 (slice_of (elems s)) b (b + n) = Ok v" and "r = (v, b + n)"
    by (auto simp: read_value_def outcome_simps Let_def)
  moreover from this have "value_push s k = Ok (n, b)" "slice2 s b (b + n) = Ok v"
    by (auto intro: value_push_grow slice2_grow)
  ultimately show ?thesis
    by (simp add: read_value_def)
qed

lemma read_value_shrink:
  assumes "read_value s k = Ok (v, e)" and "e \<le> slen s"
  shows "read_value (slice_of (elems s)) k = Ok (v, e)"
proof -
  from assms(1) obtain n b where vp: "value_push s k = Ok (n, b)" and e: "e = b + n"
    and sl: "slice2 s b e = Ok v"
    by (auto simp: read_value_def outcome_simps Let_def)
  have "value_push (slice_of (elems s)) k = Ok (n, b)"
    using vp e assms(2) by (intro value_push_shrink) auto
  moreover have "slice2 (slice_of (elems s)) b e = Ok v"
    using sl assms(2) by (simp add: slice2_spare)
  ultimately show ?thesis
    using e by (simp add: read_value_def)
qed

lemma name_push_spare [simp]: "name_push (slice_of (elems s)) bad = name_push s bad"
  unfolding name_push_def idx_spare by (rule refl)

text \<open>The claim parser succeeds on a slice exactly when it succeeds, with the same result, on a
  slice of the same bytes without spare capacity: what lies behind the length is never observed.\<close>

theorem ParseClaimNameScript_capacity:
  "ParseClaimNameScript s = Ok r \<longleftrightarrow> ParseClaimNameScript (slice_of (elems s)) = Ok r"
proof
  assume "ParseClaimNameScript (slice_of (elems s)) = Ok r"
  then show "ParseClaimNameScript s = Ok r"
    by (auto simp: ParseClaimNameScript_def outcome_simps Let_def dest!: slice2_grow read_value_grow)
next
  assume "ParseClaimNameScript s = Ok r"
  then obtain n b nm v e pks where np: "name_push s (Panic (Raised ''Bytes to read is more than next byte! '')) = Ok (n, b)"
    and sl: "slice2 s b (b + n) = Ok nm" and rv: "read_value s (b + n) = Ok (v, e)"
    and pk: "slice_from s (e + 2) = Ok pks" and r: "r = (string_of_bytes nm, v, pks)"
    by (auto simp: ParseClaimNameScript_def outcome_simps Let_def)
  have e: "e \<le> slen s" using pk by (simp add: slice_from_Ok_iff)
  then have "b + n < e" using read_value_Ok [OF rv] by auto
  with sl e have "slice2 (slice_of (elems s)) b (b + n) = Ok nm"
    by (simp add: slice2_spare)
  with np rv pk r e show "ParseClaimNameScript (slice_of (elems s)) = Ok r"
    by (simp add: ParseClaimNameScript_def read_value_shrink)
qed

section \<open>Malformed scripts\<close>

lemma value_push_no_Err: "value_push s k \<noteq> Err x"
  by (cases "idx s k") (auto simp: value_push_def outcome_simps Let_def idx_def slice2_def split: if_splits)

lemma read_value_no_Err: "read_value s k \<noteq> Err x"
  by (auto simp: read_value_def outcome_simps Let_def value_push_no_Err slice2_def split: if_splits)

lemma read_claimid_no_Err: "read_claimid s k \<noteq> Err x"
  by (auto simp: read_claimid_def outcome_simps Let_def idx_def slice2_def split: if_splits)

lemma read_support_value_no_Err: "read_support_value s k \<noteq> Err x"
  by (cases "idx s k")
    (auto simp: read_support_value_def outcome_simps Let_def idx_def read_value_no_Err split: if_splits)

text \<open>C33: A claim name pushed by an opcode above \<^verbatim>\<open>OP_PUSHDATA1\<close> makes the claim parser panic,
  while the update and the support parser report the same byte as an error: such a script takes the
  panic path through every caller that only checks the returned error.\<close>

theorem claim_parsers_long_name:
  assumes "slen s > 1" and "unat (elems s ! 1) > opPushdata1"
  shows "panics (ParseClaimNameScript s) \<and> (\<exists>y. ParseClaimUpdateScript s = Err y) \<and>
    (\<exists>y. ParseClaimSupportScript s = Err y)"
  using assms by (auto simp: ParseClaimNameScript_def ParseClaimUpdateScript_def
      ParseClaimSupportScript_def name_push_def idx_def opcode_defs)

theorem claim_parsers_long_name_witness:
  "panics (ParseClaimNameScript (slice_of [0xb5, 0x4d, 0x01])) \<and>
    (\<exists>y. ParseClaimUpdateScript (slice_of [0xb5, 0x4d, 0x01]) = Err y)"
  using claim_parsers_long_name [of "slice_of [0xb5, 0x4d, 0x01]"]
  by (simp add: slen_def slice_of_def opcode_defs)

text \<open>The error result of the claim parser is dead: it returns a value or panics, never an
  error.\<close>

lemma ParseClaimNameScript_no_error: "ParseClaimNameScript s \<noteq> Err x"
  by (auto simp: ParseClaimNameScript_def name_push_def outcome_simps Let_def idx_def slice2_def
      slice_from_def read_value_no_Err split: if_splits)

end
