(* ===== verification/Chain_Types.thy ===== *)
theory Chain_Types
  imports Prelude
begin

text \<open>
  The data the full node sends, \<^verbatim>\<open>lbrycrd/reponse.go\<close> and the parts of \<^verbatim>\<open>btcjson\<close> it embeds, as
  records with the fields of the Go structs, and Go's \<^verbatim>\<open>float64\<close>, in which the node reports
  amounts and the program adds them up.
\<close>

section \<open>Floating point numbers\<close>

text \<open>
  Every finite double is an integral multiple of \<open>2\<close> to the power \<open>-1074\<close>: \<open>Fin k\<close> is that multiple,
  with the two zeros identified. The sum of two doubles is the exact sum rounded to 53 significant
  bits, ties to even.
\<close>

datatype f64 = Fin int | Inf bool | NaN

fun bitlen :: "nat \<Rightarrow> nat" where
  "bitlen n = (if n = 0 then 0 else Suc (bitlen (n div 2)))"

declare bitlen.simps [simp del]

definition round_even :: "nat \<Rightarrow> nat \<Rightarrow> nat" where
  "round_even n u =
     (let q = n div u; r = n mod u in
      if 2 * r < u \<or> (2 * r = u \<and> even q) then q * u else (q + 1) * u)"

definition f64_round :: "int \<Rightarrow> f64" where
  "f64_round k =
     (let n = nat \<bar>k\<bar>; m = (if bitlen n \<le> 53 then n else round_even n (2 ^ (bitlen n - 53))) in
      if bitlen m > 2098 then Inf (k < 0) else Fin (sgn k * int m))"

definition f64_zero :: f64 where "f64_zero = Fin 0"

fun f64_add :: "f64 \<Rightarrow> f64 \<Rightarrow> f64" where
  "f64_add NaN _ = NaN"
| "f64_add _ NaN = NaN"
| "f64_add (Inf a) (Inf b) = (if a = b then Inf a else NaN)"
| "f64_add (Inf a) _ = Inf a"
| "f64_add _ (Inf b) = Inf b"
| "f64_add (Fin a) (Fin b) = f64_round (a + b)"

definition f64_of_nat :: "nat \<Rightarrow> f64" where
  "f64_of_nat n = f64_round (int n * 2 ^ 1074)"

section \<open>Responses of the node\<close>

record ScriptSig =
  sig_Asm :: string
  sig_Hex :: string

record ScriptPubKeyResult =
  spk_Asm :: string
  spk_Hex :: string
  spk_ReqSigs :: int
  spk_Type :: string
  spk_Addresses :: "string list"

record Vin =
  vin_Coinbase :: string
  vin_TxID :: string
  vin_Vout :: nat
  vin_ScriptSig :: "ScriptSig option"
  vin_Sequence :: nat
  vin_Witness :: "string list"

record Vout =
  vout_Value :: f64
  vout_N :: nat
  vout_ScriptPubKey :: ScriptPubKeyResult

record TxRawResult =
  tx_Txid :: string
  tx_Hash :: string
  tx_Version :: int
  tx_Size :: int
  tx_Vsize :: int
  tx_Weight :: int
  tx_LockTime :: nat
  tx_Vin :: "Vin list"
  tx_Vout :: "Vout list"
  tx_Hex :: string
  tx_BlockHash :: string
  tx_Confirmations :: nat
  tx_Time :: int
  tx_Blocktime :: int

record GetBlockResponse =
  bl_Hash :: string
  bl_Confirmations :: nat
  bl_StrippedSize :: int
  bl_Size :: int
  bl_Weight :: int
  bl_Height :: int
  bl_Version :: int
  bl_VersionHex :: string
  bl_MerkleRoot :: string
  bl_NameClaimRoot :: string
  bl_Tx :: "string list"
  bl_Time :: int
  bl_MedianTime :: int
  bl_Nonce :: nat
  bl_Bits :: string
  bl_Difficulty :: f64
  bl_ChainWork :: string
  bl_NTx :: int
  bl_PreviousBlockHash :: string
  bl_NextBlockHash :: string

section \<open>Lemmas\<close>

lemma f64_add_comm: "f64_add x y = f64_add y x"
  by (cases x; cases y) (auto simp: add.commute)

lemma bitlen_le: "n < 2 ^ k \<Longrightarrow> bitlen n \<le> k"
proof (induction k arbitrary: n)
  case 0
  then show ?case by (simp add: bitlen.simps)
next
  case (Suc k)
  then have "n div 2 < 2 ^ k" by simp
  with Suc.IH show ?case by (subst bitlen.simps) simp
qed

text \<open>Sums that fit in 53 bits of the finest grid are exact.\<close>

lemma f64_add_exact:
  assumes "\<bar>a + b\<bar> < 2 ^ 53"
  shows "f64_add (Fin a) (Fin b) = Fin (a + b)"
proof -
  have n: "nat \<bar>a + b\<bar> < 2 ^ 53"
    using assms by (simp add: nat_less_iff)
  moreover have "\<not> 2098 < bitlen (nat \<bar>a + b\<bar>)" using bitlen_le [OF n] by simp
  moreover have "sgn (a + b) * int (nat \<bar>a + b\<bar>) = a + b"
    by (simp add: sgn_mult_abs)
  ultimately show ?thesis
    using bitlen_le [OF n] unfolding f64_add.simps f64_round_def Let_def by (simp only: if_True if_False)
qed

end
