(* ===== verification/TxGraph.thy ===== *)
theory TxGraph
  imports Script Chain_Types "HOL-Library.Multiset"
begin

text \<open>
  The dependency graph of a block, \<^verbatim>\<open>daemon/processing/block_scheduler.go\<close>: which transactions of
  the block have to be processed before which others, because one spends an output of the other or
  because both touch the same claim and one of them writes it.
\<close>

section \<open>Data\<close>

record blockTxDependency =
  parent :: txid
  child :: txid
  reason :: string

text \<open>
  Reading a missing key of a Go map gives the zero value of its element type, so the maps that are
  only read through indexing are total functions; \<^verbatim>\<open>txByID\<close>, whose membership is tested, is a
  partial one.
\<close>

record blockTxGraph =
  txByID :: "txid \<rightharpoonup> TxRawResult"
  children :: "txid \<Rightarrow> blockTxDependency list"
  unresolved :: "txid \<Rightarrow> int"
  completed :: "txid \<Rightarrow> bool"
  attempts :: "txid \<Rightarrow> int"
  edgeSet :: "blockTxDependency set"
  order :: "txid list"
  ready :: "txid list"

record claimGraphEvent =
  claimID :: string
  writer :: bool
  reader :: bool

definition dependencyReasonUTXO :: string where "dependencyReasonUTXO = ''utxo''"
definition dependencyReasonClaim :: string where "dependencyReasonClaim = ''claim''"

section \<open>Building the graph\<close>

text \<open>A fetched transaction is a pointer: \<open>None\<close> is \<^verbatim>\<open>nil\<close>, which the constructor skips.\<close>

definition newBlockTxGraph ::
    "TxRawResult option list \<Rightarrow> (txid \<rightharpoonup> TxRawResult) \<Rightarrow> blockTxGraph" where
  "newBlockTxGraph orderedTxs byID =
     (let ids = map tx_Txid (List.map_filter id orderedTxs) in
      \<lparr>txByID = byID, children = (\<lambda>_. []), unresolved = (\<lambda>_. 0), completed = (\<lambda>_. False),
       attempts = (\<lambda>_. 0), edgeSet = {}, order = ids, ready = []\<rparr>)"

definition addDependency :: "txid \<Rightarrow> txid \<Rightarrow> string \<Rightarrow> blockTxGraph \<Rightarrow> blockTxGraph" where
  "addDependency p c r graph =
     (if p = '''' \<or> c = '''' \<or> p = c then graph
      else
        let edge = \<lparr>parent = p, child = c, reason = r\<rparr> in
        if edge \<in> edgeSet graph then graph
        else graph\<lparr>edgeSet := insert edge (edgeSet graph),
                   children := (children graph)(p := children graph p @ [edge]),
                   unresolved := (unresolved graph)(c := unresolved graph c + 1)\<rparr>)"

definition addUTXODependency :: "txid \<Rightarrow> Vin \<Rightarrow> blockTxGraph \<Rightarrow> blockTxGraph" where
  "addUTXODependency tid vin graph =
     (case txByID graph (vin_TxID vin) of
        Some _ \<Rightarrow> addDependency (vin_TxID vin) tid dependencyReasonUTXO graph
      | None \<Rightarrow> graph)"

definition addUTXODependencies :: "blockTxGraph \<Rightarrow> blockTxGraph outcome" where
  "addUTXODependencies graph =
     foldE (\<lambda>tid g.
       case txByID g tid of
         None \<Rightarrow> Panic NilDereference
       | Some tx \<Rightarrow> Ok (fold (addUTXODependency tid) (tx_Vin tx) g)) (order graph) graph"

text \<open>
  The events of an output. A panic of a parser is recovered and counts as no event. The script is a
  freshly decoded slice.
\<close>

definition claimGraphEventsForVout :: "externals \<Rightarrow> TxRawResult \<Rightarrow> Vout \<Rightarrow> claimGraphEvent list" where
  "claimGraphEventsForVout E tx vout =
     (case hex_decode (spk_Hex (vout_ScriptPubKey vout)) of
        None \<Rightarrow> []
      | Some bytes \<Rightarrow>
          if bytes = [] then []
          else
            let script = slice_of bytes in
            if IsClaimNameScript script then
              (case ParseClaimNameScript script of
                 Ok _ \<Rightarrow>
                   (case ClaimIDFromOutpoint E (tx_Txid tx) (vout_N vout) of
                      Ok cid \<Rightarrow> [\<lparr>claimID = cid, writer = True, reader = False\<rparr>]
                    | _ \<Rightarrow> [])
               | _ \<Rightarrow> [])
            else if IsClaimUpdateScript script then
              (case ParseClaimUpdateScript script of
                 Ok (_, cid, _, _) \<Rightarrow> [\<lparr>claimID = cid, writer = True, reader = False\<rparr>]
               | _ \<Rightarrow> [])
            else if IsClaimSupportScript script then
              (case ParseClaimSupportScript script of
                 Ok (_, cid, _, _) \<Rightarrow> [\<lparr>claimID = cid, writer = False, reader = True\<rparr>]
               | _ \<Rightarrow> [])
            else
              (case IsPurchaseScript E script of
                 Ok True \<Rightarrow>
                   (case ParsePurchaseScript E script of
                      Ok claimHash \<Rightarrow>
                        [\<lparr>claimID = hex_encode (ReverseBytes claimHash), writer = False, reader = True\<rparr>]
                    | _ \<Rightarrow> [])
               | _ \<Rightarrow> []))"

definition claimGraphEvents :: "externals \<Rightarrow> TxRawResult \<Rightarrow> claimGraphEvent list" where
  "claimGraphEvents E tx = concat (map (claimGraphEventsForVout E tx) (tx_Vout tx))"

text \<open>The two local maps of \<^verbatim>\<open>addClaimDependencies\<close> and the graph it extends.\<close>

record claimScan =
  latestWriter :: "string \<Rightarrow> txid"
  waitingReaders :: "string \<Rightarrow> txid list"
  scanGraph :: blockTxGraph

definition dependOnWriter :: "string \<Rightarrow> txid \<Rightarrow> claimScan \<Rightarrow> claimScan" where
  "dependOnWriter cid tid st =
     (let previousWriter = latestWriter st cid in
      if previousWriter \<noteq> ''''
      then st\<lparr>scanGraph := addDependency previousWriter tid dependencyReasonClaim (scanGraph st)\<rparr>
      else st)"

definition addClaimEvent :: "txid \<Rightarrow> claimGraphEvent \<Rightarrow> claimScan \<Rightarrow> claimScan" where
  "addClaimEvent tid event st =
     (let cid = claimID event in
      if writer event then
        (let st1 = dependOnWriter cid tid st;
             g = fold (\<lambda>readerTxID. addDependency readerTxID tid dependencyReasonClaim)
                   (waitingReaders st1 cid) (scanGraph st1)
         in st1\<lparr>scanGraph := g,
                waitingReaders := (waitingReaders st1)(cid := []),
                latestWriter := (latestWriter st1)(cid := tid)\<rparr>)
      else if reader event then
        (let st1 = dependOnWriter cid tid st
         in st1\<lparr>waitingReaders := (waitingReaders st1)(cid := waitingReaders st1 cid @ [tid])\<rparr>)
      else st)"

definition addClaimDependencies :: "externals \<Rightarrow> blockTxGraph \<Rightarrow> blockTxGraph outcome" where
  "addClaimDependencies E graph =
     andThen
       (foldE (\<lambda>tid st.
          case txByID (scanGraph st) tid of
            None \<Rightarrow> Panic NilDereference
          | Some tx \<Rightarrow> Ok (fold (addClaimEvent tid) (claimGraphEvents E tx) st))
        (order graph)
        \<lparr>latestWriter = (\<lambda>_. ''''), waitingReaders = (\<lambda>_. []), scanGraph = graph\<rparr>)
       (\<lambda>st. Ok (scanGraph st))"

text \<open>The position the map \<^verbatim>\<open>orderIndex\<close> holds for a transaction: the last one written, 0 if none was.\<close>

definition orderIndex :: "txid list \<Rightarrow> txid \<Rightarrow> nat" where
  "orderIndex ids t = fold (\<lambda>i n. if ids ! i = t then i else n) [0..<length ids] 0"

definition sortChildren :: "blockTxGraph \<Rightarrow> blockTxGraph" where
  "sortChildren graph =
     graph\<lparr>children := (\<lambda>p. sort_key (\<lambda>e. (orderIndex (order graph) (child e), reason e))
                             (children graph p))\<rparr>"

definition buildDependencies :: "externals \<Rightarrow> blockTxGraph \<Rightarrow> (blockTxGraph \<times> goerr option) outcome" where
  "buildDependencies E graph =
     andThen (addUTXODependencies graph) (\<lambda>g1.
     andThen (addClaimDependencies E g1) (\<lambda>g2.
       let g3 = sortChildren g2;
           g4 = g3\<lparr>ready := ready g3 @ filter (\<lambda>t. unresolved g3 t = 0) (order g3)\<rparr>
       in Ok (g4,
              if ready g4 = [] \<and> order g4 \<noteq> []
              then Some (Prefixed ''no ready transactions'' ErrDependencyGraphStalled) else None)))"

text \<open>\<^verbatim>\<open>releaseChildren\<close>: every finished edge lowers the counter of its child, which becomes ready at 0.\<close>

definition releaseEdge :: "blockTxDependency \<Rightarrow> blockTxGraph \<Rightarrow> blockTxGraph" where
  "releaseEdge edge g =
     (let n = unresolved g (child edge) - 1;
          g1 = g\<lparr>unresolved := (unresolved g)(child edge := n)\<rparr>
      in if n = 0 then g1\<lparr>ready := ready g1 @ [child edge]\<rparr> else g1)"

definition releaseChildren :: "txid \<Rightarrow> blockTxGraph \<Rightarrow> blockTxGraph" where
  "releaseChildren tid graph = fold releaseEdge (children graph tid) graph"

end
