(* ===== verification/Scheduler.thy ===== *)
theory Scheduler
  imports TxGraph
begin

text \<open>
  \<^verbatim>\<open>runBlockTxScheduler\<close> of \<^verbatim>\<open>daemon/processing/block_scheduler.go\<close> and the functions it calls, with
  the errors of \<^verbatim>\<open>daemon/processing/errors.go\<close>. One iteration of the scheduler's loop is one step:
  the deterministic parts are functions, and what the environment decides (which worker answers
  and with which error, which retry timer fires, whether the stop channel is found closed) are the
  arguments of the rules of \<open>sched_step\<close>.
\<close>

section \<open>Errors\<close>

text \<open>\<open>MissingSourceOutputError p n t h\<close> has the fields \<^verbatim>\<open>PrevoutTxID\<close>, \<^verbatim>\<open>PrevoutN\<close>, \<^verbatim>\<open>TxID\<close> and
  \<^verbatim>\<open>BlockHeight\<close>; \<^verbatim>\<open>errors.As\<close> finds it below any number of prefixes.\<close>

definition missingSourceOutputFromError :: "goerr \<Rightarrow> (txid \<times> nat) option" where
  "missingSourceOutputFromError err =
     (case err_cause err of MissingSourceOutputError p n _ _ \<Rightarrow> Some (p, n) | _ \<Rightarrow> None)"

definition enrichMissingSourceOutput :: "goerr \<Rightarrow> txid \<Rightarrow> nat \<Rightarrow> goerr" where
  "enrichMissingSourceOutput err txID blockHeight =
     (case err_cause err of
        MissingSourceOutputError p n _ _ \<Rightarrow> MissingSourceOutputError p n txID blockHeight
      | _ \<Rightarrow> err)"

definition mysqlErrorLockWaitTimeout :: nat where "mysqlErrorLockWaitTimeout = 1205"
definition mysqlErrorDeadlock :: nat where "mysqlErrorDeadlock = 1213"

definition isRetryableStorageError :: "goerr \<Rightarrow> bool" where
  "isRetryableStorageError err =
     (case err_cause err of
        MySQLError number \<Rightarrow> number = mysqlErrorLockWaitTimeout \<or> number = mysqlErrorDeadlock
      | _ \<Rightarrow> False)"

definition isRetryableScheduledTxError :: "goerr \<Rightarrow> bool" where
  "isRetryableScheduledTxError err = isRetryableStorageError err"

section \<open>State\<close>

record txToProcess =
  job_tx :: "TxRawResult option"
  job_blockTime :: nat
  job_blockHeight :: nat
  job_failcount :: int

record txProcessResult =
  res_tx :: TxRawResult
  res_blockTime :: nat
  res_blockHeight :: nat
  res_err :: "goerr option"
  res_failcount :: int

text \<open>The configured limits and the block the transactions belong to.\<close>

record schedConf =
  MaxParallelTxProcessing :: int
  MaxFailures :: int
  blockTime :: nat
  blockHeight :: nat

text \<open>
  The local variables of the loop. \<open>inflight\<close> are the jobs workers have taken and not answered yet,
  \<open>retryTimers\<close> the transactions a retry goroutine waits for; \<open>looping\<close> is whether the loop is
  still running.
\<close>

record schedState =
  graph :: blockTxGraph
  inflight :: "txToProcess list"
  retryTimers :: "txid list"
  active :: int
  completedCount :: int
  pendingRetries :: int
  terminalErr :: "goerr option"
  looping :: bool

definition workerCount :: "schedConf \<Rightarrow> blockTxGraph \<Rightarrow> int" where
  "workerCount conf g =
     (let n = Min (int (length (order g))) (MaxParallelTxProcessing conf) in if n < 1 then 1 else n)"

definition initSched :: "blockTxGraph \<Rightarrow> schedState" where
  "initSched g =
     \<lparr>graph = g, inflight = [], retryTimers = [], active = 0, completedCount = 0, pendingRetries = 0,
      terminalErr = None, looping = True\<rparr>"

section \<open>The parts of an iteration\<close>

text \<open>
  \<^verbatim>\<open>dispatchReadyTransactions\<close>: \<open>polls k\<close> and \<open>sends k\<close> say whether the stop channel is found closed
  when polled and when selected against the send, after \<open>k\<close> jobs have been sent. The send itself
  always finds a worker: at most \<open>workerCount\<close> jobs are out.
\<close>

fun dispatchLoop ::
    "schedConf \<Rightarrow> (nat \<Rightarrow> bool) \<Rightarrow> (nat \<Rightarrow> bool) \<Rightarrow> nat \<Rightarrow> blockTxGraph \<Rightarrow> txToProcess list \<Rightarrow>
     txToProcess list \<times> blockTxGraph \<times> goerr option" where
  "dispatchLoop conf polls sends 0 g sent = (sent, g, None)"
| "dispatchLoop conf polls sends (Suc capacity) g sent =
     (case ready g of
        [] \<Rightarrow> (sent, g, None)
      | txID # rest \<Rightarrow>
          if polls (length sent) then (sent, g, Some ManualShutDownError)
          else
            let g' = g\<lparr>ready := rest\<rparr>;
                job = \<lparr>job_tx = txByID g' txID, job_blockTime = blockTime conf,
                       job_blockHeight = blockHeight conf, job_failcount = attempts g' txID\<rparr>
            in if sends (length sent) then (sent, g', Some ManualShutDownError)
               else dispatchLoop conf polls sends capacity g' (sent @ [job]))"

definition dispatchReadyTransactions ::
    "schedConf \<Rightarrow> (nat \<Rightarrow> bool) \<Rightarrow> (nat \<Rightarrow> bool) \<Rightarrow> int \<Rightarrow> blockTxGraph \<Rightarrow>
     txToProcess list \<times> blockTxGraph \<times> goerr option" where
  "dispatchReadyTransactions conf polls sends capacity g =
     dispatchLoop conf polls sends (nat capacity) g []"

definition dispatchPhase :: "schedConf \<Rightarrow> (nat \<Rightarrow> bool) \<Rightarrow> (nat \<Rightarrow> bool) \<Rightarrow> schedState \<Rightarrow> schedState" where
  "dispatchPhase conf polls sends s =
     (if terminalErr s = None then
        (case dispatchReadyTransactions conf polls sends (workerCount conf (graph s) - active s) (graph s) of
           (sent, g, err) \<Rightarrow>
             s\<lparr>graph := g, inflight := inflight s @ sent, terminalErr := err,
               active := active s + int (length sent)\<rparr>)
      else s)"

text \<open>The worker: a job without transaction panics in \<^verbatim>\<open>processTx\<close>, any other one is answered.\<close>

definition runScheduledTxWorker :: "txToProcess \<Rightarrow> goerr option \<Rightarrow> txProcessResult outcome" where
  "runScheduledTxWorker job err =
     (case job_tx job of
        None \<Rightarrow> Panic NilDereference
      | Some tx \<Rightarrow>
          Ok \<lparr>res_tx = tx, res_blockTime = job_blockTime job, res_blockHeight = job_blockHeight job,
              res_err = err, res_failcount = job_failcount job + 1\<rparr>)"

text \<open>\<^verbatim>\<open>handleScheduledTxError\<close>: \<open>None\<close> means a retry goroutine was started.\<close>

definition handleScheduledTxError ::
    "schedConf \<Rightarrow> txProcessResult \<Rightarrow> goerr \<Rightarrow> blockTxGraph \<Rightarrow> blockTxGraph \<times> goerr option" where
  "handleScheduledTxError conf result err g =
     (let txID = tx_Txid (res_tx result);
          g' = g\<lparr>attempts := (attempts g)(txID := res_failcount result)\<rparr>
      in (g',
          case missingSourceOutputFromError err of
            Some (prevout, _) \<Rightarrow>
              (case txByID g' prevout of
                 Some _ \<Rightarrow> Some (Prefixed ''same-block source output missing'' ErrSchedulerInvariant)
               | None \<Rightarrow> Some err)
          | None \<Rightarrow>
              if \<not> isRetryableScheduledTxError err then Some err
              else if res_failcount result > MaxFailures conf
              then Some (Prefixed ''transaction failed more than the maximum'' err)
              else None))"

text \<open>The branch of the \<^verbatim>\<open>select\<close> that receives a result; \<open>stopped\<close> is the poll after it.\<close>

definition onResult :: "schedConf \<Rightarrow> bool \<Rightarrow> txProcessResult \<Rightarrow> schedState \<Rightarrow> schedState" where
  "onResult conf stopped result s =
     (let s = s\<lparr>active := active s - 1\<rparr> in
      if stopped then s\<lparr>terminalErr := Some ManualShutDownError\<rparr>
      else
        case res_err result of
          Some err \<Rightarrow>
            (case handleScheduledTxError conf result err (graph s) of
               (g, Some e) \<Rightarrow> s\<lparr>graph := g, terminalErr := Some e\<rparr>
             | (g, None) \<Rightarrow>
                 s\<lparr>graph := g, pendingRetries := pendingRetries s + 1,
                   retryTimers := retryTimers s @ [tx_Txid (res_tx result)]\<rparr>)
        | None \<Rightarrow>
            let txID = tx_Txid (res_tx result);
                g = (graph s)\<lparr>completed := (completed (graph s))(txID := True)\<rparr>
            in s\<lparr>completedCount := completedCount s + 1, graph := releaseChildren txID g\<rparr>)"

definition onRetryReady :: "txid \<Rightarrow> schedState \<Rightarrow> schedState" where
  "onRetryReady txID s =
     s\<lparr>pendingRetries := pendingRetries s - 1,
       graph := (graph s)\<lparr>ready := ready (graph s) @ [txID]\<rparr>\<rparr>"

definition remove_nth :: "nat \<Rightarrow> 'a list \<Rightarrow> 'a list" where
  "remove_nth i xs = take i xs @ drop (Suc i) xs"

definition stalled :: "schedState \<Rightarrow> bool" where
  "stalled s \<longleftrightarrow> active s = 0 \<and> ready (graph s) = [] \<and> pendingRetries s = 0"

definition more_to_do :: "schedState \<Rightarrow> bool" where
  "more_to_do s \<longleftrightarrow> looping s \<and> completedCount s < int (length (order (graph s)))"

section \<open>The loop\<close>

inductive sched_step :: "schedConf \<Rightarrow> schedState \<Rightarrow> schedState \<Rightarrow> bool" for conf where
  Done: "looping s \<Longrightarrow> \<not> completedCount s < int (length (order (graph s))) \<Longrightarrow>
    sched_step conf s (s\<lparr>looping := False\<rparr>)"
| Break: "more_to_do s \<Longrightarrow> s1 = dispatchPhase conf polls sends s \<Longrightarrow>
    terminalErr s1 \<noteq> None \<Longrightarrow> active s1 = 0 \<Longrightarrow> sched_step conf s (s1\<lparr>looping := False\<rparr>)"
| Drain: "more_to_do s \<Longrightarrow> s1 = dispatchPhase conf polls sends s \<Longrightarrow>
    terminalErr s1 \<noteq> None \<Longrightarrow> active s1 \<noteq> 0 \<Longrightarrow> i < length (inflight s1) \<Longrightarrow>
    sched_step conf s (s1\<lparr>inflight := remove_nth i (inflight s1), active := active s1 - 1\<rparr>)"
| Stall: "more_to_do s \<Longrightarrow> s1 = dispatchPhase conf polls sends s \<Longrightarrow>
    terminalErr s1 = None \<Longrightarrow> stalled s1 \<Longrightarrow>
    sched_step conf s
      (s1\<lparr>terminalErr := Some (Prefixed ''scheduler'' ErrDependencyGraphStalled), looping := False\<rparr>)"
| Result: "more_to_do s \<Longrightarrow> s1 = dispatchPhase conf polls sends s \<Longrightarrow>
    terminalErr s1 = None \<Longrightarrow> \<not> stalled s1 \<Longrightarrow> i < length (inflight s1) \<Longrightarrow>
    runScheduledTxWorker (inflight s1 ! i) err = Ok result \<Longrightarrow>
    sched_step conf s (onResult conf stopped result (s1\<lparr>inflight := remove_nth i (inflight s1)\<rparr>))"
| Retry: "more_to_do s \<Longrightarrow> s1 = dispatchPhase conf polls sends s \<Longrightarrow>
    terminalErr s1 = None \<Longrightarrow> \<not> stalled s1 \<Longrightarrow> i < length (retryTimers s1) \<Longrightarrow>
    sched_step conf s
      (onRetryReady (retryTimers s1 ! i) (s1\<lparr>retryTimers := remove_nth i (retryTimers s1)\<rparr>))"
| Stop: "more_to_do s \<Longrightarrow> s1 = dispatchPhase conf polls sends s \<Longrightarrow>
    terminalErr s1 = None \<Longrightarrow> \<not> stalled s1 \<Longrightarrow>
    sched_step conf s (s1\<lparr>terminalErr := Some ManualShutDownError\<rparr>)"

text \<open>
  What \<^verbatim>\<open>runBlockTxScheduler\<close> returns when its loop has ended in \<open>s\<close>; \<open>cleanup\<close> is
  \<^verbatim>\<open>cleanupBlockTransactions\<close>, called on every transaction of the block when the run failed.
\<close>

definition sched_result :: "(txid list \<Rightarrow> goerr option) \<Rightarrow> schedState \<Rightarrow> goerr option" where
  "sched_result cleanup s =
     (case terminalErr s of
        None \<Rightarrow> None
      | Some e \<Rightarrow>
          (case cleanup (order (graph s)) of
             Some cleanupErr \<Rightarrow> Some (Prefixed ''scheduler error'' cleanupErr)
           | None \<Rightarrow> Some e))"

text \<open>A run from the initial state, and a run that has left the loop. An empty block returns at once.\<close>

definition sched_reachable :: "schedConf \<Rightarrow> blockTxGraph \<Rightarrow> schedState \<Rightarrow> bool" where
  "sched_reachable conf g s \<longleftrightarrow> (sched_step conf)\<^sup>*\<^sup>* (initSched g) s"

definition runBlockTxScheduler ::
    "schedConf \<Rightarrow> (txid list \<Rightarrow> goerr option) \<Rightarrow> blockTxGraph \<Rightarrow> goerr option \<Rightarrow> schedState \<Rightarrow> bool" where
  "runBlockTxScheduler conf cleanup g result s \<longleftrightarrow>
     (if order g = [] then result = None \<and> s = initSched g
      else sched_reachable conf g s \<and> \<not> looping s \<and> result = sched_result cleanup s)"

section \<open>Fetching the transactions of the block\<close>

text \<open>
  \<^verbatim>\<open>fetchBlockRawTransactions\<close> collects the answers of its workers in the order they arrive. Each
  event is what the \<^verbatim>\<open>select\<close> picks: a result with its index, or the stop channel.
\<close>

datatype fetchEvent = FetchResult nat "goerr + TxRawResult" | FetchStop

record fetchState =
  orderedTxs :: "TxRawResult option list"
  fetchedByID :: "txid \<rightharpoonup> TxRawResult"
  remaining :: int

text \<open>\<open>None\<close> is a loop that still waits when the events are used up.\<close>

fun fetchLoop :: "fetchEvent list \<Rightarrow> fetchState \<Rightarrow> ((TxRawResult option list \<times> (txid \<rightharpoonup> TxRawResult)) outcome) option" where
  "fetchLoop evs st =
     (if remaining st > 0 then
        (case evs of
           [] \<Rightarrow> None
         | FetchStop # _ \<Rightarrow> Some (Err ManualShutDownError)
         | FetchResult _ (Inl err) # _ \<Rightarrow> Some (Err err)
         | FetchResult i (Inr tx) # evs' \<Rightarrow>
             if i < length (orderedTxs st)
             then fetchLoop evs'
               \<lparr>orderedTxs = (orderedTxs st)[i := Some tx],
                fetchedByID = (fetchedByID st)(tx_Txid tx \<mapsto> tx), remaining = remaining st - 1\<rparr>
             else Some (Panic IndexOutOfRange))
      else Some (Ok (orderedTxs st, fetchedByID st)))"

declare fetchLoop.simps [simp del]

definition fetchBlockRawTransactions ::
    "txid list \<Rightarrow> fetchEvent list \<Rightarrow> ((TxRawResult option list \<times> (txid \<rightharpoonup> TxRawResult)) outcome) option" where
  "fetchBlockRawTransactions txIDs evs =
     fetchLoop evs \<lparr>orderedTxs = replicate (length txIDs) None, fetchedByID = Map.empty,
       remaining = int (length txIDs)\<rparr>"

end
