(* ===== verification/TxGraph_Spec.thy ===== *)
theory TxGraph_Spec
  imports TxGraph
begin

text \<open>
  What the dependency graph of a block guarantees: its counters and adjacency lists agree with its
  set of edges, every in-block spend is an edge, every two transactions that conflict on a claim are
  connected in block order, and a block whose inputs only refer backwards gives an acyclic graph.
\<close>

section \<open>The graph invariant\<close>

definition edge_rel :: "blockTxGraph \<Rightarrow> (txid \<times> txid) set" where
  "edge_rel g = (\<lambda>e. (parent e, child e)) ` edgeSet g"

definition incoming :: "blockTxGraph \<Rightarrow> txid \<Rightarrow> blockTxDependency set" where
  "incoming g c = {e \<in> edgeSet g. child e = c}"

definition wf_graph :: "blockTxGraph \<Rightarrow> bool" where
  "wf_graph g \<longleftrightarrow>
     finite (edgeSet g) \<and>
     (\<forall>e\<in>edgeSet g. parent e \<in> dom (txByID g) \<and> child e \<in> set (order g) \<and> parent e \<noteq> child e) \<and>
     (\<forall>p. distinct (children g p) \<and> set (children g p) = {e \<in> edgeSet g. parent e = p}) \<and>
     (\<forall>c. unresolved g c = int (card (incoming g c)))"

lemma wf_graphD:
  assumes "wf_graph g"
  shows "finite (edgeSet g)" and "e \<in> edgeSet g \<Longrightarrow> parent e \<in> dom (txByID g)"
    and "e \<in> edgeSet g \<Longrightarrow> child e \<in> set (order g)" and "e \<in> edgeSet g \<Longrightarrow> parent e \<noteq> child e"
    and "distinct (children g p)" and "set (children g p) = {e \<in> edgeSet g. parent e = p}"
    and "unresolved g c = int (card (incoming g c))"
  using assms by (auto simp: wf_graph_def)

lemma finite_incoming [simp]: "finite (edgeSet g) \<Longrightarrow> finite (incoming g c)"
  by (simp add: incoming_def)

text \<open>The fields that building the graph never changes.\<close>

lemma addDependency_static [simp]:
  "txByID (addDependency p c r g) = txByID g" "order (addDependency p c r g) = order g"
  "ready (addDependency p c r g) = ready g" "completed (addDependency p c r g) = completed g"
  "attempts (addDependency p c r g) = attempts g"
  by (simp_all add: addDependency_def Let_def)

text \<open>The same, as one tuple that the passes over the block keep.\<close>

definition static_part :: "blockTxGraph \<Rightarrow> (txid \<rightharpoonup> TxRawResult) \<times> txid list \<times> txid list \<times>
    (txid \<Rightarrow> bool) \<times> (txid \<Rightarrow> int)" where
  "static_part g = (txByID g, order g, ready g, completed g, attempts g)"

lemma static_addDependency [simp]: "static_part (addDependency p c r g) = static_part g"
  by (simp add: static_part_def)

lemma static_fold_addDependency [simp]:
  "static_part (fold (\<lambda>p. addDependency p t r) ps g) = static_part g"
  by (induction ps arbitrary: g) auto

lemma edgeSet_addDependency:
  "edgeSet (addDependency p c r g) =
     (if p = '''' \<or> c = '''' \<or> p = c then edgeSet g
      else insert \<lparr>parent = p, child = c, reason = r\<rparr> (edgeSet g))"
  by (auto simp: addDependency_def Let_def)

lemma edge_rel_addDependency:
  "edge_rel (addDependency p c r g) =
     (if p = '''' \<or> c = '''' \<or> p = c then edge_rel g else insert (p, c) (edge_rel g))"
  by (auto simp: edge_rel_def edgeSet_addDependency)

lemma edge_rel_addDependency_mono: "edge_rel g \<subseteq> edge_rel (addDependency p c r g)"
  by (auto simp: edge_rel_addDependency)

lemma wf_addDependency:
  assumes wf: "wf_graph g" and p: "p \<in> dom (txByID g)" and c: "c \<in> set (order g)"
  shows "wf_graph (addDependency p c r g)"
proof -
  let ?e = "\<lparr>parent = p, child = c, reason = r\<rparr>"
  show ?thesis
  proof (cases "p = '''' \<or> c = '''' \<or> p = c \<or> ?e \<in> edgeSet g")
    case True
    then show ?thesis using wf by (auto simp: addDependency_def)
  next
    case False
    let ?g = "addDependency p c r g"
    have g: "?g = g\<lparr>edgeSet := insert ?e (edgeSet g),
        children := (children g)(p := children g p @ [?e]),
        unresolved := (unresolved g)(c := unresolved g c + 1)\<rparr>"
      using False by (simp add: addDependency_def Let_def)
    have inc: "incoming ?g d = (if d = c then insert ?e (incoming g d) else incoming g d)" for d
      using False by (auto simp: g incoming_def)
    have "?e \<notin> incoming g c"
      using False by (simp add: incoming_def)
    then have "unresolved ?g d = int (card (incoming ?g d))" for d
      using wf_graphD(1,7) [OF wf] by (simp add: inc) (simp add: g)
    moreover have "distinct (children ?g q) \<and> set (children ?g q) = {e \<in> edgeSet ?g. parent e = q}" for q
      using False wf_graphD(5,6) [OF wf] by (auto simp: g)
    moreover have "finite (edgeSet ?g)"
      using wf by (simp add: g wf_graph_def)
    moreover have "\<forall>e\<in>edgeSet ?g. parent e \<in> dom (txByID ?g) \<and> child e \<in> set (order ?g) \<and> parent e \<noteq> child e"
      using wf p c False by (auto simp: g wf_graph_def)
    ultimately show ?thesis
      unfolding wf_graph_def by blast
  qed
qed

lemma wf_newBlockTxGraph: "wf_graph (newBlockTxGraph txs byID)"
  by (auto simp: wf_graph_def newBlockTxGraph_def Let_def incoming_def)

section \<open>Spends\<close>

lemma addUTXODependency_static [simp]:
  "txByID (addUTXODependency t v g) = txByID g" "order (addUTXODependency t v g) = order g"
  by (simp_all add: addUTXODependency_def split: option.split)

lemma fold_addUTXO_static [simp]:
  "txByID (fold (addUTXODependency t) vs g) = txByID g" "order (fold (addUTXODependency t) vs g) = order g"
  by (induction vs arbitrary: g) auto

lemma static_fold_addUTXO [simp]: "static_part (fold (addUTXODependency t) vs g) = static_part g"
  by (induction vs arbitrary: g) (auto simp: addUTXODependency_def split: option.split)

lemma wf_addUTXODependency: "wf_graph g \<Longrightarrow> t \<in> set (order g) \<Longrightarrow> wf_graph (addUTXODependency t v g)"
  by (auto simp: addUTXODependency_def split: option.split intro: wf_addDependency)

lemma wf_fold_addUTXO:
  "wf_graph g \<Longrightarrow> t \<in> set (order g) \<Longrightarrow> wf_graph (fold (addUTXODependency t) vs g)"
  by (induction vs arbitrary: g) (auto simp: wf_addUTXODependency)

definition utxo_body :: "txid \<Rightarrow> blockTxGraph \<Rightarrow> blockTxGraph outcome" where
  "utxo_body tid g =
     (case txByID g tid of
        None \<Rightarrow> Panic NilDereference
      | Some tx \<Rightarrow> Ok (fold (addUTXODependency tid) (tx_Vin tx) g))"

lemma utxo_body_Ok_iff:
  "utxo_body t g = Ok g' \<longleftrightarrow>
     (\<exists>tx. txByID g t = Some tx \<and> g' = fold (addUTXODependency t) (tx_Vin tx) g)"
  by (auto simp: utxo_body_def split: option.splits)

lemma addUTXODependencies_foldE: "addUTXODependencies g = foldE utxo_body (order g) g"
  by (simp add: addUTXODependencies_def utxo_body_def [abs_def])

lemma addUTXODependencies_static:
  assumes "addUTXODependencies g = Ok g'"
  shows "txByID g' = txByID g \<and> order g' = order g"
  by (rule foldE_invariant [OF assms [unfolded addUTXODependencies_foldE]])
    (auto simp: utxo_body_Ok_iff)

lemma static_addUTXODependencies:
  assumes "addUTXODependencies g = Ok g'"
  shows "static_part g' = static_part g"
  by (rule foldE_invariant [OF assms [unfolded addUTXODependencies_foldE]])
    (auto simp: utxo_body_Ok_iff)

lemma wf_addUTXODependencies:
  assumes "addUTXODependencies g = Ok g'" and "wf_graph g"
  shows "wf_graph g'"
proof -
  have "wf_graph g' \<and> order g' = order g"
    by (rule foldE_invariant [OF assms(1) [unfolded addUTXODependencies_foldE]])
      (use assms(2) in \<open>auto simp: utxo_body_Ok_iff wf_fold_addUTXO\<close>)
  then show ?thesis ..
qed

text \<open>The edges one transaction adds: its in-block inputs other than itself.\<close>

definition spends :: "(txid \<rightharpoonup> TxRawResult) \<Rightarrow> (txid \<times> txid) set" where
  "spends byID =
     {(p, c). \<exists>tx v. byID c = Some tx \<and> v \<in> set (tx_Vin tx) \<and> vin_TxID v = p \<and> p \<in> dom byID \<and>
        p \<noteq> c \<and> p \<noteq> '''' \<and> c \<noteq> ''''}"

lemma edge_rel_fold_addUTXO:
  "edge_rel (fold (addUTXODependency t) vs g) =
     edge_rel g \<union> {(p, c). c = t \<and> (\<exists>v\<in>set vs. vin_TxID v = p) \<and> p \<in> dom (txByID g) \<and>
       p \<noteq> c \<and> p \<noteq> '''' \<and> c \<noteq> ''''}"
proof (induction vs arbitrary: g)
  case (Cons v vs)
  show ?case
    by (simp add: Cons.IH)
      (auto simp: addUTXODependency_def edge_rel_addDependency split: option.splits)
qed simp

lemma edge_rel_foldE_utxo:
  assumes "foldE utxo_body ts g = Ok g'"
  shows "edge_rel g' = edge_rel g \<union> {(p, c) \<in> spends (txByID g). c \<in> set ts}"
  using assms
proof (induction ts arbitrary: g)
  case (Cons t ts)
  from Cons.prems obtain tx where tx: "txByID g t = Some tx"
    and rest: "foldE utxo_body ts (fold (addUTXODependency t) (tx_Vin tx) g) = Ok g'"
    by (auto simp: utxo_body_Ok_iff outcome_simps)
  show ?case
    unfolding Cons.IH [OF rest] using tx by (auto simp: edge_rel_fold_addUTXO spends_def)
qed simp

lemma edge_rel_addUTXODependencies:
  assumes "addUTXODependencies g = Ok g'"
  shows "edge_rel g' = edge_rel g \<union> {(p, c) \<in> spends (txByID g). c \<in> set (order g)}"
  using assms edge_rel_foldE_utxo by (simp add: addUTXODependencies_foldE)

section \<open>Claims\<close>

text \<open>
  The claim pass walks one log of events, the events of the transactions in block order. Its
  invariant says how each earlier access to a claim is ordered before its latest writer.
\<close>

type_synonym claim_log = "(txid \<times> claimGraphEvent) list"

definition log_step :: "txid \<times> claimGraphEvent \<Rightarrow> claimScan \<Rightarrow> claimScan" where
  "log_step = (\<lambda>(t, ev). addClaimEvent t ev)"

definition accesses :: "claim_log \<Rightarrow> string \<Rightarrow> (txid \<times> bool) set" where
  "accesses evs c =
     {(t, w). \<exists>ev. (t, ev) \<in> set evs \<and> claimID ev = c \<and> (writer ev \<or> reader ev) \<and> w = writer ev}"

definition scan_inv :: "claim_log \<Rightarrow> claimScan \<Rightarrow> bool" where
  "scan_inv evs st \<longleftrightarrow>
     (\<forall>c. let w = latestWriter st c; D = (edge_rel (scanGraph st))\<^sup>+ in
        (w \<noteq> '''' \<longrightarrow> w \<in> fst ` set evs) \<and>
        set (waitingReaders st c) \<subseteq> fst ` set evs \<and>
        (\<forall>t b. (t, b) \<in> accesses evs c \<longrightarrow>
           (t = w \<or> (t, w) \<in> D) \<and> w \<noteq> '''' \<or> \<not> b \<and> t \<in> set (waitingReaders st c)))"

lemma edge_rel_fold_addDependency:
  "edge_rel (fold (\<lambda>p. addDependency p t r) ps g) =
     edge_rel g \<union> {(p, c). p \<in> set ps \<and> c = t \<and> p \<noteq> t \<and> p \<noteq> '''' \<and> t \<noteq> ''''}"
  by (induction ps arbitrary: g) (auto simp: edge_rel_addDependency)

lemma dependOnWriter_sel [simp]:
  "latestWriter (dependOnWriter c t st) = latestWriter st"
  "waitingReaders (dependOnWriter c t st) = waitingReaders st"
  by (simp_all add: dependOnWriter_def Let_def)

lemma edge_rel_dependOnWriter:
  "edge_rel (scanGraph (dependOnWriter c t st)) =
     edge_rel (scanGraph st) \<union>
     {(p, d). p = latestWriter st c \<and> d = t \<and> p \<noteq> t \<and> p \<noteq> '''' \<and> t \<noteq> ''''}"
  by (auto simp: dependOnWriter_def Let_def edge_rel_addDependency)

lemma edge_rel_addClaimEvent:
  "edge_rel (scanGraph (addClaimEvent t ev st)) =
     edge_rel (scanGraph st) \<union>
     {(p, d). d = t \<and> p \<noteq> t \<and> p \<noteq> '''' \<and> t \<noteq> '''' \<and>
        (p = latestWriter st (claimID ev) \<and> (writer ev \<or> reader ev) \<or>
         p \<in> set (waitingReaders st (claimID ev)) \<and> writer ev)}"
  by (auto simp: addClaimEvent_def Let_def edge_rel_dependOnWriter edge_rel_fold_addDependency)

lemma latestWriter_addClaimEvent:
  "latestWriter (addClaimEvent t ev st) =
     (if writer ev then (latestWriter st)(claimID ev := t) else latestWriter st)"
  by (simp add: addClaimEvent_def Let_def)

lemma waitingReaders_addClaimEvent:
  "waitingReaders (addClaimEvent t ev st) =
     (if writer ev then (waitingReaders st)(claimID ev := [])
      else if reader ev then (waitingReaders st)(claimID ev := waitingReaders st (claimID ev) @ [t])
      else waitingReaders st)"
  by (simp add: addClaimEvent_def Let_def)

lemmas addClaimEvent_sel = latestWriter_addClaimEvent waitingReaders_addClaimEvent

lemma accesses_snoc:
  "accesses (evs @ [(t, ev)]) c =
     accesses evs c \<union> (if claimID ev = c \<and> (writer ev \<or> reader ev) then {(t, writer ev)} else {})"
  by (auto simp: accesses_def)

lemma accesses_fst: "(t, b) \<in> accesses evs c \<Longrightarrow> t \<in> fst ` set evs"
  by (force simp: accesses_def)

text \<open>One event: every conflicting access before it is now ordered before it.\<close>

lemma scan_inv_conflict:
  assumes inv: "scan_inv evs st" and ne: "'''' \<notin> fst ` set evs" "t \<noteq> ''''"
    and acc: "(u, b) \<in> accesses evs (claimID ev)" and "u \<noteq> t" and "writer ev \<or> reader ev \<and> b"
  shows "(u, t) \<in> (edge_rel (scanGraph (addClaimEvent t ev st)))\<^sup>+"
proof -
  let ?R = "edge_rel (scanGraph st)" and ?R' = "edge_rel (scanGraph (addClaimEvent t ev st))"
  let ?w = "latestWriter st (claimID ev)"
  have mono: "?R\<^sup>+ \<subseteq> ?R'\<^sup>+"
    by (rule trancl_mono_subset) (auto simp: edge_rel_addClaimEvent)
  have u: "u \<noteq> ''''" using accesses_fst [OF acc] ne(1) by metis
  from inv acc consider "u = ?w" "?w \<noteq> ''''" | "(u, ?w) \<in> ?R\<^sup>+" "?w \<noteq> ''''"
    | "\<not> b" "u \<in> set (waitingReaders st (claimID ev))"
    unfolding scan_inv_def Let_def by blast
  then show ?thesis
  proof cases
    case 1
    then have "(u, t) \<in> ?R'" using assms by (auto simp: edge_rel_addClaimEvent)
    then show ?thesis ..
  next
    case 2
    show ?thesis
    proof (cases "?w = t")
      case True
      with 2 mono show ?thesis by auto
    next
      case False
      then have "(?w, t) \<in> ?R'" using 2 assms by (auto simp: edge_rel_addClaimEvent)
      with 2 mono show ?thesis by (meson subsetD trancl_into_trancl)
    qed
  next
    case 3
    then have "(u, t) \<in> ?R'" using assms u by (auto simp: edge_rel_addClaimEvent)
    then show ?thesis ..
  qed
qed

lemma scan_inv_step:
  assumes inv: "scan_inv evs st" and ne: "'''' \<notin> fst ` set evs" "t \<noteq> ''''"
  shows "scan_inv (evs @ [(t, ev)]) (addClaimEvent t ev st)"
  unfolding scan_inv_def Let_def
proof (intro allI conjI)
  fix c
  let ?st = "addClaimEvent t ev st"
  let ?R = "edge_rel (scanGraph st)" and ?R' = "edge_rel (scanGraph ?st)"
  have mono: "?R\<^sup>+ \<subseteq> ?R'\<^sup>+"
    by (rule trancl_mono_subset) (auto simp: edge_rel_addClaimEvent)
  note inv' = inv [unfolded scan_inv_def Let_def, rule_format, of c]
  show "latestWriter ?st c \<noteq> '''' \<longrightarrow> latestWriter ?st c \<in> fst ` set (evs @ [(t, ev)])"
    using inv' by (auto simp: addClaimEvent_sel)
  show "set (waitingReaders ?st c) \<subseteq> fst ` set (evs @ [(t, ev)])"
    using inv' by (auto simp: addClaimEvent_sel)
  fix u b
  show "(u, b) \<in> accesses (evs @ [(t, ev)]) c \<longrightarrow>
      (u = latestWriter ?st c \<or> (u, latestWriter ?st c) \<in> ?R'\<^sup>+) \<and> latestWriter ?st c \<noteq> '''' \<or>
      \<not> b \<and> u \<in> set (waitingReaders ?st c)"
  proof
    assume "(u, b) \<in> accesses (evs @ [(t, ev)]) c"
    then consider (new) "claimID ev = c" "writer ev \<or> reader ev" "u = t" "b = writer ev"
      | (old) "(u, b) \<in> accesses evs c"
      by (auto simp: accesses_snoc split: if_splits)
    then show "(u = latestWriter ?st c \<or> (u, latestWriter ?st c) \<in> ?R'\<^sup>+) \<and> latestWriter ?st c \<noteq> '''' \<or>
      \<not> b \<and> u \<in> set (waitingReaders ?st c)"
    proof cases
      case new
      then show ?thesis using ne by (auto simp: addClaimEvent_sel)
    next
      case old
      show ?thesis
      proof (cases "claimID ev = c \<and> writer ev")
        case True
        then show ?thesis
          using scan_inv_conflict [OF inv ne, of u b ev] old ne by (auto simp: addClaimEvent_sel)
      next
        case False
        then have "latestWriter ?st c = latestWriter st c"
          and "set (waitingReaders st c) \<subseteq> set (waitingReaders ?st c)"
          by (auto simp: addClaimEvent_sel)
        moreover have "(u = latestWriter st c \<or> (u, latestWriter st c) \<in> ?R\<^sup>+) \<and> latestWriter st c \<noteq> '''' \<or>
            \<not> b \<and> u \<in> set (waitingReaders st c)"
          using inv' old by blast
        ultimately show ?thesis using mono by (metis subsetD)
      qed
    qed
  qed
qed

definition initScan :: "blockTxGraph \<Rightarrow> claimScan" where
  "initScan g = \<lparr>latestWriter = (\<lambda>_. ''''), waitingReaders = (\<lambda>_. []), scanGraph = g\<rparr>"

definition tx_log :: "externals \<Rightarrow> (txid \<rightharpoonup> TxRawResult) \<Rightarrow> txid \<Rightarrow> claim_log" where
  "tx_log E byID t = (case byID t of None \<Rightarrow> [] | Some tx \<Rightarrow> map (Pair t) (claimGraphEvents E tx))"

definition block_log :: "externals \<Rightarrow> (txid \<rightharpoonup> TxRawResult) \<Rightarrow> txid list \<Rightarrow> claim_log" where
  "block_log E byID ids = concat (map (tx_log E byID) ids)"

lemma scan_inv_init: "scan_inv [] (initScan g)"
  by (simp add: scan_inv_def initScan_def accesses_def)

lemma scan_inv_fold: "'''' \<notin> fst ` set evs \<Longrightarrow> scan_inv evs (fold log_step evs (initScan g))"
proof (induction evs rule: rev_induct)
  case (snoc x evs)
  then show ?case by (cases x) (auto simp: log_step_def intro!: scan_inv_step)
qed (simp add: scan_inv_init)

lemma edge_rel_fold_log_mono: "edge_rel (scanGraph st) \<subseteq> edge_rel (scanGraph (fold log_step evs st))"
proof (induction evs arbitrary: st)
  case (Cons x evs)
  have "edge_rel (scanGraph st) \<subseteq> edge_rel (scanGraph (log_step x st))"
    by (cases x) (auto simp: log_step_def edge_rel_addClaimEvent)
  with Cons.IH [of "log_step x st"] show ?case by auto
qed simp

text \<open>Two conflicting accesses in the log are connected.\<close>

lemma log_conflict:
  assumes evs: "evs = xs @ (t, ev) # ys" and ne: "'''' \<notin> fst ` set evs"
    and "(u, b) \<in> accesses xs (claimID ev)" and "u \<noteq> t" and "writer ev \<or> reader ev \<and> b"
  shows "(u, t) \<in> (edge_rel (scanGraph (fold log_step evs (initScan g))))\<^sup>+"
proof -
  let ?st = "fold log_step xs (initScan g)"
  have "scan_inv xs ?st" using ne evs by (intro scan_inv_fold) auto
  then have "(u, t) \<in> (edge_rel (scanGraph (addClaimEvent t ev ?st)))\<^sup>+"
    using assms by (intro scan_inv_conflict) auto
  moreover have "edge_rel (scanGraph (addClaimEvent t ev ?st)) \<subseteq>
      edge_rel (scanGraph (fold log_step evs (initScan g)))"
    using edge_rel_fold_log_mono [of "addClaimEvent t ev ?st" ys] by (simp add: evs log_step_def)
  ultimately show ?thesis by (meson subsetD trancl_mono_subset)
qed

text \<open>The claim pass only adds edges from an earlier access to a later one.\<close>

definition log_before :: "claim_log \<Rightarrow> (txid \<times> txid) set" where
  "log_before evs = {(p, c). p \<noteq> c \<and> (\<exists>xs ys. evs = xs @ ys \<and> p \<in> fst ` set xs \<and> c \<in> fst ` set ys)}"

lemma log_before_snoc: "log_before evs \<subseteq> log_before (evs @ [x])"
proof
  fix y assume "y \<in> log_before evs"
  then obtain p c xs ys where "y = (p, c)" "p \<noteq> c" "evs = xs @ ys" "p \<in> fst ` set xs" "c \<in> fst ` set ys"
    unfolding log_before_def by blast
  moreover from this have "evs @ [x] = xs @ (ys @ [x])" "c \<in> fst ` set (ys @ [x])" by simp_all
  ultimately show "y \<in> log_before (evs @ [x])"
    unfolding log_before_def by blast
qed

lemma log_before_last: "p \<in> fst ` set evs \<Longrightarrow> p \<noteq> t \<Longrightarrow> (p, t) \<in> log_before (evs @ [(t, ev)])"
  unfolding log_before_def by (intro CollectI case_prodI conjI exI [of _ evs] exI [of _ "[(t, ev)]"]) simp_all

lemma edge_rel_fold_log:
  "'''' \<notin> fst ` set evs \<Longrightarrow>
    edge_rel (scanGraph (fold log_step evs (initScan g))) \<subseteq> edge_rel g \<union> log_before evs"
proof (induction evs rule: rev_induct)
  case Nil
  then show ?case by (simp add: initScan_def)
next
  case (snoc x evs)
  obtain t ev where x: "x = (t, ev)" by (cases x)
  let ?st = "fold log_step evs (initScan g)"
  have inv: "scan_inv evs ?st" using snoc.prems by (intro scan_inv_fold) auto
  have IH: "edge_rel (scanGraph ?st) \<subseteq> edge_rel g \<union> log_before evs" using snoc by simp
  have "latestWriter ?st c \<noteq> '''' \<longrightarrow> latestWriter ?st c \<in> fst ` set evs"
    and "set (waitingReaders ?st c) \<subseteq> fst ` set evs" for c
    using inv unfolding scan_inv_def Let_def by blast+
  then have "edge_rel (scanGraph (addClaimEvent t ev ?st)) \<subseteq>
      edge_rel (scanGraph ?st) \<union> log_before (evs @ [(t, ev)])"
    unfolding edge_rel_addClaimEvent using log_before_last by blast
  with IH log_before_snoc [of evs x] show ?case by (auto simp: x log_step_def)
qed

lemma addClaimEvent_static [simp]:
  "txByID (scanGraph (addClaimEvent t ev st)) = txByID (scanGraph st)"
  "order (scanGraph (addClaimEvent t ev st)) = order (scanGraph st)"
proof -
  have *: "txByID (fold (\<lambda>p. addDependency p t r) ps g) = txByID g \<and>
      order (fold (\<lambda>p. addDependency p t r) ps g) = order g" for r ps g
    by (induction ps arbitrary: g) auto
  show "txByID (scanGraph (addClaimEvent t ev st)) = txByID (scanGraph st)"
    "order (scanGraph (addClaimEvent t ev st)) = order (scanGraph st)"
    by (simp_all add: addClaimEvent_def dependOnWriter_def Let_def *)
qed

lemma log_step_static [simp]:
  "txByID (scanGraph (fold log_step evs st)) = txByID (scanGraph st)"
  "order (scanGraph (fold log_step evs st)) = order (scanGraph st)"
  by (induction evs arbitrary: st) (auto simp: log_step_def)

lemma static_addClaimEvent [simp]:
  "static_part (scanGraph (addClaimEvent t ev st)) = static_part (scanGraph st)"
  by (simp add: addClaimEvent_def dependOnWriter_def Let_def)

lemma static_fold_log [simp]:
  "static_part (scanGraph (fold log_step evs st)) = static_part (scanGraph st)"
  by (induction evs arbitrary: st) (auto simp: log_step_def)

lemma wf_fold_addDependency:
  "wf_graph g \<Longrightarrow> set ps \<subseteq> dom (txByID g) \<Longrightarrow> t \<in> set (order g) \<Longrightarrow>
    wf_graph (fold (\<lambda>p. addDependency p t r) ps g)"
  by (induction ps arbitrary: g) (simp_all add: wf_addDependency)

lemma wf_addClaimEvent:
  assumes "wf_graph (scanGraph st)" and "t \<in> set (order (scanGraph st))"
    and "latestWriter st (claimID ev) \<noteq> '''' \<Longrightarrow> latestWriter st (claimID ev) \<in> dom (txByID (scanGraph st))"
    and "set (waitingReaders st (claimID ev)) \<subseteq> dom (txByID (scanGraph st))"
  shows "wf_graph (scanGraph (addClaimEvent t ev st))"
  using assms by (auto simp: addClaimEvent_def dependOnWriter_def Let_def
      intro!: wf_fold_addDependency wf_addDependency)

lemma fst_set_tx_log: "fst ` set (tx_log E byID t) \<subseteq> {t} \<inter> dom byID"
  by (cases "byID t") (auto simp: tx_log_def)

lemma fst_set_block_log: "fst ` set (block_log E byID ids) \<subseteq> set ids \<inter> dom byID"
  using fst_set_tx_log [of E byID] by (induction ids) (auto simp: block_log_def image_Un)

lemma wf_fold_log:
  assumes "wf_graph g" and "fst ` set evs \<subseteq> set (order g) \<inter> dom (txByID g)" and "'''' \<notin> fst ` set evs"
  shows "wf_graph (scanGraph (fold log_step evs (initScan g)))"
  using assms(2,3)
proof (induction evs rule: rev_induct)
  case Nil
  then show ?case using assms(1) by (simp add: initScan_def)
next
  case (snoc x evs)
  obtain t ev where x: "x = (t, ev)" by (cases x)
  let ?st = "fold log_step evs (initScan g)"
  have sub: "fst ` set evs \<subseteq> dom (txByID g)" "t \<in> set (order g)"
    using snoc.prems by (auto simp: x)
  have inv: "scan_inv evs ?st" using snoc.prems by (intro scan_inv_fold) auto
  have "latestWriter ?st c \<noteq> '''' \<longrightarrow> latestWriter ?st c \<in> fst ` set evs"
    and "set (waitingReaders ?st c) \<subseteq> fst ` set evs" for c
    using inv unfolding scan_inv_def Let_def by blast+
  then have lw: "latestWriter ?st c \<noteq> '''' \<longrightarrow> latestWriter ?st c \<in> dom (txByID g)"
    and wr: "set (waitingReaders ?st c) \<subseteq> dom (txByID g)" for c
    using sub(1) by blast+
  have static: "txByID (scanGraph ?st) = txByID g" "order (scanGraph ?st) = order g"
    by (simp_all add: initScan_def)
  have "wf_graph (scanGraph ?st)"
    using snoc by simp
  then have "wf_graph (scanGraph (addClaimEvent t ev ?st))"
    using sub(2) lw wr by (intro wf_addClaimEvent) (simp_all only: static, blast)
  then show ?case by (simp add: x log_step_def)
qed

definition claim_body :: "externals \<Rightarrow> txid \<Rightarrow> claimScan \<Rightarrow> claimScan outcome" where
  "claim_body E tid st =
     (case txByID (scanGraph st) tid of
        None \<Rightarrow> Panic NilDereference
      | Some tx \<Rightarrow> Ok (fold (addClaimEvent tid) (claimGraphEvents E tx) st))"

lemma claim_body_Ok_iff:
  "claim_body E t st = Ok st' \<longleftrightarrow>
     (\<exists>tx. txByID (scanGraph st) t = Some tx \<and> st' = fold (addClaimEvent t) (claimGraphEvents E tx) st)"
  by (auto simp: claim_body_def split: option.splits)

lemma addClaimDependencies_foldE:
  "addClaimDependencies E g =
     andThen (foldE (claim_body E) (order g) (initScan g)) (\<lambda>st. Ok (scanGraph st))"
  by (simp add: addClaimDependencies_def claim_body_def [abs_def] initScan_def)

lemma fold_addClaimEvent_log: "fold (addClaimEvent t) evs st = fold log_step (map (Pair t) evs) st"
  by (induction evs arbitrary: st) (auto simp: log_step_def)

lemma foldE_claim_body:
  assumes "foldE (claim_body E) ts st = Ok st'" and "txByID (scanGraph st) = byID"
  shows "st' = fold log_step (block_log E byID ts) st \<and> set ts \<subseteq> dom byID"
  using assms
proof (induction ts arbitrary: st)
  case Nil
  then show ?case by (simp add: block_log_def)
next
  case (Cons t ts)
  let ?st = "fold log_step (tx_log E byID t) st"
  from Cons.prems have t: "t \<in> dom byID" and rest: "foldE (claim_body E) ts ?st = Ok st'"
    by (auto simp: claim_body_Ok_iff tx_log_def fold_addClaimEvent_log outcome_simps)
  from Cons.IH [OF rest] Cons.prems(2) t show ?case by (simp add: block_log_def)
qed

lemma addClaimDependencies_Ok:
  assumes "addClaimDependencies E g = Ok g'"
  shows "g' = scanGraph (fold log_step (block_log E (txByID g) (order g)) (initScan g))"
    and "set (order g) \<subseteq> dom (txByID g)"
  using assms foldE_claim_body [of E "order g" "initScan g" _ "txByID g"]
  by (auto simp: addClaimDependencies_foldE outcome_simps initScan_def)

lemma foldE_claim_body_total:
  assumes "set ts \<subseteq> dom (txByID (scanGraph st))"
  shows "\<exists>st'. foldE (claim_body E) ts st = Ok st'"
  using assms
proof (induction ts arbitrary: st)
  case (Cons t ts)
  then obtain tx where tx: "txByID (scanGraph st) t = Some tx" by auto
  show ?case
    using Cons.IH [of "fold (addClaimEvent t) (claimGraphEvents E tx) st"] Cons.prems tx
    by (simp add: claim_body_def fold_addClaimEvent_log)
qed simp

lemma foldE_utxo_body_total:
  "set ts \<subseteq> dom (txByID g) \<Longrightarrow> \<exists>g'. foldE utxo_body ts g = Ok g'"
proof (induction ts arbitrary: g)
  case (Cons t ts)
  then obtain tx where tx: "txByID g t = Some tx" by auto
  show ?case
    using Cons.IH [of "fold (addUTXODependency t) (tx_Vin tx) g"] Cons.prems tx
    by (simp add: utxo_body_def)
qed simp

section \<open>The finished graph\<close>

lemma sortChildren_static [simp]:
  "txByID (sortChildren g) = txByID g" "order (sortChildren g) = order g"
  "edgeSet (sortChildren g) = edgeSet g" "unresolved (sortChildren g) = unresolved g"
  "ready (sortChildren g) = ready g" "completed (sortChildren g) = completed g"
  "attempts (sortChildren g) = attempts g"
  by (simp_all add: sortChildren_def)

lemma wf_sortChildren: "wf_graph g \<Longrightarrow> wf_graph (sortChildren g)"
  by (auto simp: wf_graph_def incoming_def) (simp_all add: sortChildren_def)

text \<open>The passes of \<^verbatim>\<open>buildDependencies\<close>, decomposed once for the properties below.\<close>

lemma buildDependencies_decomp:
  assumes "buildDependencies E (newBlockTxGraph txs byID) = Ok (g, err)"
  obtains g1 g2 where "addUTXODependencies (newBlockTxGraph txs byID) = Ok g1"
    and "g2 = scanGraph (fold log_step (block_log E byID (order g)) (initScan g1))"
    and "txByID g1 = byID" "order g1 = order g" "edgeSet g = edgeSet g2" "txByID g = byID"
    and "order g = map tx_Txid (List.map_filter id txs)" and "set (order g) \<subseteq> dom byID"
    and "unresolved g = unresolved g2" and "children g = children (sortChildren g2)"
    and "ready g = filter (\<lambda>t. unresolved g t = 0) (order g)"
    and "completed g = (\<lambda>_. False)" and "attempts g = (\<lambda>_. 0)"
proof -
  let ?g0 = "newBlockTxGraph txs byID"
  from assms obtain g1 g2 where u: "addUTXODependencies ?g0 = Ok g1"
    and c: "addClaimDependencies E g1 = Ok g2"
    and g: "g = (sortChildren g2)\<lparr>ready := ready g2 @ filter (\<lambda>t. unresolved g2 t = 0) (order g2)\<rparr>"
    by (auto simp: buildDependencies_def outcome_simps Let_def)
  have s1: "static_part g1 = static_part ?g0"
    using static_addUTXODependencies [OF u] .
  note c' = addClaimDependencies_Ok [OF c]
  have s2: "static_part g2 = static_part g1"
    unfolding c'(1) by (simp add: initScan_def)
  show thesis
    by (rule that [OF u])
      (use s1 s2 c' in \<open>auto simp: g static_part_def newBlockTxGraph_def Let_def\<close>)
qed

lemma block_log_nonempty_ids:
  assumes "'''' \<notin> dom byID"
  shows "'''' \<notin> fst ` set (block_log E byID ids)"
  using assms fst_set_block_log [of E byID ids] by blast

lemma buildDependencies_wf:
  assumes "buildDependencies E (newBlockTxGraph txs byID) = Ok (g, err)" and "'''' \<notin> dom byID"
  shows "wf_graph g"
proof -
  obtain g1 g2 where
    u: "addUTXODependencies (newBlockTxGraph txs byID) = Ok g1"
    and g2: "g2 = scanGraph (fold log_step (block_log E byID (order g)) (initScan g1))"
    and st: "txByID g1 = byID" "order g1 = order g" "edgeSet g = edgeSet g2" "txByID g = byID"
      "unresolved g = unresolved g2" "children g = children (sortChildren g2)"
    by (rule buildDependencies_decomp [OF assms(1)]) (rule that, assumption+)
  have "wf_graph g1" using wf_addUTXODependencies [OF u] wf_newBlockTxGraph by simp
  then have "wf_graph g2"
    unfolding g2 using fst_set_block_log [of E byID "order g"] block_log_nonempty_ids [OF assms(2)] st
    by (intro wf_fold_log) auto
  then have "wf_graph (sortChildren g2)" by (rule wf_sortChildren)
  moreover have "order g2 = order g" "txByID g2 = byID" using st by (simp_all add: g2 initScan_def)
  ultimately show ?thesis unfolding wf_graph_def incoming_def sortChildren_static using st by simp
qed

lemma edge_rel_buildDependencies:
  assumes "buildDependencies E (newBlockTxGraph txs byID) = Ok (g, err)" and "'''' \<notin> dom byID"
  shows "{(p, c) \<in> spends byID. c \<in> set (order g)} \<subseteq> edge_rel g"
    and "edge_rel g \<subseteq> {(p, c) \<in> spends byID. c \<in> set (order g)} \<union> log_before (block_log E byID (order g))"
proof -
  obtain g1 g2 where
    u: "addUTXODependencies (newBlockTxGraph txs byID) = Ok g1"
    and g2: "g2 = scanGraph (fold log_step (block_log E byID (order g)) (initScan g1))"
    and st: "edgeSet g = edgeSet g2" "order g = map tx_Txid (List.map_filter id txs)"
    by (rule buildDependencies_decomp [OF assms(1)]) (rule that, assumption+)
  have g: "edge_rel g = edge_rel g2" by (simp add: edge_rel_def st)
  have "order (newBlockTxGraph txs byID) = order g" "txByID (newBlockTxGraph txs byID) = byID"
    "edge_rel (newBlockTxGraph txs byID) = {}"
    by (simp_all add: newBlockTxGraph_def Let_def st edge_rel_def)
  with edge_rel_addUTXODependencies [OF u]
  have g1: "edge_rel g1 = {(p, c) \<in> spends byID. c \<in> set (order g)}" by simp
  show "{(p, c) \<in> spends byID. c \<in> set (order g)} \<subseteq> edge_rel g"
    unfolding g g2 g1 [symmetric]
    using edge_rel_fold_log_mono [of "initScan g1"] by (simp add: initScan_def)
  show "edge_rel g \<subseteq> {(p, c) \<in> spends byID. c \<in> set (order g)} \<union> log_before (block_log E byID (order g))"
    unfolding g g2 g1 [symmetric]
    by (rule edge_rel_fold_log [OF block_log_nonempty_ids [OF assms(2)]])
qed

section \<open>Serialization of conflicts\<close>

definition writes :: "externals \<Rightarrow> TxRawResult \<Rightarrow> string \<Rightarrow> bool" where
  "writes E tx c \<longleftrightarrow> (\<exists>ev\<in>set (claimGraphEvents E tx). claimID ev = c \<and> writer ev)"

definition touches :: "externals \<Rightarrow> TxRawResult \<Rightarrow> string \<Rightarrow> bool" where
  "touches E tx c \<longleftrightarrow> (\<exists>ev\<in>set (claimGraphEvents E tx). claimID ev = c \<and> (writer ev \<or> reader ev))"

definition conflict :: "externals \<Rightarrow> TxRawResult \<Rightarrow> TxRawResult \<Rightarrow> string \<Rightarrow> bool" where
  "conflict E tx ux c \<longleftrightarrow> touches E tx c \<and> touches E ux c \<and> (writes E tx c \<or> writes E ux c)"

lemma tx_log_accesses:
  assumes "byID t = Some tx" and "ev \<in> set (claimGraphEvents E tx)" and "writer ev \<or> reader ev"
  shows "(t, writer ev) \<in> accesses (xs @ tx_log E byID t @ ys) (claimID ev)"
  using assms by (auto simp: accesses_def tx_log_def)

lemma accesses_append: "accesses (xs @ ys) c = accesses xs c \<union> accesses ys c"
  by (auto simp: accesses_def)

text \<open>C5: Two transactions of a block that touch the same claim, one of them writing it, are never
  processed concurrently or out of block order: the finished dependency graph has a path from the
  earlier to the later one.\<close>

theorem buildDependencies_serializes_conflicts:
  assumes build: "buildDependencies E (newBlockTxGraph txs byID) = Ok (g, err)"
    and ne: "'''' \<notin> dom byID"
    and ij: "i < j" "j < length (order g)" and neq: "order g ! i \<noteq> order g ! j"
    and tx: "byID (order g ! i) = Some tx" and ux: "byID (order g ! j) = Some ux"
    and conf: "conflict E tx ux c"
  shows "(order g ! i, order g ! j) \<in> (edge_rel g)\<^sup>+"
proof -
  let ?t = "order g ! i" and ?u = "order g ! j"
  let ?pre = "block_log E byID (take j (order g))"
  let ?post = "block_log E byID (drop (Suc j) (order g))"
  obtain g1 g2 where
    g2: "g2 = scanGraph (fold log_step (block_log E byID (order g)) (initScan g1))"
    and "edgeSet g = edgeSet g2"
    by (rule buildDependencies_decomp [OF assms(1)]) (rule that, assumption+)
  then have g: "edge_rel g = edge_rel g2" by (simp add: edge_rel_def)
  have log: "block_log E byID (order g) = ?pre @ tx_log E byID ?u @ ?post"
    using id_take_nth_drop [OF ij(2)] by (metis block_log_def concat.simps(2) concat_append list.simps(9) map_append)
  have "?t \<in> set (take j (order g))"
    using ij by (auto simp: in_set_conv_nth)
  then obtain as bs where "take j (order g) = as @ ?t # bs"
    by (meson split_list)
  then have pre: "?pre = block_log E byID as @ tx_log E byID ?t @ block_log E byID bs"
    by (simp add: block_log_def)
  obtain ea eb where ea: "ea \<in> set (claimGraphEvents E tx)" "claimID ea = c" "writer ea \<or> reader ea"
    and eb: "eb \<in> set (claimGraphEvents E ux)" "claimID eb = c" "writer eb \<or> reader eb"
    and w: "writer ea \<or> writer eb"
    using conf by (auto simp: conflict_def touches_def writes_def)
  have acc: "(?t, writer ea) \<in> accesses ?pre (claimID eb)"
    unfolding pre using tx_log_accesses [of byID, OF tx ea(1) ea(3)] ea(2) eb(2) by simp
  obtain ps qs where "claimGraphEvents E ux = ps @ eb # qs" using eb(1) by (meson split_list)
  then have ul: "tx_log E byID ?u = map (Pair ?u) ps @ (?u, eb) # map (Pair ?u) qs"
    by (simp add: tx_log_def ux)
  have "(?t, ?u) \<in> (edge_rel g2)\<^sup>+"
    unfolding g2
  proof (rule log_conflict [where ev = eb and b = "writer ea"])
    show "block_log E byID (order g) =
        (?pre @ map (Pair ?u) ps) @ (?u, eb) # (map (Pair ?u) qs @ ?post)"
      by (simp add: log ul)
    show "'''' \<notin> fst ` set (block_log E byID (order g))"
      by (rule block_log_nonempty_ids [OF ne])
    show "(?t, writer ea) \<in> accesses (?pre @ map (Pair ?u) ps) (claimID eb)"
      using acc by (simp add: accesses_append)
    show "writer eb \<or> reader eb \<and> writer ea" using eb(3) w by auto
  qed (rule neq)
  then show ?thesis by (simp add: g)
qed

lemma buildDependencies_total:
  assumes "set (map tx_Txid (List.map_filter id txs)) \<subseteq> dom byID"
  shows "\<exists>g err. buildDependencies E (newBlockTxGraph txs byID) = Ok (g, err)"
proof -
  let ?g = "newBlockTxGraph txs byID"
  have ord: "order ?g = map tx_Txid (List.map_filter id txs)" "txByID ?g = byID"
    by (simp_all add: newBlockTxGraph_def Let_def)
  then obtain g1 where u: "addUTXODependencies ?g = Ok g1"
    using foldE_utxo_body_total [of "order ?g" ?g] assms by (auto simp: addUTXODependencies_foldE)
  have "set (order g1) \<subseteq> dom (txByID g1)"
    using addUTXODependencies_static [OF u] assms ord by simp
  then obtain g2 where "addClaimDependencies E g1 = Ok g2"
    using foldE_claim_body_total [of "order g1" "initScan g1" E]
    by (auto simp: addClaimDependencies_foldE initScan_def)
  with u show ?thesis by (simp add: buildDependencies_def Let_def)
qed

lemma buildDependencies_order:
  assumes "buildDependencies E (newBlockTxGraph txs byID) = Ok (g, err)"
  shows "order g = map tx_Txid (List.map_filter id txs)"
    and "ready g = filter (\<lambda>t. unresolved g t = 0) (order g)"
    and "completed g = (\<lambda>_. False)" and "attempts g = (\<lambda>_. 0)" and "txByID g = byID"
    and "set (order g) \<subseteq> dom byID"
  by (rule buildDependencies_decomp [OF assms], assumption)+

text \<open>A concrete block of two transactions for the witnesses: the first updates the claim
  \<^verbatim>\<open>bbaa\<close>, the second supports it.\<close>

definition demo_out :: "string \<Rightarrow> Vout" where
  "demo_out script = \<lparr>vout_Value = Fin 0, vout_N = 0, vout_ScriptPubKey =
     \<lparr>spk_Asm = '''', spk_Hex = script, spk_ReqSigs = 0, spk_Type = NonStandard, spk_Addresses = []\<rparr>\<rparr>"

definition demo_in :: "txid \<Rightarrow> Vin" where
  "demo_in p = \<lparr>vin_Coinbase = '''', vin_TxID = p, vin_Vout = 0, vin_ScriptSig = None,
     vin_Sequence = 0, vin_Witness = []\<rparr>"

definition demo_tx :: "txid \<Rightarrow> Vin list \<Rightarrow> Vout list \<Rightarrow> TxRawResult" where
  "demo_tx t ins outs = \<lparr>tx_Txid = t, tx_Hash = t, tx_Version = 1, tx_Size = 0, tx_Vsize = 0,
     tx_Weight = 0, tx_LockTime = 0, tx_Vin = ins, tx_Vout = outs, tx_Hex = '''', tx_BlockHash = '''',
     tx_Confirmations = 0, tx_Time = 0, tx_Blocktime = 0\<rparr>"

definition demo_externals :: externals where
  "demo_externals = \<lparr>sha256 = id, ripemd160 = id, unmarshalPurchase = Inr, extractAddrs = (\<lambda>_ _. []),
     isPayToWitnessPubKeyHash = (\<lambda>_. False), isPayToWitnessScriptHash = (\<lambda>_. False),
     newAddressPubKey = (\<lambda>_ _. Inr ''''), newAddressPubKeyHash = (\<lambda>_ _. Inr ''''),
     newAddressScriptHashFromHash = (\<lambda>_ _. Inr ''''), newAddressWitnessPubKeyHash = (\<lambda>_ _. Inr ''''),
     newAddressWitnessScriptHash = (\<lambda>_ _. Inr '''')\<rparr>"

definition demo_update :: TxRawResult where
  "demo_update = demo_tx ''aa'' [] [demo_out ''b7016102aabb01226d7551'']"

definition demo_support :: TxRawResult where
  "demo_support = demo_tx ''bb'' [] [demo_out ''b6016102aabb6d7551'']"

definition demo_byID :: "txid \<rightharpoonup> TxRawResult" where
  "demo_byID = [''aa'' \<mapsto> demo_update, ''bb'' \<mapsto> demo_support]"

lemma demo_conflict: "conflict demo_externals demo_update demo_support ''bbaa''"
proof -
  have "claimGraphEvents demo_externals demo_update = [\<lparr>claimID = ''bbaa'', writer = True, reader = False\<rparr>]"
    by code_simp
  moreover have "claimGraphEvents demo_externals demo_support = [\<lparr>claimID = ''bbaa'', writer = False, reader = True\<rparr>]"
    by code_simp
  ultimately show ?thesis by (simp add: conflict_def touches_def writes_def)
qed

lemma demo_graph:
  "\<exists>g err. buildDependencies demo_externals (newBlockTxGraph [Some demo_update, Some demo_support] demo_byID) =
     Ok (g, err) \<and> order g = [''aa'', ''bb'']"
proof -
  let ?txs = "[Some demo_update, Some demo_support]"
  have ids: "map tx_Txid (List.map_filter id ?txs) = [''aa'', ''bb'']"
    by (simp add: List.map_filter_def demo_update_def demo_support_def demo_tx_def)
  then obtain g err where g: "buildDependencies demo_externals (newBlockTxGraph ?txs demo_byID) = Ok (g, err)"
    using buildDependencies_total [of ?txs demo_byID demo_externals] by (auto simp: demo_byID_def)
  with buildDependencies_order(1) [OF g] ids show ?thesis by auto
qed

theorem buildDependencies_serializes_conflicts_witness:
  "\<exists>g err. buildDependencies demo_externals (newBlockTxGraph [Some demo_update, Some demo_support] demo_byID) =
     Ok (g, err) \<and> (''aa'', ''bb'') \<in> (edge_rel g)\<^sup>+"
proof -
  obtain g err where g: "buildDependencies demo_externals
      (newBlockTxGraph [Some demo_update, Some demo_support] demo_byID) = Ok (g, err)"
    and o: "order g = [''aa'', ''bb'']"
    using demo_graph by blast
  have "(order g ! 0, order g ! 1) \<in> (edge_rel g)\<^sup>+"
    by (rule buildDependencies_serializes_conflicts [OF g, where tx = demo_update and ux = demo_support
          and c = "''bbaa''"])
      (simp_all add: o demo_byID_def demo_conflict)
  with g o show ?thesis by auto
qed

section \<open>Acyclicity\<close>

lemma acyclic_minimal:
  assumes "acyclic R" and "finite R" and "X \<noteq> {}" and "\<And>x. x \<in> X \<Longrightarrow> \<exists>y\<in>X. (y, x) \<in> R"
  shows False
proof -
  have "wf R" using assms(1,2) by (simp add: finite_acyclic_wf)
  then obtain z where "z \<in> X" "\<And>y. (y, z) \<in> R \<Longrightarrow> y \<notin> X" using assms(3) by (metis wf_eq_minimal ex_in_conv)
  with assms(4) show False by blast
qed

definition earlier :: "txid list \<Rightarrow> (txid \<times> txid) set" where
  "earlier ids = {(p, c). \<exists>i j. i < j \<and> j < length ids \<and> ids ! i = p \<and> ids ! j = c}"

lemma earlierI: "i < j \<Longrightarrow> j < length ids \<Longrightarrow> ids ! i = p \<Longrightarrow> ids ! j = c \<Longrightarrow> (p, c) \<in> earlier ids"
  unfolding earlier_def by blast

lemma acyclic_earlier:
  assumes "distinct ids"
  shows "acyclic (earlier ids)"
proof -
  have "trans (earlier ids)"
  proof (rule transI)
    fix x y z assume "(x, y) \<in> earlier ids" "(y, z) \<in> earlier ids"
    then obtain i j k l where "i < j" "j < length ids" "ids ! i = x" "ids ! j = y"
      "k < l" "l < length ids" "ids ! k = y" "ids ! l = z"
      unfolding earlier_def by blast
    moreover from this have "j = k"
      using assms nth_eq_iff_index_eq [of ids j k] by simp
    ultimately show "(x, z) \<in> earlier ids" by (intro earlierI [of i l]) simp_all
  qed
  moreover have "irrefl (earlier ids)"
    using assms by (auto simp: irrefl_def earlier_def nth_eq_iff_index_eq)
  ultimately show ?thesis by (simp add: acyclic_irrefl)
qed

lemma block_log_append: "block_log E byID (xs @ ys) = block_log E byID xs @ block_log E byID ys"
  by (simp add: block_log_def)

lemma earlier_snoc: "p \<in> set ids \<Longrightarrow> (p, t) \<in> earlier (ids @ [t])"
proof -
  assume "p \<in> set ids"
  then obtain i where "i < length ids" "ids ! i = p" by (auto simp: in_set_conv_nth)
  then show ?thesis by (intro earlierI [of i "length ids"]) (simp_all add: nth_append)
qed

lemma earlier_mono: "earlier ids \<subseteq> earlier (ids @ ys)"
proof
  fix z assume "z \<in> earlier ids"
  then obtain i j where "i < j" "j < length ids" "z = (ids ! i, ids ! j)"
    unfolding earlier_def by blast
  then show "z \<in> earlier (ids @ ys)" by (auto intro!: earlierI [of i j] simp: nth_append)
qed

lemma log_before_append:
  "log_before (xs @ ys) \<subseteq> log_before xs \<union> {(p, c). p \<noteq> c \<and> p \<in> fst ` set (xs @ ys) \<and> c \<in> fst ` set ys}"
proof
  fix z assume "z \<in> log_before (xs @ ys)"
  then obtain p c us vs where z: "z = (p, c)" "p \<noteq> c" and e: "xs @ ys = us @ vs"
    and pc: "p \<in> fst ` set us" "c \<in> fst ` set vs"
    unfolding log_before_def by blast
  from e obtain ws where "xs = us @ ws \<and> ws @ ys = vs \<or> xs @ ws = us \<and> ys = ws @ vs"
    by (auto simp: append_eq_append_conv2)
  then show "z \<in> log_before xs \<union> {(p, c). p \<noteq> c \<and> p \<in> fst ` set (xs @ ys) \<and> c \<in> fst ` set ys}"
  proof (elim disjE conjE)
    assume "xs = us @ ws" "ws @ ys = vs"
    then have "c \<in> fst ` set ws \<or> c \<in> fst ` set ys" "p \<in> fst ` set (xs @ ys)"
      using pc by (metis image_Un Un_iff set_append)+
    then show ?thesis
      using z pc \<open>xs = us @ ws\<close> unfolding log_before_def by blast
  next
    assume "xs @ ws = us" "ys = ws @ vs"
    then have "c \<in> fst ` set ys" "p \<in> fst ` set (xs @ ys)"
      using pc by (metis append.assoc image_Un Un_iff set_append)+
    then show ?thesis using z by blast
  qed
qed

lemma log_before_earlier: "log_before (block_log E byID ids) \<subseteq> earlier ids"
proof (induction ids rule: rev_induct)
  case Nil
  then show ?case by (auto simp: log_before_def block_log_def)
next
  case (snoc t ids)
  have sub: "fst ` set (block_log E byID ids @ tx_log E byID t) \<subseteq> insert t (set ids)"
    using fst_set_block_log [of E byID ids] fst_set_tx_log [of E byID t]
    unfolding set_append image_Un by blast
  have "(p, c) \<in> earlier (ids @ [t])" if "p \<noteq> c"
    "p \<in> fst ` set (block_log E byID ids @ tx_log E byID t)" "c \<in> fst ` set (tx_log E byID t)" for p c
  proof -
    have "c = t" using that(3) fst_set_tx_log [of E byID t] by blast
    moreover from this have "p \<in> set ids" using that(1,2) sub by blast
    ultimately show ?thesis by (simp add: earlier_snoc)
  qed
  then have "{(p, c). p \<noteq> c \<and> p \<in> fst ` set (block_log E byID ids @ tx_log E byID t) \<and>
      c \<in> fst ` set (tx_log E byID t)} \<subseteq> earlier (ids @ [t])"
    by blast
  moreover have "block_log E byID (ids @ [t]) = block_log E byID ids @ tx_log E byID t"
    by (simp add: block_log_def)
  ultimately show ?case
    using log_before_append [of "block_log E byID ids" "tx_log E byID t"] snoc.IH earlier_mono [of ids "[t]"]
    by (metis (no_types, lifting) Un_subset_iff order_trans)
qed

text \<open>C30: A block without duplicate transactions whose inputs only spend outputs of earlier transactions
  of the block, which consensus requires, has an acyclic dependency graph: the claim edges never
  close a cycle.\<close>

theorem buildDependencies_acyclic:
  assumes "buildDependencies E (newBlockTxGraph txs byID) = Ok (g, err)"
    and "'''' \<notin> dom byID" and "distinct (order g)"
    and "\<forall>(p, c)\<in>spends byID. (p, c) \<in> earlier (order g)"
  shows "acyclic (edge_rel g)"
proof -
  have "edge_rel g \<subseteq> earlier (order g)"
    using edge_rel_buildDependencies(2) [OF assms(1,2)] log_before_earlier [of E byID "order g"] assms(4)
    by blast
  with acyclic_earlier [OF assms(3)] show ?thesis by (rule acyclic_subset)
qed

theorem buildDependencies_acyclic_witness:
  "\<exists>g err. buildDependencies demo_externals (newBlockTxGraph [Some demo_update, Some demo_support] demo_byID) =
     Ok (g, err) \<and> acyclic (edge_rel g)"
proof -
  obtain g err where g: "buildDependencies demo_externals
      (newBlockTxGraph [Some demo_update, Some demo_support] demo_byID) = Ok (g, err)"
    and o: "order g = [''aa'', ''bb'']"
    using demo_graph by blast
  have "spends demo_byID = {}"
    by (auto simp: spends_def demo_byID_def demo_update_def demo_support_def demo_tx_def)
  then have "acyclic (edge_rel g)"
    by (intro buildDependencies_acyclic [OF g]) (auto simp: o demo_byID_def)
  with g show ?thesis by blast
qed

text \<open>The counters of the finished graph are exact: a transaction is initially ready if and only
  if no edge of the graph leads to it, every other one waits for as many edges as lead to it, and
  the list of outgoing edges of a transaction holds each of its edges once.\<close>

theorem buildDependencies_counts:
  assumes "buildDependencies E (newBlockTxGraph txs byID) = Ok (g, err)" and "'''' \<notin> dom byID"
  shows "unresolved g t = int (card (incoming g t)) \<and>
    (t \<in> set (ready g) \<longleftrightarrow> t \<in> set (order g) \<and> incoming g t = {}) \<and>
    distinct (children g t) \<and> set (children g t) = {e \<in> edgeSet g. parent e = t}"
  using buildDependencies_wf [OF assms] buildDependencies_order(2) [OF assms(1)]
  by (auto simp: wf_graph_def)

theorem buildDependencies_counts_witness:
  "\<exists>g err. buildDependencies demo_externals (newBlockTxGraph [Some demo_update, Some demo_support] demo_byID) =
     Ok (g, err) \<and> unresolved g ''bb'' = int (card (incoming g ''bb''))"
proof -
  obtain g err where g: "buildDependencies demo_externals
      (newBlockTxGraph [Some demo_update, Some demo_support] demo_byID) = Ok (g, err)"
    using demo_graph by blast
  with buildDependencies_counts [OF g] show ?thesis by (auto simp: demo_byID_def)
qed

end
