(* ===== verification/Systems.thy ===== *)
theory Systems
  imports Main
begin

text \<open>
  The interface between a step relation and what is proved of its runs: a \<open>step_system\<close> promises an
  invariant of its initial state and of its steps, a \<open>ranked_system\<close> in addition a rank that every
  step lowers. The lemmas about whole runs are proved once here and used through the
  interpretations on the model's step relations.
\<close>

locale step_system =
  fixes step :: "'s \<Rightarrow> 's \<Rightarrow> bool" and init :: 's and inv :: "'s \<Rightarrow> bool"
  assumes inv_init: "inv init"
    and inv_step: "inv s \<Longrightarrow> step s t \<Longrightarrow> inv t"
begin

lemma reachable_inv: "step\<^sup>*\<^sup>* init s \<Longrightarrow> inv s"
  by (induction rule: rtranclp_induct) (auto intro: inv_init inv_step)

lemma last_step:
  assumes "step\<^sup>*\<^sup>* init s" and "s \<noteq> init"
  obtains r where "inv r" "step r s"
  using assms by (cases rule: rtranclp.cases) (auto intro: reachable_inv)

end

locale ranked_system = step_system +
  fixes rank :: "'s \<Rightarrow> nat"
  assumes rank_step: "inv s \<Longrightarrow> step s t \<Longrightarrow> rank t < rank s"
begin

lemma run_bound: "(step ^^ n) init s \<Longrightarrow> rank s + n \<le> rank init"
proof (induction n arbitrary: s)
  case (Suc n)
  then obtain r where r: "(step ^^ n) init r" "step r s" by auto
  then have "inv r" using reachable_inv relpowp_imp_rtranclp by metis
  with r Suc.IH rank_step show ?case by fastforce
qed simp

lemma no_infinite_run:
  assumes "f 0 = init" and "\<And>n. step (f n) (f (Suc n))"
  shows False
proof -
  have "(step ^^ n) init (f n)" for n
    using assms by (induction n) auto
  from run_bound [OF this, of "Suc (rank init)"] show False by simp
qed

end

end
