(* ===== verification/Scheduler_Spec.thy ===== *)
theory Scheduler_Spec
  imports Scheduler TxGraph_Spec Systems
begin

text \<open>
  What the transaction scheduler guarantees for every interleaving of worker answers, retry timers
  and stop signals: the invariant of its loop, that a transaction is only handed to a worker when
  everything it depends on is finished, that success means every transaction was processed exactly
  once, that it cannot stall on an acyclic graph, and that its loop ends.
\<close>

section \<open>The invariant\<close>

text \<open>The graphs the scheduler is started with: those \<^verbatim>\<open>buildDependencies\<close> finishes.\<close>

definition sched_start :: "blockTxGraph \<Rightarrow> bool" where
  "sched_start g \<longleftrightarrow>
     wf_graph g \<and> distinct (order g) \<and> dom (txByID g) \<subseteq> set (order g) \<and>
     (\<forall>t\<in>set (order g). \<exists>tx. txByID g t = Some tx \<and> tx_Txid tx = t) \<and>
     ready g = filter (\<lambda>t. unresolved g t = 0) (order g) \<and>
     completed g = (\<lambda>_. False) \<and> attempts g = (\<lambda>_. 0)"

definition job_id :: "txToProcess \<Rightarrow> txid" where
  "job_id j = tx_Txid (the (job_tx j))"

text \<open>The transactions that are neither finished nor waiting for another one.\<close>

definition pool :: "schedState \<Rightarrow> txid list" where
  "pool s = ready (graph s) @ map job_id (inflight s) @ retryTimers s"

definition pending_edges :: "blockTxGraph \<Rightarrow> (txid \<Rightarrow> bool) \<Rightarrow> txid \<Rightarrow> blockTxDependency set" where
  "pending_edges g done c = {e \<in> incoming g c. \<not> done (parent e)}"

definition done_set :: "schedState \<Rightarrow> txid set" where
  "done_set s = {t. completed (graph s) t}"

definition same_graph :: "blockTxGraph \<Rightarrow> blockTxGraph \<Rightarrow> bool" where
  "same_graph g0 g \<longleftrightarrow>
     order g = order g0 \<and> txByID g = txByID g0 \<and> edgeSet g = edgeSet g0 \<and> children g = children g0"

definition sched_inv :: "schedConf \<Rightarrow> blockTxGraph \<Rightarrow> schedState \<Rightarrow> bool" where
  "sched_inv conf g0 s \<longleftrightarrow>
     same_graph g0 (graph s) \<and>
     done_set s \<subseteq> set (order g0) \<and>
     completedCount s = int (card (done_set s)) \<and>
     active s = int (length (inflight s)) \<and> pendingRetries s = int (length (retryTimers s)) \<and>
     active s \<le> workerCount conf g0 \<and>
     (\<forall>c. unresolved (graph s) c = int (card (pending_edges g0 (completed (graph s)) c))) \<and>
     (\<forall>t\<in>done_set s. unresolved (graph s) t = 0) \<and>
     distinct (pool s) \<and>
     set (pool s) \<subseteq> {t \<in> set (order g0). t \<notin> done_set s \<and> unresolved (graph s) t = 0} \<and>
     (terminalErr s = None \<longrightarrow>
        set (pool s) = {t \<in> set (order g0). t \<notin> done_set s \<and> unresolved (graph s) t = 0}) \<and>
     (\<forall>j\<in>set (inflight s). job_tx j = txByID g0 (job_id j) \<and> job_failcount j = attempts (graph s) (job_id j)) \<and>
     (\<forall>t. 0 \<le> attempts (graph s) t) \<and>
     (terminalErr s = None \<longrightarrow> (\<forall>t. attempts (graph s) t \<le> max 0 (MaxFailures conf)))"

text \<open>Introduction and destruction of the invariant, clause by clause.\<close>

lemma sched_invI:
  assumes "same_graph g0 (graph s)" "done_set s \<subseteq> set (order g0)"
    "completedCount s = int (card (done_set s))"
    "active s = int (length (inflight s))" "pendingRetries s = int (length (retryTimers s))"
    "active s \<le> workerCount conf g0"
    "\<And>c. unresolved (graph s) c = int (card (pending_edges g0 (completed (graph s)) c))"
    "\<And>t. t \<in> done_set s \<Longrightarrow> unresolved (graph s) t = 0"
    "distinct (pool s)"
    "set (pool s) \<subseteq> {t \<in> set (order g0). t \<notin> done_set s \<and> unresolved (graph s) t = 0}"
    "terminalErr s = None \<Longrightarrow>
      set (pool s) = {t \<in> set (order g0). t \<notin> done_set s \<and> unresolved (graph s) t = 0}"
    "\<And>j. j \<in> set (inflight s) \<Longrightarrow> job_tx j = txByID g0 (job_id j) \<and>
      job_failcount j = attempts (graph s) (job_id j)"
    "\<And>t. 0 \<le> attempts (graph s) t"
    "\<And>t. terminalErr s = None \<Longrightarrow> attempts (graph s) t \<le> max 0 (MaxFailures conf)"
  shows "sched_inv conf g0 s"
  unfolding sched_inv_def using assms by blast

lemma sched_invD:
  assumes "sched_inv conf g0 s"
  shows "same_graph g0 (graph s)" "done_set s \<subseteq> set (order g0)"
    "completedCount s = int (card (done_set s))"
    "active s = int (length (inflight s))" "pendingRetries s = int (length (retryTimers s))"
    "active s \<le> workerCount conf g0"
    "unresolved (graph s) c = int (card (pending_edges g0 (completed (graph s)) c))"
    "t \<in> done_set s \<Longrightarrow> unresolved (graph s) t = 0"
    "distinct (pool s)"
    "set (pool s) \<subseteq> {t \<in> set (order g0). t \<notin> done_set s \<and> unresolved (graph s) t = 0}"
    "terminalErr s = None \<Longrightarrow>
      set (pool s) = {t \<in> set (order g0). t \<notin> done_set s \<and> unresolved (graph s) t = 0}"
    "j \<in> set (inflight s) \<Longrightarrow> job_tx j = txByID g0 (job_id j)"
    "j \<in> set (inflight s) \<Longrightarrow> job_failcount j = attempts (graph s) (job_id j)"
    "0 \<le> attempts (graph s) t"
    "terminalErr s = None \<Longrightarrow> attempts (graph s) t \<le> max 0 (MaxFailures conf)"
  using assms unfolding sched_inv_def by blast+

lemma sched_inv_init:
  assumes "sched_start g"
  shows "sched_inv conf g (initSched g)"
proof -
  have "unresolved g c = int (card (pending_edges g (\<lambda>_. False) c))" for c
    using assms by (simp add: sched_start_def wf_graph_def pending_edges_def)
  moreover have "0 \<le> workerCount conf g" by (simp add: workerCount_def Let_def)
  ultimately show ?thesis
    using assms by (auto simp: sched_inv_def initSched_def sched_start_def same_graph_def done_set_def pool_def)
qed

section \<open>Dispatching\<close>

definition mk_job :: "schedConf \<Rightarrow> blockTxGraph \<Rightarrow> txid \<Rightarrow> txToProcess" where
  "mk_job conf g t = \<lparr>job_tx = txByID g t, job_blockTime = blockTime conf,
     job_blockHeight = blockHeight conf, job_failcount = attempts g t\<rparr>"

lemma mk_job_ready [simp]: "mk_job conf (g\<lparr>ready := r\<rparr>) = mk_job conf g"
  by (simp add: mk_job_def fun_eq_iff)

lemma dispatchLoop_spec:
  assumes "dispatchLoop conf polls sends cap g sent = (sent', g', err)"
  shows "\<exists>k k'. k \<le> k' \<and> k \<le> cap \<and> k \<le> length (ready g) \<and> (err = None \<longrightarrow> k' = k) \<and>
    sent' = sent @ map (mk_job conf g) (take k (ready g)) \<and> g' = g\<lparr>ready := drop k' (ready g)\<rparr>"
  using assms
proof (induction cap arbitrary: g sent)
  case 0
  then show ?case by (auto intro!: exI [of _ 0])
next
  case (Suc cap)
  show ?case
  proof (cases "ready g")
    case Nil
    then show ?thesis using Suc.prems by (auto intro!: exI [of _ 0])
  next
    case (Cons t rest)
    let ?g = "g\<lparr>ready := rest\<rparr>"
    consider "polls (length sent)" | "\<not> polls (length sent)" "sends (length sent)"
      | "\<not> polls (length sent)" "\<not> sends (length sent)" by blast
    then show ?thesis
    proof cases
      case 1
      then show ?thesis using Suc.prems Cons by (auto intro!: exI [of _ 0])
    next
      case 2
      then show ?thesis using Suc.prems Cons by (auto simp: Let_def intro!: exI [of _ 0] exI [of _ 1])
    next
      case 3
      with Suc.prems Cons
      have "dispatchLoop conf polls sends cap ?g (sent @ [mk_job conf g t]) = (sent', g', err)"
        by (simp add: Let_def mk_job_def)
      from Suc.IH [OF this] obtain k k' where
        "k \<le> k'" "k \<le> cap" "k \<le> length rest" "err = None \<longrightarrow> k' = k"
        "sent' = (sent @ [mk_job conf g t]) @ map (mk_job conf g) (take k rest)"
        "g' = g\<lparr>ready := drop k' rest\<rparr>"
        by auto
      then show ?thesis using Cons by (intro exI [of _ "Suc k"] exI [of _ "Suc k'"]) auto
    qed
  qed
qed

text \<open>The phase moves a prefix of the ready list to the workers; only a stop signal can drop an entry.\<close>

lemma dispatchPhase_spec:
  assumes "terminalErr s = None"
  obtains k k' where "k \<le> k'" "int k \<le> max 0 (workerCount conf (graph s) - active s)"
    "k \<le> length (ready (graph s))"
    "terminalErr (dispatchPhase conf polls sends s) = None \<longrightarrow> k' = k"
    "dispatchPhase conf polls sends s =
       s\<lparr>graph := (graph s)\<lparr>ready := drop k' (ready (graph s))\<rparr>,
         inflight := inflight s @ map (mk_job conf (graph s)) (take k (ready (graph s))),
         terminalErr := terminalErr (dispatchPhase conf polls sends s),
         active := active s + int k\<rparr>"
proof -
  let ?cap = "nat (workerCount conf (graph s) - active s)"
  obtain sent g err where d: "dispatchLoop conf polls sends ?cap (graph s) [] = (sent, g, err)"
    by (metis prod_cases3)
  from dispatchLoop_spec [OF d] obtain k k' where
    "k \<le> k'" "k \<le> ?cap" "k \<le> length (ready (graph s))" "err = None \<longrightarrow> k' = k"
    "sent = map (mk_job conf (graph s)) (take k (ready (graph s)))"
    "g = (graph s)\<lparr>ready := drop k' (ready (graph s))\<rparr>"
    by auto
  moreover from this have "int k \<le> max 0 (workerCount conf (graph s) - active s)" by linarith
  ultimately show thesis
    using d assms by (intro that [of k k']) (auto simp: dispatchPhase_def dispatchReadyTransactions_def)
qed

lemma workerCount_same: "same_graph g0 g \<Longrightarrow> workerCount conf g = workerCount conf g0"
  by (simp add: workerCount_def same_graph_def)

lemma dispatchPhase_inv:
  assumes inv: "sched_inv conf g0 s" and start: "sched_start g0"
  shows "sched_inv conf g0 (dispatchPhase conf polls sends s)"
proof (cases "terminalErr s = None")
  case False
  then show ?thesis using inv by (auto simp: dispatchPhase_def)
next
  case True
  let ?s = "dispatchPhase conf polls sends s" and ?r = "ready (graph s)"
  obtain k k' where k: "k \<le> k'" "int k \<le> max 0 (workerCount conf (graph s) - active s)" "k \<le> length ?r"
    and none: "terminalErr ?s = None \<longrightarrow> k' = k"
    and s: "?s = s\<lparr>graph := (graph s)\<lparr>ready := drop k' ?r\<rparr>,
         inflight := inflight s @ map (mk_job conf (graph s)) (take k ?r),
         terminalErr := terminalErr ?s, active := active s + int k\<rparr>"
    by (rule dispatchPhase_spec [OF True, of conf polls sends])
  define err where "err = terminalErr ?s"
  have ready_ok: "set ?r \<subseteq> set (order g0)" "distinct (pool s)"
    using inv by (auto simp: sched_inv_def pool_def)
  have ids: "job_id (mk_job conf (graph s) t) = t" if "t \<in> set ?r" for t
    using that ready_ok start inv by (force simp: job_id_def mk_job_def sched_start_def sched_inv_def same_graph_def)
  then have map_ids: "map (job_id \<circ> mk_job conf (graph s)) (take k ?r) = take k ?r"
    by (intro map_idI) (auto dest: in_set_takeD)
  have pool: "pool ?s = drop k' ?r @ (map job_id (inflight s) @ take k ?r) @ retryTimers s"
    using map_ids by (subst s) (simp add: pool_def)
  have dist: "distinct (pool ?s)"
    using ready_ok(2) k(1) set_take_disj_set_drop_if_distinct [of ?r k k']
    unfolding pool by (auto simp: pool_def dest: in_set_takeD in_set_dropD)
  have sub: "set (pool ?s) \<subseteq> set (pool s)"
    unfolding pool by (auto simp: pool_def dest: in_set_takeD in_set_dropD)
  have eq: "set (pool ?s) = set (pool s)" if "terminalErr ?s = None"
  proof -
    have "set (take k ?r) \<union> set (drop k ?r) = set ?r"
      by (metis append_take_drop_id set_append)
    with none that show ?thesis unfolding pool by (auto simp: pool_def)
  qed
  have jobs: "\<forall>j\<in>set (inflight ?s). job_tx j = txByID g0 (job_id j) \<and>
      job_failcount j = attempts (graph ?s) (job_id j)"
    using inv ids by (subst s, subst (2) s) (auto simp: sched_inv_def mk_job_def same_graph_def
        job_id_def dest!: in_set_takeD)
  have act: "active ?s \<le> workerCount conf g0"
    using inv k(2) by (subst s) (auto simp: sched_inv_def workerCount_same)
  have rest: "same_graph g0 (graph ?s)" "done_set ?s = done_set s" "completedCount ?s = completedCount s"
    "active ?s = int (length (inflight ?s))" "pendingRetries ?s = int (length (retryTimers ?s))"
    "unresolved (graph ?s) = unresolved (graph s)" "completed (graph ?s) = completed (graph s)"
    "attempts (graph ?s) = attempts (graph s)"
    using inv k(3) by (subst s; (subst s)?; simp add: sched_inv_def same_graph_def done_set_def)+
  show ?thesis
    using inv dist sub eq jobs act unfolding sched_inv_def rest(2,3,6,7,8)
    using rest(1,4,5) True by auto
qed
section \<open>Releasing children\<close>

definition edges_to :: "blockTxDependency list \<Rightarrow> txid \<Rightarrow> int" where
  "edges_to es c = int (length (filter (\<lambda>e. child e = c) es))"

lemma edges_to_simps [simp]:
  "edges_to [] c = 0" "edges_to (e # es) c = (if child e = c then 1 else 0) + edges_to es c"
  by (simp_all add: edges_to_def)

lemma edges_to_nonneg [simp]: "0 \<le> edges_to es c"
  by (simp add: edges_to_def)

text \<open>The loop over the edges appends a child exactly when its last open edge is released.\<close>

lemma fold_releaseEdge:
  assumes "\<forall>c. edges_to es c \<le> unresolved g c"
  shows "\<exists>new. fold releaseEdge es g =
      g\<lparr>unresolved := (\<lambda>c. unresolved g c - edges_to es c), ready := ready g @ new\<rparr> \<and>
    distinct new \<and> set new = {c. 0 < edges_to es c \<and> unresolved g c = edges_to es c}"
  using assms
proof (induction es arbitrary: g)
  case Nil
  then show ?case by (auto intro!: exI [of _ "[]"])
next
  case (Cons e es)
  let ?c = "child e" and ?u = "unresolved g"
  let ?g = "releaseEdge e g"
  have u: "unresolved ?g = ?u(?c := ?u ?c - 1)"
    by (simp add: releaseEdge_def Let_def)
  have r: "ready ?g = ready g @ (if ?u ?c = 1 then [?c] else [])"
    by (simp add: releaseEdge_def Let_def)
  have pre: "edges_to es d \<le> unresolved ?g d" for d
    using Cons.prems [rule_format, of d] by (auto simp: u)
  then obtain new where f: "fold releaseEdge es ?g =
      ?g\<lparr>unresolved := (\<lambda>c. unresolved ?g c - edges_to es c), ready := ready ?g @ new\<rparr>"
    and new: "distinct new" "set new = {c. 0 < edges_to es c \<and> unresolved ?g c = edges_to es c}"
    using Cons.IH by blast
  let ?new = "(if ?u ?c = 1 then [?c] else []) @ new"
  have one: "edges_to es ?c = 0" if "?u ?c = 1"
    using pre [of ?c] that edges_to_nonneg [of es ?c] by (simp add: u)
  have mem: "d \<in> set ?new \<longleftrightarrow> 0 < edges_to (e # es) d \<and> ?u d = edges_to (e # es) d" for d
    using one edges_to_nonneg [of es d] pre [of d] by (auto simp: new(2) u)
  have "distinct ?new" using new one by auto
  moreover have "fold releaseEdge (e # es) g =
      g\<lparr>unresolved := (\<lambda>c. ?u c - edges_to (e # es) c), ready := ready g @ ?new\<rparr>"
    by (simp add: f r u) (simp add: releaseEdge_def Let_def fun_eq_iff)
  ultimately show ?case using mem by blast
qed

lemma edges_to_children:
  assumes "wf_graph g"
  shows "edges_to (children g t) c = int (card {e \<in> incoming g c. parent e = t})"
proof -
  have "length (filter (\<lambda>e. child e = c) (children g t)) = card (set (filter (\<lambda>e. child e = c) (children g t)))"
    using wf_graphD(5) [OF assms, of t] distinct_card [OF distinct_filter, of "children g t"] by metis
  moreover have "set (filter (\<lambda>e. child e = c) (children g t)) = {e \<in> incoming g c. parent e = t}"
    using wf_graphD(6) [OF assms, of t] by (auto simp: incoming_def)
  ultimately show ?thesis by (simp add: edges_to_def)
qed

lemma pending_edges_complete:
  assumes "finite (edgeSet g)" and "\<not> d t"
  shows "int (card (pending_edges g (d(t := True)) c)) =
    int (card (pending_edges g d c)) - int (card {e \<in> incoming g c. parent e = t})"
proof -
  have "pending_edges g d c = pending_edges g (d(t := True)) c \<union> {e \<in> incoming g c. parent e = t}"
    using assms(2) by (auto simp: pending_edges_def)
  moreover have "pending_edges g (d(t := True)) c \<inter> {e \<in> incoming g c. parent e = t} = {}"
    by (auto simp: pending_edges_def)
  moreover have "finite (incoming g c)" using assms(1) by simp
  ultimately show ?thesis
    by (simp add: card_Un_disjoint pending_edges_def)
qed

lemma edges_to_le_unresolved:
  assumes "wf_graph g" and "\<not> d t"
  shows "edges_to (children g t) c \<le> int (card (pending_edges g d c))"
  using pending_edges_complete [where d = d, OF wf_graphD(1) [OF assms(1)] assms(2), of c]
    edges_to_children [OF assms(1), of t c]
  by linarith

section \<open>The steps keep the invariant\<close>

lemma remove_nth_in: "x \<in> set (remove_nth i xs) \<Longrightarrow> x \<in> set xs"
  by (auto simp: remove_nth_def dest: in_set_takeD in_set_dropD)

lemma set_split_nth: "i < length xs \<Longrightarrow> set xs = insert (xs ! i) (set (remove_nth i xs))"
  unfolding remove_nth_def by (subst id_take_nth_drop [of i xs]) auto

lemma mset_remove_nth: "i < length xs \<Longrightarrow> mset xs = add_mset (xs ! i) (mset (remove_nth i xs))"
  unfolding remove_nth_def by (subst (1) id_take_nth_drop [of i xs]) auto

lemma length_remove_nth [simp]: "i < length xs \<Longrightarrow> length (remove_nth i xs) = length xs - 1"
  by (simp add: remove_nth_def)

lemma map_remove_nth: "map f (remove_nth i xs) = remove_nth i (map f xs)"
  by (simp add: remove_nth_def take_map drop_map)

lemma distinct_remove_nth:
  assumes "distinct xs" and "i < length xs"
  shows "distinct (remove_nth i xs)" and "xs ! i \<notin> set (remove_nth i xs)"
proof -
  have "distinct (xs ! i # remove_nth i xs)"
    using mset_remove_nth [OF assms(2)] assms(1)
    by (metis mset.simps(2) mset_eq_imp_distinct_iff)
  then show "distinct (remove_nth i xs)" "xs ! i \<notin> set (remove_nth i xs)" by auto
qed

text \<open>Taking a job from the workers takes its transaction out of the pool.\<close>

lemma pool_remove_inflight:
  assumes "sched_inv conf g0 s" and "i < length (inflight s)"
  shows "distinct (pool (s\<lparr>inflight := remove_nth i (inflight s)\<rparr>))"
    and "set (pool (s\<lparr>inflight := remove_nth i (inflight s)\<rparr>)) = set (pool s) - {job_id (inflight s ! i)}"
proof -
  let ?ids = "map job_id (inflight s)" and ?t = "job_id (inflight s ! i)"
  have d: "distinct (ready (graph s) @ ?ids @ retryTimers s)"
    using assms(1) by (simp add: sched_inv_def pool_def)
  have i: "i < length ?ids" "?ids ! i = ?t" using assms(2) by simp_all
  have r: "distinct (remove_nth i ?ids)" "?t \<notin> set (remove_nth i ?ids)" "set ?ids = insert ?t (set (remove_nth i ?ids))"
    using distinct_remove_nth [of ?ids i] set_split_nth [of i ?ids] d i by auto
  have p: "pool (s\<lparr>inflight := remove_nth i (inflight s)\<rparr>) = ready (graph s) @ remove_nth i ?ids @ retryTimers s"
    by (simp add: pool_def map_remove_nth)
  show "distinct (pool (s\<lparr>inflight := remove_nth i (inflight s)\<rparr>))"
    using d r(1) remove_nth_in unfolding p by fastforce
  have "?t \<notin> set (ready (graph s))" "?t \<notin> set (retryTimers s)"
    using d r(3) by auto
  then show "set (pool (s\<lparr>inflight := remove_nth i (inflight s)\<rparr>)) = set (pool s) - {?t}"
    unfolding p pool_def [of s] set_append r(3) using r(2) by blast
qed

lemma sched_inv_drain:
  assumes inv: "sched_inv conf g0 s" and i: "i < length (inflight s)" and "terminalErr s \<noteq> None"
  shows "sched_inv conf g0 (s\<lparr>inflight := remove_nth i (inflight s), active := active s - 1\<rparr>)"
proof -
  let ?s = "s\<lparr>inflight := remove_nth i (inflight s), active := active s - 1\<rparr>"
  have "pool ?s = pool (s\<lparr>inflight := remove_nth i (inflight s)\<rparr>)" by (simp add: pool_def)
  with pool_remove_inflight [OF inv i]
  have "distinct (pool ?s)" "set (pool ?s) \<subseteq> set (pool s)" by auto
  moreover have "done_set ?s = done_set s" by (simp add: done_set_def)
  ultimately show ?thesis
    using inv i assms(3) by (auto simp: sched_inv_def dest: remove_nth_in)
qed

lemma sched_inv_terminal:
  "sched_inv conf g0 s \<Longrightarrow> sched_inv conf g0 (s\<lparr>terminalErr := Some e\<rparr>)"
  by (auto simp: sched_inv_def pool_def done_set_def)

lemma sched_inv_looping: "sched_inv conf g0 (s\<lparr>looping := b\<rparr>) = sched_inv conf g0 s"
  by (simp add: sched_inv_def pool_def done_set_def)

lemma sched_inv_retry:
  assumes inv: "sched_inv conf g0 s" and i: "i < length (retryTimers s)"
  shows "sched_inv conf g0 (onRetryReady (retryTimers s ! i) (s\<lparr>retryTimers := remove_nth i (retryTimers s)\<rparr>))"
proof -
  let ?s = "onRetryReady (retryTimers s ! i) (s\<lparr>retryTimers := remove_nth i (retryTimers s)\<rparr>)"
  have "mset (pool ?s) = mset (pool s)"
    using mset_remove_nth [OF i] by (simp add: pool_def onRetryReady_def)
  then have pool: "distinct (pool ?s) = distinct (pool s)" "set (pool ?s) = set (pool s)"
    by (metis mset_eq_imp_distinct_iff, metis mset_eq_setD)
  have dn: "done_set ?s = done_set s" by (simp add: done_set_def onRetryReady_def)
  have pr: "pendingRetries ?s = int (length (retryTimers ?s))"
    using inv i by (simp add: sched_inv_def onRetryReady_def of_nat_diff)
  have sg: "same_graph g0 (graph ?s)"
    using sched_invD(1) [OF inv] by (simp add: onRetryReady_def same_graph_def)
  have eqs: "unresolved (graph ?s) = unresolved (graph s)" "completed (graph ?s) = completed (graph s)"
    "attempts (graph ?s) = attempts (graph s)" "inflight ?s = inflight s"
    "completedCount ?s = completedCount s" "active ?s = active s" "terminalErr ?s = terminalErr s"
    by (simp_all add: onRetryReady_def)
  show ?thesis
    using inv sg pr unfolding sched_inv_def eqs pool dn by blast
qed

text \<open>A finished transaction: its edges are released and it joins the completed ones.\<close>

lemma sched_inv_complete:
  assumes inv: "sched_inv conf g0 s" and start: "sched_start g0" and i: "i < length (inflight s)"
    and none: "terminalErr s = None" and t: "t = job_id (inflight s ! i)"
  shows "sched_inv conf g0
    (s\<lparr>inflight := remove_nth i (inflight s), active := active s - 1, completedCount := completedCount s + 1,
       graph := releaseChildren t ((graph s)\<lparr>completed := (completed (graph s))(t := True)\<rparr>)\<rparr>)"
proof -
  let ?d = "completed (graph s)" and ?u = "unresolved (graph s)"
  let ?g1 = "(graph s)\<lparr>completed := ?d(t := True)\<rparr>"
  let ?es = "children g0 t"
  have wf: "wf_graph g0" using start by (simp add: sched_start_def)
  have tp: "t \<in> set (pool s)" using i t by (auto simp: pool_def)
  have t_ok: "t \<in> set (order g0)" "\<not> ?d t" "?u t = 0"
    using inv tp by (auto simp: sched_inv_def done_set_def)
  have u: "?u c = int (card (pending_edges g0 ?d c))" for c using inv by (simp add: sched_inv_def)
  have le: "\<forall>c. edges_to ?es c \<le> ?u c"
    using edges_to_le_unresolved [where d = "?d", OF wf t_ok(2)] u by simp
  have ch: "children (graph s) = children g0" using inv by (simp add: sched_inv_def same_graph_def)
  obtain new where rel: "releaseChildren t ?g1 =
      ?g1\<lparr>unresolved := (\<lambda>c. ?u c - edges_to ?es c), ready := ready (graph s) @ new\<rparr>"
    and new: "distinct new" "set new = {c. 0 < edges_to ?es c \<and> ?u c = edges_to ?es c}"
    using fold_releaseEdge [of ?es ?g1] le by (auto simp: releaseChildren_def ch)
  define s' where "s' = s\<lparr>inflight := remove_nth i (inflight s), active := active s - 1,
     completedCount := completedCount s + 1, graph := releaseChildren t ?g1\<rparr>"
  have u': "unresolved (graph s') c = int (card (pending_edges g0 (?d(t := True)) c))" for c
    using pending_edges_complete [where d = "?d", OF wf_graphD(1) [OF wf] t_ok(2), of c]
    by (simp add: s'_def rel u edges_to_children [OF wf])
  have done': "done_set s' = insert t (done_set s)" by (auto simp: s'_def rel done_set_def)
  have pool': "mset (pool s') = mset (pool (s\<lparr>inflight := remove_nth i (inflight s)\<rparr>)) + mset new"
    by (simp add: s'_def rel pool_def)
  note rem = pool_remove_inflight [OF inv i, folded t]
  have old: "set (pool s) = {c \<in> set (order g0). c \<notin> done_set s \<and> ?u c = 0}"
    using inv none by (simp add: sched_inv_def)
  have et: "edges_to ?es t = 0" using le t_ok(3) edges_to_nonneg [of ?es t] by (metis order_antisym)
  have setp: "set (pool s') = (set (pool s) - {t}) \<union> set new"
    using arg_cong [OF pool', of set_mset] rem(2) by simp
  have disj: "(set (pool s) - {t}) \<inter> set new = {}" using new(2) old by auto
  have dist: "distinct (pool s')"
  proof -
    have "distinct (pool (s\<lparr>inflight := remove_nth i (inflight s)\<rparr>) @ new)"
      using rem new(1) disj by simp
    then show ?thesis using pool' by (metis mset_append mset_eq_imp_distinct_iff)
  qed
  have child_in: "c \<in> set (order g0)" if "0 < edges_to ?es c" for c
  proof -
    from that obtain e where "e \<in> set ?es" "child e = c" by (auto simp: edges_to_def filter_empty_conv)
    then show ?thesis using wf_graphD(3,6) [OF wf] by auto
  qed
  have done0: "c \<in> done_set s \<Longrightarrow> ?u c = 0" for c by (rule sched_invD(8) [OF inv])
  have newpool: "set (pool s') = {c \<in> set (order g0). c \<notin> done_set s' \<and> unresolved (graph s') c = 0}"
  proof -
    have u'': "unresolved (graph s') c = ?u c - edges_to ?es c" for c by (simp add: s'_def rel)
    have "c \<in> set (pool s') \<longleftrightarrow> c \<in> set (order g0) \<and> c \<notin> done_set s' \<and> unresolved (graph s') c = 0" for c
    proof (cases "edges_to ?es c = 0")
      case True
      then show ?thesis unfolding setp new(2) done' u'' old by auto
    next
      case False
      then have "0 < edges_to ?es c" "c \<noteq> t" using et by (auto simp: edges_to_def)
      moreover from this have "?u c \<noteq> 0" using le by (metis linorder_not_le)
      moreover from this have "c \<notin> done_set s" using done0 by auto
      ultimately show ?thesis unfolding setp new(2) done' u'' old using child_in [of c] by auto
    qed
    then show ?thesis by blast
  qed
  have fin: "finite (done_set s)" using inv by (auto simp: sched_inv_def intro: finite_subset)
  have "t \<notin> done_set s" using t_ok by (simp add: done_set_def)
  have cnt: "completedCount s' = int (card (done_set s'))"
  proof -
    have "completedCount s' = completedCount s + 1" by (simp add: s'_def)
    with \<open>t \<notin> done_set s\<close> fin done' sched_invD(3) [OF inv] show ?thesis by simp
  qed
  have "\<forall>c\<in>done_set s'. unresolved (graph s') c = 0"
  proof
    fix c assume "c \<in> done_set s'"
    then have "?u c = 0" using done0 t_ok(3) by (auto simp: done')
    then show "unresolved (graph s') c = 0"
      using le [rule_format, of c] edges_to_nonneg [of ?es c] by (simp add: s'_def rel del: edges_to_nonneg)
  qed
  moreover have "unresolved (graph s') c = int (card (pending_edges g0 (completed (graph s')) c))" for c
    using u' by (simp add: s'_def rel)
  moreover have "same_graph g0 (graph s')" "active s' = int (length (inflight s'))"
    "active s' \<le> workerCount conf g0" "pendingRetries s' = int (length (retryTimers s'))"
    "attempts (graph s') = attempts (graph s)"
    using sched_invD(1,4,5,6) [OF inv] i by (simp_all add: s'_def rel same_graph_def of_nat_diff)
  moreover have "set (inflight s') \<subseteq> set (inflight s)" using remove_nth_in by (force simp: s'_def)
  moreover have "done_set s' \<subseteq> set (order g0)" using sched_invD(2) [OF inv] t_ok by (simp add: done')
  ultimately have "sched_inv conf g0 s'"
    using dist newpool cnt sched_invD(12,13,14,15) [OF inv] none by (intro sched_invI) auto
  then show ?thesis by (simp add: s'_def)
qed

text \<open>A failed transaction that will be retried waits for its timer.\<close>

lemma sched_inv_schedule_retry:
  assumes inv: "sched_inv conf g0 s" and i: "i < length (inflight s)"
    and none: "terminalErr s = None" and t: "t = job_id (inflight s ! i)"
    and n: "n = attempts (graph s) t + 1" "n \<le> MaxFailures conf"
  shows "sched_inv conf g0
    (s\<lparr>inflight := remove_nth i (inflight s), active := active s - 1,
       graph := (graph s)\<lparr>attempts := (attempts (graph s))(t := n)\<rparr>,
       pendingRetries := pendingRetries s + 1, retryTimers := retryTimers s @ [t]\<rparr>)"
proof -
  let ?r = "s\<lparr>inflight := remove_nth i (inflight s)\<rparr>"
  define s' where "s' = s\<lparr>inflight := remove_nth i (inflight s), active := active s - 1,
       graph := (graph s)\<lparr>attempts := (attempts (graph s))(t := n)\<rparr>,
       pendingRetries := pendingRetries s + 1, retryTimers := retryTimers s @ [t]\<rparr>"
  note rem = pool_remove_inflight [OF inv i, folded t]
  have tp: "t \<in> set (pool s)" using i t by (auto simp: pool_def)
  have p: "pool s' = pool ?r @ [t]" by (simp add: s'_def pool_def)
  then have pool: "distinct (pool s')" "set (pool s') = set (pool s)"
    using rem tp by auto
  have "t \<noteq> job_id j" if "j \<in> set (remove_nth i (inflight s))" for j
  proof -
    have "job_id j \<in> set (pool ?r)" using that by (auto simp: pool_def)
    with rem(2) show ?thesis by auto
  qed
  then have jobs: "job_tx j = txByID g0 (job_id j) \<and> job_failcount j = attempts (graph s') (job_id j)"
    if "j \<in> set (inflight s')" for j
    using that sched_invD(12,13) [OF inv] remove_nth_in by (fastforce simp: s'_def)
  have "done_set s' = done_set s" "same_graph g0 (graph s')" "unresolved (graph s') = unresolved (graph s)"
    "completed (graph s') = completed (graph s)" "completedCount s' = completedCount s"
    "active s' = int (length (inflight s'))" "pendingRetries s' = int (length (retryTimers s'))"
    "active s' \<le> workerCount conf g0" "terminalErr s' = None"
    using sched_invD(1,4,5,6) [OF inv] i none
    by (simp_all add: s'_def done_set_def same_graph_def of_nat_diff)
  moreover have "0 \<le> attempts (graph s') c" "attempts (graph s') c \<le> max 0 (MaxFailures conf)" for c
    using sched_invD(14) [OF inv, of c] sched_invD(14) [OF inv, of t] sched_invD(15) [OF inv none, of c] n
    by (auto simp: s'_def)
  ultimately have "sched_inv conf g0 s'"
    using pool jobs sched_invD(2,3,7,8,10,11) [OF inv] none by (intro sched_invI) simp_all
  then show ?thesis by (simp add: s'_def)
qed

lemma sched_inv_attempts:
  assumes inv: "sched_inv conf g0 s" and "terminalErr s \<noteq> None" and t: "t \<notin> job_id ` set (inflight s)"
    and "0 \<le> n"
  shows "sched_inv conf g0 (s\<lparr>graph := (graph s)\<lparr>attempts := (attempts (graph s))(t := n)\<rparr>\<rparr>)"
proof -
  let ?s = "s\<lparr>graph := (graph s)\<lparr>attempts := (attempts (graph s))(t := n)\<rparr>\<rparr>"
  have eqs: "pool ?s = pool s" "done_set ?s = done_set s" "inflight ?s = inflight s"
    "retryTimers ?s = retryTimers s" "active ?s = active s" "completedCount ?s = completedCount s"
    "pendingRetries ?s = pendingRetries s" "terminalErr ?s = terminalErr s"
    "unresolved (graph ?s) = unresolved (graph s)" "completed (graph ?s) = completed (graph s)"
    "same_graph g0 (graph ?s) = same_graph g0 (graph s)"
    "attempts (graph ?s) = (attempts (graph s))(t := n)"
    by (simp_all add: pool_def done_set_def same_graph_def)
  have "((attempts (graph s))(t := n)) (job_id j) = attempts (graph s) (job_id j)"
    if "j \<in> set (inflight s)" for j
    using that t by auto
  moreover have "0 \<le> ((attempts (graph s))(t := n)) c" for c
    using sched_invD(14) [OF inv] assms(4) by simp
  ultimately show ?thesis
    using inv assms(2) unfolding sched_inv_def eqs by (metis (no_types, lifting))
qed

lemma onResult_inv:
  assumes inv: "sched_inv conf g0 s" and start: "sched_start g0" and i: "i < length (inflight s)"
    and none: "terminalErr s = None"
    and res: "runScheduledTxWorker (inflight s ! i) err = Ok result"
  shows "sched_inv conf g0 (onResult conf stopped result (s\<lparr>inflight := remove_nth i (inflight s)\<rparr>))"
proof -
  let ?j = "inflight s ! i"
  define t where "t = job_id ?j"
  have j: "?j \<in> set (inflight s)" using i by simp
  have tx: "tx_Txid (res_tx result) = t" "res_err result = err"
    "res_failcount result = attempts (graph s) t + 1"
    using res sched_invD(13) [OF inv j] by (auto simp: runScheduledTxWorker_def t_def job_id_def split: option.splits)
  have drain: "sched_inv conf g0
      (s\<lparr>inflight := remove_nth i (inflight s), active := active s - 1, terminalErr := Some e\<rparr>)" for e
  proof -
    have "s\<lparr>inflight := remove_nth i (inflight s), active := active s - 1, terminalErr := Some e\<rparr> =
        s\<lparr>terminalErr := Some e, inflight := remove_nth i (inflight s), active := active s - 1\<rparr>"
      by simp
    moreover have "sched_inv conf g0
        (s\<lparr>terminalErr := Some e, inflight := remove_nth i (inflight s), active := active s - 1\<rparr>)"
      using sched_inv_drain [OF sched_inv_terminal [OF inv, of e], of i] i by simp
    ultimately show ?thesis by (simp only:)
  qed
  show ?thesis
  proof (cases "stopped \<or> err = None")
    case True
    then show ?thesis
      using drain [of ManualShutDownError] sched_inv_complete [OF inv start i none t_def]
      by (auto simp: onResult_def Let_def tx)
  next
    case False
    then obtain e where e: "err = Some e" "\<not> stopped" by auto
    let ?g = "(graph s)\<lparr>attempts := (attempts (graph s))(t := attempts (graph s) t + 1)\<rparr>"
    obtain o' where h: "handleScheduledTxError conf result e (graph s) = (?g, o')"
      by (simp add: handleScheduledTxError_def Let_def tx)
    show ?thesis
    proof (cases o')
      case None
      then have "attempts (graph s) t + 1 \<le> MaxFailures conf"
        using h by (auto simp: handleScheduledTxError_def Let_def tx split: option.splits if_splits)
      from sched_inv_schedule_retry [OF inv i none t_def refl this] show ?thesis
        using h None e by (simp add: onResult_def Let_def tx)
    next
      case (Some e')
      have "sched_inv conf g0 (s\<lparr>inflight := remove_nth i (inflight s), active := active s - 1,
          terminalErr := Some e', graph := ?g\<rparr>)" (is "sched_inv conf g0 ?s")
      proof -
        let ?d = "s\<lparr>inflight := remove_nth i (inflight s), active := active s - 1, terminalErr := Some e'\<rparr>"
        have "t \<notin> set (pool (s\<lparr>inflight := remove_nth i (inflight s)\<rparr>))"
          using pool_remove_inflight(2) [OF inv i] by (simp add: t_def)
        then have "t \<notin> job_id ` set (inflight ?d)"
          by (auto simp: pool_def)
        from sched_inv_attempts [OF drain [of e'] _ this, of "attempts (graph s) t + 1"]
        show ?thesis using sched_invD(14) [OF inv, of t] by simp
      qed
      moreover have "onResult conf stopped result (s\<lparr>inflight := remove_nth i (inflight s)\<rparr>) = ?s"
        using h Some e by (simp add: onResult_def Let_def tx)
      ultimately show ?thesis by (simp only:)
    qed
  qed
qed

theorem sched_step_inv:
  assumes "sched_step conf s s'" and "sched_inv conf g0 s" and "sched_start g0"
  shows "sched_inv conf g0 s'"
  using assms
proof (cases rule: sched_step.cases)
  case Done
  then show ?thesis using assms(2) by (simp add: sched_inv_looping)
next
  case (Break s1 polls sends)
  then show ?thesis using dispatchPhase_inv [OF assms(2,3)] by (simp add: sched_inv_looping)
next
  case (Drain s1 polls sends i)
  then show ?thesis using sched_inv_drain [OF dispatchPhase_inv [OF assms(2,3)]] by simp
next
  case (Stall s1 polls sends)
  then show ?thesis
    using sched_inv_terminal [OF dispatchPhase_inv [OF assms(2,3)]] by (simp add: sched_inv_looping)
next
  case (Result s1 polls sends i err result stopped)
  then show ?thesis using onResult_inv [OF dispatchPhase_inv [OF assms(2,3)] assms(3)] by simp
next
  case (Retry s1 polls sends i)
  then show ?thesis using sched_inv_retry [OF dispatchPhase_inv [OF assms(2,3)]] by simp
next
  case (Stop s1 polls sends)
  then show ?thesis using sched_inv_terminal [OF dispatchPhase_inv [OF assms(2,3)]] by simp
qed

text \<open>The scheduler as a step system: the runs on a graph it may be started with.\<close>

definition sched_run_step :: "schedConf \<Rightarrow> blockTxGraph \<Rightarrow> schedState \<Rightarrow> schedState \<Rightarrow> bool" where
  "sched_run_step conf g s s' \<longleftrightarrow> sched_start g \<and> sched_step conf s s'"

definition sched_run_inv :: "schedConf \<Rightarrow> blockTxGraph \<Rightarrow> schedState \<Rightarrow> bool" where
  "sched_run_inv conf g s \<longleftrightarrow>
     (sched_start g \<longrightarrow> sched_inv conf g s \<and>
        (\<not> looping s \<longrightarrow> terminalErr s \<noteq> None \<or> int (length (order g)) \<le> completedCount s))"

lemma dispatchPhase_sel [simp]:
  "looping (dispatchPhase conf polls sends s) = looping s"
  "completedCount (dispatchPhase conf polls sends s) = completedCount s"
  by (simp_all add: dispatchPhase_def split: prod.split)

lemma order_sched_inv: "sched_inv conf g s \<Longrightarrow> order (graph s) = order g"
  by (simp add: sched_inv_def same_graph_def)

lemma onResult_looping [simp]: "looping (onResult conf b r s) = looping s"
  by (simp add: onResult_def Let_def split: option.split prod.split)

lemma sched_step_stopped:
  assumes "sched_step conf s s'" and "\<not> looping s'" and inv: "sched_inv conf g s"
  shows "terminalErr s' \<noteq> None \<or> int (length (order g)) \<le> completedCount s'"
  using assms(1)
proof (cases rule: sched_step.cases)
  case Done
  then show ?thesis using order_sched_inv [OF inv] by auto
qed (use assms(2) in \<open>auto simp: more_to_do_def onRetryReady_def\<close>)

interpretation sched: step_system "sched_run_step conf g" "initSched g" "sched_run_inv conf g"
proof
  show "sched_run_inv conf g (initSched g)"
    using sched_inv_init by (simp add: sched_run_inv_def initSched_def)
  show "sched_run_inv conf g t" if "sched_run_inv conf g s" "sched_run_step conf g s t" for s t
    using that sched_step_inv [of conf s t g] sched_step_stopped [of conf s t g]
    by (auto simp: sched_run_inv_def sched_run_step_def)
qed

lemma sched_run_step_eq: "sched_start g \<Longrightarrow> sched_run_step conf g = sched_step conf"
  by (simp add: sched_run_step_def fun_eq_iff)

lemma sched_reachable_run:
  assumes "sched_start g"
  shows "sched_reachable conf g s \<longleftrightarrow> (sched_run_step conf g)\<^sup>*\<^sup>* (initSched g) s"
  using assms by (simp add: sched_reachable_def sched_run_step_eq)

lemma sched_reachable_inv:
  assumes "sched_reachable conf g s" and "sched_start g"
  shows "sched_inv conf g s"
    and "\<not> looping s \<Longrightarrow> terminalErr s \<noteq> None \<or> int (length (order g)) \<le> completedCount s"
  using sched.reachable_inv [of conf g s] assms by (simp_all add: sched_reachable_run sched_run_inv_def)

section \<open>Dependencies are finished before a transaction is handed out\<close>

lemma unresolved_parents_done:
  assumes "sched_inv conf g s" and "wf_graph g" and "unresolved (graph s) c = 0" and "(p, c) \<in> edge_rel g"
  shows "p \<in> done_set s"
proof -
  have "finite (pending_edges g (completed (graph s)) c)"
    using wf_graphD(1) [OF assms(2)] by (simp add: pending_edges_def)
  moreover have "card (pending_edges g (completed (graph s)) c) = 0"
    using sched_invD(7) [OF assms(1), of c] assms(3) by simp
  ultimately have "pending_edges g (completed (graph s)) c = {}" by simp
  then show ?thesis
    using assms(4) by (auto simp: edge_rel_def pending_edges_def incoming_def done_set_def)
qed

lemma unresolved_ancestors_done:
  assumes inv: "sched_inv conf g s" and wf: "wf_graph g"
    and path: "(p, c) \<in> (edge_rel g)\<^sup>+" and "unresolved (graph s) c = 0"
  shows "p \<in> done_set s"
  using path assms(4)
proof (induction rule: trancl_induct)
  case (base c)
  then show ?case using unresolved_parents_done [OF inv wf] by blast
next
  case (step b c)
  then have "b \<in> done_set s" using unresolved_parents_done [OF inv wf] by blast
  then show ?case using step.IH sched_invD(8) [OF inv] by blast
qed

text \<open>C6: While a worker processes a transaction, every transaction it depends on, directly or through
  others, has been processed successfully, whatever the interleaving of answers, retries and stops.\<close>

theorem inflight_dependencies_completed:
  assumes "sched_start g" and "sched_reachable conf g s" and "j \<in> set (inflight s)"
    and "(p, job_id j) \<in> (edge_rel g)\<^sup>+"
  shows "completed (graph s) p"
proof -
  have inv: "sched_inv conf g s" using sched_reachable_inv(1) assms(1,2) by blast
  have "job_id j \<in> set (pool s)" using assms(3) by (simp add: pool_def)
  then have "unresolved (graph s) (job_id j) = 0" using sched_invD(10) [OF inv] by auto
  then have "p \<in> done_set s"
    using unresolved_ancestors_done [OF inv _ assms(4)] assms(1) by (simp add: sched_start_def)
  then show ?thesis by (simp add: done_set_def)
qed

section \<open>Success\<close>

lemma done_set_full:
  assumes inv: "sched_inv conf g s" and "distinct (order g)" and "int (length (order g)) \<le> completedCount s"
  shows "done_set s = set (order g)" and "completedCount s = int (length (order g))"
proof -
  have c: "card (set (order g)) = length (order g)" using assms(2) by (simp add: distinct_card)
  have "card (set (order g)) \<le> card (done_set s)" using assms(3) c sched_invD(3) [OF inv] by simp
  then show "done_set s = set (order g)"
    using sched_invD(2) [OF inv] by (simp add: card_subset_eq card_mono le_antisym)
  then show "completedCount s = int (length (order g))" using sched_invD(3) [OF inv] c by simp
qed

text \<open>C7: When the scheduler reports success, every transaction of the block has been processed: each
  one counted exactly once, with no job left at a worker, no retry pending and nothing left to
  dispatch.\<close>

theorem scheduler_success_complete:
  assumes "sched_start g" and "order g \<noteq> []" and "runBlockTxScheduler conf cleanup g None s"
  shows "done_set s = set (order g) \<and> completedCount s = int (length (order g)) \<and>
    inflight s = [] \<and> retryTimers s = [] \<and> ready (graph s) = []"
proof -
  from assms(2,3) have r: "sched_reachable conf g s" "\<not> looping s" "terminalErr s = None"
    by (auto simp: runBlockTxScheduler_def sched_result_def split: option.splits)
  have inv: "sched_inv conf g s" using sched_reachable_inv(1) r(1) assms(1) by blast
  have "int (length (order g)) \<le> completedCount s"
    using sched_reachable_inv(2) [OF r(1) assms(1) r(2)] r(3) by simp
  with done_set_full [OF inv] assms(1) have d: "done_set s = set (order g)"
    "completedCount s = int (length (order g))" by (auto simp: sched_start_def)
  have "set (pool s) = {}"
  proof (rule equals0I)
    fix c assume "c \<in> set (pool s)"
    from subsetD [OF sched_invD(10) [OF inv] this] show False by (auto simp: d(1))
  qed
  then show ?thesis using d by (simp add: pool_def)
qed

section \<open>No stall\<close>

text \<open>On an acyclic graph the stall branch is dead.\<close>

lemma stall_impossible:
  assumes "sched_start g" and "acyclic (edge_rel g)" and "sched_reachable conf g s" and "more_to_do s"
    and "terminalErr (dispatchPhase conf polls sends s) = None"
  shows "\<not> stalled (dispatchPhase conf polls sends s)"
proof
  let ?s = "dispatchPhase conf polls sends s"
  assume st: "stalled ?s"
  have wf: "wf_graph g" using assms(1) by (simp add: sched_start_def)
  have inv0: "sched_inv conf g s" using sched_reachable_inv(1) assms(1,3) by blast
  have inv: "sched_inv conf g ?s" by (rule dispatchPhase_inv [OF inv0 assms(1)])
  have "set (pool ?s) = {}"
    using st sched_invD(4,5) [OF inv] by (simp add: stalled_def pool_def)
  then have all_wait: "unresolved (graph ?s) t \<noteq> 0" if "t \<in> set (order g) - done_set ?s" for t
    using sched_invD(11) [OF inv assms(5)] that by auto
  have "card (done_set ?s) < length (order g)"
    using assms(4) order_sched_inv [OF inv0] sched_invD(3) [OF inv] by (simp add: more_to_do_def)
  moreover have "card (set (order g)) = length (order g)"
    using assms(1) by (simp add: sched_start_def distinct_card)
  ultimately have ne: "set (order g) - done_set ?s \<noteq> {}"
    using sched_invD(2) [OF inv] by auto
  have "\<exists>y\<in>set (order g) - done_set ?s. (y, x) \<in> edge_rel g" if x: "x \<in> set (order g) - done_set ?s" for x
  proof -
    have "pending_edges g (completed (graph ?s)) x \<noteq> {}"
      using all_wait [OF x] sched_invD(7) [OF inv, of x] by auto
    then obtain e where e: "e \<in> edgeSet g" "child e = x" "parent e \<notin> done_set ?s"
      by (auto simp: pending_edges_def incoming_def done_set_def)
    moreover have "parent e \<in> set (order g)"
      using wf_graphD(2) [OF wf e(1)] assms(1) by (auto simp: sched_start_def)
    ultimately show ?thesis by (auto simp: edge_rel_def)
  qed
  moreover have "finite (edge_rel g)" using wf_graphD(1) [OF wf] by (simp add: edge_rel_def)
  ultimately show False using acyclic_minimal [OF assms(2) _ ne] by blast
qed

section \<open>The loop ends\<close>

text \<open>
  A potential for the run: a transaction is worth more the more retries it has left, and within one
  attempt it moves from waiting or its timer over ready to a worker.
\<close>

definition budget :: "schedConf \<Rightarrow> int" where
  "budget conf = max 0 (MaxFailures conf) + 1"

definition left :: "schedConf \<Rightarrow> blockTxGraph \<Rightarrow> txid \<Rightarrow> int" where
  "left conf g t = 3 * (budget conf - attempts g t)"

definition potential :: "schedConf \<Rightarrow> schedState \<Rightarrow> int" where
  "potential conf s =
     (let w = left conf (graph s) in
      (\<Sum>t\<leftarrow>ready (graph s). w t + 2) + (\<Sum>j\<leftarrow>inflight s. w (job_id j) + 1) + (\<Sum>t\<leftarrow>retryTimers s. w t + 3) +
      (3 * budget conf + 3) * (int (length (order (graph s))) - completedCount s - int (length (pool s))))"

lemma left_bounds:
  assumes "sched_inv conf g s" and "terminalErr s = None"
  shows "3 \<le> left conf (graph s) t" and "left conf (graph s) t \<le> 3 * budget conf"
  using sched_invD(14,15) [OF assms(1), of t] assms(2) by (auto simp: left_def budget_def)

lemma pool_length:
  assumes "sched_inv conf g s" and "distinct (order g)"
  shows "int (length (pool s)) \<le> int (length (order g)) - completedCount s"
proof -
  have "set (pool s) \<union> done_set s \<subseteq> set (order g)" "set (pool s) \<inter> done_set s = {}"
    using sched_invD(2,10) [OF assms(1)] by blast+
  then have "card (set (pool s)) + card (done_set s) \<le> card (set (order g))"
    by (metis List.finite_set card_Un_disjoint card_mono finite_Un rev_finite_subset)
  moreover have "card (set (pool s)) = length (pool s)" using sched_invD(9) [OF assms(1)] by (rule distinct_card)
  moreover have "card (set (order g)) = length (order g)" using assms(2) by (rule distinct_card)
  ultimately show ?thesis using sched_invD(3) [OF assms(1)] by linarith
qed

lemma potential_nonneg:
  assumes inv: "sched_inv conf g s" and "terminalErr s = None" and "distinct (order g)"
  shows "0 \<le> potential conf s"
proof -
  have "0 \<le> left conf (graph s) t" for t using left_bounds(1) [OF inv assms(2), of t] by linarith
  then have "0 \<le> (\<Sum>t\<leftarrow>ready (graph s). left conf (graph s) t + 2)"
    "0 \<le> (\<Sum>j\<leftarrow>inflight s. left conf (graph s) (job_id j) + 1)"
    "0 \<le> (\<Sum>t\<leftarrow>retryTimers s. left conf (graph s) t + 3)"
    by (auto intro!: sum_list_nonneg)
  moreover have "0 \<le> (3 * budget conf + 3) *
      (int (length (order (graph s))) - completedCount s - int (length (pool s)))"
    using pool_length [OF inv assms(3)] order_sched_inv [OF inv] by (simp add: budget_def)
  ultimately show ?thesis unfolding potential_def Let_def by linarith
qed

lemma sum_list_split_nth:
  "i < length xs \<Longrightarrow> (\<Sum>x\<leftarrow>xs. f x) = f (xs ! i) + (\<Sum>x\<leftarrow>remove_nth i xs. (f x :: int))"
  unfolding remove_nth_def by (subst id_take_nth_drop [of i xs]) auto

lemma potential_dispatch:
  assumes inv: "sched_inv conf g s" and start: "sched_start g" and "terminalErr s = None"
    and "terminalErr (dispatchPhase conf polls sends s) = None"
  shows "potential conf (dispatchPhase conf polls sends s) \<le> potential conf s"
proof -
  let ?s = "dispatchPhase conf polls sends s" and ?r = "ready (graph s)"
  obtain k k' where k: "k \<le> length ?r" and none: "terminalErr ?s = None \<longrightarrow> k' = k"
    and s: "?s = s\<lparr>graph := (graph s)\<lparr>ready := drop k' ?r\<rparr>,
         inflight := inflight s @ map (mk_job conf (graph s)) (take k ?r),
         terminalErr := terminalErr ?s, active := active s + int k\<rparr>"
    by (rule dispatchPhase_spec [OF assms(3), of conf polls sends])
  have ids: "job_id (mk_job conf (graph s) t) = t" if "t \<in> set (take k ?r)" for t
  proof -
    have "t \<in> set (order g)" using in_set_takeD [OF that] sched_invD(10) [OF inv] by (auto simp: pool_def)
    then show ?thesis
      using start sched_invD(1) [OF inv] by (force simp: sched_start_def same_graph_def job_id_def mk_job_def)
  qed
  have lf: "left conf (graph ?s) = left conf (graph s)"
    by (subst s) (simp add: left_def fun_eq_iff)
  have split: "(\<Sum>t\<leftarrow>?r. f t) = (\<Sum>t\<leftarrow>take k ?r. f t) + (\<Sum>t\<leftarrow>drop k ?r. f t)" for f :: "txid \<Rightarrow> int"
    by (metis append_take_drop_id map_append sum_list_append)
  have moved: "(\<Sum>j\<leftarrow>map (mk_job conf (graph s)) (take k ?r). left conf (graph s) (job_id j) + 1)
      \<le> (\<Sum>t\<leftarrow>take k ?r. left conf (graph s) t + 2)"
    using ids by (auto intro!: sum_list_mono simp: comp_def)
  have k': "k' = k" using none assms(4) by simp
  have g': "graph ?s = (graph s)\<lparr>ready := drop k ?r\<rparr>"
    and i': "inflight ?s = inflight s @ map (mk_job conf (graph s)) (take k ?r)"
    and t': "retryTimers ?s = retryTimers s"
    using k' by (subst s; simp)+
  have "length (pool ?s) = length (pool s)" using k by (simp add: pool_def g' i' t')
  with moved split [of "\<lambda>t. left conf (graph s) t + 2"] show ?thesis
    by (simp add: potential_def Let_def lf) (simp add: g' i' t')
qed

lemma completed_pool:
  assumes inv: "sched_inv conf g0 s" and start: "sched_start g0" and i: "i < length (inflight s)"
    and t: "t = job_id (inflight s ! i)"
  shows "\<exists>new u. releaseChildren t ((graph s)\<lparr>completed := (completed (graph s))(t := True)\<rparr>) =
    (graph s)\<lparr>completed := (completed (graph s))(t := True), unresolved := u, ready := ready (graph s) @ new\<rparr>"
proof -
  let ?d = "completed (graph s)"
  have wf: "wf_graph g0" using start by (simp add: sched_start_def)
  have "t \<in> set (pool s)" using i t by (auto simp: pool_def)
  then have "\<not> ?d t" using sched_invD(10) [OF inv] by (auto simp: done_set_def)
  then have "edges_to (children g0 t) c \<le> unresolved (graph s) c" for c
    using edges_to_le_unresolved [where d = "?d", OF wf] sched_invD(7) [OF inv] by simp
  moreover have "children (graph s) = children g0" using sched_invD(1) [OF inv] by (simp add: same_graph_def)
  ultimately show ?thesis
    using fold_releaseEdge [of "children g0 t" "(graph s)\<lparr>completed := ?d(t := True)\<rparr>"]
    by (auto simp: releaseChildren_def)
qed

lemma potential_complete:
  assumes inv: "sched_inv conf g0 s" and start: "sched_start g0" and i: "i < length (inflight s)"
    and none: "terminalErr s = None" and t: "t = job_id (inflight s ! i)"
  shows "potential conf
    (s\<lparr>inflight := remove_nth i (inflight s), active := a, completedCount := completedCount s + 1,
       graph := releaseChildren t ((graph s)\<lparr>completed := (completed (graph s))(t := True)\<rparr>)\<rparr>)
    < potential conf s"
proof -
  let ?w = "left conf (graph s)" and ?B = "3 * budget conf"
  obtain new u where rel: "releaseChildren t ((graph s)\<lparr>completed := (completed (graph s))(t := True)\<rparr>) =
    (graph s)\<lparr>completed := (completed (graph s))(t := True), unresolved := u, ready := ready (graph s) @ new\<rparr>"
    using completed_pool [OF inv start i t] by blast
  have fl: "(\<Sum>j\<leftarrow>inflight s. ?w (job_id j) + 1) = ?w t + 1 + (\<Sum>j\<leftarrow>remove_nth i (inflight s). ?w (job_id j) + 1)"
    unfolding sum_list_split_nth [OF i] by (simp add: t)
  have "(\<Sum>t\<leftarrow>new. ?w t + 2) \<le> (\<Sum>t\<leftarrow>new. ?B + 2)"
    using left_bounds(2) [OF inv none] by (intro sum_list_mono) simp
  also have "\<dots> = (?B + 2) * int (length new)" by (simp add: sum_list_triv mult.commute)
  also have "\<dots> \<le> (?B + 3) * int (length new)" by (intro mult_right_mono) simp_all
  finally have new: "(\<Sum>t\<leftarrow>new. ?w t + 2) \<le> (?B + 3) * int (length new)" .
  have l: "length (inflight s) \<ge> 1" using i by linarith
  have w: "left conf ((graph s)\<lparr>completed := c, unresolved := u, ready := r\<rparr>) = ?w" for c r
    by (simp add: left_def fun_eq_iff)
  have dist: "(?B + 3) * (n - int (length new)) = (?B + 3) * n - (?B + 3) * int (length new)" for n
    by (rule right_diff_distrib)
  define n where "n = int (length (order (graph s))) - completedCount s - int (length (pool s))"
  have n: "int (length (order (graph s))) - (completedCount s + 1) -
      int (length ((ready (graph s) @ new) @ map job_id (remove_nth i (inflight s)) @ retryTimers s)) =
      n - int (length new)"
    using l i by (simp add: n_def pool_def of_nat_diff)
  have "potential conf s = (\<Sum>t\<leftarrow>ready (graph s). ?w t + 2) + (\<Sum>j\<leftarrow>inflight s. ?w (job_id j) + 1) +
      (\<Sum>t\<leftarrow>retryTimers s. ?w t + 3) + (?B + 3) * n"
    by (simp add: potential_def Let_def n_def)
  moreover have "potential conf
    (s\<lparr>inflight := remove_nth i (inflight s), active := a, completedCount := completedCount s + 1,
       graph := releaseChildren t ((graph s)\<lparr>completed := (completed (graph s))(t := True)\<rparr>)\<rparr>) =
      (\<Sum>t\<leftarrow>ready (graph s) @ new. ?w t + 2) + (\<Sum>j\<leftarrow>remove_nth i (inflight s). ?w (job_id j) + 1) +
      (\<Sum>t\<leftarrow>retryTimers s. ?w t + 3) + (?B + 3) * (n - int (length new))"
    unfolding n [symmetric] by (simp add: potential_def Let_def w rel pool_def)
  ultimately show ?thesis
    using new left_bounds(1) [OF inv none, of t] unfolding fl dist by simp
qed

lemma potential_schedule_retry:
  assumes inv: "sched_inv conf g0 s" and i: "i < length (inflight s)"
    and none: "terminalErr s = None" and t: "t = job_id (inflight s ! i)"
    and n: "n = attempts (graph s) t + 1"
  shows "potential conf
    (s\<lparr>inflight := remove_nth i (inflight s), active := a,
       graph := (graph s)\<lparr>attempts := (attempts (graph s))(t := n)\<rparr>,
       pendingRetries := p, retryTimers := retryTimers s @ [t]\<rparr>) < potential conf s"
proof -
  let ?w = "left conf (graph s)"
  let ?g = "(graph s)\<lparr>attempts := (attempts (graph s))(t := n)\<rparr>"
  have "t \<notin> set (pool (s\<lparr>inflight := remove_nth i (inflight s)\<rparr>))"
    using pool_remove_inflight(2) [OF inv i] by (simp add: t)
  then have notin: "t \<notin> set (ready (graph s))" "t \<notin> set (retryTimers s)"
    "t \<notin> job_id ` set (remove_nth i (inflight s))"
    by (auto simp: pool_def)
  have w: "left conf ?g c = (if c = t then ?w t - 3 else ?w c)" for c
    by (simp add: left_def n)
  have eqs: "(\<Sum>c\<leftarrow>ready (graph s). left conf ?g c + 2) = (\<Sum>c\<leftarrow>ready (graph s). ?w c + 2)"
    "(\<Sum>c\<leftarrow>retryTimers s. left conf ?g c + 3) = (\<Sum>c\<leftarrow>retryTimers s. ?w c + 3)"
    "(\<Sum>j\<leftarrow>remove_nth i (inflight s). left conf ?g (job_id j) + 1) =
      (\<Sum>j\<leftarrow>remove_nth i (inflight s). ?w (job_id j) + 1)"
    using notin by (auto intro!: arg_cong [of _ _ sum_list] map_cong simp: w)
  have fl: "(\<Sum>j\<leftarrow>inflight s. ?w (job_id j) + 1) = ?w t + 1 + (\<Sum>j\<leftarrow>remove_nth i (inflight s). ?w (job_id j) + 1)"
    unfolding sum_list_split_nth [OF i] by (simp add: t)
  have l: "length (inflight s) \<ge> 1" using i by linarith
  show ?thesis
    unfolding potential_def Let_def pool_def using l
    by (simp add: eqs fl i of_nat_diff) (simp add: w)
qed

lemma potential_retry:
  assumes "i < length (retryTimers s)"
  shows "potential conf (onRetryReady (retryTimers s ! i) (s\<lparr>retryTimers := remove_nth i (retryTimers s)\<rparr>))
    < potential conf s"
proof -
  have l: "length (retryTimers s) \<ge> 1" using assms by linarith
  have w: "left conf (g\<lparr>ready := r\<rparr>) = left conf g" for g r by (simp add: left_def fun_eq_iff)
  show ?thesis
    unfolding potential_def Let_def pool_def onRetryReady_def
    using sum_list_split_nth [OF assms, of "\<lambda>t. left conf (graph s) t + 3"] l assms
    by (simp add: w of_nat_diff)
qed

text \<open>The number of iterations a state can still make.\<close>

definition sched_fuel :: "schedConf \<Rightarrow> blockTxGraph \<Rightarrow> schedState \<Rightarrow> nat" where
  "sched_fuel conf g s =
     (if \<not> looping s then 0
      else if terminalErr s \<noteq> None then 1 + length (inflight s)
      else 2 + nat (workerCount conf g) + nat (potential conf s))"

lemma dispatch_fuel:
  assumes inv: "sched_inv conf g s" and start: "sched_start g"
    and none: "terminalErr (dispatchPhase conf polls sends s) = None"
  shows "sched_fuel conf g (dispatchPhase conf polls sends s) \<le> sched_fuel conf g s"
proof -
  have "terminalErr s = None"
    using none by (cases "terminalErr s") (auto simp: dispatchPhase_def)
  with potential_dispatch [OF inv start this none] none show ?thesis by (simp add: sched_fuel_def nat_mono)
qed

lemma onResult_fuel:
  assumes inv: "sched_inv conf g s" and start: "sched_start g" and i: "i < length (inflight s)"
    and none: "terminalErr s = None" and loop: "looping s"
    and res: "runScheduledTxWorker (inflight s ! i) err = Ok result"
  shows "sched_fuel conf g (onResult conf stopped result (s\<lparr>inflight := remove_nth i (inflight s)\<rparr>))
    < sched_fuel conf g s" (is "sched_fuel conf g ?s' < _")
proof -
  let ?j = "inflight s ! i"
  have inv': "sched_inv conf g ?s'" by (rule onResult_inv [OF inv start i none res])
  have d: "distinct (order g)" using start by (simp add: sched_start_def)
  have bound: "length (inflight ?s') \<le> nat (workerCount conf g)"
    using sched_invD(4,6) [OF inv'] by simp
  show ?thesis
  proof (cases "terminalErr ?s' = None")
    case False
    then show ?thesis using bound loop none by (simp add: sched_fuel_def)
  next
    case True
    define t where "t = job_id ?j"
    have j: "?j \<in> set (inflight s)" using i by simp
    have tx: "tx_Txid (res_tx result) = t" "res_err result = err"
      "res_failcount result = attempts (graph s) t + 1"
      using res sched_invD(13) [OF inv j]
      by (auto simp: runScheduledTxWorker_def t_def job_id_def split: option.splits)
    have ns: "\<not> stopped" using True by (auto simp: onResult_def Let_def)
    have "potential conf ?s' < potential conf s"
    proof (cases err)
      case None
      with ns potential_complete [OF inv start i none t_def, of "active s - 1"] show ?thesis
        by (simp add: onResult_def Let_def tx)
    next
      case (Some e)
      with ns True have h: "snd (handleScheduledTxError conf result e (graph s)) = None"
        by (auto simp: onResult_def Let_def tx split: prod.splits option.splits)
      then have "handleScheduledTxError conf result e (graph s) =
          ((graph s)\<lparr>attempts := (attempts (graph s))(t := attempts (graph s) t + 1)\<rparr>, None)"
        by (simp add: handleScheduledTxError_def Let_def tx)
      with Some ns potential_schedule_retry [OF inv i none t_def refl, of "pendingRetries s + 1" "active s - 1"]
      show ?thesis by (simp add: onResult_def Let_def tx)
    qed
    moreover have "0 \<le> potential conf ?s'" by (rule potential_nonneg [OF inv' True d])
    ultimately show ?thesis using True none loop by (simp add: sched_fuel_def)
  qed
qed

lemma sched_step_fuel:
  assumes "sched_step conf s s'" and inv: "sched_inv conf g s" and start: "sched_start g"
  shows "sched_fuel conf g s' < sched_fuel conf g s"
  using assms(1)
proof (cases rule: sched_step.cases)
  case Done
  then show ?thesis by (simp add: sched_fuel_def)
next
  case (Break s1 polls sends)
  then show ?thesis by (simp add: sched_fuel_def more_to_do_def)
next
  case (Drain s1 polls sends i)
  have inv1: "sched_inv conf g s1" using dispatchPhase_inv [OF inv start] Drain by simp
  show ?thesis
  proof (cases "terminalErr s = None")
    case True
    then show ?thesis using Drain sched_invD(4,6) [OF inv1] by (simp add: sched_fuel_def more_to_do_def)
  next
    case False
    then have "s1 = s" unfolding Drain(3) by (auto simp: dispatchPhase_def)
    then show ?thesis using Drain False by (simp add: sched_fuel_def more_to_do_def)
  qed
next
  case (Stall s1 polls sends)
  then show ?thesis by (simp add: sched_fuel_def more_to_do_def)
next
  case (Result s1 polls sends i err result stopped)
  have inv1: "sched_inv conf g s1" using dispatchPhase_inv [OF inv start] Result by simp
  have "sched_fuel conf g s' < sched_fuel conf g s1"
    using onResult_fuel [OF inv1 start, of i] Result by (simp add: more_to_do_def)
  also have "\<dots> \<le> sched_fuel conf g s" using dispatch_fuel [OF inv start] Result by simp
  finally show ?thesis .
next
  case (Retry s1 polls sends i)
  have inv1: "sched_inv conf g s1" using dispatchPhase_inv [OF inv start] Retry by simp
  have inv': "sched_inv conf g s'" using sched_inv_retry [OF inv1] Retry by simp
  have "terminalErr s' = None" "looping s'" "looping s1"
    using Retry by (simp_all add: onRetryReady_def more_to_do_def)
  moreover have "potential conf s' < potential conf s1" using potential_retry Retry by simp
  moreover have "0 \<le> potential conf s'"
    using potential_nonneg [OF inv'] \<open>terminalErr s' = None\<close> start by (simp add: sched_start_def)
  ultimately have "sched_fuel conf g s' < sched_fuel conf g s1" using Retry by (simp add: sched_fuel_def)
  also have "\<dots> \<le> sched_fuel conf g s" using dispatch_fuel [OF inv start] Retry by simp
  finally show ?thesis .
next
  case (Stop s1 polls sends)
  have inv1: "sched_inv conf g s1" using dispatchPhase_inv [OF inv start] Stop by simp
  have "sched_fuel conf g s' < sched_fuel conf g s1"
    using Stop sched_invD(4,6) [OF inv1] by (simp add: sched_fuel_def more_to_do_def)
  also have "\<dots> \<le> sched_fuel conf g s" using dispatch_fuel [OF inv start] Stop by simp
  finally show ?thesis .
qed

interpretation sched: ranked_system "sched_run_step conf g" "initSched g" "sched_run_inv conf g"
    "sched_fuel conf g"
  by unfold_locales (auto simp: sched_run_step_def sched_run_inv_def intro: sched_step_fuel)

lemma potential_init:
  assumes "sched_start g"
  shows "potential conf (initSched g) \<le> (3 * budget conf + 3) * int (length (order g))"
proof -
  let ?B = "3 * budget conf"
  have "attempts g = (\<lambda>_. 0)" using assms by (simp add: sched_start_def)
  then have "(\<Sum>t\<leftarrow>ready g. left conf g t + 2) = (?B + 2) * int (length (ready g))"
    by (simp add: left_def sum_list_triv mult.commute)
  also have "\<dots> \<le> (?B + 3) * int (length (ready g))" by (intro mult_right_mono) simp_all
  finally show ?thesis
    by (simp add: potential_def initSched_def Let_def pool_def right_diff_distrib)
qed

text \<open>C9: The loop of the scheduler ends: whatever the workers answer, a run makes at most a number of
  iterations that is linear in the number of transactions of the block times the configured number
  of attempts.\<close>

theorem scheduler_terminates:
  assumes "sched_start g" and "(sched_step conf ^^ n) (initSched g) s"
  shows "int n \<le> (3 * (max 0 (MaxFailures conf) + 1) + 3) * int (length (order g)) +
    workerCount conf g + 2"
proof -
  have inv: "sched_inv conf g (initSched g)" by (rule sched_inv_init [OF assms(1)])
  have "n \<le> sched_fuel conf g (initSched g)"
    using sched.run_bound [of n conf g s] assms by (simp add: sched_run_step_eq)
  moreover have "0 \<le> potential conf (initSched g)"
    using potential_nonneg [OF inv] assms(1) by (simp add: initSched_def sched_start_def)
  moreover have "0 \<le> workerCount conf g" by (simp add: workerCount_def Let_def)
  ultimately show ?thesis
    using potential_init [OF assms(1), of conf] by (simp add: sched_fuel_def initSched_def budget_def)
qed

lemma dispatchLoop_sends:
  assumes "dispatchLoop conf polls sends (Suc cap) g sent = (sent', g', None)" and "ready g \<noteq> []"
  shows "length sent < length sent'"
proof -
  obtain t rest where r: "ready g = t # rest" using assms(2) by (cases "ready g") auto
  with assms(1) have "dispatchLoop conf polls sends cap (g\<lparr>ready := rest\<rparr>) (sent @ [mk_job conf g t]) = (sent', g', None)"
    by (auto simp: Let_def mk_job_def split: if_splits)
  from dispatchLoop_spec [OF this] show ?thesis by auto
qed

lemma dispatchPhase_sends:
  assumes inv: "sched_inv conf g s" and "terminalErr s = None" and "active s = 0" and "ready (graph s) \<noteq> []"
    and "terminalErr (dispatchPhase conf polls sends s) = None"
  shows "inflight (dispatchPhase conf polls sends s) \<noteq> []"
proof -
  have "1 \<le> workerCount conf (graph s)" by (simp add: workerCount_def Let_def)
  then have "nat (workerCount conf (graph s) - active s) \<noteq> 0" using assms(3) by simp
  then obtain cap where cap: "nat (workerCount conf (graph s) - active s) = Suc cap"
    using not0_implies_Suc by blast
  obtain sent g' err where d: "dispatchLoop conf polls sends (Suc cap) (graph s) [] = (sent, g', err)"
    by (metis prod_cases3)
  then have "err = None" "inflight (dispatchPhase conf polls sends s) = inflight s @ sent"
    using assms(2,5) by (auto simp: dispatchPhase_def dispatchReadyTransactions_def cap)
  with dispatchLoop_sends [of conf polls sends cap "graph s" "[]" sent g'] d assms(4) show ?thesis by auto
qed

text \<open>C8: The loop never waits for nothing: on an acyclic graph, whenever it reaches its \<^verbatim>\<open>select\<close>
  without an error, a worker holds a job it will answer or a retry timer is running. With the bound
  on the number of iterations every run ends with a result.\<close>

theorem scheduler_progress:
  assumes "sched_start g" and "acyclic (edge_rel g)" and "sched_reachable conf g s" and "more_to_do s"
    and "terminalErr (dispatchPhase conf polls sends s) = None"
  shows "0 < length (inflight (dispatchPhase conf polls sends s)) + length (retryTimers (dispatchPhase conf polls sends s))"
proof (rule ccontr)
  let ?s = "dispatchPhase conf polls sends s"
  assume "\<not> 0 < length (inflight ?s) + length (retryTimers ?s)"
  then have e: "inflight ?s = []" "retryTimers ?s = []" by auto
  have inv0: "sched_inv conf g s" using sched_reachable_inv(1) assms(1,3) by blast
  have inv: "sched_inv conf g ?s" by (rule dispatchPhase_inv [OF inv0 assms(1)])
  have none: "terminalErr s = None" using assms(5) by (cases "terminalErr s") (auto simp: dispatchPhase_def)
  obtain k k' where k: "terminalErr ?s = None \<longrightarrow> k' = k" and s: "?s = s\<lparr>graph := (graph s)\<lparr>ready := drop k' (ready (graph s))\<rparr>,
         inflight := inflight s @ map (mk_job conf (graph s)) (take k (ready (graph s))),
         terminalErr := terminalErr ?s, active := active s + int k\<rparr>"
    by (rule dispatchPhase_spec [OF none, of conf polls sends])
  have "inflight s @ map (mk_job conf (graph s)) (take k (ready (graph s))) = []"
    using arg_cong [OF s, of inflight] e(1) by simp
  then have "active s = 0" "take k (ready (graph s)) = []" using sched_invD(4) [OF inv0] by auto
  moreover from this have "ready (graph s) = []"
    using dispatchPhase_sends [OF inv0 none _ _ assms(5)] e(1) by blast
  ultimately have "ready (graph ?s) = []" using arg_cong [OF s, of "\<lambda>x. ready (graph x)"] by simp
  then have "stalled ?s" using sched_invD(4,5) [OF inv] e by (simp add: stalled_def)
  with stall_impossible [OF assms] show False by contradiction
qed

section \<open>Starting from a block\<close>

lemma buildDependencies_sched_start:
  assumes "buildDependencies E (newBlockTxGraph txs byID) = Ok (g, err)" and "'''' \<notin> dom byID"
    and "distinct (order g)" and "dom byID \<subseteq> set (order g)"
    and "\<forall>t tx. byID t = Some tx \<longrightarrow> tx_Txid tx = t"
  shows "sched_start g"
  using assms buildDependencies_wf [OF assms(1,2)] buildDependencies_order [OF assms(1)]
  unfolding sched_start_def by blast

section \<open>A concrete run\<close>

text \<open>The graph of the two-transaction block of \<^verbatim>\<open>demo_byID\<close>, and its run: the update is processed,
  then the support is handed out and the daemon is stopped.\<close>

definition demo_edge :: blockTxDependency where
  "demo_edge = \<lparr>parent = ''aa'', child = ''bb'', reason = dependencyReasonClaim\<rparr>"

definition demo_g :: blockTxGraph where
  "demo_g = \<lparr>txByID = demo_byID, children = (\<lambda>t. if t = ''aa'' then [demo_edge] else []),
     unresolved = (\<lambda>t. if t = ''bb'' then 1 else 0), completed = (\<lambda>_. False), attempts = (\<lambda>_. 0),
     edgeSet = {demo_edge}, order = [''aa'', ''bb''], ready = [''aa'']\<rparr>"

definition demo_conf :: schedConf where
  "demo_conf = \<lparr>MaxParallelTxProcessing = 2, MaxFailures = 3, blockTime = 0, blockHeight = 1\<rparr>"

definition demo_ok :: "TxRawResult \<Rightarrow> txProcessResult" where
  "demo_ok tx = \<lparr>res_tx = tx, res_blockTime = 0, res_blockHeight = 1, res_err = None, res_failcount = 1\<rparr>"

text \<open>One iteration without a stop signal in which the first job out is answered with success.\<close>

definition demo_iter :: "TxRawResult \<Rightarrow> schedState \<Rightarrow> schedState" where
  "demo_iter tx s =
     (let s1 = dispatchPhase demo_conf (\<lambda>_. False) (\<lambda>_. False) s
      in onResult demo_conf False (demo_ok tx) (s1\<lparr>inflight := remove_nth 0 (inflight s1)\<rparr>))"

definition demo_s1 :: schedState where "demo_s1 = demo_iter demo_update (initSched demo_g)"
definition demo_s2 :: schedState where "demo_s2 = demo_iter demo_support demo_s1"

lemma demo_sched_start: "sched_start demo_g"
proof -
  have "incoming demo_g c = (if c = ''bb'' then {demo_edge} else {})" for c
    by (auto simp: incoming_def demo_g_def demo_edge_def)
  then show ?thesis
    by (auto simp: sched_start_def wf_graph_def demo_g_def demo_edge_def demo_byID_def demo_update_def
        demo_support_def demo_tx_def split: if_splits)
qed

lemma demo_acyclic: "acyclic (edge_rel demo_g)"
proof -
  have "edge_rel demo_g \<subseteq> earlier [''aa'', ''bb'']"
    by (auto simp: edge_rel_def demo_g_def demo_edge_def intro: earlierI [of 0 1])
  moreover have "acyclic (earlier [''aa'', ''bb''])" by (rule acyclic_earlier) simp
  ultimately show ?thesis by (rule acyclic_subset [rotated])
qed

lemma demo_step1: "sched_step demo_conf (initSched demo_g) demo_s1"
  unfolding demo_s1_def demo_iter_def Let_def
  by (rule sched_step.Result [where polls = "\<lambda>_. False" and sends = "\<lambda>_. False" and err = None], code_simp,
      rule refl, code_simp, code_simp, code_simp, code_simp)

lemma demo_step2: "sched_step demo_conf demo_s1 demo_s2"
  unfolding demo_s2_def demo_iter_def Let_def
  by (rule sched_step.Result [where polls = "\<lambda>_. False" and sends = "\<lambda>_. False" and err = None], code_simp,
      rule refl, code_simp, code_simp, code_simp, code_simp)

definition demo_stopped :: schedState where
  "demo_stopped = (dispatchPhase demo_conf (\<lambda>_. False) (\<lambda>_. False) demo_s1)\<lparr>terminalErr := Some ManualShutDownError\<rparr>"

lemma demo_reachable:
  "sched_reachable demo_conf demo_g demo_s1" "sched_reachable demo_conf demo_g demo_stopped"
  "sched_reachable demo_conf demo_g (demo_s2\<lparr>looping := False\<rparr>)"
proof -
  have stop: "sched_step demo_conf demo_s1 demo_stopped"
    unfolding demo_stopped_def
    by (rule sched_step.Stop [where polls = "\<lambda>_. False" and sends = "\<lambda>_. False"], code_simp, rule refl,
        code_simp, code_simp)
  have "sched_step demo_conf demo_s2 (demo_s2\<lparr>looping := False\<rparr>)"
    by (rule sched_step.Done, code_simp, code_simp)
  then show "sched_reachable demo_conf demo_g (demo_s2\<lparr>looping := False\<rparr>)"
    using demo_step1 demo_step2 unfolding sched_reachable_def
    by (meson converse_rtranclp_into_rtranclp r_into_rtranclp)
  show "sched_reachable demo_conf demo_g demo_s1" "sched_reachable demo_conf demo_g demo_stopped"
    using demo_step1 stop unfolding sched_reachable_def
    by (meson converse_rtranclp_into_rtranclp r_into_rtranclp)+
qed

theorem inflight_dependencies_completed_witness:
  "map job_id (inflight demo_stopped) = [''bb''] \<and> completed (graph demo_stopped) ''aa''"
proof -
  have m: "map job_id (inflight demo_stopped) = [''bb'']" by code_simp
  then obtain j where j: "inflight demo_stopped = [j]" "job_id j = ''bb''" by auto
  have "(''aa'', ''bb'') \<in> edge_rel demo_g"
    by (simp add: edge_rel_def demo_g_def demo_edge_def)
  then have "completed (graph demo_stopped) ''aa''"
    using inflight_dependencies_completed [OF demo_sched_start demo_reachable(2), of j "''aa''"] j by auto
  with m show ?thesis by simp
qed

theorem scheduler_success_complete_witness:
  "done_set (demo_s2\<lparr>looping := False\<rparr>) = {''aa'', ''bb''}"
proof -
  have "terminalErr (demo_s2\<lparr>looping := False\<rparr>) = None" by code_simp
  then have "runBlockTxScheduler demo_conf (\<lambda>_. None) demo_g None (demo_s2\<lparr>looping := False\<rparr>)"
    using demo_reachable(3) by (simp add: runBlockTxScheduler_def sched_result_def) (simp add: demo_g_def)
  from scheduler_success_complete [OF demo_sched_start _ this] show ?thesis
    by (simp add: demo_g_def)
qed

theorem scheduler_progress_witness:
  "0 < length (inflight (dispatchPhase demo_conf (\<lambda>_. False) (\<lambda>_. False) demo_s1)) +
    length (retryTimers (dispatchPhase demo_conf (\<lambda>_. False) (\<lambda>_. False) demo_s1))"
  by (rule scheduler_progress [OF demo_sched_start demo_acyclic demo_reachable(1)]) (code_simp, code_simp)

theorem scheduler_terminates_witness:
  "int 2 \<le> (3 * (max 0 (MaxFailures demo_conf) + 1) + 3) * int (length (order demo_g)) +
    workerCount demo_conf demo_g + 2"
proof (rule scheduler_terminates [OF demo_sched_start])
  show "(sched_step demo_conf ^^ 2) (initSched demo_g) demo_s2"
    using demo_step1 demo_step2 by (auto simp: numeral_2_eq_2)
qed

section \<open>Errors end the run or are retried\<close>

text \<open>How a failed transaction is handled: a lock wait timeout or a deadlock of the database is
  retried until the configured number of failures is exceeded; every other error ends the run. A
  source output missing although its transaction is in the same block is reported as a violation of
  the scheduler's invariant. In each case the number of attempts is recorded.\<close>

lemma handleScheduledTxError_cases:
  "handleScheduledTxError conf result err g =
     (let t = tx_Txid (res_tx result); g' = g\<lparr>attempts := (attempts g)(t := res_failcount result)\<rparr> in
      case err_cause err of
        MissingSourceOutputError p _ _ _ \<Rightarrow>
          (g', Some (if p \<in> dom (txByID g)
             then Prefixed ''same-block source output missing'' ErrSchedulerInvariant else err))
      | MySQLError n \<Rightarrow>
          (g', if n \<in> {1205, 1213} then
                 (if res_failcount result \<le> MaxFailures conf then None
                  else Some (Prefixed ''transaction failed more than the maximum'' err))
               else Some err)
      | _ \<Rightarrow> (g', Some err))"
  by (auto simp: handleScheduledTxError_def Let_def missingSourceOutputFromError_def
      isRetryableScheduledTxError_def isRetryableStorageError_def mysqlErrorLockWaitTimeout_def
      mysqlErrorDeadlock_def split: goerr.splits option.splits)

section \<open>Fetching the block\<close>

lemma fetchLoop_results:
  assumes "\<forall>i\<in>set is. i < length txs"
  shows "fetchLoop (map (\<lambda>i. FetchResult i (Inr (f i))) is)
      \<lparr>orderedTxs = txs, fetchedByID = m, remaining = int (length is)\<rparr> =
    Some (Ok (fold (\<lambda>i xs. xs[i := Some (f i)]) is txs, fold (\<lambda>i m. m(tx_Txid (f i) \<mapsto> f i)) is m))"
  using assms
proof (induction "is" arbitrary: txs m)
  case Nil
  then show ?case by (simp add: fetchLoop.simps)
next
  case (Cons i "is")
  then show ?case by (subst fetchLoop.simps) (simp del: fun_upd_apply)
qed

lemma fold_update_nth:
  "length (fold (\<lambda>i xs. xs[i := f i]) is txs) = length txs"
  "k < length txs \<Longrightarrow> fold (\<lambda>i xs. xs[i := f i]) is txs ! k = (if k \<in> set is then f k else txs ! k)"
proof (induction "is" arbitrary: txs)
  case (Cons i "is")
  {
    case 1
    show ?case using Cons(1) by simp
  next
    case 2
    then show ?case using Cons(2) [of "txs[i := f i]"] by (auto simp: nth_list_update)
  }
qed simp_all

lemma fold_update_map:
  "fold (\<lambda>i m. m(g i \<mapsto> f i)) is m t =
    (case find (\<lambda>i. g i = t) (rev is) of Some i \<Rightarrow> Some (f i) | None \<Rightarrow> m t)"
proof (induction "is" arbitrary: m)
  case (Cons i "is")
  show ?case
    using Cons.IH [of "m(g i \<mapsto> f i)"] by (auto simp: find_snoc split: option.split)
qed simp

lemma fetch_collects:
  assumes "distinct is" and "set is = {..<length txIDs}" and "distinct txIDs"
    and "\<forall>i<length txIDs. tx_Txid (f i) = txIDs ! i"
  shows "fetchBlockRawTransactions txIDs (map (\<lambda>i. FetchResult i (Inr (f i))) is) =
    Some (Ok (map (\<lambda>i. Some (f i)) [0..<length txIDs],
              map_of (map (\<lambda>i. (txIDs ! i, f i)) [0..<length txIDs])))"
proof -
  let ?n = "length txIDs"
  have len: "length is = ?n" using assms(1,2) by (metis card_lessThan distinct_card)
  have res: "fetchBlockRawTransactions txIDs (map (\<lambda>i. FetchResult i (Inr (f i))) is) =
    Some (Ok (fold (\<lambda>i xs. xs[i := Some (f i)]) is (replicate ?n None),
      fold (\<lambda>i m. m(tx_Txid (f i) \<mapsto> f i)) is Map.empty))"
    using fetchLoop_results [of "is" "replicate ?n None" f Map.empty] assms(2)
    by (simp add: fetchBlockRawTransactions_def len)
  have ord: "fold (\<lambda>i xs. xs[i := Some (f i)]) is (replicate ?n None) = map (\<lambda>i. Some (f i)) [0..<?n]"
    using assms(2) by (intro nth_equalityI) (auto simp: fold_update_nth)
  have m: "fold (\<lambda>i m. m(tx_Txid (f i) \<mapsto> f i)) is Map.empty t =
      map_of (map (\<lambda>i. (txIDs ! i, f i)) [0..<?n]) t" for t
  proof (cases "t \<in> set txIDs")
    case True
    then obtain k where k: "k < ?n" "txIDs ! k = t" by (auto simp: in_set_conv_nth)
    have inj: "tx_Txid (f i) = t \<longleftrightarrow> i = k" if "i < ?n" for i
      using that k assms(3,4) by (auto simp: nth_eq_iff_index_eq)
    have "find (\<lambda>i. tx_Txid (f i) = t) (rev is) = Some k"
    proof (cases "find (\<lambda>i. tx_Txid (f i) = t) (rev is)")
      case None
      then show ?thesis using k inj assms(2) by (auto simp: find_None_iff)
    next
      case (Some i)
      then have "i \<in> set is" "tx_Txid (f i) = t" by (auto simp: find_Some_iff) (metis nth_mem set_rev length_rev)
      then show ?thesis using Some inj assms(2) by auto
    qed
    moreover have "map_of (map (\<lambda>i. (txIDs ! i, f i)) [0..<?n]) t = Some (f k)"
      using k assms(3) by (intro map_of_is_SomeI) (auto simp: comp_def distinct_conv_nth distinct_map inj_on_def)
    ultimately show ?thesis by (simp add: fold_update_map)
  next
    case False
    then have "find (\<lambda>i. tx_Txid (f i) = t) (rev is) = None"
      using assms(2,4) by (auto simp: find_None_iff)
    moreover have "map_of (map (\<lambda>i. (txIDs ! i, f i)) [0..<?n]) t = None"
      using False by (auto simp: map_of_eq_None_iff)
    ultimately show ?thesis by (simp add: fold_update_map)
  qed
  show ?thesis unfolding res ord by (simp add: fun_eq_iff m)
qed

text \<open>The transactions of a block are collected in block order, and under their ids, whatever the
  order in which the fetching workers answer.\<close>

theorem fetchBlockRawTransactions_order:
  assumes "distinct is" and "set is = {..<length txIDs}" and "distinct txIDs"
    and "\<forall>i<length txIDs. tx_Txid (f i) = txIDs ! i"
  shows "fetchBlockRawTransactions txIDs (map (\<lambda>i. FetchResult i (Inr (f i))) is) =
    Some (Ok (map (\<lambda>i. Some (f i)) [0..<length txIDs],
              map_of (map (\<lambda>i. (txIDs ! i, f i)) [0..<length txIDs])))"
  by (rule fetch_collects [OF assms])

theorem fetchBlockRawTransactions_order_witness:
  "fetchBlockRawTransactions [''aa'', ''bb'']
      (map (\<lambda>i. FetchResult i (Inr (if i = 0 then demo_update else demo_support))) [1, 0]) =
    Some (Ok ([Some demo_update, Some demo_support], [''aa'' \<mapsto> demo_update, ''bb'' \<mapsto> demo_support]))"
proof -
  let ?f = "\<lambda>i :: nat. if i = 0 then demo_update else demo_support"
  have "fetchBlockRawTransactions [''aa'', ''bb''] (map (\<lambda>i. FetchResult i (Inr (?f i))) [1, 0]) =
    Some (Ok (map (\<lambda>i. Some (?f i)) [0..<length [''aa'', ''bb'']],
              map_of (map (\<lambda>i. ([''aa'', ''bb''] ! i, ?f i)) [0..<length [''aa'', ''bb'']])))"
    by (rule fetchBlockRawTransactions_order)
      (auto simp: demo_update_def demo_support_def demo_tx_def less_Suc_eq)
  moreover have "map_of (map (\<lambda>i. ([''aa'', ''bb''] ! i, ?f i)) [0..<length [''aa'', ''bb'']]) =
      [''aa'' \<mapsto> demo_update, ''bb'' \<mapsto> demo_support]"
    by (simp add: upt_rec fun_upd_twist)
  ultimately show ?thesis by (simp add: upt_rec)
qed

end
