(* ===== verification/TopoOrder.thy ===== *)
theory TopoOrder
  imports TxGraph_Spec
begin

text \<open>
  \<^verbatim>\<open>optimizeOrderToProcess\<close> of \<^verbatim>\<open>daemon/processing/block.go\<close>: a deterministic topological order of a
  set of transactions by the outputs they spend from each other, with a fall back to the order of
  the ids when there is a cycle.
\<close>

section \<open>Definitions\<close>

text \<open>
  The map of transactions is an association list with distinct keys. The map \<^verbatim>\<open>children\<close> is the log of
  the pairs appended to it: the list under a key is the list of the children logged for it.
\<close>

type_synonym txMap = "(txid \<times> TxRawResult) list"

definition txIDs_of :: "txMap \<Rightarrow> txid list" where
  "txIDs_of txMap = sort (map fst txMap)"

definition spend_log :: "txMap \<Rightarrow> (txid \<times> txid) list" where
  "spend_log txMap =
     concat (map (\<lambda>t. case map_of txMap t of
         None \<Rightarrow> []
       | Some tx \<Rightarrow> map (\<lambda>v. (vin_TxID v, t)) (filter (\<lambda>v. map_of txMap (vin_TxID v) \<noteq> None) (tx_Vin tx)))
       (txIDs_of txMap))"

definition inDegree :: "(txid \<times> txid) list \<Rightarrow> txid \<Rightarrow> int" where
  "inDegree edges t = fold (\<lambda>(_, c) n. if c = t then n + 1 else n) edges 0"

definition children_of :: "(txid \<times> txid) list \<Rightarrow> txid \<Rightarrow> txid list" where
  "children_of edges t = sort (map snd (filter (\<lambda>e. fst e = t) edges))"

definition relax :: "txid \<Rightarrow> (txid \<Rightarrow> int) \<times> txid list \<Rightarrow> (txid \<Rightarrow> int) \<times> txid list" where
  "relax childID = (\<lambda>(deg, queue).
     let d = deg childID - 1
     in (deg(childID := d), if d = 0 then sort (queue @ [childID]) else queue))"

definition open_nodes :: "(txid \<times> txid) list \<Rightarrow> (txid \<Rightarrow> int) \<Rightarrow> txid set" where
  "open_nodes edges deg = {c \<in> snd ` set edges. 0 < deg c}"

text \<open>A child becomes queue when its last open edge is relaxed, so each step lowers what is left.\<close>

lemma relax_measure:
  assumes "set cs \<subseteq> snd ` set edges"
  shows "length (snd (fold relax cs (deg, queue))) + card (open_nodes edges (fst (fold relax cs (deg, queue))))
    \<le> length queue + card (open_nodes edges deg)"
  using assms
proof (induction cs arbitrary: deg queue)
  case (Cons c cs)
  let ?deg = "deg(c := deg c - 1)"
  have fin: "finite (open_nodes edges deg)" for deg :: "txid \<Rightarrow> int" by (simp add: open_nodes_def)
  have "length (snd (relax c (deg, queue))) + card (open_nodes edges (fst (relax c (deg, queue))))
      \<le> length queue + card (open_nodes edges deg)"
  proof (cases "deg c = 1")
    case True
    then have "open_nodes edges deg = insert c (open_nodes edges ?deg)" "c \<notin> open_nodes edges ?deg"
      using Cons.prems by (auto simp: open_nodes_def)
    then have "card (open_nodes edges deg) = Suc (card (open_nodes edges ?deg))" using fin by simp
    then show ?thesis using True by (simp add: relax_def Let_def)
  next
    case False
    have "open_nodes edges ?deg \<subseteq> open_nodes edges deg" by (auto simp: open_nodes_def split: if_splits)
    then show ?thesis using False fin by (simp add: relax_def Let_def card_mono)
  qed
  moreover obtain d r where r: "relax c (deg, queue) = (d, r)" by (cases "relax c (deg, queue)")
  moreover have "length (snd (fold relax cs (d, r))) + card (open_nodes edges (fst (fold relax cs (d, r))))
      \<le> length r + card (open_nodes edges d)"
    using Cons.prems by (intro Cons.IH) simp
  ultimately show ?case by simp
qed simp

lemma set_children_of: "set (children_of edges t) \<subseteq> snd ` set edges"
  by (auto simp: children_of_def)

function kahn :: "(txid \<times> txid) list \<Rightarrow> (txid \<Rightarrow> int) \<Rightarrow> txid list \<Rightarrow> txid list \<Rightarrow> txid list" where
  "kahn edges deg [] orderedTx = orderedTx"
| "kahn edges deg (txID # queue) orderedTx =
     (let (deg', queue') = fold relax (children_of edges txID) (deg, queue)
      in kahn edges deg' queue' (orderedTx @ [txID]))"
  by pat_completeness auto
termination
proof (relation "measure (\<lambda>(edges, deg, queue, _). length queue + card (open_nodes edges deg))")
  fix edges deg txID queue orderedTx x deg' queue'
  assume "x = fold relax (children_of edges txID) (deg, queue)" "(deg', queue') = x"
  then have "fold relax (children_of edges txID) (deg, queue) = (deg', queue')" by simp
  with relax_measure [OF set_children_of, of edges txID deg queue]
  show "((edges, deg', queue', orderedTx @ [txID]), edges, deg, txID # queue, orderedTx)
      \<in> measure (\<lambda>(edges, deg, queue, _). length queue + card (open_nodes edges deg))"
    by simp
qed simp

definition kahn_order :: "txMap \<Rightarrow> txid list" where
  "kahn_order txMap =
     (let edges = spend_log txMap
      in kahn edges (inDegree edges) (filter (\<lambda>t. inDegree edges t = 0) (txIDs_of txMap)) [])"

definition optimizeOrderToProcess :: "txMap \<Rightarrow> TxRawResult option list \<times> bool" where
  "optimizeOrderToProcess txMap =
     (let orderedTx = kahn_order txMap in
      if length orderedTx \<noteq> length txMap then (map (map_of txMap) (txIDs_of txMap), False)
      else (map (map_of txMap) orderedTx, True))"

section \<open>The loop\<close>

definition open_edges :: "(txid \<times> txid) list \<Rightarrow> txid list \<Rightarrow> txid \<Rightarrow> int" where
  "open_edges edges done c = int (length (filter (\<lambda>e. snd e = c \<and> fst e \<notin> set done) edges))"

definition kahn_inv :: "txid set \<Rightarrow> (txid \<times> txid) list \<Rightarrow> (txid \<Rightarrow> int) \<Rightarrow> txid list \<Rightarrow> txid list \<Rightarrow> bool" where
  "kahn_inv V edges deg queue done \<longleftrightarrow>
     (\<forall>c. deg c = open_edges edges done c) \<and> distinct (done @ queue) \<and>
     set (done @ queue) = {t \<in> V. deg t = 0} \<and>
     (\<forall>xs t ys. done = xs @ t # ys \<longrightarrow> (\<forall>p. (p, t) \<in> set edges \<longrightarrow> p \<in> set xs))"

lemma fold_relax:
  assumes "\<forall>c. int (count_list cs c) \<le> deg c"
  shows "\<exists>new. fst (fold relax cs (deg, queue)) = (\<lambda>c. deg c - int (count_list cs c)) \<and>
    mset (snd (fold relax cs (deg, queue))) = mset queue + mset new \<and> distinct new \<and>
    set new = {c. 0 < count_list cs c \<and> deg c = int (count_list cs c)}"
  using assms
proof (induction cs arbitrary: deg queue)
  case Nil
  then show ?case by (auto intro!: exI [of _ "[]"])
next
  case (Cons x cs)
  let ?deg = "deg(x := deg x - 1)" and ?r = "if deg x = 1 then sort (queue @ [x]) else queue"
  have step: "relax x (deg, queue) = (?deg, ?r)" by (simp add: relax_def Let_def)
  have pre: "int (count_list cs c) \<le> ?deg c" for c
    using Cons.prems [rule_format, of c] by (auto split: if_splits)
  from Cons.IH [of ?deg ?r] pre obtain new where
    f: "fst (fold relax cs (?deg, ?r)) = (\<lambda>c. ?deg c - int (count_list cs c))"
    and s: "mset (snd (fold relax cs (?deg, ?r))) = mset ?r + mset new"
    and new: "distinct new" "set new = {c. 0 < count_list cs c \<and> ?deg c = int (count_list cs c)}" by blast
  let ?new = "(if deg x = 1 then [x] else []) @ new"
  have one: "deg x = 1 \<Longrightarrow> count_list cs x = 0" using pre [of x] by simp
  have "c \<in> set ?new \<longleftrightarrow> 0 < count_list (x # cs) c \<and> deg c = int (count_list (x # cs) c)" for c
    using one pre [of c] by (auto simp: new(2) split: if_splits)
  moreover have "distinct ?new" using new one by auto
  moreover have "fst (fold relax (x # cs) (deg, queue)) = (\<lambda>c. deg c - int (count_list (x # cs) c))"
    using f by (auto simp: step fun_eq_iff)
  moreover have "mset (snd (fold relax (x # cs) (deg, queue))) = mset queue + mset ?new"
    using s by (simp add: step)
  ultimately show ?case by blast
qed

lemma count_children_of:
  "int (count_list (children_of edges t) c) = int (length (filter (\<lambda>e. snd e = c \<and> fst e = t) edges))"
proof -
  have "count_list (sort xs) c = count_list xs c" for xs :: "txid list"
    by (metis count_mset mset_sort)
  moreover have "count_list (map snd (filter (\<lambda>e. fst e = t) edges)) c = length (filter (\<lambda>e. snd e = c \<and> fst e = t) edges)"
    by (induction edges) auto
  ultimately show ?thesis by (simp add: children_of_def)
qed

lemma open_edges_snoc:
  assumes "t \<notin> set done"
  shows "open_edges edges (done @ [t]) c = open_edges edges done c - int (count_list (children_of edges t) c)"
  unfolding open_edges_def count_children_of using assms by (induction edges) auto

lemma kahn_inv_step:
  assumes inv: "kahn_inv V edges deg (t # queue) done" and V: "snd ` set edges \<subseteq> V"
    and f: "fold relax (children_of edges t) (deg, queue) = (deg', queue')"
  shows "kahn_inv V edges deg' queue' (done @ [t])"
proof -
  let ?k = "\<lambda>c. count_list (children_of edges t) c"
  have t: "t \<notin> set done" "t \<in> V" "deg t = 0" "t \<notin> set queue" "distinct (done @ queue)"
    using inv by (auto simp: kahn_inv_def)
  have deg: "deg c = open_edges edges done c" for c using inv by (simp add: kahn_inv_def)
  have nn: "0 \<le> open_edges edges (done @ [t]) c" for c by (simp add: open_edges_def)
  have le: "\<forall>c. int (?k c) \<le> deg c" using nn open_edges_snoc [OF t(1), of edges] deg by auto
  from fold_relax [OF this, of queue] f obtain new where
    d': "deg' = (\<lambda>c. deg c - int (?k c))" and r': "mset queue' = mset queue + mset new"
    and new: "distinct new" "set new = {c. 0 < ?k c \<and> deg c = int (?k c)}" by auto
  have old: "set (done @ t # queue) = {c \<in> V. deg c = 0}" using inv by (simp add: kahn_inv_def)
  have sr: "set queue' = set queue \<union> set new" using arg_cong [OF r', of set_mset] by simp
  have newV: "set new \<subseteq> V"
  proof
    fix c assume "c \<in> set new"
    then have "c \<in> set (children_of edges t)" using new(2) count_notin [of c "children_of edges t"] by fastforce
    then show "c \<in> V" using set_children_of V by blast
  qed
  have disj: "set new \<inter> set (done @ t # queue) = {}" using new(2) old by auto
  have "distinct (queue @ new)" using t(5) new(1) disj by auto
  then have "distinct queue'" using r' by (metis mset_append mset_eq_imp_distinct_iff)
  moreover have "set (done @ [t]) \<inter> set queue' = {}" using disj t sr by auto
  ultimately have dist: "distinct ((done @ [t]) @ queue')" using t by auto
  have mem: "set ((done @ [t]) @ queue') = {c \<in> V. deg' c = 0}"
  proof -
    have k0: "?k c = 0" if "deg c = 0" for c using le [rule_format, of c] that by simp
    have "set ((done @ [t]) @ queue') = {c \<in> V. deg c = 0} \<union> set new" using old sr by auto
    also have "\<dots> = {c \<in> V. deg' c = 0}" using newV k0 unfolding new(2) d' by fastforce
    finally show ?thesis .
  qed
  have topo: "p \<in> set xs" if o: "done @ [t] = xs @ u # ys" and e: "(p, u) \<in> set edges" for xs u ys p
  proof (cases ys rule: rev_cases)
    case Nil
    then have "u = t" "xs = done" using o by auto
    have "open_edges edges done t = 0" using t(3) deg by simp
    then show ?thesis using e \<open>u = t\<close> \<open>xs = done\<close> by (auto simp: open_edges_def filter_empty_conv)
  next
    case (snoc zs z)
    then have "done = xs @ u # zs" using o by simp
    with inv e show ?thesis unfolding kahn_inv_def by blast
  qed
  show ?thesis
    using dist mem topo deg open_edges_snoc [OF t(1), of edges]
    unfolding kahn_inv_def d' by auto
qed

lemma kahn_inv_final:
  assumes "kahn_inv V edges deg queue done" and "snd ` set edges \<subseteq> V"
  shows "\<exists>deg'. kahn_inv V edges deg' [] (kahn edges deg queue done)"
  using assms
proof (induction edges deg queue "done" rule: kahn.induct)
  case (1 edges deg orderedTx)
  then show ?case by auto
next
  case (2 edges deg t queue orderedTx)
  obtain deg' queue' where f: "fold relax (children_of edges t) (deg, queue) = (deg', queue')"
    by (cases "fold relax (children_of edges t) (deg, queue)")
  from 2 kahn_inv_step [OF 2(2,3) f] f show ?case by simp
qed
section \<open>Correctness\<close>

lemma inDegree_open_edges: "inDegree edges t = open_edges edges [] t"
proof -
  have "fold (\<lambda>(_, c) n. if c = t then n + 1 else n) edges n =
      n + int (length (filter (\<lambda>e. snd e = t) edges))" for n
    by (induction edges arbitrary: n) (auto split: prod.splits)
  then show ?thesis by (simp add: inDegree_def open_edges_def)
qed

text \<open>The in-block spends of a set of transactions, as a relation.\<close>

definition spend_rel :: "txMap \<Rightarrow> (txid \<times> txid) set" where
  "spend_rel txMap =
     {(p, c). \<exists>tx v. map_of txMap c = Some tx \<and> v \<in> set (tx_Vin tx) \<and> vin_TxID v = p \<and>
        map_of txMap p \<noteq> None}"

lemma set_txIDs_of [simp]: "set (txIDs_of m) = dom (map_of m)"
  by (simp add: txIDs_of_def dom_map_of_conv_image_fst)

lemma set_spend_log: "set (spend_log m) = spend_rel m"
  by (auto simp: spend_log_def spend_rel_def split: option.splits)

lemma spend_rel_dom: "(p, c) \<in> spend_rel m \<Longrightarrow> p \<in> dom (map_of m) \<and> c \<in> dom (map_of m)"
  by (auto simp: spend_rel_def)

lemma kahn_order_inv:
  assumes "distinct (map fst m)"
  shows "\<exists>deg. kahn_inv (dom (map_of m)) (spend_log m) deg [] (kahn_order m)"
proof -
  let ?e = "spend_log m"
  have "distinct (txIDs_of m)" using assms by (simp add: txIDs_of_def)
  then have "kahn_inv (dom (map_of m)) ?e (inDegree ?e) (filter (\<lambda>t. inDegree ?e t = 0) (txIDs_of m)) []"
    by (auto simp: kahn_inv_def inDegree_open_edges)
  moreover have "snd ` set ?e \<subseteq> dom (map_of m)"
    using spend_rel_dom [of _ _ m] unfolding set_spend_log by force
  ultimately show ?thesis
    using kahn_inv_final by (fastforce simp: kahn_order_def Let_def)
qed

lemma card_dom_map_of: "distinct (map fst m) \<Longrightarrow> card (dom (map_of m)) = length m"
  by (metis distinct_card dom_map_of_conv_image_fst length_map list.set_map)

lemma kahn_order_complete:
  assumes d: "distinct (map fst m)"
  shows "distinct (kahn_order m)" and "set (kahn_order m) \<subseteq> dom (map_of m)"
    and "length (kahn_order m) = length m \<longleftrightarrow> set (kahn_order m) = dom (map_of m)"
proof -
  obtain deg where inv: "kahn_inv (dom (map_of m)) (spend_log m) deg [] (kahn_order m)"
    using kahn_order_inv [OF d] by blast
  then show dist: "distinct (kahn_order m)" and sub: "set (kahn_order m) \<subseteq> dom (map_of m)"
    by (auto simp: kahn_inv_def)
  have "length (kahn_order m) = card (set (kahn_order m))" using dist by (simp add: distinct_card)
  then show "length (kahn_order m) = length m \<longleftrightarrow> set (kahn_order m) = dom (map_of m)"
    using card_dom_map_of [OF d] sub by (metis card_subset_eq finite_dom_map_of)
qed

lemma kahn_order_topological:
  assumes d: "distinct (map fst m)" and all: "set (kahn_order m) = dom (map_of m)"
  shows "spend_rel m \<subseteq> earlier (kahn_order m)"
proof (clarify)
  fix p c assume e: "(p, c) \<in> spend_rel m"
  obtain deg where inv: "kahn_inv (dom (map_of m)) (spend_log m) deg [] (kahn_order m)"
    using kahn_order_inv [OF d] by blast
  have "c \<in> set (kahn_order m)" using spend_rel_dom [OF e] all by simp
  then obtain xs ys where o: "kahn_order m = xs @ c # ys" by (meson split_list)
  have "p \<in> set xs" using inv o e unfolding kahn_inv_def set_spend_log by blast
  then have "(p, c) \<in> earlier (xs @ [c])" by (rule earlier_snoc)
  then show "(p, c) \<in> earlier (kahn_order m)" using earlier_mono [of "xs @ [c]" ys] by (auto simp: o)
qed

lemma kahn_order_acyclic:
  assumes d: "distinct (map fst m)"
  shows "set (kahn_order m) = dom (map_of m) \<longleftrightarrow> acyclic (spend_rel m)"
proof
  assume "set (kahn_order m) = dom (map_of m)"
  from kahn_order_topological [OF d this] acyclic_earlier [OF kahn_order_complete(1) [OF d]]
  show "acyclic (spend_rel m)" by (rule acyclic_subset [rotated])
next
  assume ac: "acyclic (spend_rel m)"
  obtain deg where inv: "kahn_inv (dom (map_of m)) (spend_log m) deg [] (kahn_order m)"
    using kahn_order_inv [OF d] by blast
  show "set (kahn_order m) = dom (map_of m)"
  proof (rule ccontr)
    let ?X = "dom (map_of m) - set (kahn_order m)"
    assume "set (kahn_order m) \<noteq> dom (map_of m)"
    then have ne: "?X \<noteq> {}" using kahn_order_complete(2) [OF d] by blast
    have "\<exists>p\<in>?X. (p, c) \<in> spend_rel m" if c: "c \<in> ?X" for c
    proof -
      have "deg c \<noteq> 0" using c inv by (auto simp: kahn_inv_def)
      then have "open_edges (spend_log m) (kahn_order m) c \<noteq> 0" using inv by (simp add: kahn_inv_def)
      then obtain p where "(p, c) \<in> set (spend_log m)" "p \<notin> set (kahn_order m)"
        by (auto simp: open_edges_def filter_empty_conv)
      then show ?thesis using spend_rel_dom [of p c m] by (auto simp: set_spend_log)
    qed
    moreover have "finite (spend_rel m)" by (metis List.finite_set set_spend_log)
    ultimately show False using acyclic_minimal [OF ac _ ne] by blast
  qed
qed

text \<open>C35: The order is a correct topological sort: it reports success exactly when the spends among the
  transactions have no cycle, and then no transaction comes before one whose output it spends; on
  failure the transactions come in the order of their ids. In both cases every transaction occurs
  exactly once.\<close>

theorem optimizeOrderToProcess_correct:
  assumes "distinct (map fst m)" and "optimizeOrderToProcess m = (txs, ok)"
  shows "\<exists>ids. txs = map (map_of m) ids \<and> distinct ids \<and> set ids = fst ` set m \<and>
    ok = acyclic (spend_rel m) \<and>
    (if ok then spend_rel m \<subseteq> earlier ids else sorted ids)"
proof -
  note k = kahn_order_complete [OF assms(1)] kahn_order_acyclic [OF assms(1)]
  have dom: "dom (map_of m) = fst ` set m" by (rule dom_map_of_conv_image_fst)
  show ?thesis
  proof (cases "length (kahn_order m) = length m")
    case True
    then show ?thesis
      using assms(2) k kahn_order_topological [OF assms(1)] dom
      by (intro exI [of _ "kahn_order m"]) (auto simp: optimizeOrderToProcess_def Let_def)
  next
    case False
    have "distinct (txIDs_of m)" "sorted (txIDs_of m)" using assms(1) by (simp_all add: txIDs_of_def)
    then show ?thesis
      using False assms(2) k dom
      by (intro exI [of _ "txIDs_of m"]) (auto simp: optimizeOrderToProcess_def Let_def)
  qed
qed

definition demo_chain :: txMap where
  "demo_chain = [(''aa'', demo_tx ''aa'' [demo_in ''bb''] []), (''bb'', demo_tx ''bb'' [] [])]"

lemma demo_chain_order:
  "optimizeOrderToProcess demo_chain = ([Some (demo_tx ''bb'' [] []), Some (demo_tx ''aa'' [demo_in ''bb''] [])], True)"
  by code_simp

theorem optimizeOrderToProcess_correct_witness:
  "\<exists>ids. [Some (demo_tx ''bb'' [] []), Some (demo_tx ''aa'' [demo_in ''bb''] [])] = map (map_of demo_chain) ids \<and>
    acyclic (spend_rel demo_chain)"
proof -
  have "distinct (map fst demo_chain)" by (simp add: demo_chain_def)
  from optimizeOrderToProcess_correct [OF this demo_chain_order] show ?thesis by meson
qed

end
