(* ===== verification/Model.thy ===== *)
theory Model
  imports Chain_Types
begin

text \<open>
  The rows of the database, \<^verbatim>\<open>model/\<close>: one record per generated struct with the fields of its columns.
  A nullable column is an option. \<^verbatim>\<open>zeroX\<close> is the zero value \<^verbatim>\<open>X{}\<close> of the Go struct.
  A time is its Unix time in seconds; the zero \<^verbatim>\<open>time.Time\<close>, which the program only uses as "not set", is
  written as 0.
\<close>

type_synonym time = int

record Block =
  b_ID :: nat
  b_Bits :: string
  b_Chainwork :: string
  b_Confirmations :: nat
  b_Difficulty :: f64
  b_Hash :: string
  b_Height :: nat
  b_MerkleRoot :: string
  b_NameClaimRoot :: string
  b_Nonce :: nat
  b_PreviousBlockHash :: "string option"
  b_NextBlockHash :: "string option"
  b_BlockSize :: nat
  b_BlockTime :: nat
  b_Version :: nat
  b_VersionHex :: string
  b_TXCount :: int
  b_ProcessingState :: "string option"
  b_CreatedAt :: time
  b_ModifiedAt :: time

definition zeroBlock :: Block where
  "zeroBlock =
     \<lparr>b_ID = 0, b_Bits = '''', b_Chainwork = '''', b_Confirmations = 0, b_Difficulty =
     f64_zero, b_Hash = '''', b_Height = 0, b_MerkleRoot = '''', b_NameClaimRoot = '''',
     b_Nonce = 0, b_PreviousBlockHash = None, b_NextBlockHash = None, b_BlockSize = 0,
     b_BlockTime = 0, b_Version = 0, b_VersionHex = '''', b_TXCount = 0, b_ProcessingState =
     None, b_CreatedAt = 0, b_ModifiedAt = 0\<rparr>"

record Transaction =
  t_ID :: nat
  t_BlockHashID :: "string option"
  t_InputCount :: nat
  t_OutputCount :: nat
  t_TransactionTime :: "nat option"
  t_TransactionSize :: nat
  t_Hash :: string
  t_Version :: int
  t_LockTime :: nat
  t_CreatedAt :: time
  t_ModifiedAt :: time
  t_CreatedTime :: time
  t_Value :: f64

definition zeroTransaction :: Transaction where
  "zeroTransaction =
     \<lparr>t_ID = 0, t_BlockHashID = None, t_InputCount = 0, t_OutputCount = 0, t_TransactionTime =
     None, t_TransactionSize = 0, t_Hash = '''', t_Version = 0, t_LockTime = 0, t_CreatedAt =
     0, t_ModifiedAt = 0, t_CreatedTime = 0, t_Value = f64_zero\<rparr>"

record Output =
  o_ID :: nat
  o_TransactionID :: nat
  o_TransactionHash :: string
  o_Value :: "f64 option"
  o_Vout :: nat
  o_Type :: "string option"
  o_ScriptPubKeyAsm :: "string option"
  o_ScriptPubKeyHex :: "string option"
  o_RequiredSignatures :: "nat option"
  o_AddressList :: "string option"
  o_IsSpent :: bool
  o_SpentByInputID :: "nat option"
  o_CreatedAt :: time
  o_ModifiedAt :: time
  o_ClaimID :: "string option"

definition zeroOutput :: Output where
  "zeroOutput =
     \<lparr>o_ID = 0, o_TransactionID = 0, o_TransactionHash = '''', o_Value = None, o_Vout = 0,
     o_Type = None, o_ScriptPubKeyAsm = None, o_ScriptPubKeyHex = None, o_RequiredSignatures
     = None, o_AddressList = None, o_IsSpent = False, o_SpentByInputID = None, o_CreatedAt =
     0, o_ModifiedAt = 0, o_ClaimID = None\<rparr>"

record Input =
  i_ID :: nat
  i_TransactionID :: nat
  i_TransactionHash :: string
  i_InputAddressID :: "nat option"
  i_IsCoinbase :: bool
  i_Coinbase :: "string option"
  i_PrevoutHash :: "string option"
  i_PrevoutN :: "nat option"
  i_Sequence :: nat
  i_Value :: "f64 option"
  i_ScriptSigAsm :: "string option"
  i_ScriptSigHex :: "string option"
  i_Created :: time
  i_Modified :: time
  i_Vin :: "nat option"
  i_Witness :: "string option"

definition zeroInput :: Input where
  "zeroInput =
     \<lparr>i_ID = 0, i_TransactionID = 0, i_TransactionHash = '''', i_InputAddressID = None,
     i_IsCoinbase = False, i_Coinbase = None, i_PrevoutHash = None, i_PrevoutN = None,
     i_Sequence = 0, i_Value = None, i_ScriptSigAsm = None, i_ScriptSigHex = None, i_Created
     = 0, i_Modified = 0, i_Vin = None, i_Witness = None\<rparr>"

record Address =
  a_ID :: nat
  a_Address :: string
  a_FirstSeen :: "time option"
  a_CreatedAt :: time
  a_ModifiedAt :: time
  a_Balance :: f64

definition zeroAddress :: Address where
  "zeroAddress =
     \<lparr>a_ID = 0, a_Address = '''', a_FirstSeen = None, a_CreatedAt = 0, a_ModifiedAt = 0,
     a_Balance = f64_zero\<rparr>"

record TransactionAddress =
  ta_TransactionID :: nat
  ta_AddressID :: nat
  ta_DebitAmount :: f64
  ta_CreditAmount :: f64

definition zeroTransactionAddress :: TransactionAddress where
  "zeroTransactionAddress =
     \<lparr>ta_TransactionID = 0, ta_AddressID = 0, ta_DebitAmount = f64_zero, ta_CreditAmount =
     f64_zero\<rparr>"

record Claim =
  c_ID :: nat
  c_TransactionHashID :: "string option"
  c_Vout :: nat
  c_Name :: string
  c_ClaimID :: string
  c_ClaimType :: int
  c_PublisherID :: "string option"
  c_PublisherSig :: "string option"
  c_Certificate :: "string option"
  c_SDHash :: "string option"
  c_TransactionTime :: "nat option"
  c_Version :: "string option"
  c_ValueAsHex :: string
  c_ValueAsJSON :: "string option"
  c_ValidAtHeight :: nat
  c_Height :: nat
  c_EffectiveAmount :: nat
  c_Author :: "string option"
  c_Description :: "string option"
  c_ContentType :: "string option"
  c_IsNSFW :: bool
  c_Language :: "string option"
  c_ThumbnailURL :: "string option"
  c_Title :: "string option"
  c_Fee :: f64
  c_FeeCurrency :: "string option"
  c_FeeAddress :: "string option"
  c_IsFiltered :: bool
  c_BidState :: string
  c_CreatedAt :: time
  c_ModifiedAt :: time
  c_ClaimAddress :: string
  c_IsCertValid :: bool
  c_IsCertProcessed :: bool
  c_License :: "string option"
  c_Type :: "string option"
  c_ReleaseTime :: "nat option"
  c_SourceHash :: "string option"
  c_SourceName :: "string option"
  c_SourceSize :: "nat option"
  c_SourceMediaType :: "string option"
  c_SourceURL :: "string option"
  c_FrameWidth :: "nat option"
  c_FrameHeight :: "nat option"
  c_Duration :: "nat option"
  c_AudioDuration :: "nat option"
  c_Email :: "string option"
  c_HasClaimList :: "bool option"
  c_ClaimReference :: "string option"
  c_ListType :: "int option"
  c_ClaimIDList :: "string option"
  c_TransactionHashUpdate :: "string option"
  c_VoutUpdate :: "nat option"
  c_ClaimCount :: int

definition zeroClaim :: Claim where
  "zeroClaim =
     \<lparr>c_ID = 0, c_TransactionHashID = None, c_Vout = 0, c_Name = '''', c_ClaimID = '''',
     c_ClaimType = 0, c_PublisherID = None, c_PublisherSig = None, c_Certificate = None,
     c_SDHash = None, c_TransactionTime = None, c_Version = None, c_ValueAsHex = '''',
     c_ValueAsJSON = None, c_ValidAtHeight = 0, c_Height = 0, c_EffectiveAmount = 0, c_Author
     = None, c_Description = None, c_ContentType = None, c_IsNSFW = False, c_Language = None,
     c_ThumbnailURL = None, c_Title = None, c_Fee = f64_zero, c_FeeCurrency = None,
     c_FeeAddress = None, c_IsFiltered = False, c_BidState = '''', c_CreatedAt = 0,
     c_ModifiedAt = 0, c_ClaimAddress = '''', c_IsCertValid = False, c_IsCertProcessed =
     False, c_License = None, c_Type = None, c_ReleaseTime = None, c_SourceHash = None,
     c_SourceName = None, c_SourceSize = None, c_SourceMediaType = None, c_SourceURL = None,
     c_FrameWidth = None, c_FrameHeight = None, c_Duration = None, c_AudioDuration = None,
     c_Email = None, c_HasClaimList = None, c_ClaimReference = None, c_ListType = None,
     c_ClaimIDList = None, c_TransactionHashUpdate = None, c_VoutUpdate = None, c_ClaimCount
     = 0\<rparr>"

record Support =
  s_ID :: nat
  s_SupportedClaimID :: string
  s_SupportAmount :: f64
  s_BidState :: string
  s_TransactionHashID :: "string option"
  s_Vout :: nat
  s_CreatedAt :: time
  s_ModifiedAt :: time
  s_SupportedByClaimID :: "string option"

definition zeroSupport :: Support where
  "zeroSupport =
     \<lparr>s_ID = 0, s_SupportedClaimID = '''', s_SupportAmount = f64_zero, s_BidState = '''',
     s_TransactionHashID = None, s_Vout = 0, s_CreatedAt = 0, s_ModifiedAt = 0,
     s_SupportedByClaimID = None\<rparr>"

record Tag =
  tg_ID :: nat
  tg_Tag :: string
  tg_CreatedAt :: time
  tg_ModifiedAt :: time

definition zeroTag :: Tag where
  "zeroTag =
     \<lparr>tg_ID = 0, tg_Tag = '''', tg_CreatedAt = 0, tg_ModifiedAt = 0\<rparr>"

record ClaimTag =
  ct_ID :: nat
  ct_TagID :: "nat option"
  ct_ClaimID :: string
  ct_CreatedAt :: time
  ct_ModifiedAt :: time

definition zeroClaimTag :: ClaimTag where
  "zeroClaimTag =
     \<lparr>ct_ID = 0, ct_TagID = None, ct_ClaimID = '''', ct_CreatedAt = 0, ct_ModifiedAt = 0\<rparr>"

record ClaimInList =
  cl_ID :: nat
  cl_ListClaimID :: string
  cl_ClaimID :: "string option"
  cl_CreatedAt :: time
  cl_ModifiedAt :: time

definition zeroClaimInList :: ClaimInList where
  "zeroClaimInList =
     \<lparr>cl_ID = 0, cl_ListClaimID = '''', cl_ClaimID = None, cl_CreatedAt = 0, cl_ModifiedAt = 0\<rparr>"

record Purchase =
  p_ID :: nat
  p_TransactionByHashID :: "string option"
  p_Vout :: nat
  p_ClaimID :: "string option"
  p_PublisherID :: "string option"
  p_Height :: nat
  p_AmountSatoshi :: int
  p_Created :: time
  p_Modified :: time

definition zeroPurchase :: Purchase where
  "zeroPurchase =
     \<lparr>p_ID = 0, p_TransactionByHashID = None, p_Vout = 0, p_ClaimID = None, p_PublisherID =
     None, p_Height = 0, p_AmountSatoshi = 0, p_Created = 0, p_Modified = 0\<rparr>"

record AbnormalClaim =
  ac_ID :: nat
  ac_Name :: string
  ac_ClaimID :: string
  ac_IsUpdate :: bool
  ac_BlockHash :: "string option"
  ac_TransactionHash :: "string option"
  ac_Vout :: nat
  ac_OutputID :: nat
  ac_ValueAsHex :: string
  ac_ValueAsJSON :: "string option"
  ac_CreatedAt :: time
  ac_ModifiedAt :: time

definition zeroAbnormalClaim :: AbnormalClaim where
  "zeroAbnormalClaim =
     \<lparr>ac_ID = 0, ac_Name = '''', ac_ClaimID = '''', ac_IsUpdate = False, ac_BlockHash = None,
     ac_TransactionHash = None, ac_Vout = 0, ac_OutputID = 0, ac_ValueAsHex = '''',
     ac_ValueAsJSON = None, ac_CreatedAt = 0, ac_ModifiedAt = 0\<rparr>"

record JobStatus =
  js_JobName :: string
  js_LastSync :: time
  js_IsSuccess :: bool
  js_ErrorMessage :: "string option"
  js_State :: "string option"

definition zeroJobStatus :: JobStatus where
  "zeroJobStatus =
     \<lparr>js_JobName = '''', js_LastSync = 0, js_IsSuccess = False, js_ErrorMessage = None,
     js_State = None\<rparr>"

record ApplicationStatus =
  as_ID :: nat
  as_AppVersion :: int
  as_DataVersion :: int
  as_APIVersion :: int

definition zeroApplicationStatus :: ApplicationStatus where
  "zeroApplicationStatus =
     \<lparr>as_ID = 0, as_AppVersion = 0, as_DataVersion = 0, as_APIVersion = 0\<rparr>"

end
