(* ===== verification/DB.thy ===== *)
theory DB
  imports Model
begin

text \<open>
  The database the program works on, as far as the generated code of \<^verbatim>\<open>model/\<close> uses it: tables with
  an auto-increment key, unique indexes and cascading foreign keys as the schema declares them, and
  statements that can fail. A statement consumes one entry of a schedule of faults, so every
  theorem quantifies over all patterns of database errors.
\<close>

section \<open>Tables\<close>

record 'r table =
  rows :: "'r list"
  nextID :: nat

definition duplicateEntry :: goerr where "duplicateEntry = MySQLError 1062"

text \<open>
  \<open>clash x r\<close> is whether two rows agree on a unique index other than the key. An insert without key
  takes the next value of the auto-increment counter.
\<close>

definition t_insert ::
    "('r \<Rightarrow> nat) \<Rightarrow> (nat \<Rightarrow> 'r \<Rightarrow> 'r) \<Rightarrow> ('r \<Rightarrow> 'r \<Rightarrow> bool) \<Rightarrow> 'r \<Rightarrow> 'r table \<Rightarrow> ('r \<times> 'r table) outcome" where
  "t_insert key setkey clash r t =
     (let r' = (if key r = 0 then setkey (nextID t) r else r) in
      if \<exists>x\<in>set (rows t). key x = key r' \<or> clash x r' then Err duplicateEntry
      else Ok (r', t\<lparr>rows := rows t @ [r'], nextID := max (nextID t) (key r' + 1)\<rparr>))"

text \<open>An update writes the columns \<open>f\<close> changes in the row with the key; no such row is no error.\<close>

definition t_update ::
    "('r \<Rightarrow> nat) \<Rightarrow> ('r \<Rightarrow> 'r \<Rightarrow> bool) \<Rightarrow> nat \<Rightarrow> ('r \<Rightarrow> 'r) \<Rightarrow> 'r table \<Rightarrow> ('r table) outcome" where
  "t_update key clash k f t =
     (if \<exists>x\<in>set (rows t). key x = k \<and> (\<exists>y\<in>set (rows t). key y \<noteq> k \<and> clash y (f x))
      then Err duplicateEntry
      else Ok (t\<lparr>rows := map (\<lambda>x. if key x = k then f x else x) (rows t)\<rparr>))"

definition t_filter :: "('r \<Rightarrow> bool) \<Rightarrow> 'r table \<Rightarrow> 'r table" where
  "t_filter P t = t\<lparr>rows := filter P (rows t)\<rparr>"

definition t_map :: "('r \<Rightarrow> 'r) \<Rightarrow> 'r table \<Rightarrow> 'r table" where
  "t_map f t = t\<lparr>rows := map f (rows t)\<rparr>"

lemma t_map_t_map: "t_map f (t_map g t) = t_map (\<lambda>x. f (g x)) t"
  by (simp add: t_map_def comp_def)

lemma t_map_cong: "(\<And>x. x \<in> set (rows t) \<Longrightarrow> f x = g x) \<Longrightarrow> t_map f t = t_map g t"
  by (simp add: t_map_def)

definition emptyTable :: "'r table" where "emptyTable = \<lparr>rows = [], nextID = 1\<rparr>"

section \<open>The interface of a table\<close>

locale keyed_table =
  fixes key :: "'r \<Rightarrow> nat" and setkey :: "nat \<Rightarrow> 'r \<Rightarrow> 'r" and clash :: "'r \<Rightarrow> 'r \<Rightarrow> bool"
  assumes key_setkey: "key (setkey k r) = k"
    and clash_sym: "clash x y \<Longrightarrow> clash y x"
    and clash_setkey: "clash x (setkey k r) = clash x r"
begin

definition wf_table :: "'r table \<Rightarrow> bool" where
  "wf_table t \<longleftrightarrow>
     distinct (map key (rows t)) \<and> (\<forall>x\<in>set (rows t). 0 < key x \<and> key x < nextID t) \<and>
     (\<forall>x\<in>set (rows t). \<forall>y\<in>set (rows t). key x \<noteq> key y \<longrightarrow> \<not> clash x y) \<and> 0 < nextID t"

lemma wf_empty: "wf_table emptyTable"
  by (simp add: wf_table_def emptyTable_def)

lemma wf_insert:
  assumes "wf_table t" and "t_insert key setkey clash r t = Ok (r', t')"
  shows "wf_table t'"
proof -
  have t': "t' = t\<lparr>rows := rows t @ [r'], nextID := max (nextID t) (key r' + 1)\<rparr>"
    and new: "\<forall>x\<in>set (rows t). key x \<noteq> key r' \<and> \<not> clash x r'"
    and r': "r' = (if key r = 0 then setkey (nextID t) r else r)"
    using assms(2) by (auto simp: t_insert_def Let_def split: if_splits)
  have "0 < key r'" using assms(1) by (auto simp: r' key_setkey wf_table_def)
  then show ?thesis
    using assms(1) new clash_sym by (fastforce simp: t' wf_table_def)
qed

lemma insert_row: "t_insert key setkey clash r t = Ok (r', t') \<Longrightarrow> rows t' = rows t @ [r']"
  by (auto simp: t_insert_def Let_def split: if_splits)

lemma insert_fresh:
  assumes "wf_table t" and "key r = 0" and "\<forall>x\<in>set (rows t). \<not> clash x r"
  shows "t_insert key setkey clash r t =
    Ok (setkey (nextID t) r, t\<lparr>rows := rows t @ [setkey (nextID t) r], nextID := nextID t + 1\<rparr>)"
proof -
  have "key x \<noteq> nextID t" if "x \<in> set (rows t)" for x
    using assms(1) that by (auto simp: wf_table_def)
  then show ?thesis using assms(2,3) by (auto simp: t_insert_def Let_def key_setkey clash_setkey)
qed

lemma wf_update:
  assumes "wf_table t" and "t_update key clash k f t = Ok t'"
    and "\<And>x. x \<in> set (rows t) \<Longrightarrow> key x = k \<Longrightarrow> key (f x) = k"
  shows "wf_table t'"
proof -
  have t': "t' = t\<lparr>rows := map (\<lambda>x. if key x = k then f x else x) (rows t)\<rparr>"
    and ok: "\<And>x y. x \<in> set (rows t) \<Longrightarrow> key x = k \<Longrightarrow> y \<in> set (rows t) \<Longrightarrow> key y \<noteq> k \<Longrightarrow> \<not> clash y (f x)"
    using assms(2) by (auto simp: t_update_def split: if_splits)
  have keys: "map key (rows t') = map key (rows t)"
    using assms(3) by (auto simp: t')
  have "\<not> clash x y" if "x \<in> set (rows t')" "y \<in> set (rows t')" "key x \<noteq> key y" for x y
  proof -
    from that obtain a b where a: "a \<in> set (rows t)" "x = (if key a = k then f a else a)"
      and b: "b \<in> set (rows t)" "y = (if key b = k then f b else b)" by (auto simp: t')
    consider "key a = k" "key b \<noteq> k" | "key a \<noteq> k" "key b = k" | "key a = k" "key b = k"
      | "key a \<noteq> k" "key b \<noteq> k" by blast
    then show ?thesis
    proof cases
      case 1
      then show ?thesis using a b ok [of a b] clash_sym [of x y] by auto
    next
      case 2
      then show ?thesis using a b ok [of b a] by auto
    next
      case 3
      then show ?thesis using a b assms(3) [of a] assms(3) [of b] that(3) by simp
    next
      case 4
      then show ?thesis using a b assms(1) that(3) by (simp add: wf_table_def)
    qed
  qed
  moreover have "0 < key x \<and> key x < nextID t" if "x \<in> set (rows t')" for x
    using that assms(1,3) by (auto simp: t' wf_table_def split: if_splits)
  moreover have "nextID t' = nextID t" by (simp add: t')
  moreover have "distinct (map key (rows t'))" "0 < nextID t"
    using assms(1) by (simp_all only: keys wf_table_def)
  ultimately show ?thesis
    unfolding wf_table_def by simp
qed

lemma wf_filter: "wf_table t \<Longrightarrow> wf_table (t_filter P t)"
  by (auto simp: wf_table_def t_filter_def distinct_map_filter)

end

section \<open>The tables of the program\<close>

definition block_clash :: "Block \<Rightarrow> Block \<Rightarrow> bool" where
  "block_clash x y \<longleftrightarrow> b_Hash x = b_Hash y"

definition transaction_clash :: "Transaction \<Rightarrow> Transaction \<Rightarrow> bool" where
  "transaction_clash x y \<longleftrightarrow> t_Hash x = t_Hash y"

definition output_clash :: "Output \<Rightarrow> Output \<Rightarrow> bool" where
  "output_clash x y \<longleftrightarrow> o_TransactionHash x = o_TransactionHash y \<and> o_Vout x = o_Vout y"

definition input_clash :: "Input \<Rightarrow> Input \<Rightarrow> bool" where
  "input_clash x y \<longleftrightarrow> False"

definition address_clash :: "Address \<Rightarrow> Address \<Rightarrow> bool" where
  "address_clash x y \<longleftrightarrow> a_Address x = a_Address y"

text \<open>A unique index never counts two rows with a null in it as equal.\<close>

definition claim_clash :: "Claim \<Rightarrow> Claim \<Rightarrow> bool" where
  "claim_clash x y \<longleftrightarrow> c_TransactionHashID x \<noteq> None \<and> c_TransactionHashID x = c_TransactionHashID y \<and>
     c_Vout x = c_Vout y \<and> c_ClaimID x = c_ClaimID y"

definition support_clash :: "Support \<Rightarrow> Support \<Rightarrow> bool" where
  "support_clash x y \<longleftrightarrow> s_TransactionHashID x \<noteq> None \<and> s_TransactionHashID x = s_TransactionHashID y \<and>
     s_Vout x = s_Vout y"

definition tag_clash :: "Tag \<Rightarrow> Tag \<Rightarrow> bool" where
  "tag_clash x y \<longleftrightarrow> tg_Tag x = tg_Tag y"

definition claim_tag_clash :: "ClaimTag \<Rightarrow> ClaimTag \<Rightarrow> bool" where
  "claim_tag_clash x y \<longleftrightarrow> ct_TagID x \<noteq> None \<and> ct_TagID x = ct_TagID y \<and> ct_ClaimID x = ct_ClaimID y"

definition purchase_clash :: "Purchase \<Rightarrow> Purchase \<Rightarrow> bool" where
  "purchase_clash x y \<longleftrightarrow> p_TransactionByHashID x \<noteq> None \<and>
     p_TransactionByHashID x = p_TransactionByHashID y \<and> p_Vout x = p_Vout y \<and>
     p_ClaimID x = p_ClaimID y \<and> p_ClaimID y \<noteq> None"

definition abnormal_claim_clash :: "AbnormalClaim \<Rightarrow> AbnormalClaim \<Rightarrow> bool" where
  "abnormal_claim_clash x y \<longleftrightarrow> False"

lemmas clash_defs = block_clash_def transaction_clash_def output_clash_def input_clash_def
  address_clash_def claim_clash_def support_clash_def tag_clash_def claim_tag_clash_def
  purchase_clash_def abnormal_claim_clash_def

interpretation blockT: keyed_table b_ID "\<lambda>k r. r\<lparr>b_ID := k\<rparr>" block_clash
  by unfold_locales (auto simp: clash_defs)
interpretation txT: keyed_table t_ID "\<lambda>k r. r\<lparr>t_ID := k\<rparr>" transaction_clash
  by unfold_locales (auto simp: clash_defs)
interpretation outputT: keyed_table o_ID "\<lambda>k r. r\<lparr>o_ID := k\<rparr>" output_clash
  by unfold_locales (auto simp: clash_defs)
interpretation inputT: keyed_table i_ID "\<lambda>k r. r\<lparr>i_ID := k\<rparr>" input_clash
  by unfold_locales (auto simp: clash_defs)
interpretation addressT: keyed_table a_ID "\<lambda>k r. r\<lparr>a_ID := k\<rparr>" address_clash
  by unfold_locales (auto simp: clash_defs)
interpretation claimT: keyed_table c_ID "\<lambda>k r. r\<lparr>c_ID := k\<rparr>" claim_clash
  by unfold_locales (auto simp: clash_defs)
interpretation supportT: keyed_table s_ID "\<lambda>k r. r\<lparr>s_ID := k\<rparr>" support_clash
  by unfold_locales (auto simp: clash_defs)
interpretation tagT: keyed_table tg_ID "\<lambda>k r. r\<lparr>tg_ID := k\<rparr>" tag_clash
  by unfold_locales (auto simp: clash_defs)
interpretation claimTagT: keyed_table ct_ID "\<lambda>k r. r\<lparr>ct_ID := k\<rparr>" claim_tag_clash
  by unfold_locales (auto simp: clash_defs)
interpretation purchaseT: keyed_table p_ID "\<lambda>k r. r\<lparr>p_ID := k\<rparr>" purchase_clash
  by unfold_locales (auto simp: clash_defs)
interpretation abnormalT: keyed_table ac_ID "\<lambda>k r. r\<lparr>ac_ID := k\<rparr>" abnormal_claim_clash
  by unfold_locales (auto simp: clash_defs)

section \<open>The world and its statements\<close>

record world =
  blocks :: "Block table"
  transactions :: "Transaction table"
  outputs :: "Output table"
  inputs :: "Input table"
  addresses :: "Address table"
  txAddresses :: "TransactionAddress list"
  claims :: "Claim table"
  supports :: "Support table"
  tags :: "Tag table"
  claimTags :: "ClaimTag table"
  claimsInList :: "ClaimInList table"
  purchases :: "Purchase table"
  abnormalClaims :: "AbnormalClaim table"
  jobStatuses :: "JobStatus list"
  applicationStatuses :: "ApplicationStatus table"
  fault :: "nat \<Rightarrow> goerr option"
  stmts :: nat
  rpcs :: nat
  clock :: time

type_synonym 'a db = "world \<Rightarrow> 'a outcome \<times> world"

definition ret :: "'a \<Rightarrow> 'a db" where "ret x w = (Ok x, w)"

definition fail :: "goerr \<Rightarrow> 'a db" where "fail e w = (Err e, w)"

definition bind :: "'a db \<Rightarrow> ('a \<Rightarrow> 'b db) \<Rightarrow> 'b db" where
  "bind m f w =
     (case m w of
        (Ok x, w') \<Rightarrow> f x w'
      | (Err e, w') \<Rightarrow> (Err e, w')
      | (Panic p, w') \<Rightarrow> (Panic p, w'))"

text \<open>The error of a call as a value, for callers that look at it. A panic is passed on.\<close>

definition attempt :: "'a db \<Rightarrow> (goerr + 'a) db" where
  "attempt m w =
     (case m w of
        (Ok x, w') \<Rightarrow> (Ok (Inr x), w')
      | (Err e, w') \<Rightarrow> (Ok (Inl e), w')
      | (Panic p, w') \<Rightarrow> (Panic p, w'))"

definition lift :: "'a outcome \<Rightarrow> 'a db" where "lift r w = (r, w)"

text \<open>A wrapped error: \<^verbatim>\<open>errors.Prefix\<close>.\<close>

definition prefix :: "string \<Rightarrow> 'a db \<Rightarrow> 'a db" where
  "prefix s m w = (case m w of (Err e, w') \<Rightarrow> (Err (Prefixed s e), w') | r \<Rightarrow> r)"

fun forM :: "'a list \<Rightarrow> ('a \<Rightarrow> unit db) \<Rightarrow> unit db" where
  "forM [] f = ret ()"
| "forM (x # xs) f = bind (f x) (\<lambda>_. forM xs f)"

definition stmt :: "'a db \<Rightarrow> 'a db" where
  "stmt f w =
     (let w' = w\<lparr>stmts := stmts w + 1\<rparr>
      in case fault w (stmts w) of Some e \<Rightarrow> (Err e, w') | None \<Rightarrow> f w')"

definition query :: "(world \<Rightarrow> 'a) \<Rightarrow> 'a db" where
  "query sel = stmt (\<lambda>w. (Ok (sel w), w))"

definition oneG :: "(world \<Rightarrow> 'a option) \<Rightarrow> 'a db" where
  "oneG sel = stmt (\<lambda>w. (case sel w of None \<Rightarrow> Err ErrNoRows | Some r \<Rightarrow> Ok r, w))"

text \<open>Running a change of one table as a statement.\<close>

definition change :: "(world \<Rightarrow> 't) \<Rightarrow> ('t \<Rightarrow> world \<Rightarrow> world) \<Rightarrow> ('t \<Rightarrow> ('a \<times> 't) outcome) \<Rightarrow> 'a db" where
  "change sel upd f =
     stmt (\<lambda>w. case f (sel w) of
        Ok (x, t) \<Rightarrow> (Ok x, upd t w) | Err e \<Rightarrow> (Err e, w) | Panic p \<Rightarrow> (Panic p, w))"

definition first_row :: "('r \<Rightarrow> bool) \<Rightarrow> 'r table \<Rightarrow> 'r option" where
  "first_row P t = find P (rows t)"

definition no_faults :: "world \<Rightarrow> bool" where
  "no_faults w \<longleftrightarrow> (\<forall>n. fault w n = None)"

section \<open>Running programs\<close>

named_theorems run_simps \<open>evaluation of database programs\<close>

lemma bind_run [run_simps]:
  "m w = (Ok x, w') \<Longrightarrow> bind m f w = f x w'"
  "m w = (Err e, w') \<Longrightarrow> bind m f w = (Err e, w')"
  "m w = (Panic p, w') \<Longrightarrow> bind m f w = (Panic p, w')"
  by (simp_all add: bind_def)

lemma ret_run [simp]: "ret x w = (Ok x, w)"
  by (simp add: ret_def)

lemma fail_run [simp]: "fail e w = (Err e, w)"
  by (simp add: fail_def)

lemma lift_run [simp]: "lift r w = (r, w)"
  by (simp add: lift_def)

lemma stmt_run: "fault w (stmts w) = None \<Longrightarrow> stmt f w = f (w\<lparr>stmts := stmts w + 1\<rparr>)"
  by (simp add: stmt_def)

lemma stmt_cases:
  obtains (failed) e where "fault w (stmts w) = Some e" "stmt f w = (Err e, w\<lparr>stmts := stmts w + 1\<rparr>)"
  | (ran) "fault w (stmts w) = None" "stmt f w = f (w\<lparr>stmts := stmts w + 1\<rparr>)"
  by (cases "fault w (stmts w)") (auto simp: stmt_def)

lemma no_faults_stmts [simp]: "no_faults (w\<lparr>stmts := n\<rparr>) = no_faults w"
  by (simp add: no_faults_def)

end
