(* ===== verification/Datastore.thy ===== *)
theory Datastore
  imports DB
begin

text \<open>
  \<^verbatim>\<open>datastore/datastore.go\<close>: reading and writing single rows. A reader logs a failed query and reports
  the row as missing; a writer looks for the row first and updates or inserts it. A pointer a writer
  changes (the key it assigns) is the value it returns. Text columns are compared exactly.
\<close>

section \<open>Generated statements\<close>

text \<open>\<^verbatim>\<open>InsertG\<close> fills the columns with database defaults that are zero in the struct, \<^verbatim>\<open>UpdateG\<close> with
  inferred columns leaves the creation time alone. The stamps the database gives a new row are written out where the
  program reads them back, for claims and transactions; in the other tables they stay zero.\<close>

definition Output_InsertG :: "Output \<Rightarrow> Output db" where
  "Output_InsertG r = change outputs (\<lambda>t w. w\<lparr>outputs := t\<rparr>)
     (t_insert o_ID (\<lambda>k r. r\<lparr>o_ID := k\<rparr>) output_clash r)"

definition Output_UpdateG :: "Output \<Rightarrow> unit db" where
  "Output_UpdateG r = change outputs (\<lambda>t w. w\<lparr>outputs := t\<rparr>)
     (\<lambda>t. andThen (t_update o_ID output_clash (o_ID r) (\<lambda>x. r\<lparr>o_CreatedAt := o_CreatedAt x\<rparr>) t) (\<lambda>t. Ok ((), t)))"

text \<open>The only column list the program passes: \<^verbatim>\<open>is_spent\<close> and \<^verbatim>\<open>spent_by_input_id\<close>.\<close>

definition Output_UpdateSpentG :: "Output \<Rightarrow> unit db" where
  "Output_UpdateSpentG r = change outputs (\<lambda>t w. w\<lparr>outputs := t\<rparr>)
     (\<lambda>t. andThen (t_update o_ID output_clash (o_ID r)
        (\<lambda>x. x\<lparr>o_IsSpent := o_IsSpent r, o_SpentByInputID := o_SpentByInputID r\<rparr>) t) (\<lambda>t. Ok ((), t)))"

definition Input_InsertG :: "Input \<Rightarrow> Input db" where
  "Input_InsertG r = change inputs (\<lambda>t w. w\<lparr>inputs := t\<rparr>)
     (t_insert i_ID (\<lambda>k r. r\<lparr>i_ID := k\<rparr>) input_clash r)"

definition Input_UpdateG :: "Input \<Rightarrow> unit db" where
  "Input_UpdateG r = change inputs (\<lambda>t w. w\<lparr>inputs := t\<rparr>)
     (\<lambda>t. andThen (t_update i_ID input_clash (i_ID r) (\<lambda>x. r) t) (\<lambda>t. Ok ((), t)))"

definition Address_InsertG :: "Address \<Rightarrow> Address db" where
  "Address_InsertG r = change addresses (\<lambda>t w. w\<lparr>addresses := t\<rparr>)
     (t_insert a_ID (\<lambda>k r. r\<lparr>a_ID := k\<rparr>) address_clash r)"

definition Address_UpdateG :: "Address \<Rightarrow> unit db" where
  "Address_UpdateG r = change addresses (\<lambda>t w. w\<lparr>addresses := t\<rparr>)
     (\<lambda>t. andThen (t_update a_ID address_clash (a_ID r) (\<lambda>x. r\<lparr>a_CreatedAt := a_CreatedAt x\<rparr>) t) (\<lambda>t. Ok ((), t)))"

text \<open>An upsert that updates nothing: the existing row wins and its key is read back.\<close>

definition Address_UpsertG :: "Address \<Rightarrow> Address db" where
  "Address_UpsertG r = change addresses (\<lambda>t w. w\<lparr>addresses := t\<rparr>)
     (\<lambda>t. case first_row (\<lambda>x. address_clash x r) t of
        Some x \<Rightarrow> Ok (r\<lparr>a_ID := a_ID x\<rparr>, t)
      | None \<Rightarrow> t_insert a_ID (\<lambda>k r. r\<lparr>a_ID := k\<rparr>) address_clash r t)"

definition Claim_InsertG :: "Claim \<Rightarrow> Claim db" where
  "Claim_InsertG r = (\<lambda>w. change claims (\<lambda>t w. w\<lparr>claims := t\<rparr>)
     (t_insert c_ID (\<lambda>k r. r\<lparr>c_ID := k\<rparr>) claim_clash
        (r\<lparr>c_BidState := (if c_BidState r = '''' then ''Accepted'' else c_BidState r),
           c_CreatedAt := (if c_CreatedAt r = 0 then clock w else c_CreatedAt r),
           c_ModifiedAt := (if c_ModifiedAt r = 0 then clock w else c_ModifiedAt r)\<rparr>)) w)"

definition Claim_UpdateG :: "Claim \<Rightarrow> unit db" where
  "Claim_UpdateG r = change claims (\<lambda>t w. w\<lparr>claims := t\<rparr>)
     (\<lambda>t. andThen (t_update c_ID claim_clash (c_ID r) (\<lambda>x. r\<lparr>c_CreatedAt := c_CreatedAt x\<rparr>) t) (\<lambda>t. Ok ((), t)))"

definition Tag_UpsertG :: "Tag \<Rightarrow> Tag db" where
  "Tag_UpsertG r = change tags (\<lambda>t w. w\<lparr>tags := t\<rparr>)
     (\<lambda>t. case first_row (\<lambda>x. tag_clash x r) t of
        Some x \<Rightarrow> Ok (r\<lparr>tg_ID := tg_ID x\<rparr>, t)
      | None \<Rightarrow> t_insert tg_ID (\<lambda>k r. r\<lparr>tg_ID := k\<rparr>) tag_clash r t)"

definition Purchase_InsertG :: "Purchase \<Rightarrow> Purchase db" where
  "Purchase_InsertG r = change purchases (\<lambda>t w. w\<lparr>purchases := t\<rparr>)
     (t_insert p_ID (\<lambda>k r. r\<lparr>p_ID := k\<rparr>) purchase_clash r)"

definition Purchase_UpdateG :: "Purchase \<Rightarrow> unit db" where
  "Purchase_UpdateG r = change purchases (\<lambda>t w. w\<lparr>purchases := t\<rparr>)
     (\<lambda>t. andThen (t_update p_ID purchase_clash (p_ID r) (\<lambda>x. r) t) (\<lambda>t. Ok ((), t)))"

text \<open>\<^verbatim>\<open>transaction_address\<close> has a primary key of two columns.\<close>

definition ta_match :: "nat \<Rightarrow> nat \<Rightarrow> TransactionAddress \<Rightarrow> bool" where
  "ta_match txID addrID x \<longleftrightarrow> ta_TransactionID x = txID \<and> ta_AddressID x = addrID"

definition TxAddress_InsertG :: "TransactionAddress \<Rightarrow> unit db" where
  "TxAddress_InsertG r = change txAddresses (\<lambda>t w. w\<lparr>txAddresses := t\<rparr>)
     (\<lambda>t. if list_ex (ta_match (ta_TransactionID r) (ta_AddressID r)) t then Err duplicateEntry
          else Ok ((), t @ [r]))"

definition TxAddress_UpdateG :: "TransactionAddress \<Rightarrow> unit db" where
  "TxAddress_UpdateG r = change txAddresses (\<lambda>t w. w\<lparr>txAddresses := t\<rparr>)
     (\<lambda>t. Ok ((), map (\<lambda>x. if ta_match (ta_TransactionID r) (ta_AddressID r) x then r else x) t))"

section \<open>Reading\<close>

text \<open>A failed query counts as no row.\<close>

definition or_nil :: "'a db \<Rightarrow> 'a option db" where
  "or_nil m = bind (attempt m) (\<lambda>r. ret (case r of Inl _ \<Rightarrow> None | Inr x \<Rightarrow> Some x))"

definition output_at :: "string \<Rightarrow> nat \<Rightarrow> Output \<Rightarrow> bool" where
  "output_at txHash vout x \<longleftrightarrow> o_TransactionHash x = txHash \<and> o_Vout x = vout"

definition GetOutput :: "string \<Rightarrow> nat \<Rightarrow> Output option db" where
  "GetOutput txHash vout = or_nil (oneG (\<lambda>w. first_row (output_at txHash vout) (outputs w)))"

definition GetInput :: "string \<Rightarrow> bool \<Rightarrow> string \<Rightarrow> nat \<Rightarrow> Input option db" where
  "GetInput txHash isCoinBase prevHash prevN =
     or_nil (oneG (\<lambda>w. first_row (\<lambda>x. i_TransactionHash x = txHash \<and> i_IsCoinbase x = isCoinBase \<and>
       i_PrevoutHash x = Some prevHash \<and> i_PrevoutN x = Some prevN) (inputs w)))"

definition GetAddress :: "string \<Rightarrow> Address option db" where
  "GetAddress addr = or_nil (oneG (\<lambda>w. first_row (\<lambda>x. a_Address x = addr) (addresses w)))"

definition GetTxAddress :: "nat \<Rightarrow> nat \<Rightarrow> TransactionAddress option db" where
  "GetTxAddress txID addrID =
     bind (or_nil (query (\<lambda>w. list_ex (ta_match txID addrID) (txAddresses w)))) (\<lambda>exists.
       if exists = Some True then or_nil (oneG (\<lambda>w. find (ta_match txID addrID) (txAddresses w)))
       else ret None)"

definition claim_with :: "string \<Rightarrow> Claim \<Rightarrow> bool" where
  "claim_with cid x \<longleftrightarrow> c_ClaimID x = cid"

definition GetClaim :: "string \<Rightarrow> Claim option db" where
  "GetClaim addr =
     bind (or_nil (query (\<lambda>w. first_row (claim_with addr) (claims w) \<noteq> None))) (\<lambda>exists.
       if exists = Some True then or_nil (oneG (\<lambda>w. first_row (claim_with addr) (claims w)))
       else ret None)"

definition GetSupport :: "string \<Rightarrow> nat \<Rightarrow> Support option db" where
  "GetSupport txHash vout =
     or_nil (oneG (\<lambda>w. first_row (\<lambda>x. s_TransactionHashID x = Some txHash \<and> s_Vout x = vout) (supports w)))"

definition GetTag :: "string \<Rightarrow> Tag option db" where
  "GetTag tagName = or_nil (oneG (\<lambda>w. first_row (\<lambda>x. tg_Tag x = tagName) (tags w)))"

definition GetClaimTag :: "nat \<Rightarrow> string \<Rightarrow> ClaimTag option db" where
  "GetClaimTag tagID claimID =
     or_nil (oneG (\<lambda>w. first_row (\<lambda>x. ct_TagID x = Some tagID \<and> ct_ClaimID x = claimID) (claimTags w)))"

definition purchase_at :: "string \<Rightarrow> nat \<Rightarrow> string \<Rightarrow> Purchase \<Rightarrow> bool" where
  "purchase_at txHash vout claimID x \<longleftrightarrow>
     p_ClaimID x = Some claimID \<and> p_TransactionByHashID x = Some txHash \<and> p_Vout x = vout"

definition GetPurchase :: "string \<Rightarrow> nat \<Rightarrow> string \<Rightarrow> Purchase option db" where
  "GetPurchase txHash vout claimID =
     bind (or_nil (query (\<lambda>w. first_row (purchase_at txHash vout claimID) (purchases w) \<noteq> None))) (\<lambda>exists.
       if exists = Some True then or_nil (oneG (\<lambda>w. first_row (purchase_at txHash vout claimID) (purchases w)))
       else ret None)"

section \<open>Writing\<close>

text \<open>The result of a query whose missing row is no error: any other failure is passed on.\<close>

definition found :: "'a db \<Rightarrow> 'a option db" where
  "found m = bind (attempt m) (\<lambda>r.
     case r of
       Inr x \<Rightarrow> ret (Some x)
     | Inl e \<Rightarrow> if err_cause e = ErrNoRows then ret None else fail e)"

text \<open>The columns an output is updated with: all of them, or the two of a spend.\<close>

datatype columns = Infer | WhitelistSpent

definition Output_UpdateCols :: "columns \<Rightarrow> Output \<Rightarrow> unit db" where
  "Output_UpdateCols cols r = (case cols of Infer \<Rightarrow> Output_UpdateG r | WhitelistSpent \<Rightarrow> Output_UpdateSpentG r)"

definition PutOutput :: "Output \<Rightarrow> columns \<Rightarrow> Output db" where
  "PutOutput output cols = prefix ''Datastore(PUTOUTPUT)''
     (bind (found (oneG (\<lambda>w. first_row (output_at (o_TransactionHash output) (o_Vout output)) (outputs w)))) (\<lambda>existing.
        case existing of
          Some x \<Rightarrow>
            let output' = output\<lparr>o_ID := o_ID x\<rparr> in
            bind (Output_UpdateCols cols output') (\<lambda>_. ret output')
        | None \<Rightarrow> Output_InsertG output))"

definition PutInput :: "Input \<Rightarrow> Input db" where
  "PutInput input = prefix ''Datastore(PUTINPUT)''
     (bind (query (\<lambda>w. first_row (\<lambda>x. i_TransactionHash x = i_TransactionHash input \<and>
          i_IsCoinbase x = i_IsCoinbase input \<and> i_PrevoutHash x = i_PrevoutHash input \<and>
          i_PrevoutN x = i_PrevoutN input) (inputs w) \<noteq> None)) (\<lambda>exists.
        if exists then
          (\<lambda>w. bind (Input_UpdateG (input\<lparr>i_Modified := clock w\<rparr>)) (\<lambda>_. ret (input\<lparr>i_Modified := clock w\<rparr>)) w)
        else Input_InsertG input))"

definition PutAddress :: "Address \<Rightarrow> Address db" where
  "PutAddress address = prefix ''Datastore(PUTADDRESS)''
     (if a_ID address = 0 \<and> a_Address address \<noteq> '''' then Address_UpsertG address
      else
        bind (query (\<lambda>w. first_row (\<lambda>x. a_ID x = a_ID address) (addresses w) \<noteq> None)) (\<lambda>exists.
          if exists then
            (\<lambda>w. bind (Address_UpdateG (address\<lparr>a_ModifiedAt := clock w\<rparr>))
                   (\<lambda>_. ret (address\<lparr>a_ModifiedAt := clock w\<rparr>)) w)
          else Address_InsertG address))"

definition UpdateTxAddressAmounts :: "TransactionAddress \<Rightarrow> unit db" where
  "UpdateTxAddressAmounts txAddress = prefix ''Datastore(PUTTXADDRESS)'' (TxAddress_UpdateG txAddress)"

definition PutTxAddress :: "TransactionAddress \<Rightarrow> unit db" where
  "PutTxAddress txAddress = prefix ''Datastore(PUTTXADDRESS)''
     (bind (query (\<lambda>w. list_ex (ta_match (ta_TransactionID txAddress) (ta_AddressID txAddress)) (txAddresses w)))
        (\<lambda>exists. if exists then TxAddress_UpdateG txAddress else TxAddress_InsertG txAddress))"

definition find_claim_for_put :: "Claim \<Rightarrow> Claim option db" where
  "find_claim_for_put claim =
     bind (if c_ID claim > 0
           then found (oneG (\<lambda>w. first_row (\<lambda>x. c_ID x = c_ID claim) (claims w)))
           else ret None) (\<lambda>existing.
       if existing = None \<and> c_ClaimID claim \<noteq> ''''
       then found (oneG (\<lambda>w. first_row (claim_with (c_ClaimID claim)) (claims w)))
       else ret existing)"

definition PutClaim :: "Claim \<Rightarrow> Claim db" where
  "PutClaim claim = prefix ''Datastore(PUTCLAIM)''
     (bind (find_claim_for_put claim) (\<lambda>existing.
        case existing of
          Some x \<Rightarrow>
            (\<lambda>w. let claim' = claim\<lparr>c_ID := c_ID x, c_ModifiedAt := clock w\<rparr>
                 in bind (Claim_UpdateG claim') (\<lambda>_. ret claim') w)
        | None \<Rightarrow> Claim_InsertG claim))"

text \<open>\<^verbatim>\<open>INSERT ... ON DUPLICATE KEY UPDATE id=id\<close> keeps an existing row as it is.\<close>

definition PutSupport :: "Support \<Rightarrow> unit db" where
  "PutSupport support = prefix ''Datastore(PUTSUPPORT)''
     (change supports (\<lambda>t w. w\<lparr>supports := t\<rparr>)
        (\<lambda>t. if list_ex (\<lambda>x. support_clash x support) (rows t) then Ok ((), t)
             else andThen (t_insert s_ID (\<lambda>k r. r\<lparr>s_ID := k\<rparr>) support_clash (support\<lparr>s_ID := 0\<rparr>) t)
               (\<lambda>(_, t'). Ok ((), t'))))"

definition PutTag :: "Tag \<Rightarrow> Tag db" where
  "PutTag tag = prefix ''Datastore(PUTTAG)'' (Tag_UpsertG tag)"

definition PutClaimTag :: "ClaimTag \<Rightarrow> unit db" where
  "PutClaimTag claimTag = prefix ''Datastore(PUTCLAIMTAG)''
     (change claimTags (\<lambda>t w. w\<lparr>claimTags := t\<rparr>)
        (\<lambda>t. let r = zeroClaimTag\<lparr>ct_TagID := Some (case ct_TagID claimTag of Some n \<Rightarrow> n | None \<Rightarrow> 0),
                                  ct_ClaimID := ct_ClaimID claimTag\<rparr>
             in if list_ex (\<lambda>x. claim_tag_clash x r) (rows t) then Ok ((), t)
                else andThen (t_insert ct_ID (\<lambda>k r. r\<lparr>ct_ID := k\<rparr>) claim_tag_clash r t)
                  (\<lambda>(_, t'). Ok ((), t'))))"

definition opt_str :: "string option \<Rightarrow> string" where
  "opt_str x = (case x of None \<Rightarrow> '''' | Some s \<Rightarrow> s)"

definition PutPurchase :: "Purchase \<Rightarrow> Purchase db" where
  "PutPurchase purchase = prefix ''Datastore(PUTPURCHASE)''
     (bind (query (\<lambda>w. first_row (purchase_at (opt_str (p_TransactionByHashID purchase)) (p_Vout purchase)
          (opt_str (p_ClaimID purchase))) (purchases w) \<noteq> None)) (\<lambda>exists.
        if exists then
          (\<lambda>w. bind (Purchase_UpdateG (purchase\<lparr>p_Modified := clock w\<rparr>)) (\<lambda>_. ret (purchase\<lparr>p_Modified := clock w\<rparr>)) w)
        else Purchase_InsertG purchase))"

end
