(* ===== verification/Datastore_Spec.thy ===== *)
theory Datastore_Spec
  imports Datastore
begin

text \<open>
  The contract of the datastore: what a row reads as after it was written, that other rows keep
  their values, and that the unique keys of the tables survive every write, whatever statements
  fail.
\<close>

section \<open>Statements\<close>

abbreviation tick :: "world \<Rightarrow> world" where
  "tick w \<equiv> w\<lparr>stmts := Suc (stmts w)\<rparr>"

lemma oneG_run: "no_faults w \<Longrightarrow> oneG sel w = (case sel (tick w) of None \<Rightarrow> Err ErrNoRows | Some r \<Rightarrow> Ok r, tick w)"
  by (simp add: oneG_def stmt_def no_faults_def Let_def)

lemma query_run: "no_faults w \<Longrightarrow> query sel w = (Ok (sel (tick w)), tick w)"
  by (simp add: query_def stmt_def no_faults_def Let_def)

lemma or_nil_run: "no_faults w \<Longrightarrow> or_nil (oneG sel) w = (Ok (sel (tick w)), tick w)"
  by (simp add: or_nil_def bind_def attempt_def oneG_run split: option.split)

lemma or_nil_query_run: "no_faults w \<Longrightarrow> or_nil (query sel) w = (Ok (Some (sel (tick w))), tick w)"
  by (simp add: or_nil_def bind_def attempt_def query_run)

lemma found_run: "no_faults w \<Longrightarrow> found (oneG sel) w = (Ok (sel (tick w)), tick w)"
  by (simp add: found_def bind_def attempt_def oneG_run split: option.split)

lemma change_run:
  "no_faults w \<Longrightarrow> change sel upd f w =
    (case f (sel (tick w)) of Ok (x, t) \<Rightarrow> (Ok x, upd t (tick w)) | Err e \<Rightarrow> (Err e, tick w) | Panic p \<Rightarrow> (Panic p, tick w))"
  by (simp add: change_def stmt_def no_faults_def Let_def)

lemma prefix_Ok [simp]: "prefix s m w = (Ok x, w') \<longleftrightarrow> m w = (Ok x, w')"
  by (auto simp: prefix_def split: prod.splits outcome.splits)

lemma bind_Ok_iff: "bind m f w = (Ok y, w') \<longleftrightarrow> (\<exists>x v. m w = (Ok x, v) \<and> f x v = (Ok y, w'))"
  by (auto simp: bind_def split: prod.splits outcome.splits)

lemmas run = oneG_run query_run or_nil_run or_nil_query_run found_run change_run

section \<open>Finding rows after a change\<close>

lemma find_map_hit:
  assumes "find P xs = Some x" and "distinct (map key xs)" and "P (f x)"
  shows "find P (map (\<lambda>y. if key y = key x then f y else y) xs) = Some (f x)"
  using assms
proof (induction xs)
  case (Cons y ys)
  show ?case
  proof (cases "P y")
    case True
    then show ?thesis using Cons by simp
  next
    case False
    then have "find P ys = Some x" using Cons.prems by simp
    moreover from this have "x \<in> set ys" by (auto simp: find_Some_iff)
    then have "key y \<noteq> key x" using Cons.prems(2) by auto
    ultimately show ?thesis using Cons False by auto
  qed
qed simp

lemma find_map_miss:
  assumes "\<forall>y\<in>set xs. key y = k \<longrightarrow> \<not> P y \<and> \<not> P (f y)"
  shows "find P (map (\<lambda>y. if key y = k then f y else y) xs) = find P xs"
  using assms by (induction xs) auto

section \<open>The interface\<close>

locale row_store =
  fixes get :: "'k \<Rightarrow> ('r option) db" and put :: "'r \<Rightarrow> 'r db" and keyof :: "'r \<Rightarrow> 'k"
    and view :: "'r \<Rightarrow> 'v" and valid :: "world \<Rightarrow> bool"
  assumes put_valid: "valid w \<Longrightarrow> put r w = (Ok r', w') \<Longrightarrow> valid w'"
    and get_total: "valid w \<Longrightarrow> \<exists>x w'. get k w = (Ok x, w') \<and> valid w'"
    and get_put: "valid w \<Longrightarrow> put r w = (Ok r', w') \<Longrightarrow>
      \<exists>x w''. get (keyof r) w' = (Ok (Some x), w'') \<and> view x = view r'"
    and get_put_other: "valid w \<Longrightarrow> put r w = (Ok r', w') \<Longrightarrow> k \<noteq> keyof r \<Longrightarrow>
      fst (get k w') = fst (get k w)"
begin

text \<open>A row that was written reads back after later writes to other keys.\<close>

lemma get_after_puts:
  assumes "valid w" and "put r w = (Ok r', w1)" and "put s w1 = (Ok s', w2)" and "keyof s \<noteq> keyof r"
  shows "\<exists>x w3. get (keyof r) w2 = (Ok (Some x), w3) \<and> view x = view r'"
proof -
  obtain x w'' where g: "get (keyof r) w1 = (Ok (Some x), w'')" and v: "view x = view r'"
    using get_put assms(1,2) by blast
  have "valid w1" using put_valid assms(1,2) by blast
  then have "fst (get (keyof r) w2) = Ok (Some x)"
    using get_put_other [OF _ assms(3), of "keyof r"] assms(4) g by simp
  then show ?thesis using v by (metis prod.collapse)
qed

text \<open>The last of two writes of one key wins.\<close>

lemma last_put_wins:
  assumes "valid w" and "put r w = (Ok r', w1)" and "put s w1 = (Ok s', w2)"
  shows "\<exists>x w3. get (keyof s) w2 = (Ok (Some x), w3) \<and> view x = view s'"
  using assms put_valid get_put by blast

end

section \<open>Outputs\<close>

definition outputs_ok :: "world \<Rightarrow> bool" where
  "outputs_ok w \<longleftrightarrow> no_faults w \<and> outputT.wf_table (outputs w)"

definition output_key :: "Output \<Rightarrow> string \<times> nat" where
  "output_key r = (o_TransactionHash r, o_Vout r)"

definition output_view :: "Output \<Rightarrow> Output" where
  "output_view r = r\<lparr>o_CreatedAt := 0\<rparr>"

lemma GetOutput_run:
  "no_faults w \<Longrightarrow> GetOutput h v w = (Ok (first_row (output_at h v) (outputs w)), tick w)"
  by (simp add: GetOutput_def run)

text \<open>A successful write either replaces the row at the outpoint or appends one.\<close>

lemma PutOutput_cases:
  assumes "no_faults w" and "PutOutput r Infer w = (Ok r', w')"
  obtains (update) x where "first_row (output_at (o_TransactionHash r) (o_Vout r)) (outputs w) = Some x"
    and "r' = r\<lparr>o_ID := o_ID x\<rparr>"
    and "t_update o_ID output_clash (o_ID x) (\<lambda>y. r'\<lparr>o_CreatedAt := o_CreatedAt y\<rparr>) (outputs w) = Ok (outputs w')"
    and "no_faults w'"
  | (insert) "first_row (output_at (o_TransactionHash r) (o_Vout r)) (outputs w) = None"
    and "t_insert o_ID (\<lambda>k r. r\<lparr>o_ID := k\<rparr>) output_clash r (outputs w) = Ok (r', outputs w')"
    and "no_faults w'"
proof (cases "first_row (output_at (o_TransactionHash r) (o_Vout r)) (outputs w)")
  case None
  then show ?thesis
    using assms insert
    by (auto simp: PutOutput_def bind_Ok_iff run Output_InsertG_def no_faults_def split: outcome.splits prod.splits)
next
  case (Some x)
  then show ?thesis
    using assms update
    by (auto simp: PutOutput_def bind_Ok_iff run Output_UpdateG_def Output_UpdateCols_def Let_def no_faults_def
        outcome_simps split: outcome.splits prod.splits)
qed

lemma output_clash_iff: "output_clash x y \<longleftrightarrow> output_at (o_TransactionHash y) (o_Vout y) x"
  by (auto simp: output_clash_def output_at_def)

lemma first_row_None: "first_row P t = None \<longleftrightarrow> (\<forall>x\<in>set (rows t). \<not> P x)"
  by (auto simp: first_row_def find_None_iff)

lemma t_update_rows:
  "t_update key clash k f t = Ok t' \<Longrightarrow> rows t' = map (\<lambda>x. if key x = k then f x else x) (rows t)"
  by (auto simp: t_update_def split: if_splits)

lemma PutOutput_valid:
  assumes "outputs_ok w" and "PutOutput r Infer w = (Ok r', w')"
  shows "outputs_ok w'"
proof -
  have nf: "no_faults w" and wf: "outputT.wf_table (outputs w)" using assms(1) by (simp_all add: outputs_ok_def)
  from nf assms(2) show ?thesis
  proof (cases rule: PutOutput_cases)
    case (update x)
    then show ?thesis using outputT.wf_update [OF wf update(3)] by (auto simp: outputs_ok_def)
  next
    case insert
    then show ?thesis using outputT.wf_insert [OF wf insert(2)] by (simp add: outputs_ok_def)
  qed
qed

lemma PutOutput_get:
  assumes "outputs_ok w" and "PutOutput r Infer w = (Ok r', w')"
  shows "\<exists>x. first_row (output_at (o_TransactionHash r) (o_Vout r)) (outputs w') = Some x \<and>
    output_view x = output_view r'"
proof -
  have nf: "no_faults w" and wf: "outputT.wf_table (outputs w)" using assms(1) by (simp_all add: outputs_ok_def)
  let ?P = "output_at (o_TransactionHash r) (o_Vout r)"
  from nf assms(2) show ?thesis
  proof (cases rule: PutOutput_cases)
    case (update x)
    let ?f = "\<lambda>y. r'\<lparr>o_CreatedAt := o_CreatedAt y\<rparr>"
    have "find ?P (map (\<lambda>y. if o_ID y = o_ID x then ?f y else y) (rows (outputs w))) = Some (?f x)"
      using update(1) wf
      by (intro find_map_hit) (auto simp: first_row_def outputT.wf_table_def update(2) output_at_def)
    then show ?thesis
      by (simp add: first_row_def t_update_rows [OF update(3)] output_view_def)
  next
    case insert
    have "rows (outputs w') = rows (outputs w) @ [r']" by (rule outputT.insert_row [OF insert(2)])
    moreover have "?P r'" using insert(2) by (auto simp: t_insert_def Let_def output_at_def split: if_splits)
    ultimately show ?thesis using insert(1) by (simp add: first_row_def find_snoc)
  qed
qed

lemma PutOutput_other:
  assumes "outputs_ok w" and "PutOutput r Infer w = (Ok r', w')" and "(h, v) \<noteq> output_key r"
  shows "first_row (output_at h v) (outputs w') = first_row (output_at h v) (outputs w)"
proof -
  have nf: "no_faults w" and wf: "outputT.wf_table (outputs w)" using assms(1) by (simp_all add: outputs_ok_def)
  from nf assms(2) show ?thesis
  proof (cases rule: PutOutput_cases)
    case (update x)
    have x: "x \<in> set (rows (outputs w))" "output_at (o_TransactionHash r) (o_Vout r) x"
      using update(1) by (auto simp: first_row_def find_Some_iff)
    have "y = x" if "y \<in> set (rows (outputs w))" "o_ID y = o_ID x" for y
      using that x wf by (auto simp: outputT.wf_table_def distinct_map inj_on_def)
    then have "\<forall>y\<in>set (rows (outputs w)). o_ID y = o_ID x \<longrightarrow>
        \<not> output_at h v y \<and> \<not> output_at h v (r'\<lparr>o_CreatedAt := o_CreatedAt y\<rparr>)"
      using assms(3) x(2) by (auto simp: output_at_def output_key_def update(2))
    then show ?thesis
      by (simp add: first_row_def t_update_rows [OF update(3)] find_map_miss)
  next
    case insert
    have "rows (outputs w') = rows (outputs w) @ [r']" by (rule outputT.insert_row [OF insert(2)])
    moreover have "\<not> output_at h v r'"
      using insert(2) assms(3) by (auto simp: t_insert_def Let_def output_at_def output_key_def split: if_splits)
    ultimately show ?thesis by (simp add: first_row_def find_snoc split: option.split)
  qed
qed

interpretation outputStore: row_store "\<lambda>(h, v). GetOutput h v" "\<lambda>r. PutOutput r Infer" output_key
    output_view outputs_ok
proof
  fix w w' :: world and r r' :: Output and k :: "string \<times> nat"
  show "\<exists>x w'. (case k of (h, v) \<Rightarrow> GetOutput h v) w = (Ok x, w') \<and> outputs_ok w'" if "outputs_ok w"
    using that by (cases k) (auto simp: outputs_ok_def GetOutput_run)
  assume ok: "outputs_ok w" and put: "PutOutput r Infer w = (Ok r', w')"
  then show v: "outputs_ok w'" by (rule PutOutput_valid)
  show "\<exists>x w''. (case output_key r of (h, v) \<Rightarrow> GetOutput h v) w' = (Ok (Some x), w'') \<and> output_view x = output_view r'"
    using PutOutput_get [OF ok put] v by (auto simp: output_key_def outputs_ok_def GetOutput_run)
  show "fst ((case k of (h, v) \<Rightarrow> GetOutput h v) w') = fst ((case k of (h, v) \<Rightarrow> GetOutput h v) w)"
    if "k \<noteq> output_key r"
    using that PutOutput_other [OF ok put] ok v by (cases k) (simp add: outputs_ok_def GetOutput_run)
qed

text \<open>C40: An output that was stored reads back as it was stored, also after another output was stored:
  the store behaves like a map from outpoints to rows.\<close>

theorem PutOutput_GetOutput:
  assumes "outputs_ok w" and "PutOutput r Infer w = (Ok r', w1)" and "PutOutput s Infer w1 = (Ok s', w2)"
    and "output_key s \<noteq> output_key r"
  shows "\<exists>x w3. GetOutput (o_TransactionHash r) (o_Vout r) w2 = (Ok (Some x), w3) \<and>
    output_view x = output_view r'"
  using outputStore.get_after_puts [OF assms] by (simp add: output_key_def)

definition demo_world :: world where
  "demo_world = \<lparr>blocks = emptyTable, transactions = emptyTable, outputs = emptyTable, inputs = emptyTable,
     addresses = emptyTable, txAddresses = [], claims = emptyTable, supports = emptyTable, tags = emptyTable,
     claimTags = emptyTable, claimsInList = emptyTable, purchases = emptyTable, abnormalClaims = emptyTable,
     jobStatuses = [], applicationStatuses = emptyTable, fault = (\<lambda>_. None), stmts = 0, rpcs = 0, clock = 0\<rparr>"

lemma demo_world_ok [simp]: "no_faults demo_world" "outputs_ok demo_world"
  by (simp_all add: demo_world_def no_faults_def outputs_ok_def outputT.wf_empty)

definition demo_output :: "string \<Rightarrow> Output" where
  "demo_output h = zeroOutput\<lparr>o_TransactionHash := h, o_Value := Some (Fin 5)\<rparr>"

theorem PutOutput_GetOutput_witness:
  "\<exists>w2 x w3. snd (PutOutput (demo_output ''b'') Infer (snd (PutOutput (demo_output ''a'') Infer demo_world))) = w2 \<and>
     GetOutput ''a'' 0 w2 = (Ok (Some x), w3) \<and> o_Value x = Some (Fin 5)"
proof -
  let ?w1 = "snd (PutOutput (demo_output ''a'') Infer demo_world)"
  let ?w2 = "snd (PutOutput (demo_output ''b'') Infer ?w1)"
  have 1: "PutOutput (demo_output ''a'') Infer demo_world = (Ok ((demo_output ''a'')\<lparr>o_ID := 1\<rparr>), ?w1)"
    by (rule prod_eqI) (code_simp, simp)
  have 2: "PutOutput (demo_output ''b'') Infer ?w1 = (Ok ((demo_output ''b'')\<lparr>o_ID := 2\<rparr>), ?w2)"
    by (rule prod_eqI) (code_simp, simp)
  have "output_key (demo_output ''b'') \<noteq> output_key (demo_output ''a'')"
    by (simp add: output_key_def demo_output_def zeroOutput_def)
  from PutOutput_GetOutput [OF demo_world_ok(2) 1 2 this] obtain x w3 where
    "GetOutput ''a'' 0 ?w2 = (Ok (Some x), w3)" and v: "output_view x = output_view ((demo_output ''a'')\<lparr>o_ID := 1\<rparr>)"
    by (auto simp: demo_output_def zeroOutput_def)
  moreover have "o_Value x = Some (Fin 5)"
    using arg_cong [OF v, of o_Value] by (simp add: output_view_def demo_output_def zeroOutput_def)
  ultimately show ?thesis by blast
qed

section \<open>Claims\<close>

text \<open>Database errors other than the empty result, which only an empty result produces.\<close>

definition honest_faults :: "world \<Rightarrow> bool" where
  "honest_faults w \<longleftrightarrow> (\<forall>n e. fault w n = Some e \<longrightarrow> err_cause e \<noteq> ErrNoRows)"

lemma found_oneG:
  assumes "found (oneG sel) w = (res, w')"
  shows "w' = tick w" and "honest_faults w \<Longrightarrow> res = Ok o' \<Longrightarrow> o' = sel (tick w)"
  using assms
  by (auto simp: found_def bind_def attempt_def oneG_def stmt_def Let_def honest_faults_def
      split: option.splits if_splits)

lemma change_result:
  assumes "change sel upd f w = (res, w')"
  shows "w' = tick w \<or> (\<exists>x t. f (sel (tick w)) = Ok (x, t) \<and> res = Ok x \<and> w' = upd t (tick w))"
  using assms by (auto simp: change_def stmt_def Let_def split: option.splits outcome.splits prod.splits)

lemma bind_result:
  assumes "bind m f w = (res, w')"
  obtains (ok) x v where "m w = (Ok x, v)" "f x v = (res, w')"
  | (stop) "snd (m w) = w'" "\<nexists>x. fst (m w) = Ok x"
  using assms by (cases "m w" rule: prod.exhaust) (auto simp: bind_def split: outcome.splits)

lemma prefix_world: "snd (prefix s m w) = snd (m w)"
  by (auto simp: prefix_def split: prod.splits outcome.splits)

definition claims_ok :: "world \<Rightarrow> bool" where
  "claims_ok w \<longleftrightarrow> distinct (map c_ID (rows (claims w))) \<and> distinct (map c_ClaimID (rows (claims w))) \<and>
     honest_faults w"

text \<open>A claim struct that was read from the database or is new: its key, if set, is the key of its row.\<close>

definition fits_row :: "Claim \<Rightarrow> world \<Rightarrow> bool" where
  "fits_row r w \<longleftrightarrow> (\<forall>x\<in>set (rows (claims w)). 0 < c_ID r \<and> c_ID x = c_ID r \<longrightarrow> c_ClaimID x = c_ClaimID r)"

lemma find_claim_for_put_spec:
  assumes "claims_ok w" and "fits_row r w" and "c_ClaimID r \<noteq> ''''"
    and "find_claim_for_put r w = (Ok existing, w')"
  shows "claims w' = claims w \<and> honest_faults w' \<and>
    (case existing of
       None \<Rightarrow> \<forall>x\<in>set (rows (claims w)). c_ClaimID x \<noteq> c_ClaimID r
     | Some x \<Rightarrow> x \<in> set (rows (claims w)) \<and> c_ClaimID x = c_ClaimID r)"
proof -
  have h: "honest_faults w" "honest_faults (tick w)"
    using assms(1) by (simp_all add: claims_ok_def honest_faults_def)
  let ?byID = "\<lambda>w. first_row (\<lambda>x. c_ID x = c_ID r) (claims w)"
  let ?byClaim = "\<lambda>w. first_row (claim_with (c_ClaimID r)) (claims w)"
  obtain o1 w1 where 1: "(if c_ID r > 0 then found (oneG ?byID) else ret None) w = (Ok o1, w1)"
    and 2: "(if o1 = None \<and> c_ClaimID r \<noteq> '''' then found (oneG ?byClaim) else ret o1) w1 = (Ok existing, w')"
    using assms(4) unfolding find_claim_for_put_def bind_Ok_iff by blast
  have w1: "claims w1 = claims w" "honest_faults w1"
    using 1 h found_oneG(1) [of ?byID w] by (auto split: if_splits)
  have o1: "o1 = (if c_ID r > 0 then ?byID w else None)"
    using 1 found_oneG(2) [OF _ h(1), of ?byID "Ok o1" w1 o1] by (auto split: if_splits)
  show ?thesis
  proof (cases "o1 = None")
    case True
    then have f: "found (oneG ?byClaim) w1 = (Ok existing, w')" using 2 assms(3) by simp
    then have "claims w' = claims w" "honest_faults w'" "existing = ?byClaim w"
      using found_oneG [OF f] w1 by (auto simp: honest_faults_def)
    then show ?thesis
      by (auto simp: first_row_def claim_with_def find_None_iff find_Some_iff split: option.splits)
  next
    case False
    then have "existing = o1" "w' = w1" using 2 by auto
    moreover obtain x where "o1 = Some x" using False by blast
    moreover from this o1 have "x \<in> set (rows (claims w))" "c_ID x = c_ID r" "0 < c_ID r"
      by (auto simp: first_row_def find_Some_iff split: if_splits)
    ultimately show ?thesis using w1 assms(2) by (auto simp: fits_row_def)
  qed
qed

text \<open>Writing a row over the row with its key keeps the list of claim ids.\<close>

lemma update_keeps_claimIDs:
  assumes "distinct (map c_ID xs)" and "x \<in> set xs" and "c_ClaimID (f x) = c_ClaimID x"
  shows "map c_ClaimID (map (\<lambda>y. if c_ID y = c_ID x then f y else y) xs) = map c_ClaimID xs"
proof -
  have "y = x" if "y \<in> set xs" "c_ID y = c_ID x" for y
    using that assms(1,2) by (auto simp: distinct_map inj_on_def)
  then show ?thesis using assms(3) by auto
qed

lemma claims_found [simp]: "claims (snd (found (oneG sel) w)) = claims w"
  using found_oneG(1) [of sel w] by (cases "found (oneG sel) w") simp

lemma claims_bind:
  assumes "\<And>w. claims (snd (m w)) = claims w" and "\<And>x w. claims (snd (f x w)) = claims w"
  shows "claims (snd (bind m f w)) = claims w"
proof (cases "m w")
  case (Pair r v)
  then show ?thesis using assms(1) [of w] assms(2) [of _ v] by (cases r) (simp_all add: bind_def)
qed

lemma find_claim_for_put_claims: "claims (snd (find_claim_for_put r w)) = claims w"
  unfolding find_claim_for_put_def by (rule claims_bind) simp_all

lemma Claim_InsertG_rows:
  assumes "Claim_InsertG r v = (res, w')"
  shows "rows (claims w') = rows (claims v) \<or>
    (\<exists>r'. c_ClaimID r' = c_ClaimID r \<and> rows (claims w') = rows (claims v) @ [r'])"
  using change_result [OF assms [unfolded Claim_InsertG_def]]
  by (elim disjE exE conjE) (auto simp: t_insert_def Let_def split: if_splits)

text \<open>C39: There is at most one row per claim id: writing a claim keeps the claim ids of the table distinct,
  whatever statements of the write fail. The table itself only enforces this for one outpoint.\<close>

theorem PutClaim_unique_claimIDs:
  assumes ok: "claims_ok w" and fits: "fits_row r w" and ne: "c_ClaimID r \<noteq> ''''"
  shows "distinct (map c_ClaimID (rows (claims (snd (PutClaim r w)))))"
proof -
  let ?k = "\<lambda>existing. case existing of
      Some x \<Rightarrow> (\<lambda>w. let claim' = r\<lparr>c_ID := c_ID x, c_ModifiedAt := clock w\<rparr>
                 in bind (Claim_UpdateG claim') (\<lambda>_. ret claim') w)
    | None \<Rightarrow> Claim_InsertG r"
  obtain res w' where run: "bind (find_claim_for_put r) ?k w = (res, w')"
    by (cases "bind (find_claim_for_put r) ?k w")
  have goal: "snd (PutClaim r w) = w'" using run by (simp add: PutClaim_def prefix_world)
  have d: "distinct (map c_ClaimID (rows (claims w)))" "distinct (map c_ID (rows (claims w)))"
    using ok by (simp_all add: claims_ok_def)
  from run have "distinct (map c_ClaimID (rows (claims w')))"
  proof (cases rule: bind_result)
    case stop
    then show ?thesis using d find_claim_for_put_claims [of r w] by simp
  next
    case (ok existing v)
    note spec = find_claim_for_put_spec [OF assms ok(1)]
    show ?thesis
    proof (cases existing)
      case None
      then have "Claim_InsertG r v = (res, w')" using ok(2) by simp
      moreover have "claims v = claims w" "\<forall>x\<in>set (rows (claims w)). c_ClaimID x \<noteq> c_ClaimID r"
        using spec None by auto
      ultimately show ?thesis using Claim_InsertG_rows [of r v res w'] d by fastforce
    next
      case (Some x)
      let ?r = "r\<lparr>c_ID := c_ID x, c_ModifiedAt := clock v\<rparr>"
      have x: "x \<in> set (rows (claims v))" "c_ClaimID x = c_ClaimID r" "claims v = claims w"
        using spec Some by auto
      obtain res2 where "Claim_UpdateG ?r v = (res2, w')"
        using ok(2) Some by (cases "Claim_UpdateG ?r v") (auto simp: Let_def bind_def split: outcome.splits)
      from change_result [OF this [unfolded Claim_UpdateG_def]]
      have "rows (claims w') = rows (claims v) \<or>
          rows (claims w') = map (\<lambda>y. if c_ID y = c_ID x then ?r\<lparr>c_CreatedAt := c_CreatedAt y\<rparr> else y) (rows (claims v))"
        by (auto simp: outcome_simps dest!: t_update_rows)
      moreover have m: "map c_ClaimID (map (\<lambda>y. if c_ID y = c_ID x then ?r\<lparr>c_CreatedAt := c_CreatedAt y\<rparr> else y)
          (rows (claims v))) = map c_ClaimID (rows (claims v))"
        by (rule update_keeps_claimIDs) (use d x in simp_all)
      ultimately have "map c_ClaimID (rows (claims w')) = map c_ClaimID (rows (claims v))"
        by (elim disjE) (simp_all only: m)
      then show ?thesis using d(1) x(3) by simp
    qed
  qed
  with goal show ?thesis by simp
qed

theorem PutClaim_unique_claimIDs_witness:
  "distinct (map c_ClaimID (rows (claims (snd (PutClaim (zeroClaim\<lparr>c_ClaimID := ''ab''\<rparr>) demo_world)))))"
  by (rule PutClaim_unique_claimIDs)
    (simp_all add: claims_ok_def honest_faults_def fits_row_def demo_world_def emptyTable_def zeroClaim_def)

end
