(* ===== verification/Blocks.thy ===== *)
theory Blocks
  imports Datastore
begin

text \<open>
  \<^verbatim>\<open>daemon/processing/block.go\<close>: storing a block, checking that the head is complete, following a
  reorganisation of the chain, and the processing of one height by the daemon. The full node is a
  parameter; processing the transactions of a block, which the scheduler does concurrently, is a
  parameter of the functions that start it. \<^verbatim>\<open>BlockLock\<close> serialises the functions below, so each is
  one sequential program.
\<close>

section \<open>The node\<close>

text \<open>The answers of the node may differ from call to call: the first argument counts the calls.\<close>

record node =
  getBlockHash :: "nat \<Rightarrow> nat \<Rightarrow> goerr + string"
  getBlock :: "nat \<Rightarrow> string \<Rightarrow> goerr + GetBlockResponse"
  getRawTransaction :: "nat \<Rightarrow> txid \<Rightarrow> goerr + TxRawResult"

definition rpc :: "(nat \<Rightarrow> goerr + 'a) \<Rightarrow> 'a db" where
  "rpc f w = (case f (rpcs w) of Inl e \<Rightarrow> Err e | Inr x \<Rightarrow> Ok x, w\<lparr>rpcs := rpcs w + 1\<rparr>)"

definition getBlockToProcess :: "node \<Rightarrow> nat \<Rightarrow> GetBlockResponse db" where
  "getBlockToProcess N height =
     bind (prefix ''GetBlockHash Error'' (rpc (\<lambda>i. getBlockHash N i height))) (\<lambda>hash.
       prefix ''GetBlock Error'' (rpc (\<lambda>i. getBlock N i hash)))"

section \<open>Rows of blocks\<close>

definition BlockProcessingStateComplete :: string where "BlockProcessingStateComplete = ''complete''"
definition BlockProcessingStateProcessing :: string where "BlockProcessingStateProcessing = ''processing''"
definition BlockProcessingStateIncomplete :: string where "BlockProcessingStateIncomplete = ''incomplete''"
definition MempoolBlockHash :: string where "MempoolBlockHash = ''MEMPOOL''"
definition LegacyBlockBackfillBatchSize :: int where "LegacyBlockBackfillBatchSize = 100"
definition blockDeleteRetryAttempts :: nat where "blockDeleteRetryAttempts = 3"

lemmas state_defs = BlockProcessingStateComplete_def BlockProcessingStateProcessing_def
  BlockProcessingStateIncomplete_def

definition Block_InsertG :: "Block \<Rightarrow> Block db" where
  "Block_InsertG r = change blocks (\<lambda>t w. w\<lparr>blocks := t\<rparr>)
     (t_insert b_ID (\<lambda>k r. r\<lparr>b_ID := k\<rparr>) block_clash r)"

definition Block_UpdateWith :: "nat \<Rightarrow> (Block \<Rightarrow> Block) \<Rightarrow> unit db" where
  "Block_UpdateWith k f = change blocks (\<lambda>t w. w\<lparr>blocks := t\<rparr>)
     (\<lambda>t. andThen (t_update b_ID block_clash k f t) (\<lambda>t. Ok ((), t)))"

definition Block_UpdateG :: "Block \<Rightarrow> unit db" where
  "Block_UpdateG r = Block_UpdateWith (b_ID r) (\<lambda>x. r\<lparr>b_CreatedAt := b_CreatedAt x\<rparr>)"

text \<open>
  Deleting transactions takes everything along that refers to them, by the foreign keys of the
  schema: outputs, inputs, address links, claims with their tags and list entries, supports,
  purchases and abnormal claims.
\<close>

definition delete_transactions :: "(Transaction \<Rightarrow> bool) \<Rightarrow> world \<Rightarrow> world" where
  "delete_transactions gone w =
     (let txs = filter gone (rows (transactions w));
          ids = t_ID ` set txs; hashes = t_Hash ` set txs;
          outs = o_ID ` set (filter (\<lambda>x. o_TransactionID x \<in> ids) (rows (outputs w)));
          lost = (\<lambda>h. case h of Some x \<Rightarrow> x \<in> hashes | None \<Rightarrow> False);
          cids = c_ClaimID ` set (filter (\<lambda>x. lost (c_TransactionHashID x)) (rows (claims w)))
      in w\<lparr>transactions := t_filter (\<lambda>x. \<not> gone x) (transactions w),
           outputs := t_filter (\<lambda>x. o_TransactionID x \<notin> ids) (outputs w),
           inputs := t_filter (\<lambda>x. i_TransactionID x \<notin> ids) (inputs w),
           txAddresses := filter (\<lambda>x. ta_TransactionID x \<notin> ids) (txAddresses w),
           claims := t_filter (\<lambda>x. \<not> lost (c_TransactionHashID x)) (claims w),
           claimTags := t_filter (\<lambda>x. ct_ClaimID x \<notin> cids) (claimTags w),
           claimsInList := t_filter (\<lambda>x. cl_ListClaimID x \<notin> cids) (claimsInList w),
           supports := t_filter (\<lambda>x. \<not> lost (s_TransactionHashID x)) (supports w),
           purchases := t_filter (\<lambda>x. \<not> lost (p_TransactionByHashID x)) (purchases w),
           abnormalClaims := t_filter (\<lambda>x. ac_OutputID x \<notin> outs) (abnormalClaims w)\<rparr>)"

definition delete_block :: "nat \<Rightarrow> world \<Rightarrow> world" where
  "delete_block k w =
     (let hashes = b_Hash ` set (filter (\<lambda>x. b_ID x = k) (rows (blocks w))) in
      (delete_transactions (\<lambda>x. case t_BlockHashID x of Some h \<Rightarrow> h \<in> hashes | None \<Rightarrow> False) w)
        \<lparr>blocks := t_filter (\<lambda>x. b_ID x \<noteq> k) (blocks w)\<rparr>)"

definition Block_DeleteG :: "Block \<Rightarrow> unit db" where
  "Block_DeleteG r = stmt (\<lambda>w. (Ok (), delete_block (b_ID r) w))"

section \<open>Storing a block\<close>

text \<open>The conversion of a signed integer to \<^verbatim>\<open>uint64\<close>.\<close>

definition to_u64 :: "int \<Rightarrow> nat" where "to_u64 i = nat (i mod 2 ^ 64)"

definition setPreviousBlockInfo :: "nat \<Rightarrow> string \<Rightarrow> unit db" where
  "setPreviousBlockInfo currentHeight currentBlockHash =
     (if currentHeight < 1 then ret ()
      else bind (oneG (\<lambda>w. first_row (\<lambda>b. b_Height b = currentHeight - 1) (blocks w))) (\<lambda>prevBlock.
        Block_UpdateG (prevBlock\<lparr>b_NextBlockHash := Some currentBlockHash\<rparr>)))"

definition block_of_json :: "nat \<Rightarrow> GetBlockResponse \<Rightarrow> Block \<Rightarrow> Block" where
  "block_of_json blockHeight jsonBlock block =
     block\<lparr>b_Bits := bl_Bits jsonBlock, b_Chainwork := bl_ChainWork jsonBlock,
       b_Confirmations := bl_Confirmations jsonBlock, b_Difficulty := bl_Difficulty jsonBlock,
       b_Hash := bl_Hash jsonBlock, b_Height := blockHeight, b_MerkleRoot := bl_MerkleRoot jsonBlock,
       b_NameClaimRoot := bl_NameClaimRoot jsonBlock, b_Nonce := bl_Nonce jsonBlock,
       b_PreviousBlockHash := Some (bl_PreviousBlockHash jsonBlock),
       b_NextBlockHash := (if bl_NextBlockHash jsonBlock \<noteq> '''' then Some (bl_NextBlockHash jsonBlock) else None),
       b_BlockSize := to_u64 (bl_Size jsonBlock), b_BlockTime := to_u64 (bl_Time jsonBlock),
       b_Version := to_u64 (bl_Version jsonBlock), b_VersionHex := bl_VersionHex jsonBlock,
       b_TXCount := bl_NTx jsonBlock, b_ProcessingState := Some BlockProcessingStateProcessing\<rparr>"

definition parseBlockInfo :: "nat \<Rightarrow> GetBlockResponse \<Rightarrow> Block db" where
  "parseBlockInfo blockHeight jsonBlock =
     bind (or_nil (oneG (\<lambda>w. first_row (\<lambda>b. b_Hash b = bl_Hash jsonBlock) (blocks w)))) (\<lambda>foundBlock.
       case foundBlock of
         Some x \<Rightarrow>
           let block = block_of_json blockHeight jsonBlock x in
           bind (Block_UpdateG block) (\<lambda>_. ret block)
       | None \<Rightarrow> Block_InsertG (block_of_json blockHeight jsonBlock zeroBlock))"

definition markBlockProcessingState :: "Block \<Rightarrow> string \<Rightarrow> unit db" where
  "markBlockProcessingState block state =
     Block_UpdateWith (b_ID block) (\<lambda>x. x\<lparr>b_ProcessingState := Some state\<rparr>)"

text \<open>At most three attempts; the result is the error of the last one.\<close>

fun deleteAttempts :: "nat \<Rightarrow> Block \<Rightarrow> unit db" where
  "deleteAttempts 0 block = ret ()"
| "deleteAttempts (Suc n) block =
     bind (attempt (Block_DeleteG block)) (\<lambda>r.
       case r of
         Inr _ \<Rightarrow> ret ()
       | Inl err \<Rightarrow> if n = 0 then fail err else deleteAttempts n block)"

definition deleteBlockWithRetry :: "Block \<Rightarrow> unit db" where
  "deleteBlockWithRetry block = deleteAttempts blockDeleteRetryAttempts block"

section \<open>Completeness of a block\<close>

text \<open>The row with the greatest height.\<close>

fun highest :: "Block list \<Rightarrow> Block option" where
  "highest [] = None"
| "highest (b # bs) =
     (case highest bs of
        None \<Rightarrow> Some b
      | Some c \<Rightarrow> if b_Height b \<ge> b_Height c then Some b else Some c)"

definition chain_blocks :: "world \<Rightarrow> Block list" where
  "chain_blocks w = filter (\<lambda>b. b_Hash b \<noteq> MempoolBlockHash) (rows (blocks w))"

definition chainHeadBlock :: "Block db" where
  "chainHeadBlock = oneG (\<lambda>w. highest (chain_blocks w))"

definition transactionHasExpectedChildren :: "Transaction \<Rightarrow> bool db" where
  "transactionHasExpectedChildren transaction =
     bind (query (\<lambda>w. length (filter (\<lambda>x. i_TransactionHash x = t_Hash transaction) (rows (inputs w))))) (\<lambda>inputCount.
     bind (query (\<lambda>w. length (filter (\<lambda>x. o_TransactionHash x = t_Hash transaction) (rows (outputs w))))) (\<lambda>outputCount.
       ret (inputCount = t_InputCount transaction \<and> outputCount = t_OutputCount transaction)))"

fun allComplete :: "Transaction list \<Rightarrow> bool db" where
  "allComplete [] = ret True"
| "allComplete (t # ts) =
     bind (transactionHasExpectedChildren t) (\<lambda>complete. if complete then allComplete ts else ret False)"

definition blockHasExpectedTransactions :: "Block \<Rightarrow> bool db" where
  "blockHasExpectedTransactions block =
     bind (query (\<lambda>w. filter (\<lambda>t. t_BlockHashID t = Some (b_Hash block)) (rows (transactions w)))) (\<lambda>txs.
       if int (length txs) \<noteq> b_TXCount block then ret False else allComplete txs)"

definition cleanupIncompleteHead :: "unit db" where
  "cleanupIncompleteHead =
     bind (found chainHeadBlock) (\<lambda>r.
       case r of
         None \<Rightarrow> ret ()
       | Some head \<Rightarrow>
           bind (blockHasExpectedTransactions head) (\<lambda>complete.
             if \<not> complete \<or> b_ProcessingState head = Some BlockProcessingStateProcessing \<or>
                b_ProcessingState head = Some BlockProcessingStateIncomplete
             then bind (markBlockProcessingState head BlockProcessingStateIncomplete) (\<lambda>_. deleteBlockWithRetry head)
             else if b_ProcessingState head = None
             then markBlockProcessingState head BlockProcessingStateComplete
             else ret ()))"

fun newest :: "Block list \<Rightarrow> Block option" where
  "newest [] = None"
| "newest (b # bs) =
     (case newest bs of None \<Rightarrow> Some b | Some c \<Rightarrow> if b_ID b \<ge> b_ID c then Some b else Some c)"

definition MarkIncompleteBlockHeight :: "nat \<Rightarrow> unit db" where
  "MarkIncompleteBlockHeight height =
     bind (found (oneG (\<lambda>w. newest (filter (\<lambda>b. b_Height b = height) (chain_blocks w))))) (\<lambda>r.
       case r of
         None \<Rightarrow> ret ()
       | Some block \<Rightarrow> markBlockProcessingState block BlockProcessingStateIncomplete)"

fun backfillLoop :: "Block list \<Rightarrow> unit db" where
  "backfillLoop [] = ret ()"
| "backfillLoop (block # bs) =
     bind (blockHasExpectedTransactions block) (\<lambda>complete.
       if \<not> complete then fail (Msg ''legacy block failed transaction consistency validation'')
       else bind (markBlockProcessingState block BlockProcessingStateComplete) (\<lambda>_. backfillLoop bs))"

definition backfillLegacyBlockStates :: "int \<Rightarrow> nat db" where
  "backfillLegacyBlockStates limit0 =
     (let limit = (if limit0 \<le> 0 then LegacyBlockBackfillBatchSize else limit0) in
      bind (found chainHeadBlock) (\<lambda>r.
        case r of
          None \<Rightarrow> ret 0
        | Some head \<Rightarrow>
            bind (query (\<lambda>w. take (nat limit) (sort_key b_Height
                (filter (\<lambda>b. b_ProcessingState b = None \<and> b_ID b \<noteq> b_ID head) (chain_blocks w))))) (\<lambda>bs.
              bind (backfillLoop bs) (\<lambda>_. ret (length bs)))))"

section \<open>Reorganisations\<close>

text \<open>The previous block with its transactions loaded: two statements.\<close>

definition blockAtHeight :: "nat \<Rightarrow> Block db" where
  "blockAtHeight h =
     bind (oneG (\<lambda>w. first_row (\<lambda>b. b_Height b = h) (blocks w))) (\<lambda>b.
       bind (query (\<lambda>_. ())) (\<lambda>_. ret b))"

fun reorgLoop :: "node \<Rightarrow> nat \<Rightarrow> nat \<Rightarrow> nat \<Rightarrow> Block \<Rightarrow> string \<Rightarrow> nat db" where
  "reorgLoop N height prevHeight depth prevBlock chainPrevHash =
     (if b_Hash prevBlock \<noteq> chainPrevHash \<and> depth < 100 \<and> prevHeight > 0 then
        bind (prefix ''error deleting block'' (Block_DeleteG prevBlock)) (\<lambda>_.
        bind (prefix ''error getting block from lbrycrd'' (getBlockToProcess N prevHeight)) (\<lambda>jsonBlock.
        bind (attempt (blockAtHeight (prevHeight - 1))) (\<lambda>r.
          case r of
            Inl e \<Rightarrow> if err_cause e = ErrNoRows then ret (prevHeight - 1)
                     else fail (Prefixed ''error getting previous block'' e)
          | Inr b \<Rightarrow> reorgLoop N height (prevHeight - 1) (depth + 1) b (bl_PreviousBlockHash jsonBlock))))
      else if b_Hash prevBlock \<noteq> chainPrevHash
      then fail (Msg ''reorg search exceeded limit without finding previous hash'')
      else if depth > 0 then ret prevHeight
      else ret height)"

declare reorgLoop.simps [simp del]

definition checkHandleReorg :: "node \<Rightarrow> nat \<Rightarrow> string \<Rightarrow> nat db" where
  "checkHandleReorg N height chainPrevHash =
     (if height > 0 then
        bind (attempt (blockAtHeight (height - 1))) (\<lambda>r.
          case r of
            Inl e \<Rightarrow> if err_cause e = ErrNoRows then ret (height - 1)
                     else fail (Prefixed ''error getting block'' e)
          | Inr b \<Rightarrow> reorgLoop N height (height - 1) 0 b chainPrevHash)
      else ret height)"

section \<open>Processing a height\<close>

text \<open>\<open>sync\<close> is \<^verbatim>\<open>syncTransactionsOfBlock\<close>: one run of the scheduler on the transactions of the block.
  The result has the stored block also when a later step failed.\<close>

definition ProcessBlock ::
    "(txid list \<Rightarrow> nat \<Rightarrow> nat \<Rightarrow> unit db) \<Rightarrow> nat \<Rightarrow> GetBlockResponse \<Rightarrow> (Block option \<times> goerr option) db" where
  "ProcessBlock sync height jsonBlock =
     bind (attempt (parseBlockInfo height jsonBlock)) (\<lambda>r.
       case r of
         Inl e \<Rightarrow> ret (None, Some e)
       | Inr block \<Rightarrow>
           bind (attempt
             (bind (setPreviousBlockInfo height (bl_Hash jsonBlock)) (\<lambda>_.
              bind (sync (bl_Tx jsonBlock) (b_BlockTime block) (b_Height block)) (\<lambda>_.
                markBlockProcessingState block BlockProcessingStateComplete)))) (\<lambda>r2.
             ret (Some block, case r2 of Inl e \<Rightarrow> Some e | Inr _ \<Rightarrow> None)))"

text \<open>The result is the height the daemon goes on from; errors are only logged.\<close>

definition RunBlockProcessing ::
    "node \<Rightarrow> unit db \<Rightarrow> (txid list \<Rightarrow> nat \<Rightarrow> nat \<Rightarrow> unit db) \<Rightarrow> nat \<Rightarrow> nat db" where
  "RunBlockProcessing N genesis sync height =
     (if height = 0 then bind genesis (\<lambda>_. ret 0)
      else
        bind (attempt (getBlockToProcess N height)) (\<lambda>r.
          case r of
            Inl _ \<Rightarrow> ret (height - 1)
          | Inr jsonBlock \<Rightarrow>
              bind (attempt (checkHandleReorg N height (bl_PreviousBlockHash jsonBlock))) (\<lambda>r2.
                case r2 of
                  Inl _ \<Rightarrow> ret (height - 1)
                | Inr reorgHeight \<Rightarrow>
                    if reorgHeight \<noteq> height then ret reorgHeight
                    else
                      bind (ProcessBlock sync height jsonBlock) (\<lambda>(block, err).
                        case err of
                          None \<Rightarrow> ret height
                        | Some _ \<Rightarrow>
                            (case block of
                               None \<Rightarrow> ret (height - 1)
                             | Some b \<Rightarrow>
                                 bind (attempt (deleteBlockWithRetry b)) (\<lambda>_. ret (height - 1)))))))"

end
