(* ===== verification/Blocks_Spec.thy ===== *)
theory Blocks_Spec
  imports Blocks Datastore_Spec
begin

text \<open>
  What block processing guarantees: a reorganisation removes exactly the blocks above the height it
  returns, never more than one hundred, and returns a height whose block the node's chain continues;
  a processed block is complete and a failed one leaves no row behind; the head of the chain is
  complete after the start-up check.
\<close>

section \<open>What the steps do to the blocks\<close>

text \<open>The part of the world the lemmas below follow: the block rows and the schedule of faults.\<close>

definition bf :: "world \<Rightarrow> Block table \<times> (nat \<Rightarrow> goerr option)" where
  "bf w = (blocks w, fault w)"

lemma bf_eq: "bf w' = bf w \<Longrightarrow> blocks w' = blocks w \<and> honest_faults w' = honest_faults w"
  by (simp add: bf_def honest_faults_def)

lemma bf_oneG: "oneG sel w = (r, w') \<Longrightarrow> bf w' = bf w"
  by (auto simp: oneG_def stmt_def Let_def bf_def split: option.splits)

lemma bf_query: "query sel w = (r, w') \<Longrightarrow> bf w' = bf w"
  by (auto simp: query_def stmt_def Let_def bf_def split: option.splits)

lemma bf_rpc: "rpc f w = (r, w') \<Longrightarrow> bf w' = bf w"
  by (auto simp: rpc_def bf_def)

lemma bf_prefix: "prefix s m w = (r, w') \<Longrightarrow> \<exists>r0. m w = (r0, w')"
  by (auto simp: prefix_def split: prod.splits outcome.splits)

lemma bf_bind:
  assumes "bind m f w = (r, w')" and "\<And>r v. m w = (r, v) \<Longrightarrow> bf v = bf w"
    and "\<And>x v r w'. m w = (Ok x, v) \<Longrightarrow> f x v = (r, w') \<Longrightarrow> bf w' = bf v"
  shows "bf w' = bf w"
  using assms(1)
proof (cases rule: bind_result)
  case (ok x v)
  then show ?thesis using assms(2,3) by metis
next
  case stop
  then show ?thesis using assms(2) by (metis prod.collapse)
qed

lemma oneG_Ok: "oneG sel w = (Ok x, w') \<Longrightarrow> sel (tick w) = Some x"
  by (auto simp: oneG_def stmt_def Let_def split: option.splits)

lemma bf_blockAtHeight: "blockAtHeight h w = (r, w') \<Longrightarrow> bf w' = bf w"
  unfolding blockAtHeight_def
proof (erule bf_bind)
  show "bf v = bf w" if "oneG (\<lambda>w. first_row (\<lambda>b. b_Height b = h) (blocks w)) w = (r, v)" for r v
    using that by (rule bf_oneG)
  show "bf w' = bf v" if "bind (query (\<lambda>_. ())) (\<lambda>_. ret x) v = (r, w')" for x v r w'
    using that by (rule bf_bind) (auto dest: bf_query)
qed

lemma blockAtHeight_Ok: "blockAtHeight h w = (Ok b, w') \<Longrightarrow> first_row (\<lambda>b. b_Height b = h) (blocks w) = Some b"
  by (auto simp: blockAtHeight_def bind_Ok_iff dest: oneG_Ok)

lemma blockAtHeight_missing:
  assumes "blockAtHeight h w = (Err e, w')" and "honest_faults w" and "err_cause e = ErrNoRows"
  shows "first_row (\<lambda>b. b_Height b = h) (blocks w) = None"
  using assms
  by (auto simp: blockAtHeight_def bind_def oneG_def query_def stmt_def Let_def honest_faults_def
      split: option.splits outcome.splits prod.splits)

lemma blockAtHeight_no_panic: "blockAtHeight h w \<noteq> (Panic p, w')"
  by (auto simp: blockAtHeight_def bind_def oneG_def query_def stmt_def Let_def
      split: option.splits outcome.splits prod.splits)

lemma bf_getBlockToProcess: "getBlockToProcess N h w = (r, w') \<Longrightarrow> bf w' = bf w"
  unfolding getBlockToProcess_def
  by (erule bf_bind) (auto dest!: bf_prefix dest: bf_rpc)

lemma getBlockToProcess_Ok:
  assumes "getBlockToProcess N h w = (Ok jb, w')"
  shows "\<exists>i j hash. getBlockHash N i h = Inr hash \<and> getBlock N j hash = Inr jb"
  using assms by (auto simp: getBlockToProcess_def bind_Ok_iff rpc_def split: sum.splits)

text \<open>One row per key, and one per height above the genesis block, whose height the row of the mempool
  shares.\<close>

definition blocks_ok :: "world \<Rightarrow> bool" where
  "blocks_ok w \<longleftrightarrow> distinct (map b_ID (rows (blocks w))) \<and>
     (\<forall>x\<in>set (rows (blocks w)). \<forall>y\<in>set (rows (blocks w)). b_Height x = b_Height y \<and> 0 < b_Height x \<longrightarrow> x = y)"

definition keep :: "(nat \<Rightarrow> bool) \<Rightarrow> world \<Rightarrow> Block list" where
  "keep P w = filter (\<lambda>b. P (b_Height b)) (rows (blocks w))"

lemma delete_block_sel [simp]:
  "blocks (delete_block k w) = t_filter (\<lambda>x. b_ID x \<noteq> k) (blocks w)"
  "fault (delete_block k w) = fault w" "stmts (delete_block k w) = stmts w"
  by (simp_all add: delete_block_def delete_transactions_def Let_def)

lemma Block_DeleteG_result:
  assumes "Block_DeleteG b w = (r, w')"
  shows "((\<exists>e. r = Err e \<and> blocks w' = blocks w) \<or>
    (r = Ok () \<and> rows (blocks w') = filter (\<lambda>x. b_ID x \<noteq> b_ID b) (rows (blocks w)))) \<and>
    honest_faults w' = honest_faults w"
  using assms by (auto simp: Block_DeleteG_def stmt_def Let_def t_filter_def honest_faults_def split: option.splits)

lemma delete_row_at_height:
  assumes "blocks_ok w" and "first_row (\<lambda>b. b_Height b = p) (blocks w) = Some b" and "0 < p"
  shows "filter (\<lambda>x. b_ID x \<noteq> b_ID b) (rows (blocks w)) = keep (\<lambda>h. h \<noteq> p) w"
proof -
  have b: "b \<in> set (rows (blocks w))" "b_Height b = p"
    using assms(2) by (auto simp: first_row_def find_Some_iff)
  have "b_ID x = b_ID b \<longleftrightarrow> b_Height x = p" if "x \<in> set (rows (blocks w))" for x
    using that b assms(1,3) by (auto simp: blocks_ok_def distinct_map inj_on_def)
  then show ?thesis unfolding keep_def by (intro filter_cong) auto
qed

lemma blocks_ok_filter:
  "blocks_ok w \<Longrightarrow> rows (blocks w') = filter P (rows (blocks w)) \<Longrightarrow> blocks_ok w'"
  by (auto simp: blocks_ok_def distinct_map_filter)

lemma keep_keep: "rows (blocks w') = keep P w \<Longrightarrow> keep Q w' = keep (\<lambda>h. P h \<and> Q h) w"
  by (simp add: keep_def conj_commute)

lemma keep_all: "(\<And>h. P h) \<Longrightarrow> keep P w = rows (blocks w)"
  by (simp add: keep_def)

section \<open>Reorganisations\<close>

text \<open>The node's chain continues a stored block: the block it reports at the next height names it as
  its predecessor.\<close>

definition names_pred :: "node \<Rightarrow> nat \<Rightarrow> string \<Rightarrow> bool" where
  "names_pred N h prev \<longleftrightarrow>
     (\<exists>i j hash jb. getBlockHash N i h = Inr hash \<and> getBlock N j hash = Inr jb \<and> prev = bl_PreviousBlockHash jb)"

text \<open>The outcome of the search: the rows above \<open>k\<close> are gone.\<close>

definition reorg_done :: "node \<Rightarrow> nat \<Rightarrow> nat \<Rightarrow> nat \<Rightarrow> string \<Rightarrow> world \<Rightarrow> nat outcome \<Rightarrow> world \<Rightarrow> nat \<Rightarrow> bool" where
  "reorg_done N height p d ch w res w' k \<longleftrightarrow>
     k \<le> p \<and> rows (blocks w') = keep (\<lambda>x. \<not> (k < x \<and> x \<le> p)) w \<and>
     (\<forall>h. res = Ok h \<longrightarrow>
        (d = 0 \<and> h = height \<and> k = p \<and> (\<exists>b. first_row (\<lambda>x. b_Height x = p) (blocks w') = Some b \<and> b_Hash b = ch)) \<or>
        (h = k \<and> (\<forall>b. first_row (\<lambda>x. b_Height x = k) (blocks w') = Some b \<longrightarrow> names_pred N (k + 1) (b_Hash b))))"

lemma reorg_done_stop:
  assumes "blocks w' = blocks w" and "\<And>h. res \<noteq> Ok h"
  shows "reorg_done N height p d ch w res w' p"
  using assms by (simp add: reorg_done_def keep_all)

lemma reorgLoop_spec:
  assumes "reorgLoop N height p d b ch w = (res, w')" and "blocks_ok w" and "honest_faults w"
    and "first_row (\<lambda>x. b_Height x = p) (blocks w) = Some b" and "d \<le> 100"
    and "0 < d \<Longrightarrow> names_pred N (p + 1) ch"
  shows "\<exists>k. reorg_done N height p d ch w res w' k \<and> p \<le> k + (100 - d)"
  using assms
proof (induction p arbitrary: d b ch w)
  case 0
  then have "w' = w" "\<forall>h. res = Ok h \<longrightarrow> b_Hash b = ch \<and> h = (if d > 0 then 0 else height)"
    by (auto simp: reorgLoop.simps split: if_splits)
  then show ?case
    using 0 by (intro exI [of _ 0]) (auto simp: reorg_done_def keep_def not_less_eq_eq split: if_splits
        intro!: filter_True [symmetric])
next
  case (Suc p)
  note step = Suc.prems(1)
  show ?case
  proof (cases "b_Hash b \<noteq> ch \<and> d < 100")
    case False
    then have "w' = w" "\<forall>h. res = Ok h \<longrightarrow> b_Hash b = ch \<and> h = (if d > 0 then Suc p else height)"
      using step by (auto simp: reorgLoop.simps split: if_splits)
    then show ?thesis
      using Suc.prems by (intro exI [of _ "Suc p"]) (auto simp: reorg_done_def keep_all split: if_splits)
  next
    case True
    let ?next = "\<lambda>jb r. case r of Inl e \<Rightarrow> if err_cause e = ErrNoRows then ret p
          else fail (Prefixed ''error getting previous block'' e)
        | Inr c \<Rightarrow> reorgLoop N height p (d + 1) c (bl_PreviousBlockHash jb)"
    have run: "bind (prefix ''error deleting block'' (Block_DeleteG b)) (\<lambda>_.
        bind (prefix ''error getting block from lbrycrd'' (getBlockToProcess N (Suc p))) (\<lambda>jb.
        bind (attempt (blockAtHeight p)) (?next jb))) w = (res, w')"
      using step unfolding reorgLoop.simps [of N height "Suc p"] diff_Suc_1
      by (simp only: True simp_thms zero_less_Suc if_True)
    obtain r1 w1 where del: "Block_DeleteG b w = (r1, w1)" by (cases "Block_DeleteG b w")
    note d1 = Block_DeleteG_result [OF del]
    show ?thesis
    proof (cases r1)
      case (Ok u)
      have rows1: "rows (blocks w1) = keep (\<lambda>h. h \<noteq> Suc p) w"
        using d1 Ok delete_row_at_height [OF Suc.prems(2,4)] by simp
      have ok1: "blocks_ok w1" "honest_faults w1"
        using d1 Ok blocks_ok_filter [OF Suc.prems(2)] Suc.prems(3) by auto
      have "prefix ''error deleting block'' (Block_DeleteG b) w = (Ok (), w1)" using del Ok by simp
      then have run1: "bind (prefix ''error getting block from lbrycrd'' (getBlockToProcess N (Suc p))) (\<lambda>jb.
        bind (attempt (blockAtHeight p)) (?next jb)) w1 = (res, w')"
        using run by (simp only: bind_run(1))
      have gone: "\<exists>k. reorg_done N height (Suc p) d ch w res w' k \<and> Suc p \<le> k + (100 - d)"
        if "rows (blocks w') = rows (blocks w1)"
          and "\<And>h. res = Ok h \<Longrightarrow> h = p \<and> (\<forall>b. first_row (\<lambda>x. b_Height x = p) (blocks w') = Some b \<longrightarrow> names_pred N (p + 1) (b_Hash b))"
      proof (intro exI conjI)
        have "keep (\<lambda>h. h \<noteq> Suc p) w = keep (\<lambda>x. \<not> (p < x \<and> x \<le> Suc p)) w"
          by (simp add: keep_def) (metis Suc_leI le_antisym lessI)
        then show "reorg_done N height (Suc p) d ch w res w' p"
          using that rows1 by (auto simp: reorg_done_def)
        show "Suc p \<le> p + (100 - d)" using True by linarith
      qed
      from run1 show ?thesis
      proof (cases rule: bind_result)
        case stop
        let ?m = "prefix ''error getting block from lbrycrd'' (getBlockToProcess N (Suc p))"
        have "?m w1 = (fst (?m w1), w')" using stop(1) by (simp add: prod_eq_iff)
        from bf_prefix [OF this] obtain r2 where g: "getBlockToProcess N (Suc p) w1 = (r2, w')" by blast
        have "res \<noteq> Ok h" for h
          using run1 stop(2) by (cases "?m w1"; cases "fst (?m w1)") (auto simp: bind_def)
        then show ?thesis using gone bf_eq [OF bf_getBlockToProcess [OF g]] by auto
      next
        case (ok jb w2)
        then have g: "getBlockToProcess N (Suc p) w1 = (Ok jb, w2)" by simp
        have w2: "blocks w2 = blocks w1" "honest_faults w2"
          using bf_eq [OF bf_getBlockToProcess [OF g]] ok1(2) by auto
        have pred: "names_pred N (p + 1) (bl_PreviousBlockHash jb)"
          using getBlockToProcess_Ok [OF g] by (auto simp: names_pred_def)
        obtain r3 w3 where a: "blockAtHeight p w2 = (r3, w3)" by (cases "blockAtHeight p w2")
        have w3: "blocks w3 = blocks w1" "honest_faults w3"
          using bf_eq [OF bf_blockAtHeight [OF a]] w2 by auto
        show ?thesis
        proof (cases r3)
          case (Err e)
          then have run3: "?next jb (Inl e) w3 = (res, w')" using ok(2) a by (simp add: bind_def attempt_def)
          then have "w' = w3" by (auto split: if_splits)
          moreover have "h = p \<and> first_row (\<lambda>x. b_Height x = p) (blocks w') = None" if "res = Ok h" for h
            using run3 that w2(2) blockAtHeight_missing [of p w2 e w3] a Err w2(1) w3(1)
            by (auto split: if_splits)
          ultimately show ?thesis
            using w3(1) by (intro gone) (simp, metis option.distinct(1))
        next
          case (Panic q)
          then show ?thesis using a blockAtHeight_no_panic by blast
        next
          case (Ok c)
          then have loop: "reorgLoop N height p (d + 1) c (bl_PreviousBlockHash jb) w3 = (res, w')"
            using ok(2) a by (simp add: bind_def attempt_def)
          have row: "first_row (\<lambda>x. b_Height x = p) (blocks w3) = Some c"
            using blockAtHeight_Ok [of p w2 c w3] a Ok w2(1) w3(1) by simp
          have ok3: "blocks_ok w3" using ok1(1) w3(1) by (simp add: blocks_ok_def)
          have "\<exists>k. reorg_done N height p (d + 1) (bl_PreviousBlockHash jb) w3 res w' k \<and> p \<le> k + (100 - (d + 1))"
            by (rule Suc.IH [OF loop ok3 w3(2) row]) (use True pred in auto)
          then obtain k where k: "reorg_done N height p (d + 1) (bl_PreviousBlockHash jb) w3 res w' k"
            "p \<le> k + (100 - (d + 1))" by blast
          have "keep (\<lambda>x. \<not> (k < x \<and> x \<le> p)) w3 = keep (\<lambda>x. \<not> (k < x \<and> x \<le> Suc p)) w"
          proof -
            have "keep (\<lambda>x. \<not> (k < x \<and> x \<le> p)) w3 = keep (\<lambda>h. h \<noteq> Suc p \<and> \<not> (k < h \<and> h \<le> p)) w"
              using keep_keep [of w3 "\<lambda>h. h \<noteq> Suc p" w] rows1 w3(1) by simp
            also have "\<dots> = keep (\<lambda>x. \<not> (k < x \<and> x \<le> Suc p)) w"
              using k(1) unfolding keep_def reorg_done_def by (intro filter_cong) auto
            finally show ?thesis .
          qed
          then have "reorg_done N height (Suc p) d ch w res w' k"
            using k(1) by (auto simp: reorg_done_def)
          then show ?thesis using k(2) True by auto
        qed
      qed
    next
      case (Err e)
      then have "w' = w1 \<and> (\<forall>h. res \<noteq> Ok h)" using run del by (auto simp: bind_def prefix_def)
      moreover have "blocks w1 = blocks w" using d1 Err by auto
      ultimately show ?thesis using reorg_done_stop [of w' w res] by (intro exI [of _ "Suc p"]) auto
    next
      case (Panic q)
      then show ?thesis using d1 by auto
    qed
  qed
qed

text \<open>C34: Following a reorganisation is exact: the heights it removes are those above the height it
  returns and below the one being processed, at most one hundred of them; every other block row
  stays. If it returns a lower height whose block is stored, the node's chain continues that block;
  if it returns the height itself, nothing was removed and the stored predecessor is the one the new
  block names. This holds for every pattern of database errors and every sequence of answers of the
  node.\<close>

theorem checkHandleReorg_exact:
  assumes "blocks_ok w" and "honest_faults w" and "0 < height"
    and "checkHandleReorg N height chainPrevHash w = (Ok h, w')"
  shows "h \<le> height \<and> height \<le> h + 101 \<and>
    rows (blocks w') = filter (\<lambda>b. \<not> (h < b_Height b \<and> b_Height b < height)) (rows (blocks w)) \<and>
    (h = height \<longrightarrow> (\<exists>b. first_row (\<lambda>x. b_Height x = height - 1) (blocks w') = Some b \<and> b_Hash b = chainPrevHash)) \<and>
    (h < height \<longrightarrow> (\<forall>b. first_row (\<lambda>x. b_Height x = h) (blocks w') = Some b \<longrightarrow> names_pred N (h + 1) (b_Hash b)))"
proof -
  obtain p where p: "height = Suc p" using assms(3) by (cases height) auto
  obtain r w1 where a: "blockAtHeight p w = (r, w1)" by (cases "blockAtHeight p w")
  have w1: "blocks w1 = blocks w" "honest_faults w1"
    using bf_eq [OF bf_blockAtHeight [OF a]] assms(2) by auto
  show ?thesis
  proof (cases r)
    case (Err e)
    then have "h = p" "w' = w1" "err_cause e = ErrNoRows"
      using assms(4) a by (auto simp: checkHandleReorg_def p bind_def attempt_def split: if_splits)
    moreover have "first_row (\<lambda>b. b_Height b = p) (blocks w) = None"
      using blockAtHeight_missing [of p w e w1] a Err assms(2) calculation(3) by simp
    ultimately show ?thesis using w1(1) p by (auto simp: less_Suc_eq intro!: filter_True [symmetric])
  next
    case (Panic q)
    then show ?thesis using a blockAtHeight_no_panic by blast
  next
    case (Ok b)
    then have loop: "reorgLoop N height p 0 b chainPrevHash w1 = (Ok h, w')"
      using assms(4) a by (simp add: checkHandleReorg_def p bind_def attempt_def)
    have "blocks_ok w1" using assms(1) w1(1) by (simp add: blocks_ok_def)
    moreover have "first_row (\<lambda>x. b_Height x = p) (blocks w1) = Some b"
      using blockAtHeight_Ok [of p w b w1] a Ok w1(1) by simp
    ultimately obtain k where k: "reorg_done N height p 0 chainPrevHash w1 (Ok h) w' k" "p \<le> k + 100"
      using reorgLoop_spec [OF loop _ w1(2)] by auto
    then have rows: "rows (blocks w') = filter (\<lambda>b. \<not> (k < b_Height b \<and> b_Height b < height)) (rows (blocks w))"
      by (auto simp: reorg_done_def keep_def w1 p less_Suc_eq_le)
    from k(1) consider "h = height" "k = p" "\<exists>b. first_row (\<lambda>x. b_Height x = p) (blocks w') = Some b \<and> b_Hash b = chainPrevHash"
      | "h = k" "k \<le> p" "\<forall>b. first_row (\<lambda>x. b_Height x = k) (blocks w') = Some b \<longrightarrow> names_pred N (k + 1) (b_Hash b)"
      unfolding reorg_done_def by blast
    then show ?thesis
    proof cases
      case 1
      have "filter (\<lambda>b. \<not> (p < b_Height b \<and> b_Height b < Suc p)) (rows (blocks w)) = rows (blocks w)"
        by (rule filter_True) auto
      then show ?thesis using 1 rows p by (auto intro!: filter_True [symmetric])
    next
      case 2
      then show ?thesis using k(2) rows p by auto
    qed
  qed
qed

definition demo_block :: "nat \<Rightarrow> nat \<Rightarrow> string \<Rightarrow> Block" where
  "demo_block k h hash = zeroBlock\<lparr>b_ID := k, b_Height := h, b_Hash := hash\<rparr>"

definition demo_json :: "string \<Rightarrow> string \<Rightarrow> GetBlockResponse" where
  "demo_json hash prev = \<lparr>bl_Hash = hash, bl_Confirmations = 0, bl_StrippedSize = 0, bl_Size = 0, bl_Weight = 0,
     bl_Height = 0, bl_Version = 0, bl_VersionHex = '''', bl_MerkleRoot = '''', bl_NameClaimRoot = '''', bl_Tx = [],
     bl_Time = 0, bl_MedianTime = 0, bl_Nonce = 0, bl_Bits = '''', bl_Difficulty = Fin 0, bl_ChainWork = '''',
     bl_NTx = 0, bl_PreviousBlockHash = prev, bl_NextBlockHash = ''''\<rparr>"

definition demo_node :: node where
  "demo_node = \<lparr>getBlockHash = (\<lambda>_ h. Inr (if h = 2 then ''n2'' else ''n3'')),
     getBlock = (\<lambda>_ hash. Inr (if hash = ''n2'' then demo_json ''n2'' ''h1'' else demo_json ''n3'' ''n2'')),
     getRawTransaction = (\<lambda>_ _. Inl EOF)\<rparr>"

definition forked :: world where
  "forked = demo_world\<lparr>blocks := \<lparr>rows = [demo_block 1 1 ''h1'', demo_block 2 2 ''x2''], nextID = 3\<rparr>\<rparr>"

theorem checkHandleReorg_exact_witness:
  "rows (blocks (snd (checkHandleReorg demo_node 3 ''n2'' forked))) = [demo_block 1 1 ''h1''] \<and>
    names_pred demo_node 2 ''h1''"
proof -
  let ?w = "snd (checkHandleReorg demo_node 3 ''n2'' forked)"
  have run: "checkHandleReorg demo_node 3 ''n2'' forked = (Ok 1, ?w)"
    by (rule prod_eqI) (code_simp, simp)
  have ok: "blocks_ok forked" "honest_faults forked"
    by (auto simp: blocks_ok_def honest_faults_def forked_def demo_world_def demo_block_def zeroBlock_def)
  from checkHandleReorg_exact [OF ok _ run]
  have r: "rows (blocks ?w) = [demo_block 1 1 ''h1'']"
    and n: "\<forall>b. first_row (\<lambda>x. b_Height x = 1) (blocks ?w) = Some b \<longrightarrow> names_pred demo_node 2 (b_Hash b)"
    by (auto simp: forked_def demo_block_def zeroBlock_def numeral_2_eq_2)
  have "first_row (\<lambda>x. b_Height x = 1) (blocks ?w) = Some (demo_block 1 1 ''h1'')"
    by (simp add: first_row_def r demo_block_def zeroBlock_def)
  with n r show ?thesis by (auto simp: demo_block_def zeroBlock_def)
qed

section \<open>Deleting with retries\<close>

text \<open>The removal of a failed block survives two consecutive database errors: it only fails when
  all three attempts fail, and then no row was touched; otherwise exactly the block's row is gone.\<close>

theorem deleteBlockWithRetry_result:
  "deleteBlockWithRetry b w =
     (case (fault w (stmts w), fault w (stmts w + 1), fault w (stmts w + 2)) of
        (None, _, _) \<Rightarrow> (Ok (), delete_block (b_ID b) (w\<lparr>stmts := stmts w + 1\<rparr>))
      | (_, None, _) \<Rightarrow> (Ok (), delete_block (b_ID b) (w\<lparr>stmts := stmts w + 2\<rparr>))
      | (_, _, None) \<Rightarrow> (Ok (), delete_block (b_ID b) (w\<lparr>stmts := stmts w + 3\<rparr>))
      | (_, _, Some e) \<Rightarrow> (Err e, w\<lparr>stmts := stmts w + 3\<rparr>))"
  by (simp add: deleteBlockWithRetry_def blockDeleteRetryAttempts_def numeral_3_eq_3 numeral_2_eq_2 bind_def attempt_def
      Block_DeleteG_def stmt_def Let_def split: option.splits)

end
