(* ===== verification/Utf8.thy ===== *)
theory Utf8
  imports Prelude
begin

text \<open>
  Go strings are byte sequences that usually hold UTF-8. This theory models what the program uses of
  \<^verbatim>\<open>unicode/utf8\<close> and of the conversions between strings and rune slices: decoding (an invalid byte
  gives the replacement rune and a width of one), encoding, validity and cutting a text to a number of
  runes. Bytes are numbers here, \<open>codes\<close> and \<open>chars\<close> translate from and to strings.
\<close>

section \<open>Definitions\<close>

definition codes :: "string \<Rightarrow> nat list" where "codes s = map of_char s"

definition chars :: "nat list \<Rightarrow> string" where "chars bs = map char_of bs"

definition RuneError :: nat where "RuneError = 65533"

definition between :: "nat \<Rightarrow> nat \<Rightarrow> nat \<Rightarrow> bool" where
  "between lo hi b \<longleftrightarrow> lo \<le> b \<and> b \<le> hi"

text \<open>The range of the second byte depends on the first one.\<close>

definition second_range :: "nat \<Rightarrow> nat \<times> nat" where
  "second_range b0 =
     (if b0 = 224 then (160, 191) else if b0 = 237 then (128, 159)
      else if b0 = 240 then (144, 191) else if b0 = 244 then (128, 143) else (128, 191))"

definition cont :: "nat \<Rightarrow> bool" where "cont b \<longleftrightarrow> between 128 191 b"

text \<open>\<^verbatim>\<open>utf8.DecodeRune\<close>: the rune, if the bytes start with a valid encoding, and its width.\<close>

definition decode_rune :: "nat list \<Rightarrow> nat option \<times> nat" where
  "decode_rune bs =
     (case bs of
        [] \<Rightarrow> (None, 0)
      | b0 # r \<Rightarrow>
          if b0 < 128 then (Some b0, 1)
          else if between 194 223 b0 then
            (case r of b1 # _ \<Rightarrow> if cont b1 then (Some (64 * (b0 - 192) + (b1 - 128)), 2) else (None, 1)
                     | [] \<Rightarrow> (None, 1))
          else if between 224 239 b0 then
            (case r of
               b1 # b2 # _ \<Rightarrow>
                 if between (fst (second_range b0)) (snd (second_range b0)) b1 \<and> cont b2
                 then (Some (4096 * (b0 - 224) + 64 * (b1 - 128) + (b2 - 128)), 3) else (None, 1)
             | _ \<Rightarrow> (None, 1))
          else if between 240 244 b0 then
            (case r of
               b1 # b2 # b3 # _ \<Rightarrow>
                 if between (fst (second_range b0)) (snd (second_range b0)) b1 \<and> cont b2 \<and> cont b3
                 then (Some (262144 * (b0 - 240) + 4096 * (b1 - 128) + 64 * (b2 - 128) + (b3 - 128)), 4)
                 else (None, 1)
             | _ \<Rightarrow> (None, 1))
          else (None, 1))"

definition scalar :: "nat \<Rightarrow> bool" where
  "scalar r \<longleftrightarrow> r < 55296 \<or> (57344 \<le> r \<and> r \<le> 1114111)"

text \<open>\<^verbatim>\<open>utf8.AppendRune\<close>: what is no rune is written as the replacement rune.\<close>

definition encode_rune :: "nat \<Rightarrow> nat list" where
  "encode_rune r0 =
     (let r = (if scalar r0 then r0 else RuneError) in
      if r < 128 then [r]
      else if r < 2048 then [192 + r div 64, 128 + r mod 64]
      else if r < 65536 then [224 + r div 4096, 128 + r div 64 mod 64, 128 + r mod 64]
      else [240 + r div 262144, 128 + r div 4096 mod 64, 128 + r div 64 mod 64, 128 + r mod 64])"

text \<open>\<^verbatim>\<open>[]rune(s)\<close>, \<^verbatim>\<open>utf8.ValidString\<close> and \<^verbatim>\<open>string(runes)\<close>.\<close>

function runes :: "nat list \<Rightarrow> nat list" where
  "runes bs =
     (if bs = [] then []
      else (case fst (decode_rune bs) of None \<Rightarrow> RuneError | Some r \<Rightarrow> r) # runes (drop (max 1 (snd (decode_rune bs))) bs))"
  by pat_completeness auto
termination
  by (relation "measure length") auto

declare runes.simps [simp del]

function valid_utf8 :: "nat list \<Rightarrow> bool" where
  "valid_utf8 bs \<longleftrightarrow>
     (if bs = [] then True
      else fst (decode_rune bs) \<noteq> None \<and> valid_utf8 (drop (max 1 (snd (decode_rune bs))) bs))"
  by pat_completeness auto
termination
  by (relation "measure length") auto

declare valid_utf8.simps [simp del]

definition encode_runes :: "nat list \<Rightarrow> nat list" where
  "encode_runes rs = concat (map encode_rune rs)"

text \<open>The idiom \<^verbatim>\<open>if len([]rune(s)) > n { s = string([]rune(s)[:n]) }\<close>.\<close>

definition cut_runes :: "nat \<Rightarrow> string \<Rightarrow> string" where
  "cut_runes n s =
     (if length (runes (codes s)) > n then chars (encode_runes (take n (runes (codes s)))) else s)"

definition ValidString :: "string \<Rightarrow> bool" where
  "ValidString s \<longleftrightarrow> valid_utf8 (codes s)"

section \<open>Lemmas\<close>

lemma chars_codes [simp]: "chars (codes s) = s"
  by (simp add: chars_def codes_def comp_def)

lemma codes_append [simp]: "codes (s @ t) = codes s @ codes t"
  by (simp add: codes_def)

lemma length_codes [simp]: "length (codes s) = length s"
  by (simp add: codes_def)

lemma codes_chars: "\<forall>b\<in>set bs. b < 256 \<Longrightarrow> codes (chars bs) = bs"
  by (simp add: chars_def codes_def map_idI)

lemma scalar_RuneError [simp]: "scalar RuneError"
  by (simp add: scalar_def RuneError_def)

lemma encode_rune_RuneError: "\<not> scalar r \<Longrightarrow> encode_rune r = encode_rune RuneError"
  by (simp add: encode_rune_def)

lemma encode_rune_nonempty [simp]: "encode_rune r \<noteq> []"
  by (simp add: encode_rune_def Let_def)

text \<open>The digits of a number to the base 64.\<close>

lemma digits64:
  fixes r :: nat
  shows "64 * (r div 64) + r mod 64 = r" and "64 * (r div 4096) + r div 64 mod 64 = r div 64"
    and "64 * (r div 262144) + r div 4096 mod 64 = r div 4096"
  using div_mult2_eq [of r 64 64] div_mult2_eq [of r 4096 64] by simp_all

lemma undigits64:
  fixes r :: nat
  assumes "r = 262144 * v + 4096 * x + 64 * y + z" and "x < 64" and "y < 64" and "z < 64"
  shows "r div 262144 = v" and "r div 4096 mod 64 = x" and "r div 64 mod 64 = y" and "r mod 64 = z"
    and "v = 0 \<Longrightarrow> r div 4096 = x"
proof -
  have peel: "(z' + q * 64) mod 64 = z'" "(z' + q * 64) div 64 = q" if "z' < 64" for z' q :: nat
    using that by simp_all
  have r: "r = z + (y + (x + v * 64) * 64) * 64" using assms(1) by simp
  have r0: "r mod 64 = z" and r1: "r div 64 = y + (x + v * 64) * 64"
    unfolding r by (rule peel [OF assms(4)])+
  have r2: "r div 4096 = x + v * 64" using div_mult2_eq [of r 64 64] r1 peel(2) [OF assms(3)] by simp
  show "r div 262144 = v" using div_mult2_eq [of r 4096 64] r2 assms(2) by simp
  show "r div 4096 mod 64 = x" "r div 64 mod 64 = y" unfolding r1 r2 by (rule peel assms)+
  show "r mod 64 = z" by (rule r0)
  show "v = 0 \<Longrightarrow> r div 4096 = x" using r2 by simp
qed

text \<open>A rune is the only reading of its encoding, whatever follows it.\<close>

lemma decode_encode_rune:
  assumes "scalar r"
  shows "decode_rune (encode_rune r @ rest) = (Some r, length (encode_rune r))"
proof -
  consider "r < 128" | "128 \<le> r" "r < 2048" | "2048 \<le> r" "r < 65536" | "65536 \<le> r" "r < 1114112"
    using assms by (fastforce simp: scalar_def)
  then show ?thesis
  proof cases
    case 1
    with assms show ?thesis by (simp add: encode_rune_def decode_rune_def)
  next
    case 2
    have "between 194 223 (192 + r div 64)" "cont (128 + r mod 64)" "\<not> 192 + r div 64 < 128"
      using 2 by (auto simp: between_def cont_def)
    with 2 assms show ?thesis by (simp add: encode_rune_def decode_rune_def)
  next
    case 3
    let ?b0 = "224 + r div 4096" and ?b1 = "128 + r div 64 mod 64"
    have "\<not> ?b0 < 128" "\<not> between 194 223 ?b0" "between 224 239 ?b0" "cont (128 + r mod 64)"
      using 3 by (auto simp: between_def cont_def)
    moreover have "between (fst (second_range ?b0)) (snd (second_range ?b0)) ?b1"
    proof -
      note q = digits64(2) [of r, symmetric]
      have "r div 4096 = 0 \<Longrightarrow> 32 \<le> r div 64 mod 64" using q 3(1) by simp
      moreover have "r div 4096 = 13 \<Longrightarrow> r div 64 mod 64 < 32"
      proof -
        assume x: "r div 4096 = 13"
        then have "r < 55296" using assms by (auto simp: scalar_def)
        then have "r div 64 < 864" by simp
        then show "r div 64 mod 64 < 32" using q x by simp
      qed
      moreover have "r div 4096 < 16" using 3 by simp
      ultimately show ?thesis by (auto simp: between_def second_range_def)
    qed
    moreover have "4096 * (r div 4096) + 64 * (r div 64 mod 64) + r mod 64 = r"
      using digits64(1,2) [of r] by linarith
    ultimately show ?thesis using 3 assms by (simp add: encode_rune_def decode_rune_def)
  next
    case 4
    let ?b0 = "240 + r div 262144" and ?b1 = "128 + r div 4096 mod 64"
    have "\<not> ?b0 < 128" "\<not> between 194 223 ?b0" "\<not> between 224 239 ?b0" "between 240 244 ?b0"
      "cont (128 + r div 64 mod 64)" "cont (128 + r mod 64)"
      using 4 by (auto simp: between_def cont_def)
    moreover have "between (fst (second_range ?b0)) (snd (second_range ?b0)) ?b1"
    proof -
      have "r div 262144 = 0 \<Longrightarrow> 16 \<le> r div 4096 mod 64" "r div 262144 = 4 \<Longrightarrow> r div 4096 mod 64 < 16"
        using digits64(3) [of r] div_le_mono [OF 4(1), of 4096] div_le_mono [of r 1114111 4096] 4(2) by simp_all
      then show ?thesis by (auto simp: between_def second_range_def)
    qed
    moreover have "262144 * (r div 262144) + 4096 * (r div 4096 mod 64) + 64 * (r div 64 mod 64) + r mod 64 = r"
      using digits64 [of r] by linarith
    ultimately show ?thesis using 4 assms by (simp add: encode_rune_def decode_rune_def)
  qed
qed

lemma decode_rune_scalar:
  assumes "decode_rune bs = (Some r, n)"
  shows "scalar r" and "take n bs = encode_rune r" and "0 < n" and "n \<le> length bs"
proof -
  have *: "scalar r \<and> take n bs = encode_rune r \<and> 0 < n \<and> n \<le> length bs"
  proof (cases bs)
    case (Cons b0 t)
    consider (a) "b0 < 128" | (b) "between 194 223 b0" | (c) "between 224 239 b0" | (d) "between 240 244 b0"
      using assms Cons by (auto simp: decode_rune_def split: if_splits)
    then show ?thesis
    proof cases
      case a
      then show ?thesis using assms Cons by (auto simp: decode_rune_def encode_rune_def scalar_def)
    next
      case b
      then obtain b1 u where t: "t = b1 # u" "cont b1" "r = 64 * (b0 - 192) + (b1 - 128)" "n = 2"
        using assms Cons by (auto simp: decode_rune_def between_def split: list.splits if_splits)
      define x y where xy: "x = b0 - 192" "y = b1 - 128"
      have "b0 = 192 + x" "b1 = 128 + y" "y < 64" "2 \<le> x" "x < 32"
        using b t(2) by (auto simp: xy between_def cont_def)
      then show ?thesis using Cons t by (simp add: encode_rune_def scalar_def)
    next
      case c
      then obtain b1 b2 u where t: "t = b1 # b2 # u" "cont b2" "n = 3"
          "between (fst (second_range b0)) (snd (second_range b0)) b1"
          "r = 4096 * (b0 - 224) + 64 * (b1 - 128) + (b2 - 128)"
        using assms Cons by (auto simp: decode_rune_def between_def split: list.splits if_splits)
      define x y z where xyz: "x = b0 - 224" "y = b1 - 128" "z = b2 - 128"
      have e: "b0 = 224 + x" "b1 = 128 + y" "b2 = 128 + z" "x < 16" "y < 64" "z < 64"
        using c t(2,4) by (auto simp: xyz between_def cont_def second_range_def split: if_splits)
      have "x = 0 \<Longrightarrow> 32 \<le> y" "x = 13 \<Longrightarrow> y < 32"
        using t(4) e by (auto simp: between_def second_range_def)
      then have r: "r = 4096 * x + 64 * y + z" "2048 \<le> r" "r < 65536" "scalar r"
      proof -
        show r: "r = 4096 * x + 64 * y + z" using t(5) by (simp add: xyz)
        show "2048 \<le> r" using r \<open>x = 0 \<Longrightarrow> 32 \<le> y\<close> by (cases "x = 0") simp_all
        show "r < 65536" using r e by simp
        show "scalar r"
        proof (cases "x \<le> 12")
          case True
          then show ?thesis using r e by (simp add: scalar_def)
        next
          case False
          then show ?thesis using r e \<open>x = 13 \<Longrightarrow> y < 32\<close> by (cases "x = 13") (simp_all add: scalar_def)
        qed
      qed
      moreover have "r div 4096 = x" "r div 64 mod 64 = y" "r mod 64 = z"
        using undigits64 [of r 0 x y z] r(1) e by simp_all
      ultimately show ?thesis using Cons t(1,3) e by (simp add: encode_rune_def)
    next
      case d
      then obtain b1 b2 b3 u where t: "t = b1 # b2 # b3 # u" "cont b2" "cont b3" "n = 4"
          "between (fst (second_range b0)) (snd (second_range b0)) b1"
          "r = 262144 * (b0 - 240) + 4096 * (b1 - 128) + 64 * (b2 - 128) + (b3 - 128)"
        using assms Cons by (auto simp: decode_rune_def between_def split: list.splits if_splits)
      define v x y z where xyz: "v = b0 - 240" "x = b1 - 128" "y = b2 - 128" "z = b3 - 128"
      have e: "b0 = 240 + v" "b1 = 128 + x" "b2 = 128 + y" "b3 = 128 + z" "v < 5" "x < 64" "y < 64" "z < 64"
        using d t(2,3,5) by (auto simp: xyz between_def cont_def second_range_def split: if_splits)
      have "v = 0 \<Longrightarrow> 16 \<le> x" "v = 4 \<Longrightarrow> x < 16"
        using t(5) e by (auto simp: between_def second_range_def)
      then have r: "r = 262144 * v + 4096 * x + 64 * y + z" "65536 \<le> r" "scalar r"
      proof -
        show r: "r = 262144 * v + 4096 * x + 64 * y + z" using t(6) by (simp add: xyz)
        show "65536 \<le> r" using r \<open>v = 0 \<Longrightarrow> 16 \<le> x\<close> by (cases "v = 0") simp_all
        moreover have "r < 1114112" using r e \<open>v = 4 \<Longrightarrow> x < 16\<close> by (cases "v = 4") simp_all
        ultimately show "scalar r" by (simp add: scalar_def)
      qed
      moreover have "r div 262144 = v" "r div 4096 mod 64 = x" "r div 64 mod 64 = y" "r mod 64 = z"
        using undigits64 [OF r(1)] e by simp_all
      ultimately show ?thesis using Cons t(1,4) e by (simp add: encode_rune_def)
    qed
  qed (use assms in \<open>simp add: decode_rune_def\<close>)
  then show "scalar r" and "take n bs = encode_rune r" and "0 < n" and "n \<le> length bs" by auto
qed

lemma runes_Nil [simp]: "runes [] = []"
  by (simp add: runes.simps)

lemma valid_utf8_Nil [simp]: "valid_utf8 []"
  by (simp add: valid_utf8.simps)

lemma runes_encode [simp]: "scalar r \<Longrightarrow> runes (encode_rune r @ bs) = r # runes bs"
  by (subst runes.simps) (simp add: decode_encode_rune max_def Suc_le_eq)

lemma valid_encode [simp]: "valid_utf8 (encode_rune r @ bs) = valid_utf8 bs"
proof -
  have *: "valid_utf8 (encode_rune r @ bs) = valid_utf8 bs" if "scalar r" for r
    using that by (subst valid_utf8.simps) (simp add: decode_encode_rune max_def Suc_le_eq)
  show ?thesis
    using * [of r] * [of RuneError] encode_rune_RuneError [of r] by (cases "scalar r") auto
qed

text \<open>Decoding undoes encoding, and what was encoded is valid.\<close>

lemma runes_encode_runes: "\<forall>r\<in>set rs. scalar r \<Longrightarrow> runes (encode_runes rs) = rs"
  by (induction rs) (simp_all add: encode_runes_def)

lemma valid_encode_runes [simp]: "valid_utf8 (encode_runes rs)"
  by (induction rs) (simp_all add: encode_runes_def)

lemma runes_scalar: "\<forall>r\<in>set (runes bs). scalar r"
proof (induction bs rule: runes.induct)
  case (1 bs)
  show ?case
  proof (cases "bs = []")
    case False
    then have "\<forall>r\<in>set (runes (drop (max 1 (snd (decode_rune bs))) bs)). scalar r" by (rule "1.IH")
    moreover have "scalar (case fst (decode_rune bs) of None \<Rightarrow> RuneError | Some r \<Rightarrow> r)"
      using decode_rune_scalar(1) [of bs] by (cases "decode_rune bs") (auto split: option.splits)
    ultimately show ?thesis using False by (subst runes.simps) simp
  qed simp
qed

text \<open>Valid text is the encoding of its runes.\<close>

lemma valid_utf8_encode: "valid_utf8 bs \<Longrightarrow> encode_runes (runes bs) = bs"
proof (induction bs rule: runes.induct)
  case (1 bs)
  show ?case
  proof (cases "bs = []")
    case False
    with "1.prems" obtain r where r: "fst (decode_rune bs) = Some r"
      and v: "valid_utf8 (drop (max 1 (snd (decode_rune bs))) bs)"
      by (subst (asm) valid_utf8.simps) auto
    let ?n = "snd (decode_rune bs)"
    have d: "decode_rune bs = (Some r, ?n)" using r by (metis prod.collapse)
    have "max 1 ?n = ?n" using decode_rune_scalar(3) [OF d] by simp
    with "1.IH" [OF False v] r decode_rune_scalar(2) [OF d] False
    show ?thesis by (subst runes.simps) (simp add: encode_runes_def, metis append_take_drop_id)
  qed (simp add: encode_runes_def)
qed

lemma encode_rune_byte: "b \<in> set (encode_rune r) \<Longrightarrow> b < 256"
  by (auto simp: encode_rune_def Let_def scalar_def RuneError_def split: if_splits)

lemma codes_chars_encode_runes [simp]: "codes (chars (encode_runes rs)) = encode_runes rs"
  by (rule codes_chars) (auto simp: encode_runes_def dest: encode_rune_byte)

text \<open>A cut text has at most the allowed number of runes, is a prefix in runes, and is valid when it was cut.\<close>

lemma cut_runes_length: "length (runes (codes (cut_runes n s))) \<le> n"
proof -
  have "\<forall>r\<in>set (take n (runes (codes s))). scalar r" using runes_scalar by (meson in_set_takeD)
  then show ?thesis by (simp add: cut_runes_def runes_encode_runes)
qed

lemma cut_runes_valid: "ValidString s \<Longrightarrow> ValidString (cut_runes n s)"
  by (simp add: cut_runes_def ValidString_def)

end
