(* ===== verification/Json.thy ===== *)
theory Json
  imports Utf8
begin

text \<open>
  What the program uses of \<^verbatim>\<open>encoding/json\<close>: writing strings and lists of strings, reading a list of
  strings, and testing whether a text is a JSON object. Reading is a scanner, which turns the bytes
  into tokens, and a pushdown machine on the tokens with the nesting limit of the library.
\<close>

section \<open>Writing\<close>

definition hexcode :: "nat \<Rightarrow> nat" where
  "hexcode d = (if d < 10 then 48 + d else 87 + d)"

definition plain :: "nat \<Rightarrow> bool" where
  "plain b \<longleftrightarrow> 32 \<le> b \<and> b \<notin> {34, 92, 60, 62, 38}"

definition escape_rune :: "nat \<Rightarrow> nat list" where
  "escape_rune r =
     (if r < 128 then
        if plain r then [r]
        else if r = 34 \<or> r = 92 then [92, r]
        else if r = 8 then [92, 98] else if r = 12 then [92, 102] else if r = 10 then [92, 110]
        else if r = 13 then [92, 114] else if r = 9 then [92, 116]
        else [92, 117, 48, 48, hexcode (r div 16), hexcode (r mod 16)]
      else if r = 8232 \<or> r = 8233 then [92, 117, 50, 48, 50, hexcode (r mod 16)]
      else encode_rune r)"

function escape :: "nat list \<Rightarrow> nat list" where
  "escape bs =
     (if bs = [] then []
      else (case fst (decode_rune bs) of None \<Rightarrow> [92, 117, 102, 102, 102, 100] | Some r \<Rightarrow> escape_rune r)
        @ escape (drop (max 1 (snd (decode_rune bs))) bs))"
  by pat_completeness auto
termination
  by (relation "measure length") auto

declare escape.simps [simp del]

definition json_string :: "string \<Rightarrow> string" where
  "json_string s = chars (34 # escape (codes s) @ [34])"

fun commas :: "string list \<Rightarrow> string" where
  "commas [] = ''''"
| "commas [s] = s"
| "commas (s # t # ss) = s @ '','' @ commas (t # ss)"

definition Marshal_strings :: "string list \<Rightarrow> string" where
  "Marshal_strings xs = ''['' @ commas (map json_string xs) @ '']''"

section \<open>Reading\<close>

datatype json =
    JNull
  | JBool bool
  | JNum "nat list"
  | JStr string
  | JArr "json list"
  | JObj "(string \<times> json) list"

datatype token = Punct nat | Val json

definition unhex :: "nat \<Rightarrow> nat option" where
  "unhex b = fromHexChar (char_of b)"

definition hex4 :: "nat list \<Rightarrow> nat option" where
  "hex4 bs =
     (case bs of
        a # b # c # d # _ \<Rightarrow>
          (case (unhex a, unhex b, unhex c, unhex d) of
             (Some w, Some x, Some y, Some z) \<Rightarrow> Some (4096 * w + 256 * x + 16 * y + z)
           | _ \<Rightarrow> None)
      | _ \<Rightarrow> None)"

text \<open>The escape \<^verbatim>\<open>\uXXXX\<close> behind its first two bytes; a valid surrogate pair is one rune.\<close>

definition unicode_escape :: "nat list \<Rightarrow> (nat list \<times> nat) option" where
  "unicode_escape bs =
     (case hex4 bs of
        None \<Rightarrow> None
      | Some r1 \<Rightarrow>
          if between 55296 56319 r1 then
            (case (if take 2 (drop 4 bs) = [92, 117] then hex4 (drop 6 bs) else None) of
               Some r2 \<Rightarrow>
                 if between 56320 57343 r2
                 then Some (encode_rune (65536 + 1024 * (r1 - 55296) + (r2 - 56320)), 12)
                 else Some (encode_rune RuneError, 6)
             | None \<Rightarrow> Some (encode_rune RuneError, 6))
          else Some (encode_rune r1, 6))"

text \<open>One step inside a string literal: the end with what follows, or decoded bytes and how far to go.\<close>

definition str_step :: "nat list \<Rightarrow> (nat list + nat list \<times> nat) option" where
  "str_step bs =
     (case bs of
        [] \<Rightarrow> None
      | b # r \<Rightarrow>
          if b = 34 then Some (Inl r)
          else if b = 92 then
            (case r of
               [] \<Rightarrow> None
             | c # r' \<Rightarrow>
                 if c = 34 \<or> c = 92 \<or> c = 47 then Some (Inr ([c], 2))
                 else if c = 98 then Some (Inr ([8], 2)) else if c = 102 then Some (Inr ([12], 2))
                 else if c = 110 then Some (Inr ([10], 2)) else if c = 114 then Some (Inr ([13], 2))
                 else if c = 116 then Some (Inr ([9], 2))
                 else if c = 117 then map_option Inr (unicode_escape r')
                 else None)
          else if b < 32 then None
          else
            (case decode_rune bs of
               (Some x, n) \<Rightarrow> Some (Inr (encode_rune x, n))
             | (None, _) \<Rightarrow> Some (Inr (encode_rune RuneError, 1))))"

lemma str_step_Nil [simp]: "str_step [] = None"
  by (simp add: str_step_def)

function scan_str :: "nat list \<Rightarrow> (nat list \<times> nat list) option" where
  "scan_str bs =
     (case str_step bs of
        None \<Rightarrow> None
      | Some (Inl rest) \<Rightarrow> Some ([], rest)
      | Some (Inr (out, n)) \<Rightarrow>
          (case scan_str (drop (max 1 n) bs) of
             None \<Rightarrow> None
           | Some (s, rest) \<Rightarrow> Some (out @ s, rest)))"
  by pat_completeness auto
termination
proof (relation "measure length")
  fix bs and x :: "nat list + nat list \<times> nat" and y out n
  assume "str_step bs = Some x" "x = Inr y" "(out, n) = y"
  then have "bs \<noteq> []" by auto
  then show "(drop (max 1 n) bs, bs) \<in> measure length" by (cases bs) (auto simp: max_def)
qed simp

declare scan_str.simps [simp del]

definition digit :: "nat \<Rightarrow> bool" where "digit b \<longleftrightarrow> between 48 57 b"

definition scan_int :: "nat list \<Rightarrow> (nat list \<times> nat list) option" where
  "scan_int bs =
     (case bs of
        [] \<Rightarrow> None
      | b # r \<Rightarrow>
          if b = 48 then Some ([b], r)
          else if digit b then Some (takeWhile digit bs, dropWhile digit bs)
          else None)"

definition scan_frac :: "nat list \<Rightarrow> (nat list \<times> nat list) option" where
  "scan_frac bs =
     (case bs of
        b # r \<Rightarrow>
          if b = 46 then
            if takeWhile digit r = [] then None else Some (b # takeWhile digit r, dropWhile digit r)
          else Some ([], bs)
      | [] \<Rightarrow> Some ([], []))"

definition scan_exp :: "nat list \<Rightarrow> (nat list \<times> nat list) option" where
  "scan_exp bs =
     (case bs of
        b # r \<Rightarrow>
          if b = 101 \<or> b = 69 then
            (let (sign, r') = (case r of c # r'' \<Rightarrow> if c = 43 \<or> c = 45 then ([c], r'') else ([], r) | [] \<Rightarrow> ([], r))
             in if takeWhile digit r' = [] then None
                else Some (b # sign @ takeWhile digit r', dropWhile digit r'))
          else Some ([], bs)
      | [] \<Rightarrow> Some ([], []))"

definition scan_num :: "nat list \<Rightarrow> (nat list \<times> nat list) option" where
  "scan_num bs =
     (let (sign, r0) = (case bs of b # r \<Rightarrow> if b = 45 then ([b], r) else ([], bs) | [] \<Rightarrow> ([], bs))
      in case scan_int r0 of
           None \<Rightarrow> None
         | Some (i, r1) \<Rightarrow>
             (case scan_frac r1 of
                None \<Rightarrow> None
              | Some (f, r2) \<Rightarrow>
                  (case scan_exp r2 of None \<Rightarrow> None | Some (e, r3) \<Rightarrow> Some (sign @ i @ f @ e, r3))))"

text \<open>A scalar at the front of the input, and the rest.\<close>

definition scan_value :: "nat list \<Rightarrow> (json \<times> nat list) option" where
  "scan_value bs =
     (case bs of
        [] \<Rightarrow> None
      | b # r \<Rightarrow>
          if b = 34 then map_option (\<lambda>(s, rest). (JStr (chars s), rest)) (scan_str r)
          else if take 4 bs = codes ''true'' then Some (JBool True, drop 4 bs)
          else if take 5 bs = codes ''false'' then Some (JBool False, drop 5 bs)
          else if take 4 bs = codes ''null'' then Some (JNull, drop 4 bs)
          else map_option (\<lambda>(n, rest). (JNum n, rest)) (scan_num bs))"

lemma scan_str_shorter: "scan_str bs = Some (s, rest) \<Longrightarrow> length rest < length bs"
proof (induction bs arbitrary: s rule: scan_str.induct)
  case (1 bs)
  show ?case
  proof (cases "str_step bs")
    case (Some x)
    then have ne: "bs \<noteq> []" by auto
    show ?thesis
    proof (cases x)
      case (Inl u)
      with Some "1.prems" have "rest = u" by (subst (asm) scan_str.simps) simp
      with Some Inl ne show ?thesis
        by (cases bs) (auto simp: str_step_def split: if_splits list.splits option.splits prod.splits)
    next
      case (Inr y)
      then obtain out n where y: "x = Inr (out, n)" by (cases y) simp
      with Some "1.prems" obtain s' where "scan_str (drop (max 1 n) bs) = Some (s', rest)"
        by (subst (asm) scan_str.simps) (auto split: option.splits)
      then show ?thesis using "1.IH" [OF Some y refl] by fastforce
    qed
  qed (use "1.prems" in \<open>subst (asm) scan_str.simps, simp\<close>)
qed

lemma scan_num_shorter:
  assumes "scan_num bs = Some (s, rest)"
  shows "length rest < length bs"
proof -
  have w: "length (dropWhile digit u) \<le> length u" for u by (rule length_dropWhile_le)
  have i: "length r < length u" if "scan_int u = Some (x, r)" for u x r
    using that w [of "tl u"] by (auto simp: scan_int_def less_Suc_eq_le split: list.splits if_splits)
  have f: "length r \<le> length u" if "scan_frac u = Some (x, r)" for u x r
    using that w [of "tl u"] by (auto simp: scan_frac_def split: list.splits if_splits)
  have e: "length r \<le> length u" if "scan_exp u = Some (x, r)" for u x r
    using that w [of "tl u"] w [of "tl (tl u)"]
    by (auto simp: scan_exp_def Let_def le_Suc_eq split: list.splits if_splits)
  obtain sg r0 where s0: "(case bs of b # r \<Rightarrow> if b = 45 then ([b], r) else ([], bs) | [] \<Rightarrow> ([], bs)) = (sg, r0)"
    by fastforce
  then have "length r0 \<le> length bs" by (auto split: list.splits if_splits)
  moreover obtain a r1 b r2 c where "scan_int r0 = Some (a, r1)" "scan_frac r1 = Some (b, r2)"
      "scan_exp r2 = Some (c, rest)"
    using assms s0 by (auto simp: scan_num_def split: option.splits)
  ultimately show ?thesis using i f e by (meson le_trans less_le_trans not_le)
qed

lemma scan_value_shorter:
  assumes "scan_value bs = Some (v, rest)"
  shows "length rest < length bs"
proof (cases bs)
  case (Cons b r)
  have "length (drop 4 bs) < length bs" "length (drop 5 bs) < length bs" using Cons by simp_all
  then show ?thesis
    using assms Cons scan_str_shorter [of r] scan_num_shorter [of bs]
    by (auto simp: scan_value_def less_SucI split: if_splits)
qed (use assms in \<open>simp add: scan_value_def\<close>)

function tokens :: "nat list \<Rightarrow> (token list) option" where
  "tokens [] = Some []"
| "tokens (b # r) =
     (if b \<in> {32, 9, 10, 13} then tokens r
      else if b \<in> {91, 93, 123, 125, 44, 58} then map_option (Cons (Punct b)) (tokens r)
      else
        (case scan_value (b # r) of
           None \<Rightarrow> None
         | Some (v, rest) \<Rightarrow> map_option (Cons (Val v)) (tokens rest)))"
  by pat_completeness auto
termination
  by (relation "measure length") (auto dest: scan_value_shorter)

datatype frame = AFrame "json list" | OFrame "(string \<times> json) list" string

datatype mode =
    Value
  | ElemOrEnd
  | KeyOrEnd
  | Key "(string \<times> json) list"
  | Colon "(string \<times> json) list" string
  | After json

definition maxNestingDepth :: nat where "maxNestingDepth = 10000"

definition open_value :: "token \<Rightarrow> frame list \<Rightarrow> (mode \<times> frame list) option" where
  "open_value t st =
     (case t of
        Val v \<Rightarrow> Some (After v, st)
      | Punct b \<Rightarrow>
          if b = 91 \<and> length st < maxNestingDepth then Some (ElemOrEnd, AFrame [] # st)
          else if b = 123 \<and> length st < maxNestingDepth then Some (KeyOrEnd, st)
          else None)"

definition key_token :: "token \<Rightarrow> (string \<times> json) list \<Rightarrow> frame list \<Rightarrow> (mode \<times> frame list) option" where
  "key_token t kvs st = (case t of Val (JStr k) \<Rightarrow> Some (Colon kvs k, st) | _ \<Rightarrow> None)"

fun token_step :: "token \<Rightarrow> mode \<Rightarrow> frame list \<Rightarrow> (mode \<times> frame list) option" where
  "token_step t Value st = open_value t st"
| "token_step t ElemOrEnd st =
     (if t = Punct 93 then (case st of AFrame xs # st' \<Rightarrow> Some (After (JArr xs), st') | _ \<Rightarrow> None)
      else open_value t st)"
| "token_step t KeyOrEnd st = (if t = Punct 125 then Some (After (JObj []), st) else key_token t [] st)"
| "token_step t (Key kvs) st = key_token t kvs st"
| "token_step t (Colon kvs k) st = (if t = Punct 58 then Some (Value, OFrame kvs k # st) else None)"
| "token_step t (After v) st =
     (case st of
        [] \<Rightarrow> None
      | AFrame xs # st' \<Rightarrow>
          if t = Punct 44 then Some (Value, AFrame (xs @ [v]) # st')
          else if t = Punct 93 then Some (After (JArr (xs @ [v])), st') else None
      | OFrame kvs k # st' \<Rightarrow>
          if t = Punct 44 then Some (Key (kvs @ [(k, v)]), st')
          else if t = Punct 125 then Some (After (JObj (kvs @ [(k, v)])), st') else None)"

fun parse_tokens :: "token list \<Rightarrow> mode \<Rightarrow> frame list \<Rightarrow> json option" where
  "parse_tokens [] m st = (case (m, st) of (After v, []) \<Rightarrow> Some v | _ \<Rightarrow> None)"
| "parse_tokens (t # ts) m st =
     (case token_step t m st of None \<Rightarrow> None | Some (m', st') \<Rightarrow> parse_tokens ts m' st')"

definition parse_json :: "string \<Rightarrow> json option" where
  "parse_json s = (case tokens (codes s) of None \<Rightarrow> None | Some ts \<Rightarrow> parse_tokens ts Value [])"

text \<open>\<^verbatim>\<open>json.Unmarshal\<close> into a \<^verbatim>\<open>[]string\<close>: a null element leaves the empty string.\<close>

definition string_elem :: "json \<Rightarrow> string option" where
  "string_elem v = (case v of JStr s \<Rightarrow> Some s | JNull \<Rightarrow> Some '''' | _ \<Rightarrow> None)"

definition Unmarshal_strings :: "string \<Rightarrow> (string list) option" where
  "Unmarshal_strings s =
     (case parse_json s of
        Some JNull \<Rightarrow> Some []
      | Some (JArr vs) \<Rightarrow>
          if list_all (\<lambda>v. string_elem v \<noteq> None) vs then Some (map (the \<circ> string_elem) vs) else None
      | _ \<Rightarrow> None)"

text \<open>A number that rounds to infinity in double precision is an error of \<^verbatim>\<open>strconv.ParseFloat\<close>.\<close>

definition dec_nat :: "nat list \<Rightarrow> nat" where
  "dec_nat ds = foldl (\<lambda>n d. 10 * n + (d - 48)) 0 ds"

definition float_overflow :: nat where "float_overflow = 2 ^ 1024 - 2 ^ 970"

definition num_in_range :: "nat list \<Rightarrow> bool" where
  "num_in_range t =
     (let u = dropWhile (\<lambda>b. b = 45) t;
          i = takeWhile digit u; r1 = dropWhile digit u;
          f = takeWhile digit (dropWhile (\<lambda>b. b = 46) (takeWhile (\<lambda>b. b \<noteq> 101 \<and> b \<noteq> 69) r1));
          r2 = tl (dropWhile (\<lambda>b. b \<noteq> 101 \<and> b \<noteq> 69) r1);
          e = (if take 1 r2 = [45] then - int (dec_nat (tl r2))
               else if take 1 r2 = [43] then int (dec_nat (tl r2)) else int (dec_nat r2)) - int (length f);
          m = dec_nat (i @ f)
      in if e \<ge> 0 then m * 10 ^ nat e < float_overflow else m < float_overflow * 10 ^ nat (- e))"

fun numbers_in_range :: "json \<Rightarrow> bool" where
  "numbers_in_range (JNum t) = num_in_range t"
| "numbers_in_range (JArr vs) = (\<forall>v\<in>set vs. numbers_in_range v)"
| "numbers_in_range (JObj kvs) = (\<forall>kv\<in>set kvs. numbers_in_range (snd kv))"
| "numbers_in_range _ = True"

text \<open>Whether \<^verbatim>\<open>json.Unmarshal\<close> into a \<^verbatim>\<open>map[string]interface{}\<close> succeeds.\<close>

definition Unmarshal_object_ok :: "string \<Rightarrow> bool" where
  "Unmarshal_object_ok s =
     (case parse_json s of
        Some JNull \<Rightarrow> True
      | Some (JObj kvs) \<Rightarrow> numbers_in_range (JObj kvs)
      | _ \<Rightarrow> False)"

end
