(* ===== verification/ClaimMeta.thy ===== *)
theory ClaimMeta
  imports Json DB Script
begin

text \<open>
  The part of \<^verbatim>\<open>daemon/processing/claim.go\<close> that copies the decoded contents of a claim into the
  columns of its row, and \<^verbatim>\<open>daemon/processing/metadata.go\<close>, which renders them as JSON. The decoded
  claim comes from \<^verbatim>\<open>lbry.go\<close> and its protobuf types: a record below holds what the getters of a
  message answer, an optional field is a message that may be missing. The decoders and the
  serialisation of a certificate are fields of \<open>env\<close>.
\<close>

section \<open>Decoded claims\<close>

record pbSource =
  src_Hash :: "byte list"
  src_Name :: string
  src_Size :: nat
  src_MediaType :: string
  src_Url :: string
  src_SdHash :: "byte list"

record pbFee =
  fee_Currency :: string
  fee_Amount :: nat
  fee_Address :: "byte list"

record pbFrame =
  frame_Height :: nat
  frame_Width :: nat

record pbVideo =
  video_Height :: nat
  video_Width :: nat
  video_Duration :: nat
  video_Audio :: "nat option"

record pbStream =
  st_Author :: string
  st_License :: string
  st_LicenseUrl :: string
  st_Fee :: "pbFee option"
  st_Source :: "pbSource option"
  st_ReleaseTime :: int
  st_Image :: "pbFrame option"
  st_Video :: "pbVideo option"
  st_Audio :: "nat option"

record pbClaimList =
  list_ListType :: int
  list_ClaimReferences :: "byte list list"

record pbChannel =
  ch_PublicKey :: "byte list"
  ch_Email :: string
  ch_Cover :: "pbSource option"
  ch_Featured :: "pbClaimList option"

record pbClaim =
  pc_Title :: string
  pc_Description :: string
  pc_ThumbnailUrl :: string
  pc_Tags :: "string list"
  pc_Languages :: "string list"
  pc_Channel :: "pbChannel option"
  pc_Collection :: "pbClaimList option"
  pc_Repost :: "byte list option"

record Certificate =
  cert_Version :: string
  cert_KeyType :: string
  cert_PublicKey :: "byte list"

record LegacyClaim =
  lc_Version :: string
  lc_Certificate :: "Certificate option"

text \<open>\<^verbatim>\<open>stake.StakeHelper\<close>: \<open>sh_Stream\<close> is the answer of its method \<^verbatim>\<open>GetStream\<close>.\<close>

record StakeHelper =
  sh_Claim :: "pbClaim option"
  sh_Stream :: "pbStream option"
  sh_LegacyClaim :: "LegacyClaim option"
  sh_ClaimID :: "byte list"
  sh_Signature :: "byte list option"

record env =
  ext :: externals
  chainName :: string
  decodeClaimBytes :: "byte list \<Rightarrow> string \<Rightarrow> goerr + StakeHelper"
  decodeClaimHex :: "string \<Rightarrow> string \<Rightarrow> goerr + StakeHelper option"
  decodeSupportBytes :: "byte list \<Rightarrow> string \<Rightarrow> goerr + StakeHelper"
  encodeBase58 :: "byte list \<Rightarrow> string"
  marshalCertificate :: "Certificate option \<Rightarrow> goerr + string"

text \<open>Protobuf getters answer the default of a missing message.\<close>

definition claim_Channel :: "StakeHelper \<Rightarrow> pbChannel option" where
  "claim_Channel helper = (case sh_Claim helper of None \<Rightarrow> None | Some c \<Rightarrow> pc_Channel c)"

definition claim_Title :: "StakeHelper \<Rightarrow> string" where
  "claim_Title helper = (case sh_Claim helper of None \<Rightarrow> '''' | Some c \<Rightarrow> pc_Title c)"

definition claim_Description :: "StakeHelper \<Rightarrow> string" where
  "claim_Description helper = (case sh_Claim helper of None \<Rightarrow> '''' | Some c \<Rightarrow> pc_Description c)"

definition claim_Tags :: "StakeHelper \<Rightarrow> string list" where
  "claim_Tags helper = (case sh_Claim helper of None \<Rightarrow> [] | Some c \<Rightarrow> pc_Tags c)"

section \<open>The JSON value of a claim\<close>

definition streamType :: string where "streamType = ''streamType''"
definition certificateType :: string where "certificateType = ''certificateType''"

definition tagExists :: "string \<Rightarrow> string list \<Rightarrow> bool" where
  "tagExists tagName taglist = list_ex (\<lambda>tag. tag = tagName) taglist"

definition json_field :: "string \<Rightarrow> string \<Rightarrow> string" where
  "json_field name v = chars [34] @ name @ chars [34, 58] @ v"

definition json_object :: "string list \<Rightarrow> string" where
  "json_object fs = ''{'' @ commas fs @ ''}''"

definition json_bool :: "bool \<Rightarrow> string" where
  "json_bool b = (if b then ''true'' else ''false'')"

record Metadata =
  md_Author :: string
  md_Title :: string
  md_Description :: string
  md_NSFW :: bool

record ClaimValue =
  cv_ClaimType :: string
  cv_Stream :: "(Metadata \<times> string) option"

definition Metadata_json :: "Metadata \<Rightarrow> string" where
  "Metadata_json m = json_object
     [json_field ''author'' (json_string (md_Author m)), json_field ''title'' (json_string (md_Title m)),
      json_field ''description'' (json_string (md_Description m)), json_field ''nsfw'' (json_bool (md_NSFW m))]"

definition Stream_json :: "(Metadata \<times> string) option \<Rightarrow> string" where
  "Stream_json s =
     (case s of
        None \<Rightarrow> ''null''
      | Some (m, contentType) \<Rightarrow> json_object
          [json_field ''metadata'' (Metadata_json m),
           json_field ''source'' (json_object [json_field ''contentType'' (json_string contentType)])])"

definition Value_json :: "ClaimValue option \<Rightarrow> string" where
  "Value_json v = json_object
     [json_field ''Claim''
        (case v of
           None \<Rightarrow> ''null''
         | Some c \<Rightarrow> json_object
             [json_field ''claimType'' (json_string (cv_ClaimType c)), json_field ''stream'' (Stream_json (cv_Stream c))])]"

definition ValueOf :: "StakeHelper \<Rightarrow> ClaimValue option" where
  "ValueOf helper =
     (case sh_Stream helper of
        Some s \<Rightarrow>
          let contentType = (case st_Source s of Some src \<Rightarrow> src_MediaType src | None \<Rightarrow> '''')
          in Some \<lparr>cv_ClaimType = streamType,
               cv_Stream = Some (\<lparr>md_Author = st_Author s, md_Title = claim_Title helper,
                 md_Description = claim_Description helper,
                 md_NSFW = tagExists ''mature'' (claim_Tags helper)\<rparr>, contentType)\<rparr>
      | None \<Rightarrow>
          (case claim_Channel helper of
             Some _ \<Rightarrow> Some \<lparr>cv_ClaimType = certificateType, cv_Stream = None\<rparr>
           | None \<Rightarrow> None))"

definition GetValueAsJSON :: "StakeHelper \<Rightarrow> string" where
  "GetValueAsJSON helper = Value_json (ValueOf helper)"

definition set_ValueAsJSON :: "env \<Rightarrow> Claim \<Rightarrow> Claim" where
  "set_ValueAsJSON E claim =
     (case decodeClaimHex E (c_ValueAsHex claim) (chainName E) of
        Inr (Some claimHelper) \<Rightarrow> claim\<lparr>c_ValueAsJSON := Some (GetValueAsJSON claimHelper)\<rparr>
      | _ \<Rightarrow> claim)"

section \<open>Columns of a claim\<close>

text \<open>Cutting a text to a column: \<^verbatim>\<open>if len(s) > limit { s = s[:keep] + "..." }\<close>, in bytes.\<close>

definition ellipsis :: "nat \<Rightarrow> nat \<Rightarrow> string \<Rightarrow> string" where
  "ellipsis limit keep s = (if length s > limit then take keep s @ ''...'' else s)"

definition set_if :: "bool \<Rightarrow> ('r \<Rightarrow> 'r) \<Rightarrow> 'r \<Rightarrow> 'r" where
  "set_if b f r = (if b then f r else r)"

definition setPublisherInfo :: "StakeHelper \<Rightarrow> Claim \<Rightarrow> Claim" where
  "setPublisherInfo helper claim0 =
     (let claim = claim0\<lparr>c_IsCertProcessed := True, c_IsCertValid := False,
            c_PublisherID := None, c_PublisherSig := None\<rparr>
      in case sh_Signature helper of
           None \<Rightarrow> claim
         | Some sig \<Rightarrow>
             claim\<lparr>c_IsCertProcessed := False,
               c_PublisherID := Some (hex_encode
                 (if sh_LegacyClaim helper = None then ReverseBytes (sh_ClaimID helper) else sh_ClaimID helper)),
               c_PublisherSig := Some (hex_encode sig)\<rparr>)"

definition setCertificateInfo :: "env \<Rightarrow> StakeHelper \<Rightarrow> Claim \<Rightarrow> Claim" where
  "setCertificateInfo E helper claim0 =
     (let claim = claim0\<lparr>c_Certificate := None\<rparr>
      in case claim_Channel helper of
           None \<Rightarrow> claim
         | Some channel \<Rightarrow>
             let certificate =
               (case sh_LegacyClaim helper of
                  Some l \<Rightarrow> lc_Certificate l
                | None \<Rightarrow> Some \<lparr>cert_Version = ''UNKNOWN_VERSION'', cert_KeyType = ''SECP256k1'',
                            cert_PublicKey = ch_PublicKey channel\<rparr>)
             in claim\<lparr>c_IsCertProcessed := True,
                  c_Certificate := Some (case marshalCertificate E certificate of Inl _ \<Rightarrow> '''' | Inr s \<Rightarrow> s)\<rparr>)"

definition setLicense :: "pbStream \<Rightarrow> Claim \<Rightarrow> Claim" where
  "setLicense stream claim =
     (let license = cut_runes 500 (st_License stream)
      in set_if (ValidString license) (\<lambda>c. c\<lparr>c_License := Some license\<rparr>) claim)"

definition setSourceMetadata :: "pbSource \<Rightarrow> Claim \<Rightarrow> Claim" where
  "setSourceMetadata s claim =
     (let c1 = set_if (src_Url s \<noteq> '''') (\<lambda>c. c\<lparr>c_SourceURL := Some (ellipsis 255 252 (src_Url s))\<rparr>) claim;
          c2 = set_if (src_Hash s \<noteq> []) (\<lambda>c. c\<lparr>c_SourceHash := Some (hex_encode (src_Hash s))\<rparr>) c1;
          c3 = set_if (src_Size s > 0) (\<lambda>c. c\<lparr>c_SourceSize := Some (src_Size s)\<rparr>) c2;
          c4 = set_if (src_Name s \<noteq> '''') (\<lambda>c. c\<lparr>c_SourceName := Some (src_Name s)\<rparr>) c3
      in set_if (src_MediaType s \<noteq> '''')
           (\<lambda>c. c\<lparr>c_SourceMediaType := Some (cut_runes 254 (src_MediaType s))\<rparr>) c4)"

definition setFee :: "env \<Rightarrow> pbStream \<Rightarrow> Claim \<Rightarrow> Claim" where
  "setFee E stream claim =
     (case st_Fee stream of
        None \<Rightarrow> claim
      | Some fee \<Rightarrow> claim\<lparr>c_FeeCurrency := Some (fee_Currency fee), c_Fee := f64_of_nat (fee_Amount fee),
                     c_FeeAddress := Some (encodeBase58 E (fee_Address fee))\<rparr>)"

definition setFrame :: "nat \<Rightarrow> nat \<Rightarrow> Claim \<Rightarrow> Claim" where
  "setFrame height width claim =
     set_if (width > 0) (\<lambda>c. c\<lparr>c_FrameWidth := Some width\<rparr>)
       (set_if (height > 0) (\<lambda>c. c\<lparr>c_FrameHeight := Some height\<rparr>) claim)"

definition setAudioDuration :: "nat option \<Rightarrow> Claim \<Rightarrow> Claim" where
  "setAudioDuration audio claim =
     (case audio of
        None \<Rightarrow> claim
      | Some d \<Rightarrow> set_if (d > 0) (\<lambda>c. c\<lparr>c_AudioDuration := Some d\<rparr>) claim)"

definition setStreamMetadata :: "env \<Rightarrow> pbStream \<Rightarrow> Claim \<Rightarrow> Claim" where
  "setStreamMetadata E stream claim =
     (let c1 = claim\<lparr>c_Type := Some ''stream''\<rparr>;
          c2 = set_if (st_Author stream \<noteq> '''') (\<lambda>c. c\<lparr>c_Author := Some (st_Author stream)\<rparr>) c1;
          c3 = setFee E stream (setLicense stream c2);
          c4 = (case st_Source stream of None \<Rightarrow> c3 | Some s \<Rightarrow> setSourceMetadata s c3);
          c5 = set_if (st_ReleaseTime stream > 0)
                 (\<lambda>c. c\<lparr>c_ReleaseTime := Some (nat (st_ReleaseTime stream))\<rparr>) c4;
          c6 = (case st_Image stream of None \<Rightarrow> c5 | Some i \<Rightarrow> setFrame (frame_Height i) (frame_Width i) c5);
          c7 = (case st_Video stream of
                  None \<Rightarrow> c6
                | Some v \<Rightarrow> setAudioDuration (video_Audio v)
                    (set_if (video_Duration v > 0) (\<lambda>c. c\<lparr>c_Duration := Some (video_Duration v)\<rparr>)
                      (setFrame (video_Height v) (video_Width v) c6)))
      in setAudioDuration (st_Audio stream) c7)"

text \<open>The conversion of an enumeration to \<^verbatim>\<open>int16\<close> wraps.\<close>

definition to_i16 :: "int \<Rightarrow> int" where
  "to_i16 i = (i + 2 ^ 15) mod 2 ^ 16 - 2 ^ 15"

definition setClaimList :: "pbClaimList \<Rightarrow> Claim \<Rightarrow> Claim" where
  "setClaimList list claim =
     claim\<lparr>c_HasClaimList := Some True, c_ListType := Some (to_i16 (list_ListType list)),
       c_ClaimIDList := Some (Marshal_strings (map hex_encode (list_ClaimReferences list)))\<rparr>"

definition setCover :: "pbSource \<Rightarrow> Claim \<Rightarrow> Claim" where
  "setCover c claim =
     (let c1 = set_if (src_Name c \<noteq> '''') (\<lambda>x. x\<lparr>c_SourceName := Some (src_Name c)\<rparr>) claim;
          c2 = set_if (src_Size c > 0) (\<lambda>x. x\<lparr>c_SourceSize := Some (src_Size c)\<rparr>) c1;
          c3 = set_if (src_Url c \<noteq> '''') (\<lambda>x. x\<lparr>c_SourceURL := Some (ellipsis 255 252 (src_Url c))\<rparr>) c2;
          c4 = set_if (src_Hash c \<noteq> []) (\<lambda>x. x\<lparr>c_SourceHash := Some (hex_encode (src_Hash c))\<rparr>) c3
      in set_if (src_MediaType c \<noteq> '''')
           (\<lambda>x. x\<lparr>c_SourceMediaType := Some (cut_runes 254 (src_MediaType c))\<rparr>) c4)"

definition setChannelMetadata :: "pbChannel \<Rightarrow> Claim \<Rightarrow> Claim" where
  "setChannelMetadata channel claim =
     (let c1 = claim\<lparr>c_Type := Some ''channel''\<rparr>;
          c2 = (case ch_Cover channel of None \<Rightarrow> c1 | Some c \<Rightarrow> setCover c c1);
          c3 = set_if (ch_Email channel \<noteq> '''')
                 (\<lambda>x. x\<lparr>c_Email := Some (ellipsis 255 252 (ch_Email channel))\<rparr>) c2
      in case ch_Featured channel of None \<Rightarrow> c3 | Some l \<Rightarrow> setClaimList l c3)"

definition setCollectionMetadata :: "pbClaimList \<Rightarrow> Claim \<Rightarrow> Claim" where
  "setCollectionMetadata list claim = setClaimList list (claim\<lparr>c_Type := Some ''claimlist''\<rparr>)"

definition setRepost :: "byte list \<Rightarrow> Claim \<Rightarrow> Claim" where
  "setRepost claimHash claim =
     set_if (claimHash \<noteq> []) (\<lambda>c. c\<lparr>c_ClaimReference := Some (hex_encode (ReverseBytes claimHash))\<rparr>)
       (claim\<lparr>c_Type := Some ''claimreference''\<rparr>)"

definition resetColumns :: "Claim \<Rightarrow> Claim" where
  "resetColumns claim =
     claim\<lparr>c_Title := None, c_Description := None, c_Language := None, c_Author := None,
       c_ThumbnailURL := None, c_IsNSFW := False, c_FeeCurrency := None, c_Fee := f64_zero,
       c_FeeAddress := None, c_License := None, c_Type := None, c_ReleaseTime := None,
       c_SourceHash := None, c_SourceName := None, c_SourceSize := None, c_SourceMediaType := None,
       c_SourceURL := None, c_FrameWidth := None, c_FrameHeight := None, c_Duration := None,
       c_AudioDuration := None, c_Email := None, c_HasClaimList := None, c_ClaimReference := None,
       c_ListType := None, c_ClaimIDList := None\<rparr>"

definition setSourceInfo :: "StakeHelper \<Rightarrow> Claim \<Rightarrow> Claim" where
  "setSourceInfo helper claim0 =
     (let claim = claim0\<lparr>c_ContentType := None, c_SDHash := None\<rparr>
      in case sh_Stream helper of
           None \<Rightarrow> claim
         | Some stream \<Rightarrow>
             (case st_Source stream of
                None \<Rightarrow> claim
              | Some source \<Rightarrow>
                  claim\<lparr>c_ContentType := Some (ellipsis 162 158 (src_MediaType source)),
                    c_SDHash := Some (ellipsis 120 116 (hex_encode (src_SdHash source)))\<rparr>))"

definition setVersion :: "StakeHelper \<Rightarrow> Claim \<Rightarrow> Claim" where
  "setVersion helper claim =
     (case sh_LegacyClaim helper of
        None \<Rightarrow> claim
      | Some l \<Rightarrow> set_if (lc_Version l \<noteq> '''') (\<lambda>c. c\<lparr>c_Version := Some (lc_Version l)\<rparr>) claim)"

text \<open>The columns \<^verbatim>\<open>setMetaDataInfo\<close> sets before the tags and behind them.\<close>

definition set_texts :: "pbClaim \<Rightarrow> Claim \<Rightarrow> Claim" where
  "set_texts c claim =
     set_if (pc_ThumbnailUrl c \<noteq> '''') (\<lambda>x. x\<lparr>c_ThumbnailURL := Some (pc_ThumbnailUrl c)\<rparr>)
       (set_if (pc_Description c \<noteq> '''') (\<lambda>x. x\<lparr>c_Description := Some (pc_Description c)\<rparr>)
         (claim\<lparr>c_Title := Some (pc_Title c)\<rparr>))"

definition set_kind :: "env \<Rightarrow> StakeHelper \<Rightarrow> pbClaim \<Rightarrow> Claim \<Rightarrow> Claim" where
  "set_kind E helper c claim =
     (let c1 = (case pc_Languages c of [] \<Rightarrow> claim | l # _ \<Rightarrow> claim\<lparr>c_Language := Some l\<rparr>);
          c2 = (case sh_Stream helper of None \<Rightarrow> c1 | Some s \<Rightarrow> setStreamMetadata E s c1);
          c3 = (case pc_Channel c of None \<Rightarrow> c2 | Some ch \<Rightarrow> setChannelMetadata ch c2);
          c4 = (case pc_Collection c of None \<Rightarrow> c3 | Some l \<Rightarrow> setCollectionMetadata l c3)
      in case pc_Repost c of None \<Rightarrow> c4 | Some h \<Rightarrow> setRepost h c4)"

end
