(* ===== verification/Claims.thy ===== *)
theory Claims
  imports ClaimMeta Datastore
begin

text \<open>
  \<^verbatim>\<open>daemon/processing/claim.go\<close>: what a claim, support or update script of an output does to the
  database. Notifications to other services have no effect on the state and are left out. The lock of
  a claim is held for the whole of each handler below, so a handler is one sequential program; the
  stripe a claim is mapped to is modelled for its own sake.
\<close>

section \<open>Claim locks\<close>

definition claimLockStripeCount :: nat where "claimLockStripeCount = 1024"

text \<open>\<^verbatim>\<open>crc32.ChecksumIEEE\<close>, bit by bit.\<close>

definition crc_bit :: "32 word \<Rightarrow> 32 word" where
  "crc_bit c = (if bit c 0 then xor (drop_bit 1 c) 0xEDB88320 else drop_bit 1 c)"

definition crc_byte :: "32 word \<Rightarrow> nat \<Rightarrow> 32 word" where
  "crc_byte c b = (crc_bit ^^ 8) (xor c (word_of_nat b))"

definition ChecksumIEEE :: "string \<Rightarrow> 32 word" where
  "ChecksumIEEE s = not (foldl crc_byte (not 0) (codes s))"

definition claimLockFor :: "string \<Rightarrow> nat" where
  "claimLockFor claimID = unat (ChecksumIEEE claimID) mod claimLockStripeCount"

section \<open>Metadata\<close>

definition zero_pbClaim :: pbClaim where
  "zero_pbClaim = \<lparr>pc_Title = '''', pc_Description = '''', pc_ThumbnailUrl = '''', pc_Tags = [],
     pc_Languages = [], pc_Channel = None, pc_Collection = None, pc_Repost = None\<rparr>"

definition resetMetadata :: "Claim \<Rightarrow> Claim db" where
  "resetMetadata claim =
     bind (stmt (\<lambda>w. (Ok (), w\<lparr>claimsInList := t_filter (\<lambda>x. cl_ListClaimID x \<noteq> c_ClaimID claim) (claimsInList w)\<rparr>))) (\<lambda>_.
     bind (stmt (\<lambda>w. (Ok (), w\<lparr>claimTags := t_filter (\<lambda>x. ct_ClaimID x \<noteq> c_ClaimID claim) (claimTags w)\<rparr>))) (\<lambda>_.
       ret (resetColumns claim)))"

definition maxTagLength :: nat where "maxTagLength = 255"

text \<open>A tag that cannot be saved ends the loop without an error.\<close>

fun setTags :: "string list \<Rightarrow> Claim \<Rightarrow> Claim db" where
  "setTags [] claim = ret claim"
| "setTags (tag0 # later) claim0 =
     (let tag = (if length tag0 > maxTagLength then take maxTagLength tag0 else tag0);
          claim = set_if (tag = ''mature'') (\<lambda>c. c\<lparr>c_IsNSFW := True\<rparr>) claim0
      in bind (attempt (PutTag (zeroTag\<lparr>tg_Tag := tag\<rparr>))) (\<lambda>r.
           case r of
             Inl _ \<Rightarrow> ret claim
           | Inr t \<Rightarrow>
               bind (if tg_ID t = 0 then GetTag tag else ret (Some t)) (\<lambda>found.
                 case found of
                   None \<Rightarrow> lift (Panic NilDereference)
                 | Some t \<Rightarrow>
                     if tg_ID t = 0 then ret claim
                     else
                       bind (PutClaimTag (zeroClaimTag\<lparr>ct_ClaimID := c_ClaimID claim, ct_TagID := Some (tg_ID t)\<rparr>))
                         (\<lambda>_. setTags later claim))))"

definition setMetaDataInfo :: "env \<Rightarrow> StakeHelper \<Rightarrow> Claim \<Rightarrow> Claim db" where
  "setMetaDataInfo E helper claim0 =
     (let c = (case sh_Claim helper of Some c \<Rightarrow> c | None \<Rightarrow> zero_pbClaim)
      in bind (resetMetadata claim0) (\<lambda>claim.
         bind (setTags (pc_Tags c) (set_texts c claim)) (\<lambda>claim.
           ret (set_kind E helper c claim))))"

text \<open>\<^verbatim>\<open>UpdateClaimData\<close>, which \<^verbatim>\<open>processClaim\<close> repeats behind its own two assignments.\<close>

definition UpdateClaimData :: "env \<Rightarrow> StakeHelper \<Rightarrow> Claim \<Rightarrow> Claim db" where
  "UpdateClaimData E helper claim =
     bind (setMetaDataInfo E helper (setSourceInfo helper (set_ValueAsJSON E claim))) (\<lambda>claim.
       ret (setVersion helper (setCertificateInfo E helper (setPublisherInfo helper claim))))"

definition set_ClaimType :: "StakeHelper \<Rightarrow> Claim \<Rightarrow> Claim" where
  "set_ClaimType helper claim =
     (if sh_Stream helper \<noteq> None then claim\<lparr>c_ClaimType := 1\<rparr>
      else if claim_Channel helper \<noteq> None then claim\<lparr>c_ClaimType := 2\<rparr>
      else claim)"

definition processClaim :: "env \<Rightarrow> StakeHelper \<Rightarrow> Claim \<Rightarrow> byte list \<Rightarrow> Claim db" where
  "processClaim E helper claim val =
     UpdateClaimData E helper (set_ClaimType helper (claim\<lparr>c_ValueAsHex := hex_encode val\<rparr>))"

definition processUpdateClaim :: "env \<Rightarrow> StakeHelper \<Rightarrow> Claim option \<Rightarrow> byte list \<Rightarrow> Claim option db" where
  "processUpdateClaim E helper claim val =
     (case claim of
        None \<Rightarrow> ret None
      | Some c \<Rightarrow> bind (UpdateClaimData E helper (c\<lparr>c_ValueAsHex := hex_encode val\<rparr>)) (\<lambda>c'. ret (Some c')))"

section \<open>Claims the schema does not know\<close>

definition AbnormalClaim_InsertG :: "AbnormalClaim \<Rightarrow> AbnormalClaim db" where
  "AbnormalClaim_InsertG r = change abnormalClaims (\<lambda>t w. w\<lparr>abnormalClaims := t\<rparr>)
     (t_insert ac_ID (\<lambda>k r. r\<lparr>ac_ID := k\<rparr>) abnormal_claim_clash r)"

definition abnormalClaim :: "string \<Rightarrow> string \<Rightarrow> bool \<Rightarrow> byte list \<Rightarrow> Output \<Rightarrow> Transaction \<Rightarrow> AbnormalClaim" where
  "abnormalClaim name claimid isUpdate val vout tx =
     zeroAbnormalClaim\<lparr>ac_Vout := o_Vout vout, ac_Name := name, ac_ClaimID := claimid, ac_IsUpdate := isUpdate,
       ac_TransactionHash := Some (o_TransactionHash vout), ac_ValueAsHex := hex_encode val,
       ac_BlockHash := t_BlockHashID tx,
       ac_ValueAsJSON := (if Unmarshal_object_ok (string_of_bytes val) then Some (string_of_bytes val) else None),
       ac_OutputID := o_ID vout\<rparr>"

definition saveUnknownClaim ::
    "string \<Rightarrow> string \<Rightarrow> bool \<Rightarrow> byte list \<Rightarrow> Output \<Rightarrow> Transaction \<Rightarrow> unit db" where
  "saveUnknownClaim name claimid isUpdate val vout tx =
     bind (attempt (AbnormalClaim_InsertG (abnormalClaim name claimid isUpdate val vout tx))) (\<lambda>_. ret ())"

section \<open>Scripts\<close>

text \<open>The results of the three handlers are the name, the claim id and the public key script.\<close>

type_synonym claimResult = "string \<times> string \<times> byte list"

definition of_outcome :: "string \<Rightarrow> 'a outcome \<Rightarrow> 'a db" where
  "of_outcome s r = prefix s (lift r)"

definition set_outpoint :: "env \<Rightarrow> byte list \<Rightarrow> Output \<Rightarrow> Transaction \<Rightarrow> nat \<Rightarrow> Claim \<Rightarrow> Claim" where
  "set_outpoint E pkscript vout tx blockHeight claim =
     set_if (blockHeight > 0) (\<lambda>c. c\<lparr>c_Height := blockHeight\<rparr>)
       (claim\<lparr>c_TransactionTime := t_TransactionTime tx,
          c_ClaimAddress := GetAddressFromPublicKeyScript (ext E) (chainName E) pkscript,
          c_TransactionHashUpdate := Some (t_Hash tx), c_VoutUpdate := Some (o_Vout vout)\<rparr>)"

definition getOrCreateClaim :: "Claim \<Rightarrow> Claim db" where
  "getOrCreateClaim fresh =
     bind (GetClaim (c_ClaimID fresh)) (\<lambda>found.
       case found of Some c \<Rightarrow> ret c | None \<Rightarrow> PutClaim fresh)"

definition processClaimNameScript ::
    "env \<Rightarrow> goslice \<Rightarrow> Output \<Rightarrow> Transaction \<Rightarrow> nat \<Rightarrow> claimResult db" where
  "processClaimNameScript E script vout tx blockHeight =
     bind (lift (ClaimIDFromOutpoint (ext E) (o_TransactionHash vout) (o_Vout vout))) (\<lambda>claimid.
     bind (of_outcome ''Claim name script parsing error'' (ParseClaimNameScript script)) (\<lambda>(name, val, pkscript).
       case decodeClaimBytes E val (chainName E) of
         Inl _ \<Rightarrow> bind (saveUnknownClaim name claimid False val vout tx) (\<lambda>_. ret (name, claimid, pkscript))
       | Inr helper \<Rightarrow>
           if sh_Claim helper = None then fail (Msg ''Produced null pbClaim'')
           else
             bind (getOrCreateClaim (zeroClaim\<lparr>c_ClaimID := claimid, c_TransactionHashID := Some (t_Hash tx),
                c_Vout := o_Vout vout\<rparr>)) (\<lambda>claim.
             bind (processClaim E helper (set_outpoint E pkscript vout tx blockHeight
                (claim\<lparr>c_ClaimID := claimid, c_Name := name\<rparr>)) val) (\<lambda>claim.
             bind (PutClaim claim) (\<lambda>_. ret (name, claimid, pkscript))))))"

definition processSupport ::
    "env \<Rightarrow> string \<Rightarrow> byte list \<Rightarrow> Support option \<Rightarrow> Output \<Rightarrow> Transaction \<Rightarrow> Support db" where
  "processSupport E claimID val support output tx =
     (let s0 = (case support of None \<Rightarrow> zeroSupport | Some s \<Rightarrow> s);
          s1 = s0\<lparr>s_TransactionHashID := Some (t_Hash tx), s_Vout := o_Vout output,
                  s_SupportAmount := (case o_Value output of None \<Rightarrow> f64_zero | Some v \<Rightarrow> v)\<rparr>;
          decoded = (if val = [] then Inr s1
            else (case decodeSupportBytes E val (chainName E) of
                    Inl e \<Rightarrow> Inl e
                  | Inr s \<Rightarrow> Inr (s1\<lparr>s_SupportedByClaimID := Some (hex_encode (ReverseBytes (sh_ClaimID s)))\<rparr>)))
      in bind (GetClaim claimID) (\<lambda>claim.
           case decoded of
             Inl e \<Rightarrow> fail e
           | Inr s2 \<Rightarrow> ret (if claim = None then s2 else s2\<lparr>s_SupportedClaimID := claimID\<rparr>)))"

definition processClaimSupportScript ::
    "env \<Rightarrow> goslice \<Rightarrow> Output \<Rightarrow> Transaction \<Rightarrow> claimResult db" where
  "processClaimSupportScript E script vout tx =
     bind (of_outcome ''Claim support processing error'' (ParseClaimSupportScript script))
       (\<lambda>(name, claimid, val, pubkeyscript).
     bind (GetSupport (t_Hash tx) (o_Vout vout)) (\<lambda>found.
     bind (processSupport E claimid val found vout tx) (\<lambda>support.
     bind (attempt (PutSupport support)) (\<lambda>_. ret (name, claimid, pubkeyscript)))))"

text \<open>A failing write of an updated claim is only logged.\<close>

definition processClaimUpdateScript ::
    "env \<Rightarrow> goslice \<Rightarrow> Output \<Rightarrow> Transaction \<Rightarrow> nat \<Rightarrow> claimResult db" where
  "processClaimUpdateScript E script vout tx blockHeight =
     bind (of_outcome ''Claim update processing error'' (ParseClaimUpdateScript script))
       (\<lambda>(name, claimID, val, pubkeyscript).
       case decodeClaimBytes E val (chainName E) of
         Inl _ \<Rightarrow> bind (saveUnknownClaim name claimID True val vout tx) (\<lambda>_. ret (name, claimID, pubkeyscript))
       | Inr helper \<Rightarrow>
           if sh_Claim helper = None then ret (name, claimID, pubkeyscript)
           else
             bind (GetClaim claimID) (\<lambda>found.
             bind (processUpdateClaim E helper found val) (\<lambda>updated.
             bind (case updated of
                     Some c \<Rightarrow> ret c
                   | None \<Rightarrow> PutClaim (zeroClaim\<lparr>c_Name := name, c_ClaimID := claimID,
                       c_TransactionHashID := Some (t_Hash tx), c_Vout := o_Vout vout\<rparr>)) (\<lambda>claim.
             let claim = set_outpoint E pubkeyscript vout tx blockHeight claim;
                 claim = set_if (c_BidState claim = ''Spent'') (\<lambda>c. c\<lparr>c_BidState := ''Accepted''\<rparr>) claim
             in bind (attempt (PutClaim claim)) (\<lambda>_. ret (name, claimID, pubkeyscript))))))"

definition processAsClaim ::
    "env \<Rightarrow> goslice \<Rightarrow> Output \<Rightarrow> Transaction \<Rightarrow> nat \<Rightarrow> (string \<times> string) db" where
  "processAsClaim E script vout tx blockHeight =
     bind (if IsClaimNameScript script then processClaimNameScript E script vout tx blockHeight
           else if IsClaimSupportScript script then processClaimSupportScript E script vout tx
           else if IsClaimUpdateScript script then processClaimUpdateScript E script vout tx blockHeight
           else fail (Msg ''Not a claim''))
       (\<lambda>(name, claimid, pubkeyscript).
         ret (GetAddressFromPublicKeyScript (ext E) (chainName E) pubkeyscript, claimid))"

end
