(* ===== verification/Transactions.thy ===== *)
theory Transactions
  imports Claims Blocks Scheduler
begin

text \<open>
  \<^verbatim>\<open>daemon/processing/transaction.go\<close>, \<^verbatim>\<open>outpoint.go\<close> and \<^verbatim>\<open>address.go\<close>: storing a transaction with its
  addresses, inputs and outputs, and the amounts it moves. The inputs and the outputs of a
  transaction are handed to workers; each of them is one job here, and the order in which the jobs
  take effect is a parameter, as is the order in which Go walks a map. \<^verbatim>\<open>processGenesisBlock\<close> and the
  clean-up of an aborted block are here too, because they need transactions.
\<close>

section \<open>Addresses\<close>

definition getAddressFromNonStandardVout :: "env \<Rightarrow> string \<Rightarrow> string outcome" where
  "getAddressFromNonStandardVout E hexString =
     (case hex_decode hexString of
        None \<Rightarrow> Err (Msg ''encoding/hex'')
      | Some scriptBytes \<Rightarrow>
          andThen (GetPubKeyScriptFromClaimPKS (slice_of scriptBytes)) (\<lambda>pksBytes.
            Ok (GetAddressFromPublicKeyScript (ext E) (chainName E) pksBytes)))"

definition getFirstAddressFromVout :: "env \<Rightarrow> Vout \<Rightarrow> string outcome" where
  "getFirstAddressFromVout E vout =
     (let spk = vout_ScriptPubKey vout in
      if spk_Type spk = NonStandard then
        (case getAddressFromNonStandardVout E (spk_Hex spk) of
           Err e \<Rightarrow> if err_cause e = ErrNotClaimScript then Ok '''' else Err e
         | r \<Rightarrow> r)
      else if spk_Type spk = NullData then Ok ''''
      else
        (case hex_decode (spk_Hex spk) of
           None \<Rightarrow> Err (Msg ''encoding/hex'')
         | Some scriptBytes \<Rightarrow> Ok (GetAddressFromPublicKeyScript (ext E) (chainName E) scriptBytes)))"

definition createTxAddressIfNotExist :: "nat \<Rightarrow> nat \<Rightarrow> unit db" where
  "createTxAddressIfNotExist txID addressID =
     bind (GetTxAddress txID addressID) (\<lambda>found.
       if found = None
       then PutTxAddress (zeroTransactionAddress\<lparr>ta_TransactionID := txID, ta_AddressID := addressID\<rparr>)
       else ret ())"

text \<open>An address of an output: its row, created or with its first appearance filled in, and its link.\<close>

definition voutAddress :: "Transaction \<Rightarrow> nat \<Rightarrow> string \<Rightarrow> unit db" where
  "voutAddress tx blockSeconds address =
     bind (or_nil (oneG (\<lambda>w. first_row (\<lambda>x. a_Address x = address) (addresses w)))) (\<lambda>foundAddress.
       case foundAddress of
         Some a \<Rightarrow>
           bind (if a_FirstSeen a = Some 0
                 then bind (PutAddress (a\<lparr>a_FirstSeen := Some (int blockSeconds)\<rparr>)) (\<lambda>_. ret ())
                 else ret ()) (\<lambda>_.
             createTxAddressIfNotExist (t_ID tx) (a_ID a))
       | None \<Rightarrow>
           bind (PutAddress (zeroAddress\<lparr>a_Address := address, a_FirstSeen := Some (int blockSeconds)\<rparr>)) (\<lambda>a.
             createTxAddressIfNotExist (t_ID tx) (a_ID a)))"

definition createUpdateVoutAddresses :: "env \<Rightarrow> Transaction \<Rightarrow> Vout list \<Rightarrow> nat \<Rightarrow> unit db" where
  "createUpdateVoutAddresses E tx outs blockSeconds =
     forM outs (\<lambda>output.
       bind (lift (getFirstAddressFromVout E output)) (\<lambda>address.
         forM (spk_Addresses (vout_ScriptPubKey output) @ [address]) (voutAddress tx blockSeconds)))"

definition vinAddress :: "Transaction \<Rightarrow> string \<Rightarrow> unit db" where
  "vinAddress tx address =
     bind (GetAddress address) (\<lambda>found.
     bind (case found of
             Some a \<Rightarrow> ret a
           | None \<Rightarrow> prefix ''Could not create missing address'' (PutAddress (zeroAddress\<lparr>a_Address := address\<rparr>))) (\<lambda>addr.
       createTxAddressIfNotExist (t_ID tx) (a_ID addr)))"

definition opt_text :: "string option \<Rightarrow> string" where
  "opt_text s = (case s of None \<Rightarrow> '''' | Some t \<Rightarrow> t)"

definition sourceAddresses :: "env \<Rightarrow> Output \<Rightarrow> (string list) outcome" where
  "sourceAddresses E srcOutput =
     (case o_AddressList srcOutput of
        None \<Rightarrow>
          (case getAddressFromNonStandardVout E (opt_text (o_ScriptPubKeyHex srcOutput)) of
             Ok a \<Rightarrow> Ok [a] | Err e \<Rightarrow> Err (Prefixed ''AddressParseError'' e) | Panic p \<Rightarrow> Panic p)
      | Some s \<Rightarrow>
          (case Unmarshal_strings s of
             None \<Rightarrow> Err (Msg ''Could not parse AddressList from source output'')
           | Some [] \<Rightarrow> Err (Msg ''No addresses were found for inputs'')
           | Some as \<Rightarrow> Ok as))"

definition createUpdateVinAddresses :: "env \<Rightarrow> Transaction \<Rightarrow> Vin list \<Rightarrow> unit db" where
  "createUpdateVinAddresses E tx ins =
     forM ins (\<lambda>input.
       bind (GetOutput (vin_TxID input) (vin_Vout input)) (\<lambda>srcOutput.
         case srcOutput of
           None \<Rightarrow>
             if vin_Coinbase input \<noteq> '''' then ret ()
             else fail (MissingSourceOutputError (vin_TxID input) (vin_Vout input) '''' 0)
         | Some src \<Rightarrow> bind (lift (sourceAddresses E src)) (\<lambda>as. forM as (vinAddress tx))))"

section \<open>Debits and credits\<close>

record addrDebitCredits =
  debits :: f64
  credits :: f64

text \<open>The map from addresses to their amounts, in the order of their first use.\<close>

type_synonym txDebitCredits = "(string \<times> addrDebitCredits) list"

definition newTxDebitCredits :: txDebitCredits where "newTxDebitCredits = []"

fun dc_update :: "string \<Rightarrow> (addrDebitCredits \<Rightarrow> addrDebitCredits) \<Rightarrow> txDebitCredits \<Rightarrow> txDebitCredits" where
  "dc_update address f [] = [(address, f \<lparr>debits = f64_zero, credits = f64_zero\<rparr>)]"
| "dc_update address f ((a, dc) # m) = (if a = address then (a, f dc) # m else (a, dc) # dc_update address f m)"

definition dc_subtract :: "string \<Rightarrow> f64 \<Rightarrow> txDebitCredits \<Rightarrow> txDebitCredits" where
  "dc_subtract address v m = dc_update address (\<lambda>dc. dc\<lparr>debits := f64_add (debits dc) v\<rparr>) m"

definition dc_add :: "string \<Rightarrow> f64 \<Rightarrow> txDebitCredits \<Rightarrow> txDebitCredits" where
  "dc_add address v m = dc_update address (\<lambda>dc. dc\<lparr>credits := f64_add (credits dc) v\<rparr>) m"

section \<open>Inputs\<close>

fun join_comma :: "string list \<Rightarrow> string" where
  "join_comma [] = ''''"
| "join_comma [s] = s"
| "join_comma (s # t # ss) = s @ '','' @ join_comma (t # ss)"

definition input_of_vin :: "Vin \<Rightarrow> Transaction \<Rightarrow> nat \<Rightarrow> Input" where
  "input_of_vin jsonVin tx n =
     (let isVinCoinbase = length (vin_Coinbase jsonVin) > 0 in
      zeroInput\<lparr>i_TransactionID := t_ID tx, i_TransactionHash := t_Hash tx, i_IsCoinbase := isVinCoinbase,
        i_Coinbase := (if isVinCoinbase then Some (vin_Coinbase jsonVin) else None),
        i_PrevoutHash := (if isVinCoinbase then None else Some (vin_TxID jsonVin)),
        i_PrevoutN := (if isVinCoinbase then None else Some (vin_Vout jsonVin)),
        i_Sequence := vin_Sequence jsonVin, i_Vin := Some n,
        i_Witness := (if vin_Witness jsonVin = [] then None else Some (join_comma (vin_Witness jsonVin)))\<rparr>)"

text \<open>The address an input spends from. With no address and no list to name in the error message, the
  message itself panics.\<close>

definition inputAddress :: "env \<Rightarrow> Output \<Rightarrow> Address db" where
  "inputAddress E srcOutput =
     (case (case o_AddressList srcOutput of None \<Rightarrow> Some [] | Some s \<Rightarrow> Unmarshal_strings s) of
        None \<Rightarrow> fail (Msg ''Error unmarshalling source output address list'')
      | Some (a # _) \<Rightarrow>
          bind (GetAddress a) (\<lambda>found.
            case found of Some address \<Rightarrow> ret address | None \<Rightarrow> fail (Msg ''No Address created for Vin''))
      | Some [] \<Rightarrow>
          if o_Type srcOutput = Some NonStandard then
            bind (lift (getAddressFromNonStandardVout E (opt_text (o_ScriptPubKeyHex srcOutput)))) (\<lambda>jsonAddress.
            bind (GetAddress jsonAddress) (\<lambda>found.
              case found of Some address \<Rightarrow> ret address | None \<Rightarrow> fail (Msg ''No addresses for vout address list!'')))
          else lift (Panic IndexOutOfRange))"

text \<open>The amounts are returned on success; a failed input makes the whole transaction fail, and the
  amounts of a failed transaction are dropped.\<close>

definition ProcessVin :: "env \<Rightarrow> Vin \<Rightarrow> Transaction \<Rightarrow> nat \<Rightarrow> txDebitCredits \<Rightarrow> txDebitCredits db" where
  "ProcessVin E jsonVin tx n txDC =
     bind (GetInput (t_Hash tx) (length (vin_Coinbase jsonVin) > 0) (vin_TxID jsonVin) (vin_Vout jsonVin)) (\<lambda>foundVin.
     let vin = (case foundVin of
                  None \<Rightarrow> input_of_vin jsonVin tx n
                | Some f \<Rightarrow> (input_of_vin jsonVin tx n)\<lparr>i_ID := i_ID f\<rparr>)
     in if length (vin_Coinbase jsonVin) > 0 then bind (PutInput vin) (\<lambda>_. ret txDC)
        else
          case vin_ScriptSig jsonVin of
            None \<Rightarrow> lift (Panic NilDereference)
          | Some sig \<Rightarrow>
              let vin = vin\<lparr>i_ScriptSigHex := Some (sig_Hex sig), i_ScriptSigAsm := Some (sig_Asm sig)\<rparr>
              in bind (GetOutput (vin_TxID jsonVin) (vin_Vout jsonVin)) (\<lambda>srcOutput.
                 case srcOutput of
                   None \<Rightarrow> fail (Msg ''no source output for VIN'')
                 | Some src \<Rightarrow>
                     bind (inputAddress E src) (\<lambda>address.
                     bind (PutInput (vin\<lparr>i_Value := o_Value src, i_InputAddressID := Some (a_ID address)\<rparr>)) (\<lambda>vin.
                     bind (PutOutput (src\<lparr>o_IsSpent := True, o_SpentByInputID := Some (i_ID vin)\<rparr>) WhitelistSpent) (\<lambda>_.
                     bind (GetTxAddress (t_ID tx) (a_ID address)) (\<lambda>txAddr.
                       if txAddr = None then fail (Msg ''Missing txAddress for Tx'')
                       else ret (dc_subtract (a_Address address)
                              (case o_Value src of None \<Rightarrow> f64_zero | Some v \<Rightarrow> v) txDC)))))))"

section \<open>Outputs\<close>

definition processPurchaseVout :: "env \<Rightarrow> goslice \<Rightarrow> Transaction \<Rightarrow> Vout \<Rightarrow> nat \<Rightarrow> unit db" where
  "processPurchaseVout E script tx vout height =
     bind (lift (ParsePurchaseScript (ext E) script)) (\<lambda>claimHash.
     bind (GetClaim (hex_encode (ReverseBytes claimHash))) (\<lambda>claim.
       case claim of
         None \<Rightarrow> ret ()
       | Some c \<Rightarrow>
           bind (GetPurchase (t_Hash tx) (vout_N vout) (c_ClaimID c)) (\<lambda>found.
             let p = (case found of None \<Rightarrow> zeroPurchase | Some p \<Rightarrow> p)
             in bind (PutPurchase (p\<lparr>p_ClaimID := Some (c_ClaimID c), p_PublisherID := c_PublisherID c,
                  p_TransactionByHashID := Some (t_Hash tx), p_Vout := vout_N vout, p_Height := height\<rparr>))
                  (\<lambda>_. ret ()))))"

definition processNullDataVout :: "env \<Rightarrow> Transaction \<Rightarrow> Vout \<Rightarrow> nat \<Rightarrow> unit db" where
  "processNullDataVout E tx vout height =
     (case hex_decode (spk_Hex (vout_ScriptPubKey vout)) of
        None \<Rightarrow> fail (Msg ''encoding/hex'')
      | Some scriptBytes \<Rightarrow>
          bind (lift (IsPurchaseScript (ext E) (slice_of scriptBytes))) (\<lambda>isPurchase.
            if isPurchase then processPurchaseVout E (slice_of scriptBytes) tx vout height else ret ()))"

definition processScriptForClaim :: "env \<Rightarrow> Output \<Rightarrow> Transaction \<Rightarrow> nat \<Rightarrow> string option db" where
  "processScriptForClaim E vout tx height =
     (case hex_decode (opt_text (o_ScriptPubKeyHex vout)) of
        None \<Rightarrow> fail (Msg ''encoding/hex'')
      | Some scriptBytes \<Rightarrow>
          bind (lift (IsClaimScript (slice_of scriptBytes))) (\<lambda>isClaimScript.
            if opt_text (o_Type vout) = NonStandard \<and> isClaimScript
            then bind (processAsClaim E (slice_of scriptBytes) vout tx height) (\<lambda>(_, claimid). ret (Some claimid))
            else ret None))"

definition output_of_vout :: "Vout \<Rightarrow> Transaction \<Rightarrow> Output \<Rightarrow> Output" where
  "output_of_vout jsonVout tx vout =
     (let spk = vout_ScriptPubKey jsonVout in
      vout\<lparr>o_TransactionID := t_ID tx, o_TransactionHash := t_Hash tx, o_Vout := vout_N jsonVout,
        o_Value := Some (vout_Value jsonVout), o_RequiredSignatures := Some (to_u64 (spk_ReqSigs spk)),
        o_ScriptPubKeyAsm := Some (spk_Asm spk), o_ScriptPubKeyHex := Some (spk_Hex spk),
        o_Type := Some (spk_Type spk)\<rparr>)"

text \<open>The address of an output and the list stored with it; none for a script without address.\<close>

definition voutAddressList :: "env \<Rightarrow> Vout \<Rightarrow> (string \<times> string) option outcome" where
  "voutAddressList E jsonVout =
     (case spk_Addresses (vout_ScriptPubKey jsonVout) of
        a # as \<Rightarrow> Ok (Some (a, Marshal_strings (a # as)))
      | [] \<Rightarrow>
          andThen (getFirstAddressFromVout E jsonVout) (\<lambda>scriptAddress.
            if scriptAddress = '''' then Ok None
            else Ok (Some (scriptAddress, chars [91, 34] @ scriptAddress @ chars [34, 93]))))"

definition ProcessVout :: "env \<Rightarrow> Vout \<Rightarrow> Transaction \<Rightarrow> nat \<Rightarrow> txDebitCredits \<Rightarrow> txDebitCredits db" where
  "ProcessVout E jsonVout tx height txDC =
     bind (GetOutput (t_Hash tx) (vout_N jsonVout)) (\<lambda>foundVout.
     let vout = output_of_vout jsonVout tx (case foundVout of None \<Rightarrow> zeroOutput | Some f \<Rightarrow> f)
     in if spk_Type (vout_ScriptPubKey jsonVout) = NullData then
          bind (processNullDataVout E tx jsonVout height) (\<lambda>_.
          bind (PutOutput vout Infer) (\<lambda>_. ret txDC))
        else
          bind (lift (voutAddressList E jsonVout)) (\<lambda>r.
            case r of
              None \<Rightarrow> bind (PutOutput vout Infer) (\<lambda>_. ret txDC)
            | Some (addr, addressList) \<Rightarrow>
                bind (GetAddress addr) (\<lambda>found.
                  case found of
                    None \<Rightarrow> fail (Msg ''No address in db'')
                  | Some address \<Rightarrow>
                      bind (PutOutput (vout\<lparr>o_AddressList := Some addressList\<rparr>) Infer) (\<lambda>vout.
                      bind (GetTxAddress (t_ID tx) (a_ID address)) (\<lambda>txAddress.
                        if txAddress = None then fail (Msg ''Missing txAddress for Tx'')
                        else
                          bind (processScriptForClaim E vout tx height) (\<lambda>claimid.
                            case claimid of
                              None \<Rightarrow> ret (dc_add (a_Address address) (vout_Value jsonVout) txDC)
                            | Some cid \<Rightarrow>
                                bind (GetClaim cid) (\<lambda>claim.
                                bind (PutOutput (case claim of None \<Rightarrow> vout | Some c \<Rightarrow> vout\<lparr>o_ClaimID := Some (c_ClaimID c)\<rparr>) Infer) (\<lambda>_.
                                  ret (dc_add (a_Address address) (vout_Value jsonVout) txDC)))))))))"

section \<open>Transactions\<close>

definition tx_stamped :: "time \<Rightarrow> Transaction \<Rightarrow> Transaction" where
  "tx_stamped now r = r\<lparr>t_CreatedAt := (if t_CreatedAt r = 0 then now else t_CreatedAt r),
     t_ModifiedAt := (if t_ModifiedAt r = 0 then now else t_ModifiedAt r)\<rparr>"

definition Transaction_InsertG :: "Transaction \<Rightarrow> Transaction db" where
  "Transaction_InsertG r = (\<lambda>w. change transactions (\<lambda>t w. w\<lparr>transactions := t\<rparr>)
     (t_insert t_ID (\<lambda>k r. r\<lparr>t_ID := k\<rparr>) transaction_clash (tx_stamped (clock w) r)) w)"

definition Transaction_UpdateG :: "Transaction \<Rightarrow> unit db" where
  "Transaction_UpdateG r = change transactions (\<lambda>t w. w\<lparr>transactions := t\<rparr>)
     (\<lambda>t. andThen (t_update t_ID transaction_clash (t_ID r) (\<lambda>x. r\<lparr>t_CreatedAt := t_CreatedAt x\<rparr>) t) (\<lambda>t. Ok ((), t)))"

definition transaction_of_json :: "TxRawResult \<Rightarrow> Transaction \<Rightarrow> Transaction" where
  "transaction_of_json jsonTx t =
     t\<lparr>t_BlockHashID := Some (tx_BlockHash jsonTx), t_InputCount := length (tx_Vin jsonTx),
       t_OutputCount := length (tx_Vout jsonTx), t_TransactionTime := Some (to_u64 (tx_Time jsonTx)),
       t_TransactionSize := to_u64 (tx_Size jsonTx), t_Hash := tx_Txid jsonTx, t_Version := tx_Version jsonTx,
       t_LockTime := tx_LockTime jsonTx, t_CreatedTime := tx_Blocktime jsonTx,
       t_Value := foldl (\<lambda>v out. f64_add v (vout_Value out)) f64_zero (tx_Vout jsonTx)\<rparr>"

definition saveUpdateTransaction :: "TxRawResult \<Rightarrow> Transaction db" where
  "saveUpdateTransaction jsonTx =
     bind (or_nil (oneG (\<lambda>w. first_row (\<lambda>x. t_Hash x = tx_Txid jsonTx) (transactions w)))) (\<lambda>foundTx.
       case foundTx of
         Some f \<Rightarrow> (let t = transaction_of_json jsonTx f in bind (Transaction_UpdateG t) (\<lambda>_. ret t))
       | None \<Rightarrow> Transaction_InsertG (transaction_of_json jsonTx zeroTransaction))"

text \<open>All jobs run; the result is the first error in the order of completion.\<close>

fun runJobs :: "string \<Rightarrow> ('j \<Rightarrow> 's \<Rightarrow> 's db) \<Rightarrow> 'j list \<Rightarrow> 's \<Rightarrow> goerr option \<Rightarrow> 's db" where
  "runJobs label f [] s None = ret s"
| "runJobs label f [] s (Some e) = fail e"
| "runJobs label f (j # js) s err =
     bind (attempt (f j s)) (\<lambda>r.
       case r of
         Inr s' \<Rightarrow> runJobs label f js s' err
       | Inl e \<Rightarrow> runJobs label f js s (case err of None \<Rightarrow> Some (Prefixed label e) | Some x \<Rightarrow> Some x))"

record txOrder =
  vinOrder :: "nat \<Rightarrow> nat list"
  voutOrder :: "nat \<Rightarrow> nat list"
  mapOrder :: "string list \<Rightarrow> string list"

text \<open>An order of completion is any order of all jobs.\<close>

definition order_ok :: "txOrder \<Rightarrow> bool" where
  "order_ok sch \<longleftrightarrow> (\<forall>n. set (vinOrder sch n) = {..<n} \<and> set (voutOrder sch n) = {..<n})"

definition saveUpdateInputs :: "env \<Rightarrow> txOrder \<Rightarrow> Transaction \<Rightarrow> TxRawResult \<Rightarrow> txDebitCredits \<Rightarrow> txDebitCredits db" where
  "saveUpdateInputs E sch transaction jsonTx txDC =
     (let vins = tx_Vin jsonTx
      in runJobs ''Vin Error->'' (\<lambda>i. ProcessVin E (vins ! i) transaction i) (vinOrder sch (length vins)) txDC None)"

definition saveUpdateOutputs ::
    "env \<Rightarrow> txOrder \<Rightarrow> Transaction \<Rightarrow> TxRawResult \<Rightarrow> nat \<Rightarrow> txDebitCredits \<Rightarrow> txDebitCredits db" where
  "saveUpdateOutputs E sch transaction jsonTx height txDC =
     (let vouts = tx_Vout jsonTx
      in runJobs ''Vout Error->'' (\<lambda>i. ProcessVout E (vouts ! i) transaction height)
           (voutOrder sch (length vouts)) txDC None)"

definition setSendReceive :: "txOrder \<Rightarrow> Transaction \<Rightarrow> txDebitCredits \<Rightarrow> unit db" where
  "setSendReceive sch transaction txDC =
     forM (mapOrder sch (map fst txDC)) (\<lambda>addr.
       bind (GetAddress addr) (\<lambda>found.
         case found of
           None \<Rightarrow> fail (Msg ''missing address for setting amounts!'')
         | Some address \<Rightarrow>
             bind (GetTxAddress (t_ID transaction) (a_ID address)) (\<lambda>txAddr.
               case (txAddr, map_of txDC addr) of
                 (Some ta, Some dc) \<Rightarrow>
                   UpdateTxAddressAmounts (ta\<lparr>ta_CreditAmount := credits dc, ta_DebitAmount := debits dc\<rparr>)
               | _ \<Rightarrow> lift (Panic NilDereference))))"

text \<open>An error of the input addresses is completed with the transaction and the height, then wrapped.\<close>

definition enriched :: "TxRawResult \<Rightarrow> nat \<Rightarrow> 'a db \<Rightarrow> 'a db" where
  "enriched jsonTx height m =
     bind (attempt m) (\<lambda>r.
       case r of
         Inr x \<Rightarrow> ret x
       | Inl e \<Rightarrow> fail (Prefixed ''Vin Address Creation Error'' (enrichMissingSourceOutput e (tx_Txid jsonTx) height)))"

definition ProcessTx :: "env \<Rightarrow> txOrder \<Rightarrow> TxRawResult \<Rightarrow> nat \<Rightarrow> nat \<Rightarrow> unit db" where
  "ProcessTx E sch jsonTx seconds height =
     bind (saveUpdateTransaction jsonTx) (\<lambda>transaction.
     bind (prefix ''Vout Address Creation Error'' (createUpdateVoutAddresses E transaction (tx_Vout jsonTx) seconds)) (\<lambda>_.
     bind (enriched jsonTx height (createUpdateVinAddresses E transaction (tx_Vin jsonTx))) (\<lambda>_.
     bind (saveUpdateInputs E sch transaction jsonTx newTxDebitCredits) (\<lambda>txDC.
     bind (saveUpdateOutputs E sch transaction jsonTx height txDC) (\<lambda>txDC.
       setSendReceive sch transaction txDC)))))"

section \<open>The genesis block and aborted blocks\<close>

text \<open>\<open>genesis\<close> is what \<^verbatim>\<open>lbrycrd.GetGenesisBlock\<close> returned: the transactions and the block.\<close>

definition processGenesisBlock ::
    "env \<Rightarrow> txOrder \<Rightarrow> goerr + TxRawResult list \<times> GetBlockResponse \<Rightarrow> unit db" where
  "processGenesisBlock E sch genesisResult =
     (case genesisResult of
        Inl e \<Rightarrow> fail e
      | Inr (txs, genesis) \<Rightarrow>
          bind (parseBlockInfo 0 genesis) (\<lambda>block.
          bind (forM txs (\<lambda>tx. ProcessTx E sch (tx\<lparr>tx_BlockHash := bl_Hash genesis\<rparr>) (b_BlockTime block) 0)) (\<lambda>_.
            markBlockProcessingState block BlockProcessingStateComplete)))"

definition spent_by :: "nat list \<Rightarrow> Output \<Rightarrow> bool" where
  "spent_by ids o' \<longleftrightarrow> (case o_SpentByInputID o' of None \<Rightarrow> False | Some k \<Rightarrow> k \<in> set ids)"

definition cleanupAbortedBlockTransactions :: "txid list \<Rightarrow> unit db" where
  "cleanupAbortedBlockTransactions txIDs =
     (if txIDs = [] then ret ()
      else
        bind (query (\<lambda>w. map i_ID (filter (\<lambda>i. i_TransactionHash i \<in> set txIDs) (rows (inputs w))))) (\<lambda>inputIDs.
          if inputIDs = [] then ret ()
          else
            bind (stmt (\<lambda>w. (Ok (), w\<lparr>outputs := t_map (\<lambda>x. if spent_by inputIDs x
               then x\<lparr>o_IsSpent := False, o_SpentByInputID := None\<rparr> else x) (outputs w)\<rparr>))) (\<lambda>_.
            bind (query (\<lambda>w. length (filter (spent_by inputIDs) (rows (outputs w))))) (\<lambda>n.
              if n \<noteq> 0 then fail (Msg ''failed to reset spent outputs for aborted block'') else ret ()))))"

end
