(* ===== verification/BlockSync.thy ===== *)
theory BlockSync
  imports Transactions
begin

text \<open>
  Processing the transactions of one block: \<^verbatim>\<open>syncTransactionsDependencyAware\<close> with the scheduler, its
  workers and the database together. A run interleaves the iterations of the scheduler's loop with the
  work of its workers: a worker takes a job the scheduler has handed out, runs \<^verbatim>\<open>processTx\<close> on the
  database and remembers the answer; the loop counts a transaction as completed only when such an
  answer without error is there. One run of \<^verbatim>\<open>processTx\<close> is one step on the database, with any order of
  its own inputs and outputs.
\<close>

record blockRun =
  sched :: schedState
  db :: world
  processed :: "(txid \<times> goerr option) list"

definition initRun :: "blockTxGraph \<Rightarrow> world \<Rightarrow> blockRun" where
  "initRun g w = \<lparr>sched = initSched g, db = w, processed = []\<rparr>"

definition answer :: "unit outcome \<Rightarrow> goerr option" where
  "answer r = (case r of Err e \<Rightarrow> Some e | _ \<Rightarrow> None)"

text \<open>The jobs at the workers in the current iteration: those handed out before and by its dispatch.\<close>

definition jobs_out :: "schedConf \<Rightarrow> schedState \<Rightarrow> txToProcess \<Rightarrow> bool" where
  "jobs_out conf s j \<longleftrightarrow> (\<exists>polls sends. j \<in> set (inflight (dispatchPhase conf polls sends s)))"

text \<open>A panic of \<^verbatim>\<open>processTx\<close> ends the program, so there is no step for it.\<close>

inductive block_step :: "env \<Rightarrow> schedConf \<Rightarrow> blockRun \<Rightarrow> blockRun \<Rightarrow> bool" for E conf where
  Work: "more_to_do (sched r) \<Longrightarrow> jobs_out conf (sched r) j \<Longrightarrow> job_tx j = Some tx \<Longrightarrow> order_ok sch \<Longrightarrow>
    ProcessTx E sch tx (job_blockTime j) (job_blockHeight j) (db r) = (res, w) \<Longrightarrow> (\<And>p. res \<noteq> Panic p) \<Longrightarrow>
    block_step E conf r (r\<lparr>db := w, processed := processed r @ [(tx_Txid tx, answer res)]\<rparr>)"
| Loop: "sched_step conf (sched r) s \<Longrightarrow>
    (\<And>t. completed (graph s) t \<Longrightarrow> completed (graph (sched r)) t \<or> (t, None) \<in> set (processed r)) \<Longrightarrow>
    block_step E conf r (r\<lparr>sched := s\<rparr>)"

inductive_cases block_stepE: "block_step E conf r r'"

definition block_reachable :: "env \<Rightarrow> schedConf \<Rightarrow> blockTxGraph \<Rightarrow> world \<Rightarrow> blockRun \<Rightarrow> bool" where
  "block_reachable E conf g w r \<longleftrightarrow> (block_step E conf)\<^sup>*\<^sup>* (initRun g w) r"

text \<open>What is returned when the loop has ended: a failed run is cleaned up after.\<close>

definition run_result :: "blockRun \<Rightarrow> unit outcome \<times> world" where
  "run_result r =
     (case terminalErr (sched r) of
        None \<Rightarrow> (Ok (), db r)
      | Some e \<Rightarrow>
          (case cleanupAbortedBlockTransactions (order (graph (sched r))) (db r) of
             (Ok _, w) \<Rightarrow> (Err e, w)
           | (Err cleanupErr, w) \<Rightarrow> (Err (Prefixed ''scheduler error'' cleanupErr), w)
           | (Panic p, w) \<Rightarrow> (Panic p, w)))"

text \<open>\<open>evs\<close> are the answers of the node to the fetching workers, in the order they arrive.\<close>

inductive syncTransactionsDependencyAware ::
    "env \<Rightarrow> schedConf \<Rightarrow> txid list \<Rightarrow> fetchEvent list \<Rightarrow> world \<Rightarrow> unit outcome \<Rightarrow> world \<Rightarrow> bool"
  for E conf txIDs evs w where
  FetchFailed: "fetchBlockRawTransactions txIDs evs = Some (Err e) \<Longrightarrow>
    syncTransactionsDependencyAware E conf txIDs evs w (Err e) w"
| GraphFailed: "fetchBlockRawTransactions txIDs evs = Some (Ok (txs, byID)) \<Longrightarrow>
    buildDependencies (ext E) (newBlockTxGraph txs byID) = Ok (g, Some e) \<Longrightarrow>
    syncTransactionsDependencyAware E conf txIDs evs w (Err e) w"
| Empty: "fetchBlockRawTransactions txIDs evs = Some (Ok (txs, byID)) \<Longrightarrow>
    buildDependencies (ext E) (newBlockTxGraph txs byID) = Ok (g, None) \<Longrightarrow> order g = [] \<Longrightarrow>
    syncTransactionsDependencyAware E conf txIDs evs w (Ok ()) w"
| Run: "fetchBlockRawTransactions txIDs evs = Some (Ok (txs, byID)) \<Longrightarrow>
    buildDependencies (ext E) (newBlockTxGraph txs byID) = Ok (g, None) \<Longrightarrow> order g \<noteq> [] \<Longrightarrow>
    block_reachable E conf g w r \<Longrightarrow> \<not> looping (sched r) \<Longrightarrow> run_result r = (res, w') \<Longrightarrow>
    syncTransactionsDependencyAware E conf txIDs evs w res w'"

end
