(* ===== verification/Effects.thy ===== *)
theory Effects
  imports Datastore_Spec
begin

text \<open>
  Reasoning about what a program may change. A relation between the world before and after a program
  that is reflexive, transitive and blind to the statement counter is kept by every composition of
  programs that keep it, whatever statements fail: the interface \<open>db_relation\<close>. Its lemmas say for
  each operation of the datastore which table the relation has to tolerate changes of. Invariants and
  frames are both such relations.
\<close>

definition within :: "(world \<Rightarrow> world \<Rightarrow> bool) \<Rightarrow> 'a db \<Rightarrow> bool" where
  "within R m \<longleftrightarrow> (\<forall>w. R w (snd (m w)))"

lemma withinD: "within R m \<Longrightarrow> m w = (r, w') \<Longrightarrow> R w w'"
  by (metis within_def snd_conv)

lemma withinI: "(\<And>w r w'. m w = (r, w') \<Longrightarrow> R w w') \<Longrightarrow> within R m"
  unfolding within_def by (metis prod.collapse)

locale db_relation =
  fixes R :: "world \<Rightarrow> world \<Rightarrow> bool"
  assumes refl: "R w w"
    and trans: "R u v \<Longrightarrow> R v w \<Longrightarrow> R u w"
    and ticks: "R w (w\<lparr>stmts := n\<rparr>)"
begin

lemma ret: "within R (ret x)"
  by (simp add: within_def refl)

lemma fail: "within R (fail e)"
  by (simp add: within_def refl)

lemma lift: "within R (lift r)"
  by (simp add: within_def refl)

lemma bind:
  assumes "within R m" and "\<And>x. within R (f x)"
  shows "within R (bind m f)"
proof (rule withinI)
  fix w r w'
  assume "bind m f w = (r, w')"
  then show "R w w'"
    by (cases rule: bind_result) (metis assms trans withinD, metis assms(1) within_def)
qed

lemma attempt: "within R m \<Longrightarrow> within R (attempt m)"
  by (auto simp: within_def attempt_def split: prod.splits outcome.splits) (metis snd_conv)+

lemma prefix: "within R m \<Longrightarrow> within R (prefix s m)"
  by (simp add: within_def prefix_world)

lemma forM: "(\<And>x. x \<in> set xs \<Longrightarrow> within R (f x)) \<Longrightarrow> within R (forM xs f)"
  by (induction xs) (auto intro: ret bind)

lemma stmt: "(\<And>w. R w (snd (f w))) \<Longrightarrow> within R (stmt f)"
  unfolding within_def stmt_def Let_def by (auto split: option.split intro: ticks trans)

lemma query: "within R (query sel)"
  unfolding query_def by (rule stmt) (simp add: refl)

lemma oneG: "within R (oneG sel)"
  unfolding oneG_def by (rule stmt) (simp add: refl)

lemma change: "(\<And>w t. R w (upd t w)) \<Longrightarrow> within R (change sel upd f)"
  unfolding change_def by (rule stmt) (auto simp: refl split: outcome.splits)

lemma or_nil: "within R m \<Longrightarrow> within R (or_nil m)"
  unfolding or_nil_def by (intro bind attempt ret)

lemma found: "within R m \<Longrightarrow> within R (found m)"
  unfolding found_def by (intro bind attempt) (auto split: sum.split intro: ret fail)

lemma cond: "(b \<Longrightarrow> within R m) \<Longrightarrow> (\<not> b \<Longrightarrow> within R n) \<Longrightarrow> within R (if b then m else n)"
  by simp

lemma case_option:
  "within R m \<Longrightarrow> (\<And>x. within R (f x)) \<Longrightarrow> within R (case x of None \<Rightarrow> m | Some y \<Rightarrow> f y)"
  by (cases x) simp_all

lemma case_sum:
  "(\<And>x. within R (f x)) \<Longrightarrow> (\<And>x. within R (g x)) \<Longrightarrow> within R (case x of Inl y \<Rightarrow> f y | Inr y \<Rightarrow> g y)"
  by (cases x) simp_all

lemma case_prod: "(\<And>x y. within R (f x y)) \<Longrightarrow> within R (case p of (x, y) \<Rightarrow> f x y)"
  by (cases p) simp

lemma case_list:
  "within R m \<Longrightarrow> (\<And>x y. within R (f x y)) \<Longrightarrow> within R (case xs of [] \<Rightarrow> m | x # y \<Rightarrow> f x y)"
  by (cases xs) simp_all

lemma let_in: "(\<And>x. within R (f x)) \<Longrightarrow> within R (Let e f)"
  by (simp add: Let_def)

text \<open>A row is stamped with the time before it is written and returned.\<close>

lemma stamped:
  assumes "\<And>v. within R (U v)"
  shows "within R (\<lambda>w. bind (U (h w)) (\<lambda>_. DB.ret (h w)) w)"
proof -
  have "R w (snd (bind (U v) (\<lambda>_. DB.ret v) w))" for v w
    using bind [OF assms ret, of v "\<lambda>_. v"] by (simp add: within_def)
  then show ?thesis by (simp only: within_def) blast
qed

lemmas rules = ret fail lift bind attempt prefix forM query oneG or_nil found cond case_option case_sum
  case_prod case_list let_in

section \<open>The datastore\<close>

lemma GetOutput: "within R (GetOutput h n)"
  unfolding GetOutput_def by (intro rules)

lemma GetInput: "within R (GetInput h c p n)"
  unfolding GetInput_def by (intro rules)

lemma GetAddress: "within R (GetAddress a)"
  unfolding GetAddress_def by (intro rules)

lemma GetTxAddress: "within R (GetTxAddress t a)"
  unfolding GetTxAddress_def by (intro rules)

lemma GetClaim: "within R (GetClaim c)"
  unfolding GetClaim_def by (intro rules)

lemma GetSupport: "within R (GetSupport h n)"
  unfolding GetSupport_def by (intro rules)

lemma GetTag: "within R (GetTag t)"
  unfolding GetTag_def by (intro rules)

lemma GetPurchase: "within R (GetPurchase h n c)"
  unfolding GetPurchase_def by (intro rules)

lemmas getters = GetOutput GetInput GetAddress GetTxAddress GetClaim GetSupport GetTag GetPurchase

lemma PutOutput:
  assumes "\<And>w t. R w (w\<lparr>outputs := t\<rparr>)"
  shows "within R (PutOutput r cols)"
  unfolding PutOutput_def Output_UpdateCols_def Output_UpdateG_def Output_UpdateSpentG_def Output_InsertG_def
  by (cases cols; simp only: columns.case; intro rules change assms)

lemma PutInput:
  assumes "\<And>w t. R w (w\<lparr>inputs := t\<rparr>)"
  shows "within R (PutInput r)"
proof -
  have writes: "within R (Input_UpdateG v)" "within R (Input_InsertG v)" for v
    unfolding Input_UpdateG_def Input_InsertG_def by (intro change assms)+
  show ?thesis
    unfolding PutInput_def
  by (intro prefix bind query cond stamped [where U = Input_UpdateG] writes)
qed

lemma PutAddress:
  assumes "\<And>w t. R w (w\<lparr>addresses := t\<rparr>)"
  shows "within R (PutAddress r)"
proof -
  have writes: "within R (Address_UpdateG v)" "within R (Address_InsertG v)" "within R (Address_UpsertG v)" for v
    unfolding Address_UpdateG_def Address_InsertG_def Address_UpsertG_def by (intro change assms)+
  show ?thesis
    unfolding PutAddress_def
  by (intro prefix bind query cond stamped [where U = Address_UpdateG] writes)
qed

lemma PutTxAddress:
  assumes "\<And>w t. R w (w\<lparr>txAddresses := t\<rparr>)"
  shows "within R (PutTxAddress r)" and "within R (UpdateTxAddressAmounts r)"
  unfolding PutTxAddress_def UpdateTxAddressAmounts_def TxAddress_UpdateG_def TxAddress_InsertG_def
  by (intro rules change assms)+

lemma find_claim_for_put: "within R (find_claim_for_put r)"
  unfolding find_claim_for_put_def by (intro rules)

lemma PutClaim:
  assumes "\<And>w t. R w (w\<lparr>claims := t\<rparr>)"
  shows "within R (PutClaim r)"
proof -
  have insert: "within R (Claim_InsertG v)" for v
  proof (rule withinI)
    fix w res w'
    assume "Claim_InsertG v w = (res, w')"
    from change_result [OF this [unfolded Claim_InsertG_def]] show "R w w'"
      using ticks [of w "Suc (stmts w)"] assms trans by blast
  qed
  have update: "within R (Claim_UpdateG v)" for v
    unfolding Claim_UpdateG_def by (intro change assms)
  show ?thesis
    unfolding PutClaim_def Let_def
    by (intro prefix bind find_claim_for_put case_option stamped [where U = Claim_UpdateG] insert update)
qed

lemma PutSupport:
  assumes "\<And>w t. R w (w\<lparr>supports := t\<rparr>)"
  shows "within R (PutSupport r)"
  unfolding PutSupport_def by (intro prefix change assms)

lemma PutTag:
  assumes "\<And>w t. R w (w\<lparr>tags := t\<rparr>)"
  shows "within R (PutTag r)"
  unfolding PutTag_def Tag_UpsertG_def by (intro prefix change assms)

lemma PutClaimTag:
  assumes "\<And>w t. R w (w\<lparr>claimTags := t\<rparr>)"
  shows "within R (PutClaimTag r)"
  unfolding PutClaimTag_def by (intro prefix change assms)

lemma PutPurchase:
  assumes "\<And>w t. R w (w\<lparr>purchases := t\<rparr>)"
  shows "within R (PutPurchase r)"
proof -
  have writes: "within R (Purchase_UpdateG v)" "within R (Purchase_InsertG v)" for v
    unfolding Purchase_UpdateG_def Purchase_InsertG_def by (intro change assms)+
  show ?thesis
    unfolding PutPurchase_def
  by (intro prefix bind query cond stamped [where U = Purchase_UpdateG] writes)
qed

end


section \<open>Postconditions of successful runs\<close>

text \<open>\<open>post m w Q\<close>: if \<open>m\<close> succeeds from \<open>w\<close>, its result and the world behind it satisfy \<open>Q\<close>. The rules walk
  through a program and leave one goal per path; a call that is only known by a relation it keeps is
  passed by \<open>post_within\<close>.\<close>

definition post :: "'a db \<Rightarrow> world \<Rightarrow> ('a \<Rightarrow> world \<Rightarrow> bool) \<Rightarrow> bool" where
  "post m w Q \<longleftrightarrow> (\<forall>x w'. m w = (Ok x, w') \<longrightarrow> Q x w')"

lemma postD: "post m w Q \<Longrightarrow> m w = (Ok x, w') \<Longrightarrow> Q x w'"
  by (simp add: post_def)

lemma postI: "(\<And>x w'. m w = (Ok x, w') \<Longrightarrow> Q x w') \<Longrightarrow> post m w Q"
  by (simp add: post_def)

lemma post_bind: "post m w (\<lambda>x v. post (f x) v Q) \<Longrightarrow> post (bind m f) w Q"
  by (auto simp: post_def bind_Ok_iff)

lemma post_ret: "Q x w \<Longrightarrow> post (ret x) w Q"
  by (simp add: post_def)

lemma post_fail: "post (fail e) w Q"
  by (simp add: post_def)

lemma post_lift: "(\<And>x. r = Ok x \<Longrightarrow> Q x w) \<Longrightarrow> post (lift r) w Q"
  by (simp add: post_def)

lemma post_attempt:
  "post m w (\<lambda>x. Q (Inr x)) \<Longrightarrow> (\<And>e v. m w = (Err e, v) \<Longrightarrow> Q (Inl e) v) \<Longrightarrow> post (attempt m) w Q"
  by (auto simp: post_def attempt_def split: prod.splits outcome.splits)

lemma post_prefix: "post m w Q \<Longrightarrow> post (prefix s m) w Q"
  by (simp add: post_def)

lemma post_cond: "(b \<Longrightarrow> post m w Q) \<Longrightarrow> (\<not> b \<Longrightarrow> post n w Q) \<Longrightarrow> post (if b then m else n) w Q"
  by simp

lemma post_case_option:
  "(x = None \<Longrightarrow> post m w Q) \<Longrightarrow> (\<And>y. x = Some y \<Longrightarrow> post (f y) w Q) \<Longrightarrow>
    post (case x of None \<Rightarrow> m | Some y \<Rightarrow> f y) w Q"
  by (cases x) simp_all

lemma post_case_sum:
  "(\<And>y. x = Inl y \<Longrightarrow> post (f y) w Q) \<Longrightarrow> (\<And>y. x = Inr y \<Longrightarrow> post (g y) w Q) \<Longrightarrow>
    post (case x of Inl y \<Rightarrow> f y | Inr y \<Rightarrow> g y) w Q"
  by (cases x) simp_all

lemma post_case_prod: "(\<And>x y. p = (x, y) \<Longrightarrow> post (f x y) w Q) \<Longrightarrow> post (case p of (x, y) \<Rightarrow> f x y) w Q"
  by (cases p) simp

lemma post_let: "(\<And>x. x = e \<Longrightarrow> post (f x) w Q) \<Longrightarrow> post (Let e f) w Q"
  by (simp add: Let_def)

lemma post_within: "within R m \<Longrightarrow> (\<And>x v. R w v \<Longrightarrow> Q x v) \<Longrightarrow> post m w Q"
  by (auto simp: post_def dest: withinD)

lemmas post_rules = post_bind post_ret post_fail post_lift post_cond post_case_option post_case_sum
  post_case_prod post_let post_prefix

lemma query_Ok: "query sel w = (Ok x, w') \<Longrightarrow> w' = tick w \<and> x = sel (tick w)"
  by (auto simp: query_def stmt_def Let_def split: option.splits)

lemma oneG_OkD: "oneG sel w = (Ok x, w') \<Longrightarrow> w' = tick w \<and> sel (tick w) = Some x"
  by (auto simp: oneG_def stmt_def Let_def split: option.splits)

section \<open>All outcomes of a run\<close>

text \<open>\<open>runs m w Q X\<close>: a success from \<open>w\<close> satisfies \<open>Q\<close>, and where the run ends by an error or a panic the world
  satisfies \<open>X\<close>. The rules are those of \<open>post\<close> with the second exit.\<close>

definition runs :: "'a db \<Rightarrow> world \<Rightarrow> ('a \<Rightarrow> world \<Rightarrow> bool) \<Rightarrow> (world \<Rightarrow> bool) \<Rightarrow> bool" where
  "runs m w Q X \<longleftrightarrow> (case m w of (Ok x, w') \<Rightarrow> Q x w' | (Err e, w') \<Rightarrow> X w' | (Panic p, w') \<Rightarrow> X w')"

lemma runsI:
  "(\<And>x w'. m w = (Ok x, w') \<Longrightarrow> Q x w') \<Longrightarrow> (\<And>r w'. m w = (r, w') \<Longrightarrow> (\<And>x. r \<noteq> Ok x) \<Longrightarrow> X w') \<Longrightarrow> runs m w Q X"
  by (auto simp: runs_def split: outcome.split prod.split)

lemma runsD: "runs m w Q X \<Longrightarrow> m w = (r, w') \<Longrightarrow> (case r of Ok x \<Rightarrow> Q x w' | _ \<Rightarrow> X w')"
  by (simp add: runs_def)

lemma runs_bind: "runs m w (\<lambda>x v. runs (f x) v Q X) X \<Longrightarrow> runs (bind m f) w Q X"
  by (auto simp: runs_def bind_def split: prod.splits outcome.splits)

lemma runs_ret: "Q x w \<Longrightarrow> runs (ret x) w Q X"
  by (simp add: runs_def)

lemma runs_fail: "X w \<Longrightarrow> runs (fail e) w Q X"
  by (simp add: runs_def)

lemma runs_lift: "(\<And>x. r = Ok x \<Longrightarrow> Q x w) \<Longrightarrow> X w \<Longrightarrow> runs (lift r) w Q X"
  by (auto simp: runs_def split: outcome.split)

lemma runs_attempt: "runs m w (\<lambda>x. Q (Inr x)) X \<Longrightarrow> (\<And>e v. m w = (Err e, v) \<Longrightarrow> Q (Inl e) v) \<Longrightarrow> runs (attempt m) w Q X"
  by (auto simp: runs_def attempt_def split: prod.splits outcome.splits)

lemma runs_prefix: "runs m w Q X \<Longrightarrow> runs (prefix s m) w Q X"
  by (auto simp: runs_def prefix_def split: prod.splits outcome.splits)

lemma runs_cond: "(b \<Longrightarrow> runs m w Q X) \<Longrightarrow> (\<not> b \<Longrightarrow> runs n w Q X) \<Longrightarrow> runs (if b then m else n) w Q X"
  by simp

lemma runs_case_option:
  "(x = None \<Longrightarrow> runs m w Q X) \<Longrightarrow> (\<And>y. x = Some y \<Longrightarrow> runs (f y) w Q X) \<Longrightarrow>
    runs (case x of None \<Rightarrow> m | Some y \<Rightarrow> f y) w Q X"
  by (cases x) simp_all

lemma runs_case_sum:
  "(\<And>y. x = Inl y \<Longrightarrow> runs (f y) w Q X) \<Longrightarrow> (\<And>y. x = Inr y \<Longrightarrow> runs (g y) w Q X) \<Longrightarrow>
    runs (case x of Inl y \<Rightarrow> f y | Inr y \<Rightarrow> g y) w Q X"
  by (cases x) simp_all

lemma runs_case_prod: "(\<And>x y. p = (x, y) \<Longrightarrow> runs (f x y) w Q X) \<Longrightarrow> runs (case p of (x, y) \<Rightarrow> f x y) w Q X"
  by (cases p) simp

lemma runs_let: "(\<And>x. x = e \<Longrightarrow> runs (f x) w Q X) \<Longrightarrow> runs (Let e f) w Q X"
  by (simp add: Let_def)

lemma runs_within: "within R m \<Longrightarrow> (\<And>x v. R w v \<Longrightarrow> Q x v) \<Longrightarrow> (\<And>v. R w v \<Longrightarrow> X v) \<Longrightarrow> runs m w Q X"
  by (auto simp: runs_def dest: withinD split: outcome.split prod.split)

lemma within_runs: "(\<And>w. runs m w (\<lambda>_. R w) (R w)) \<Longrightarrow> within R m"
proof (rule withinI)
  fix w r w'
  assume "\<And>w. runs m w (\<lambda>_. R w) (R w)" and "m w = (r, w')"
  from runsD [OF this] show "R w w'" by (cases r) simp_all
qed

lemma runs_post: "post m w Q \<Longrightarrow> within R m \<Longrightarrow> (\<And>x v. Q x v \<Longrightarrow> R w v \<Longrightarrow> Q' x v) \<Longrightarrow> (\<And>v. R w v \<Longrightarrow> X v) \<Longrightarrow> runs m w Q' X"
  by (auto simp: runs_def post_def dest: withinD split: outcome.split prod.split)

lemmas runs_rules = runs_bind runs_ret runs_fail runs_lift runs_cond runs_case_option runs_case_sum
  runs_case_prod runs_let runs_prefix

section \<open>Programs that return no error\<close>

text \<open>Such a program may panic, but every error of a statement or of the node is dealt with inside.\<close>

definition errorless :: "'a db \<Rightarrow> bool" where
  "errorless m \<longleftrightarrow> (\<forall>w e. fst (m w) \<noteq> Err e)"

lemma errorlessD: "errorless m \<Longrightarrow> m w = (r, w') \<Longrightarrow> r \<noteq> Err e"
  by (metis errorless_def fst_conv)

lemma errorless_ret: "errorless (ret x)"
  by (simp add: errorless_def)

lemma errorless_panic: "errorless (lift (Panic p))"
  by (simp add: errorless_def)

lemma errorless_attempt: "errorless (attempt m)"
  by (auto simp: errorless_def attempt_def split: prod.split outcome.split)

lemma errorless_bind: "errorless m \<Longrightarrow> (\<And>x. errorless (f x)) \<Longrightarrow> errorless (bind m f)"
  by (auto simp: errorless_def bind_def split: prod.split outcome.split) (metis fst_conv)+

lemma errorless_or_nil: "errorless (or_nil m)"
  unfolding or_nil_def by (intro errorless_bind errorless_attempt errorless_ret)

lemma errorless_cond: "(b \<Longrightarrow> errorless m) \<Longrightarrow> (\<not> b \<Longrightarrow> errorless n) \<Longrightarrow> errorless (if b then m else n)"
  by simp

lemma errorless_option: "errorless m \<Longrightarrow> (\<And>y. errorless (f y)) \<Longrightarrow> errorless (case x of None \<Rightarrow> m | Some y \<Rightarrow> f y)"
  by (cases x) simp_all

lemma errorless_sum: "(\<And>x. errorless (f x)) \<Longrightarrow> (\<And>y. errorless (g y)) \<Longrightarrow> errorless (case r of Inl x \<Rightarrow> f x | Inr y \<Rightarrow> g y)"
  by (cases r) simp_all

lemma errorless_prod: "(\<And>x y. errorless (f x y)) \<Longrightarrow> errorless (case p of (x, y) \<Rightarrow> f x y)"
  by (cases p) simp

lemma errorless_forM: "(\<And>x. errorless (f x)) \<Longrightarrow> errorless (forM xs f)"
  by (induction xs) (auto intro: errorless_ret errorless_bind)

lemmas errorless_rules = errorless_ret errorless_panic errorless_attempt errorless_bind errorless_or_nil errorless_cond
  errorless_option errorless_sum errorless_prod errorless_forM

section \<open>Programs that do not panic\<close>

text \<open>A program that does not panic, and one that always succeeds.\<close>

definition calm :: "'a db \<Rightarrow> bool" where
  "calm m \<longleftrightarrow> (\<forall>w p. fst (m w) \<noteq> Panic p)"

definition never_fails :: "'a db \<Rightarrow> bool" where
  "never_fails m \<longleftrightarrow> (\<forall>w. \<exists>x. fst (m w) = Ok x)"

lemma calm_rules:
  "calm (ret x)" "calm (fail e)" "calm (query q)" "calm (oneG sel)" "calm m \<Longrightarrow> calm (prefix s m)"
  "calm m \<Longrightarrow> (\<And>x. calm (f x)) \<Longrightarrow> calm (bind m f)" "never_fails m \<Longrightarrow> calm m" "calm m \<Longrightarrow> never_fails (attempt m)"
  "never_fails m \<Longrightarrow> (\<And>x. never_fails (f x)) \<Longrightarrow> never_fails (bind m f)" "never_fails (ret y)"
proof -
  show "calm (ret x)" "calm (fail e)" "never_fails (ret y)" by (simp_all add: calm_def never_fails_def)
  show "calm (query q)" "calm (oneG sel)"
    by (auto simp: calm_def query_def oneG_def stmt_def Let_def split: option.splits)
  show "calm (prefix s m)" if "calm m"
    using that by (auto simp: calm_def prefix_def split: prod.split outcome.split) (metis fst_conv)
  show "calm (bind m f)" if "calm m" "\<And>x. calm (f x)"
    using that by (auto simp: calm_def bind_def split: prod.split outcome.split) (metis fst_conv)
  show "calm m" if "never_fails m"
    using that by (auto simp: calm_def never_fails_def) (metis outcome.distinct(3))
  show "never_fails (attempt m)" if "calm m"
    using that by (auto simp: calm_def never_fails_def attempt_def split: prod.split outcome.split) (metis fst_conv)
  show "never_fails (bind m f)" if "never_fails m" "\<And>x. never_fails (f x)"
    using that by (auto simp: never_fails_def bind_def split: prod.split outcome.split) (metis fst_conv outcome.distinct)+
qed

lemma calm_stmt: "(\<And>w p. fst (f w) \<noteq> Panic p) \<Longrightarrow> calm (stmt f)"
  by (auto simp: calm_def stmt_def Let_def split: option.split)

lemma calm_change: "(\<And>t p. f t \<noteq> Panic p) \<Longrightarrow> calm (change sel upd f)"
  unfolding change_def by (rule calm_stmt) (auto split: outcome.split)

lemma calm_found: "calm m \<Longrightarrow> calm (found m)"
  unfolding found_def by (intro calm_rules(6) calm_rules(7) [OF calm_rules(8)]) (auto split: sum.split intro: calm_rules)

lemma calm_attempt: "calm m \<Longrightarrow> calm (attempt m)"
  by (auto simp: calm_def attempt_def split: prod.split outcome.split) (metis fst_conv)

lemma calm_or_nil: "calm m \<Longrightarrow> calm (or_nil m)"
  unfolding or_nil_def by (intro calm_rules(6,1) calm_attempt)

lemma calm_cond: "(b \<Longrightarrow> calm m) \<Longrightarrow> (\<not> b \<Longrightarrow> calm n) \<Longrightarrow> calm (if b then m else n)"
  by simp

lemma calm_option: "calm m \<Longrightarrow> (\<And>y. calm (f y)) \<Longrightarrow> calm (case x of None \<Rightarrow> m | Some y \<Rightarrow> f y)"
  by (cases x) simp_all

lemma calm_sum: "(\<And>x. calm (f x)) \<Longrightarrow> (\<And>y. calm (g y)) \<Longrightarrow> calm (case r of Inl x \<Rightarrow> f x | Inr y \<Rightarrow> g y)"
  by (cases r) simp_all

lemma calm_prod: "(\<And>x y. calm (f x y)) \<Longrightarrow> calm (case p of (x, y) \<Rightarrow> f x y)"
  by (cases p) simp

lemma calm_forM: "(\<And>x. x \<in> set xs \<Longrightarrow> calm (f x)) \<Longrightarrow> calm (forM xs f)"
  by (induction xs) (auto intro: calm_rules)

text \<open>What follows a program only has to deal with the results it can have.\<close>

lemma calm_bind_results: "calm m \<Longrightarrow> (\<And>w x w'. m w = (Ok x, w') \<Longrightarrow> calm (f x)) \<Longrightarrow> calm (bind m f)"
  by (auto simp: calm_def bind_def split: prod.split outcome.split) (metis fst_conv)+

lemmas calm_steps = calm_rules(1-6) calm_attempt calm_or_nil calm_cond calm_option calm_sum calm_prod

end
