(* ===== verification/Json_Spec.thy ===== *)
theory Json_Spec
  imports Json
begin

text \<open>
  Reading undoes writing: a list of valid UTF-8 strings written by \<^verbatim>\<open>json.Marshal\<close> is read back
  unchanged by \<^verbatim>\<open>json.Unmarshal\<close>, whatever characters need escaping.
\<close>

section \<open>String literals\<close>

lemma escape_Nil [simp]: "escape [] = []"
  by (simp add: escape.simps)

lemma escape_encode [simp]: "scalar r \<Longrightarrow> escape (encode_rune r @ bs) = escape_rune r @ escape bs"
  by (subst escape.simps) (simp add: decode_encode_rune max_def Suc_le_eq)

lemma escape_encode_runes:
  "\<forall>r\<in>set rs. scalar r \<Longrightarrow> escape (encode_runes rs) = concat (map escape_rune rs)"
  by (induction rs) (simp_all add: encode_runes_def)

lemma scalar_ascii: "r < 128 \<Longrightarrow> scalar r" by (simp add: scalar_def)

lemma encode_rune_ascii: "r < 128 \<Longrightarrow> encode_rune r = [r]"
  by (simp add: encode_rune_def scalar_def)

lemma hd_encode_rune: "128 \<le> r \<Longrightarrow> 128 \<le> hd (encode_rune r)"
  by (auto simp: encode_rune_def Let_def RuneError_def)

lemma unhex_hexcode: "d < 16 \<Longrightarrow> unhex (hexcode d) = Some d"
  by (auto simp: unhex_def hexcode_def fromHexChar_def)

lemma unhex_digits [simp]: "unhex 48 = Some 0" "unhex 50 = Some 2"
  by (simp_all add: unhex_def fromHexChar_def)

lemma codes_Cons [simp]: "codes (c # s) = of_char c # codes s"
  by (simp add: codes_def)

lemma codes_Nil [simp]: "codes [] = []"
  by (simp add: codes_def)

text \<open>Every escape sequence the writer produces is one step of the reader.\<close>

lemma str_step_escape:
  assumes "scalar r"
  shows "str_step (escape_rune r @ rest) = Some (Inr (encode_rune r, length (escape_rune r)))"
proof -
  consider (plain) "r < 128" "plain r" | (short) "r \<in> {34, 92, 8, 12, 10, 13, 9}"
    | (ctrl) "r < 128" "\<not> plain r" "r \<notin> {34, 92, 8, 12, 10, 13, 9}"
    | (sep) "r = 8232 \<or> r = 8233" | (multi) "128 \<le> r" "r \<noteq> 8232" "r \<noteq> 8233" by fastforce
  then show ?thesis
  proof cases
    case plain
    then show ?thesis
      by (auto simp: escape_rune_def str_step_def encode_rune_ascii plain_def decode_rune_def)
  next
    case short
    then show ?thesis by (auto simp: escape_rune_def plain_def str_step_def encode_rune_ascii)
  next
    case ctrl
    have "hex4 ([48, 48, hexcode (r div 16), hexcode (r mod 16)] @ rest) = Some r"
      using ctrl by (simp add: hex4_def unhex_hexcode)
    then have "unicode_escape ([48, 48, hexcode (r div 16), hexcode (r mod 16)] @ rest) = Some ([r], 6)"
      using ctrl by (simp add: unicode_escape_def between_def encode_rune_ascii)
    then show ?thesis using ctrl by (simp add: escape_rune_def str_step_def encode_rune_ascii)
  next
    case sep
    have "hex4 ([50, 48, 50, hexcode (r mod 16)] @ rest) = Some r"
      using sep by (auto simp: hex4_def unhex_hexcode)
    then have "unicode_escape ([50, 48, 50, hexcode (r mod 16)] @ rest) = Some (encode_rune r, 6)"
      using sep by (auto simp: unicode_escape_def between_def)
    then show ?thesis using sep by (auto simp: escape_rune_def str_step_def)
  next
    case multi
    obtain b bs where e: "encode_rune r = b # bs" by (cases "encode_rune r") auto
    have "128 \<le> b" using hd_encode_rune [OF multi(1)] e by simp
    moreover have "decode_rune (b # bs @ rest) = (Some r, length (encode_rune r))"
      using decode_encode_rune [OF assms, of rest] e by simp
    ultimately show ?thesis using multi e by (simp add: escape_rune_def str_step_def)
  qed
qed

lemma length_escape_rune: "0 < length (escape_rune r)"
  by (simp add: escape_rune_def)

lemma scan_str_escape_runes:
  assumes "\<forall>r\<in>set rs. scalar r"
  shows "scan_str (concat (map escape_rune rs) @ 34 # rest) = Some (encode_runes rs, rest)"
  using assms
proof (induction rs)
  case Nil
  then show ?case by (subst scan_str.simps) (simp add: str_step_def encode_runes_def)
next
  case (Cons r rs)
  have "max 1 (length (escape_rune r)) = length (escape_rune r)"
    using length_escape_rune [of r] by (simp only: max_def Suc_le_eq One_nat_def if_True)
  with Cons show ?case
    by (subst scan_str.simps) (simp add: str_step_escape encode_runes_def)
qed

lemma scan_str_escape:
  assumes "valid_utf8 bs"
  shows "scan_str (escape bs @ 34 # rest) = Some (bs, rest)"
  using scan_str_escape_runes [OF runes_scalar, of bs rest] escape_encode_runes [OF runes_scalar, of bs]
    valid_utf8_encode [OF assms] by simp

section \<open>Lists of strings\<close>

lemma codes_json_string: "codes (json_string s) = 34 # escape (codes s) @ [34]"
proof -
  have "\<forall>b\<in>set (escape bs). b < 256" for bs
  proof (induction bs rule: escape.induct)
    case (1 bs)
    have "\<forall>b\<in>set (escape_rune r). b < 256" for r
      by (auto simp: escape_rune_def hexcode_def encode_rune_byte)
    with "1.IH" show ?case by (subst escape.simps) (auto split: option.splits)
  qed
  then show ?thesis unfolding json_string_def by (intro codes_chars) auto
qed

lemma tokens_string:
  assumes "ValidString s"
  shows "tokens (codes (json_string s) @ rest) = map_option (Cons (Val (JStr s))) (tokens rest)"
  using scan_str_escape [of "codes s" rest] assms
  by (simp add: codes_json_string ValidString_def scan_value_def)

lemma tokens_comma: "tokens (codes '','' @ rest) = map_option (Cons (Punct 44)) (tokens rest)"
  by (simp add: codes_def)

fun string_tokens :: "string list \<Rightarrow> token list" where
  "string_tokens [] = []"
| "string_tokens [s] = [Val (JStr s)]"
| "string_tokens (s # t # ss) = Val (JStr s) # Punct 44 # string_tokens (t # ss)"

lemma tokens_commas:
  assumes "\<forall>s\<in>set ss. ValidString s"
  shows "tokens (codes (commas (map json_string ss)) @ rest) = map_option ((@) (string_tokens ss)) (tokens rest)"
  using assms
proof (induction ss rule: string_tokens.induct)
  case 1
  show ?case by (simp add: codes_def option.map_id0 option.map_ident)
next
  case (2 s)
  then show ?case by (simp add: tokens_string)
next
  case (3 s t ss)
  then have "tokens (codes (commas (map json_string (t # ss))) @ rest) =
      map_option ((@) (string_tokens (t # ss))) (tokens rest)" by simp
  moreover have "ValidString s" using 3 by simp
  ultimately show ?case
    by (simp add: tokens_string tokens_comma option.map_comp comp_def del: map_option_eq_Some)
qed

lemma parse_strings:
  "parse_tokens (string_tokens (s # ss) @ [Punct 93]) Value [AFrame vs] = Some (JArr (vs @ map JStr (s # ss)))"
proof (induction ss arbitrary: s vs)
  case (Cons t ss)
  show ?case using Cons.IH [of t "vs @ [JStr s]"] by (simp add: open_value_def)
qed (simp add: open_value_def)

text \<open>What was written is read back.\<close>

lemma Unmarshal_Marshal_strings:
  assumes "\<forall>s\<in>set ss. ValidString s"
  shows "Unmarshal_strings (Marshal_strings ss) = Some ss"
proof -

  have "tokens (codes (Marshal_strings ss)) = Some (Punct 91 # string_tokens ss @ [Punct 93])"
    using tokens_commas [OF assms, of "[93]"] by (simp add: Marshal_strings_def)
  moreover have "parse_tokens (Punct 91 # string_tokens ss @ [Punct 93]) Value [] = Some (JArr (map JStr ss))"
  proof (cases ss)
    case Nil
    then show ?thesis by (simp add: open_value_def maxNestingDepth_def)
  next
    case (Cons s t)
    have "token_step (hd (string_tokens (s # t))) ElemOrEnd [AFrame []] =
        token_step (hd (string_tokens (s # t))) Value [AFrame []]"
      by (cases t) simp_all
    moreover have "string_tokens (s # t) \<noteq> []" by (cases t) simp_all
    ultimately have "parse_tokens (string_tokens (s # t) @ [Punct 93]) ElemOrEnd [AFrame []] =
        parse_tokens (string_tokens (s # t) @ [Punct 93]) Value [AFrame []]"
      by (cases "string_tokens (s # t)") simp_all
    then show ?thesis
      using parse_strings [of s t "[]"] Cons by (simp add: open_value_def maxNestingDepth_def)
  qed
  ultimately have "parse_json (Marshal_strings ss) = Some (JArr (map JStr ss))"
    by (simp add: parse_json_def)
  then show ?thesis
    by (simp add: Unmarshal_strings_def list_all_iff string_elem_def comp_def)
qed

end
