(* ===== verification/ClaimMeta_Spec.thy ===== *)
theory ClaimMeta_Spec
  imports ClaimMeta Json_Spec
begin

text \<open>
  The JSON column of a claim is well-formed JSON: the text \<open>GetValueAsJSON\<close> writes is read back as
  the value it was made from, so that a reader finds the fields of the claim in it.  The lemmas say of a piece of text that it renders a JSON value, and
  the pieces compose the way the marshaller composes them.
\<close>

section \<open>The JSON column\<close>

text \<open>A text renders a JSON value: its tokens can be cut off the front of any input, and where a value is expected
  the parser reads them as the value, as long as \<open>d\<close> levels of nesting are left.\<close>

definition renders :: "string \<Rightarrow> json \<Rightarrow> nat \<Rightarrow> bool" where
  "renders s v d \<longleftrightarrow>
     (\<exists>ts. (\<forall>rest. tokens (codes s @ rest) = map_option (\<lambda>x. ts @ x) (tokens rest)) \<and>
        (\<forall>rest st. length st + d \<le> maxNestingDepth \<longrightarrow> parse_tokens (ts @ rest) Value st = parse_tokens rest (After v) st))"

definition plain_name :: "string \<Rightarrow> bool" where
  "plain_name s \<longleftrightarrow> (\<forall>c\<in>set s. of_char c < (128 :: nat) \<and> plain (of_char c))"

lemma plain_Cons:
  assumes "plain_name (c # s)"
  shows "escape (codes (c # s)) = of_char c # escape (codes s)" and "valid_utf8 (codes (c # s)) = valid_utf8 (codes s)"
proof -
  let ?n = "of_char c :: nat"
  have n: "?n < 128" "plain ?n" using assms by (simp_all add: plain_name_def)
  then have e: "codes (c # s) = encode_rune ?n @ codes s" "scalar ?n" by (simp_all add: encode_rune_ascii scalar_ascii)
  show "escape (codes (c # s)) = ?n # escape (codes s)" unfolding e(1) using e(2) n by (simp add: escape_rune_def)
  show "valid_utf8 (codes (c # s)) = valid_utf8 (codes s)" unfolding e(1) by simp
qed

lemma plain_name_tl: "plain_name (c # s) \<Longrightarrow> plain_name s"
  by (simp add: plain_name_def)

lemma escape_plain: "plain_name s \<Longrightarrow> escape (codes s) = codes s \<and> valid_utf8 (codes s)"
proof (induction s)
  case (Cons c s)
  then show ?case using plain_Cons [of c s] plain_name_tl [of c s] by (simp only: codes_Cons simp_thms)
qed simp

lemma json_string_plain: "plain_name s \<Longrightarrow> json_string s = chars [34] @ s @ chars [34]"
  by (simp add: json_string_def escape_plain) (simp add: chars_def codes_def comp_def)

lemma plain_name_Valid: "plain_name s \<Longrightarrow> ValidString s"
  by (simp add: ValidString_def escape_plain)

lemma codes_colon: "codes (chars [34, 58] @ s) = codes (chars [34]) @ 58 # codes s"
  by (simp add: codes_def chars_def)

lemma tokens_field:
  assumes "plain_name n"
  shows "tokens (codes (json_field n s) @ rest) = map_option (\<lambda>x. [Val (JStr n), Punct 58] @ x) (tokens (codes s @ rest))"
proof -
  have "codes (json_field n s) = codes (json_string n) @ 58 # codes s"
    unfolding json_field_def json_string_plain [OF assms] by (simp add: codes_def chars_def)
  then have "tokens (codes (json_field n s) @ rest) = map_option (Cons (Val (JStr n))) (tokens (58 # codes s @ rest))"
    using tokens_string [OF plain_name_Valid [OF assms], of "58 # codes s @ rest"] by simp
  then show ?thesis by (simp add: option.map_comp comp_def)
qed

lemma append_fun: "(@) (a # xs) = (\<lambda>x. a # xs @ x)" "(@) [] = (\<lambda>x. x)"
  by (rule ext, simp)+

lemma renders_string: "ValidString s \<Longrightarrow> renders (json_string s) (JStr s) d"
  unfolding renders_def
  by (rule exI [of _ "[Val (JStr s)]"]) (simp add: tokens_string open_value_def append_fun)

lemma renders_value:
  assumes "\<And>rest. tokens (codes s @ rest) = map_option (Cons (Val v)) (tokens rest)"
  shows "renders s v d"
  unfolding renders_def
proof (intro exI conjI allI impI)
  show "tokens (codes s @ rest) = map_option (\<lambda>x. [Val v] @ x) (tokens rest)" for rest
    by (simp only: assms append_fun append_Nil)
qed (simp add: open_value_def)

lemma renders_literal: "renders ''null'' JNull d" "renders (json_bool b) (JBool b) d"
proof -
  have t: "tokens (codes ''null'' @ rest) = map_option (Cons (Val JNull)) (tokens rest)"
    "tokens (codes ''true'' @ rest) = map_option (Cons (Val (JBool True))) (tokens rest)"
    "tokens (codes ''false'' @ rest) = map_option (Cons (Val (JBool False))) (tokens rest)" for rest
    by (simp_all add: scan_value_def)
  show "renders ''null'' JNull d" by (rule renders_value, rule t)
  show "renders (json_bool b) (JBool b) d"
    unfolding json_bool_def by (cases b; simp only: if_True if_False) (rule renders_value, rule t)+
qed

definition field_text :: "string \<times> string \<times> json \<Rightarrow> string" where
  "field_text f = json_field (fst f) (fst (snd f))"

definition field_value :: "string \<times> string \<times> json \<Rightarrow> string \<times> json" where
  "field_value f = (fst f, snd (snd f))"

definition field_ok :: "nat \<Rightarrow> string \<times> string \<times> json \<Rightarrow> bool" where
  "field_ok d f \<longleftrightarrow> plain_name (fst f) \<and> renders (fst (snd f)) (snd (snd f)) d"

text \<open>The members of an object, read from the first key on.\<close>

lemma renders_fields:
  assumes "fs \<noteq> []" and "\<forall>f\<in>set fs. field_ok d f"
  shows "\<exists>ts. (\<forall>rest. tokens (codes (commas (map field_text fs)) @ rest) = map_option (\<lambda>x. ts @ x) (tokens rest)) \<and>
    (\<forall>rest st kvs. length st + Suc d \<le> maxNestingDepth \<longrightarrow>
       parse_tokens (ts @ Punct 125 # rest) (Key kvs) st = parse_tokens rest (After (JObj (kvs @ map field_value fs))) st) \<and>
    ts \<noteq> [] \<and> (\<exists>k. hd ts = Val (JStr k))"
  using assms
proof (induction fs)
  case (Cons f fs)
  obtain n s v where f: "f = (n, s, v)" by (cases f)
  have n: "plain_name n" "renders s v d" using Cons.prems(2) by (simp_all add: f field_ok_def)
  obtain ts where t: "\<And>rest. tokens (codes s @ rest) = map_option (\<lambda>x. ts @ x) (tokens rest)"
    and p: "\<And>rest st. length st + d \<le> maxNestingDepth \<Longrightarrow> parse_tokens (ts @ rest) Value st = parse_tokens rest (After v) st"
    using n(2) by (auto simp: renders_def)
  have tf: "tokens (codes (field_text f) @ rest) = map_option (\<lambda>x. (Val (JStr n) # Punct 58 # ts) @ x) (tokens rest)" for rest
    by (simp add: field_text_def f tokens_field [OF n(1)] t option.map_comp comp_def)
  have pf: "parse_tokens ((Val (JStr n) # Punct 58 # ts) @ rest) (Key kvs) st = parse_tokens rest (After v) (OFrame kvs n # st)"
    if "length st + Suc d \<le> maxNestingDepth" for rest st kvs
    using that p [of "OFrame kvs n # st" rest] by (simp add: key_token_def)
  show ?case
  proof (cases fs)
    case Nil
    show ?thesis
      by (rule exI [of _ "Val (JStr n) # Punct 58 # ts"]) (use Nil tf pf in \<open>simp add: field_value_def f\<close>)
  next
    case (Cons g gs)
    obtain us where u: "\<And>rest. tokens (codes (commas (map field_text fs)) @ rest) = map_option (\<lambda>x. us @ x) (tokens rest)"
      and q: "\<And>rest st kvs. length st + Suc d \<le> maxNestingDepth \<Longrightarrow>
        parse_tokens (us @ Punct 125 # rest) (Key kvs) st = parse_tokens rest (After (JObj (kvs @ map field_value fs))) st"
      using Cons.IH Cons.prems(2) Cons by auto
    have "commas (map field_text (f # fs)) = field_text f @ '','' @ commas (map field_text fs)"
      using Cons by simp
    then have "tokens (codes (commas (map field_text (f # fs))) @ rest) =
        map_option (\<lambda>x. ((Val (JStr n) # Punct 58 # ts) @ Punct 44 # us) @ x) (tokens rest)" for rest
      using u by (simp add: tf option.map_comp comp_def)
    moreover have "parse_tokens (((Val (JStr n) # Punct 58 # ts) @ Punct 44 # us) @ Punct 125 # rest) (Key kvs) st =
        parse_tokens rest (After (JObj (kvs @ map field_value (f # fs)))) st"
      if "length st + Suc d \<le> maxNestingDepth" for rest st kvs
      using pf [OF that, of "Punct 44 # us @ Punct 125 # rest" kvs] q [OF that, of rest "kvs @ [(n, v)]"]
      by (simp add: field_value_def f)
    ultimately show ?thesis
      by (intro exI [of _ "(Val (JStr n) # Punct 58 # ts) @ Punct 44 # us"]) auto
  qed
qed simp

lemma renders_object:
  assumes "fs \<noteq> []" and "\<forall>f\<in>set fs. field_ok d f"
  shows "renders (json_object (map field_text fs)) (JObj (map field_value fs)) (Suc d)"
proof -
  obtain ts where t: "\<And>rest. tokens (codes (commas (map field_text fs)) @ rest) = map_option (\<lambda>x. ts @ x) (tokens rest)"
    and p: "\<And>rest st kvs. length st + Suc d \<le> maxNestingDepth \<Longrightarrow>
       parse_tokens (ts @ Punct 125 # rest) (Key kvs) st = parse_tokens rest (After (JObj (kvs @ map field_value fs))) st"
    and hd: "ts \<noteq> []" "\<exists>k. hd ts = Val (JStr k)"
    using renders_fields [OF assms] by blast
  have "tokens (codes (json_object (map field_text fs)) @ rest) =
      map_option (\<lambda>x. (Punct 123 # ts @ [Punct 125]) @ x) (tokens rest)" for rest
    by (simp add: json_object_def t option.map_comp comp_def)
  moreover have "parse_tokens ((Punct 123 # ts @ [Punct 125]) @ rest) Value st = parse_tokens rest (After (JObj (map field_value fs))) st"
    if "length st + Suc d \<le> maxNestingDepth" for rest st
  proof -
    obtain k us where ts: "ts = Val (JStr k) # us" using hd by (cases ts) auto
    show ?thesis using p [OF that, of rest "[]"] that by (simp add: ts open_value_def)
  qed
  ultimately show ?thesis unfolding renders_def by blast
qed

lemma renders_parse:
  assumes "renders s v d" and "d \<le> maxNestingDepth"
  shows "parse_json s = Some v"
proof -
  obtain ts where t: "\<And>rest. tokens (codes s @ rest) = map_option (\<lambda>x. ts @ x) (tokens rest)"
    and p: "\<And>rest st. length st + d \<le> maxNestingDepth \<Longrightarrow> parse_tokens (ts @ rest) Value st = parse_tokens rest (After v) st"
    using assms(1) unfolding renders_def by blast
  show ?thesis using t [of "[]"] p [of "[]" "[]"] assms(2) by (simp add: parse_json_def)
qed


text \<open>The tree of a claim value, by the JSON tags of the Go structures.\<close>

definition stream_tree :: "(Metadata \<times> string) option \<Rightarrow> json" where
  "stream_tree s =
     (case s of
        None \<Rightarrow> JNull
      | Some (m, contentType) \<Rightarrow>
          JObj [(''metadata'', JObj [(''author'', JStr (md_Author m)), (''title'', JStr (md_Title m)),
                   (''description'', JStr (md_Description m)), (''nsfw'', JBool (md_NSFW m))]),
                (''source'', JObj [(''contentType'', JStr contentType)])])"

definition value_tree :: "ClaimValue option \<Rightarrow> json" where
  "value_tree v =
     JObj [(''Claim'', case v of
        None \<Rightarrow> JNull
      | Some c \<Rightarrow> JObj [(''claimType'', JStr (cv_ClaimType c)), (''stream'', stream_tree (cv_Stream c))])]"

definition stream_valid :: "(Metadata \<times> string) option \<Rightarrow> bool" where
  "stream_valid s =
     (case s of
        None \<Rightarrow> True
      | Some (m, contentType) \<Rightarrow> list_all ValidString [md_Author m, md_Title m, md_Description m, contentType])"

lemma renders_mono:
  assumes "renders s v d" and "d \<le> e"
  shows "renders s v e"
proof -
  obtain ts where t: "\<forall>rest. tokens (codes s @ rest) = map_option (\<lambda>x. ts @ x) (tokens rest)"
    and p: "\<forall>rest st. length st + d \<le> maxNestingDepth \<longrightarrow> parse_tokens (ts @ rest) Value st = parse_tokens rest (After v) st"
    using assms(1) unfolding renders_def by blast
  have "\<forall>rest st. length st + e \<le> maxNestingDepth \<longrightarrow> parse_tokens (ts @ rest) Value st = parse_tokens rest (After v) st"
    using p assms(2) by simp
  with t show ?thesis unfolding renders_def by blast
qed

lemmas renders_fields_simps = field_ok_def field_text_def field_value_def

lemma renders_one:
  assumes "plain_name n" and "renders s v d"
  shows "renders (json_object [json_field n s]) (JObj [(n, v)]) (Suc d)"
  using renders_object [of "[(n, s, v)]" d] assms by (simp add: renders_fields_simps)

lemma renders_two:
  assumes "plain_name n" and "renders s v d" and "plain_name m" and "renders t w d"
  shows "renders (json_object [json_field n s, json_field m t]) (JObj [(n, v), (m, w)]) (Suc d)"
  using renders_object [of "[(n, s, v), (m, t, w)]" d] assms by (simp add: renders_fields_simps)

lemma plain_names [simp]:
  "plain_name ''Claim''" "plain_name ''claimType''" "plain_name ''stream''" "plain_name ''metadata''" "plain_name ''source''"
  "plain_name ''contentType''" "plain_name ''author''" "plain_name ''title''" "plain_name ''description''" "plain_name ''nsfw''"
  "plain_name ''streamType''" "plain_name ''certificateType''"
  by code_simp+

lemma Metadata_renders:
  assumes "list_all ValidString [md_Author m, md_Title m, md_Description m]"
  shows "renders (Metadata_json m) (JObj [(''author'', JStr (md_Author m)), (''title'', JStr (md_Title m)),
    (''description'', JStr (md_Description m)), (''nsfw'', JBool (md_NSFW m))]) 1"
  using renders_object [of "[(''author'', json_string (md_Author m), JStr (md_Author m)),
      (''title'', json_string (md_Title m), JStr (md_Title m)),
      (''description'', json_string (md_Description m), JStr (md_Description m)),
      (''nsfw'', json_bool (md_NSFW m), JBool (md_NSFW m))]" 0] assms
  by (simp add: renders_fields_simps Metadata_json_def renders_string renders_literal)

lemma Stream_renders:
  assumes "stream_valid s"
  shows "renders (Stream_json s) (stream_tree s) 2"
proof (cases s)
  case None
  then show ?thesis by (simp add: Stream_json_def stream_tree_def renders_literal)
next
  case (Some p)
  then obtain m ct where s: "s = Some (m, ct)" by (cases p) simp
  have v: "list_all ValidString [md_Author m, md_Title m, md_Description m]" "ValidString ct"
    using assms by (simp_all add: s stream_valid_def)
  show ?thesis
    using renders_two [OF plain_names(4) Metadata_renders [OF v(1)] plain_names(5)
        renders_one [OF plain_names(6) renders_string [OF v(2)], of 0, folded One_nat_def]]
    by (simp add: s Stream_json_def stream_tree_def numeral_2_eq_2)
qed

lemma Value_renders:
  assumes "\<And>c. v = Some c \<Longrightarrow> ValidString (cv_ClaimType c) \<and> stream_valid (cv_Stream c)"
  shows "renders (Value_json v) (value_tree v) 4"
proof (cases v)
  case None
  show ?thesis
    using renders_one [OF plain_names(1) renders_literal(1), of 3]
    by (simp add: None Value_json_def value_tree_def numeral_eq_Suc)
next
  case (Some c)
  have "renders (json_object [json_field ''claimType'' (json_string (cv_ClaimType c)), json_field ''stream'' (Stream_json (cv_Stream c))])
      (JObj [(''claimType'', JStr (cv_ClaimType c)), (''stream'', stream_tree (cv_Stream c))]) (Suc 2)"
    using assms [OF Some] by (intro renders_two plain_names renders_string Stream_renders) simp_all
  from renders_one [OF plain_names(1) this] show ?thesis
    by (simp add: Some Value_json_def value_tree_def numeral_eq_Suc)
qed

text \<open>The texts of a decoded claim that end up in its JSON column.\<close>

definition helper_valid :: "StakeHelper \<Rightarrow> bool" where
  "helper_valid helper \<longleftrightarrow>
     ValidString (claim_Title helper) \<and> ValidString (claim_Description helper) \<and>
     (case sh_Stream helper of
        None \<Rightarrow> True
      | Some s \<Rightarrow> ValidString (st_Author s) \<and> (case st_Source s of None \<Rightarrow> True | Some src \<Rightarrow> ValidString (src_MediaType src)))"

lemma ValueOf_valid:
  assumes "helper_valid helper" and "ValueOf helper = Some c"
  shows "ValidString (cv_ClaimType c) \<and> stream_valid (cv_Stream c)"
  using assms plain_name_Valid [OF plain_names(11)] plain_name_Valid [OF plain_names(12)] plain_name_Valid [of "[]"]
  by (auto simp: helper_valid_def ValueOf_def stream_valid_def streamType_def certificateType_def plain_name_def
      split: option.splits)

text \<open>The text \<^verbatim>\<open>GetValueAsJSON\<close> writes parses to the tree of the value it was made from.\<close>

lemma GetValueAsJSON_tree:
  assumes "helper_valid helper"
  shows "parse_json (GetValueAsJSON helper) = Some (value_tree (ValueOf helper))"
  unfolding GetValueAsJSON_def
  by (rule renders_parse, rule Value_renders) (simp_all add: ValueOf_valid [OF assms] maxNestingDepth_def)

text \<open>The value under a path of keys; of a repeated key the first counts.\<close>

fun json_at :: "string list \<Rightarrow> json \<Rightarrow> json option" where
  "json_at [] v = Some v"
| "json_at (k # ks) (JObj kvs) = (case map_of kvs k of None \<Rightarrow> None | Some v \<Rightarrow> json_at ks v)"
| "json_at (k # ks) v = None"

lemma tagExists_iff: "tagExists t ts \<longleftrightarrow> t \<in> set ts"
  by (auto simp: tagExists_def list_ex_iff)


definition quoted_helper :: StakeHelper where
  "quoted_helper = \<lparr>sh_Claim = Some \<lparr>pc_Title = chars [65, 34, 10, 195, 169], pc_Description = ''d'', pc_ThumbnailUrl = '''',
       pc_Tags = [''mature''], pc_Languages = [], pc_Channel = None, pc_Collection = None, pc_Repost = None\<rparr>,
     sh_Stream = Some \<lparr>st_Author = ''me'', st_License = ''MIT'', st_LicenseUrl = '''', st_Fee = None,
       st_Source = None, st_ReleaseTime = 0, st_Image = None, st_Video = None, st_Audio = None\<rparr>,
     sh_LegacyClaim = None, sh_ClaimID = [], sh_Signature = None\<rparr>"

definition demo_ext :: externals where
  "demo_ext = \<lparr>sha256 = id, ripemd160 = id, unmarshalPurchase = (\<lambda>_. Inl EOF), extractAddrs = (\<lambda>_ _. [''addr'']),
     isPayToWitnessPubKeyHash = (\<lambda>_. False), isPayToWitnessScriptHash = (\<lambda>_. False),
     newAddressPubKey = (\<lambda>_ _. Inl EOF), newAddressPubKeyHash = (\<lambda>_ _. Inl EOF),
     newAddressScriptHashFromHash = (\<lambda>_ _. Inl EOF), newAddressWitnessPubKeyHash = (\<lambda>_ _. Inl EOF),
     newAddressWitnessScriptHash = (\<lambda>_ _. Inl EOF)\<rparr>"

definition quoted_env :: env where
  "quoted_env = \<lparr>ext = demo_ext, chainName = ''lbrycrd_main'', decodeClaimBytes = (\<lambda>_ _. Inl EOF), decodeClaimHex = (\<lambda>_ _. Inr (Some quoted_helper)),
     decodeSupportBytes = (\<lambda>_ _. Inl EOF), encodeBase58 = (\<lambda>_. ''''), marshalCertificate = (\<lambda>_. Inl EOF)\<rparr>"


end
