(* ===== verification/Claims_Spec.thy ===== *)
theory Claims_Spec
  imports Claims Effects ClaimMeta_Spec
begin

text \<open>
  What the claim handlers guarantee: the columns filled from a decoded claim fit the widths the
  program cuts them to, the identity of a row survives the copying of metadata, the JSON column is
  the JSON of the value it was made from, and the claim ids of the table stay unique through every
  handler, whatever statements fail.
\<close>

section \<open>Identity and columns\<close>

text \<open>The columns that identify a row and are not metadata.\<close>

definition ident :: "Claim \<Rightarrow> nat \<times> string \<times> string \<times> string option \<times> nat \<times> string" where
  "ident c = (c_ID c, c_ClaimID c, c_Name c, c_TransactionHashID c, c_Vout c, c_BidState c)"

text \<open>The width every cut column has to keep, in bytes or in runes.\<close>

definition fits :: "('a \<Rightarrow> nat) \<Rightarrow> nat \<Rightarrow> 'a option \<Rightarrow> bool" where
  "fits len n x \<longleftrightarrow> (case x of None \<Rightarrow> True | Some s \<Rightarrow> len s \<le> n)"

definition rune_count :: "string \<Rightarrow> nat" where
  "rune_count s = length (runes (codes s))"

definition fits_columns :: "Claim \<Rightarrow> bool" where
  "fits_columns c \<longleftrightarrow> fits length 255 (c_SourceURL c) \<and> fits length 255 (c_Email c) \<and>
     fits rune_count 254 (c_SourceMediaType c) \<and> fits rune_count 500 (c_License c)"

definition fits_source :: "Claim \<Rightarrow> bool" where
  "fits_source c \<longleftrightarrow> fits length 162 (c_ContentType c) \<and> fits length 120 (c_SDHash c)"

lemma fits_simps [simp]: "fits len n None" "fits len n (Some s) = (len s \<le> n)"
  by (simp_all add: fits_def)

lemma ellipsis_length: "keep + 3 \<le> limit \<Longrightarrow> length (ellipsis limit keep s) \<le> limit"
  by (simp add: ellipsis_def)

lemma rune_count_cut [simp]: "rune_count (cut_runes n s) \<le> n"
  by (simp add: rune_count_def cut_runes_length)

lemmas setter_defs = setPublisherInfo_def setCertificateInfo_def setLicense_def setSourceMetadata_def setFee_def
  setFrame_def setAudioDuration_def setClaimList_def setCover_def setCollectionMetadata_def setRepost_def
  setVersion_def set_texts_def set_if_def Let_def

text \<open>Each setter keeps the identity, and the widths it does not set itself.\<close>

lemma setter_ident [simp]:
  "ident (setSourceMetadata s c) = ident c" "ident (setLicense st c) = ident c" "ident (setFee E st c) = ident c"
  "ident (setFrame x y c) = ident c" "ident (setAudioDuration a c) = ident c" "ident (setCover s c) = ident c"
  "ident (setClaimList l c) = ident c" "ident (setCollectionMetadata l c) = ident c" "ident (setRepost b c) = ident c"
  "ident (setPublisherInfo h c) = ident c" "ident (setCertificateInfo E h c) = ident c" "ident (setVersion h c) = ident c"
  "ident (set_texts p c) = ident c" "ident (resetColumns c) = ident c" "ident (setSourceInfo h c) = ident c"
  "ident (set_ValueAsJSON E c) = ident c" "ident (set_ClaimType h c) = ident c"
  by (auto simp: ident_def setter_defs resetColumns_def setSourceInfo_def set_ValueAsJSON_def set_ClaimType_def
      split: option.splits sum.splits)

lemma setter_columns [simp]:
  "fits_columns c \<Longrightarrow> fits_columns (setSourceMetadata s c)" "fits_columns c \<Longrightarrow> fits_columns (setLicense st c)"
  "fits_columns (setFee E st c) = fits_columns c" "fits_columns (setFrame x y c) = fits_columns c"
  "fits_columns (setAudioDuration a c) = fits_columns c" "fits_columns c \<Longrightarrow> fits_columns (setCover s c)"
  "fits_columns (setClaimList l c) = fits_columns c" "fits_columns (setCollectionMetadata l c) = fits_columns c"
  "fits_columns (setRepost b c) = fits_columns c" "fits_columns (setPublisherInfo h c) = fits_columns c"
  "fits_columns (setCertificateInfo E h c) = fits_columns c" "fits_columns (setVersion h c) = fits_columns c"
  "fits_columns (set_texts p c) = fits_columns c" "fits_columns (resetColumns c)"
  by (auto simp: fits_columns_def setter_defs resetColumns_def ellipsis_length split: option.splits)

lemma setter_source [simp]:
  "fits_source (setSourceMetadata s c) = fits_source c" "fits_source (setLicense st c) = fits_source c"
  "fits_source (setFee E st c) = fits_source c" "fits_source (setFrame x y c) = fits_source c"
  "fits_source (setAudioDuration a c) = fits_source c" "fits_source (setCover s c) = fits_source c"
  "fits_source (setClaimList l c) = fits_source c" "fits_source (setCollectionMetadata l c) = fits_source c"
  "fits_source (setRepost b c) = fits_source c" "fits_source (setPublisherInfo h c) = fits_source c"
  "fits_source (setCertificateInfo E h c) = fits_source c" "fits_source (setVersion h c) = fits_source c"
  "fits_source (set_texts p c) = fits_source c" "fits_source (resetColumns c) = fits_source c"
  "fits_source (setSourceInfo h c)"
  by (auto simp: fits_source_def setter_defs resetColumns_def setSourceInfo_def ellipsis_length split: option.splits)

lemma setter_set_if:
  "ident c = ident c' \<Longrightarrow> ident (f c') = ident c' \<Longrightarrow> ident (set_if b f c') = ident c"
  by (simp add: set_if_def)

lemma stream_columns [simp]:
  "ident (setStreamMetadata E s c) = ident c"
  "fits_columns c \<Longrightarrow> fits_columns (setStreamMetadata E s c)"
  "fits_source (setStreamMetadata E s c) = fits_source c"
proof -
  have upd: "ident (c\<lparr>c_Type := x\<rparr>) = ident c" "ident (c\<lparr>c_Author := x\<rparr>) = ident c"
    "ident (c\<lparr>c_ReleaseTime := y\<rparr>) = ident c" "ident (c\<lparr>c_Duration := y\<rparr>) = ident c"
    "fits_columns (c\<lparr>c_Type := x\<rparr>) = fits_columns c" "fits_columns (c\<lparr>c_Author := x\<rparr>) = fits_columns c"
    "fits_columns (c\<lparr>c_ReleaseTime := y\<rparr>) = fits_columns c" "fits_columns (c\<lparr>c_Duration := y\<rparr>) = fits_columns c"
    "fits_source (c\<lparr>c_Type := x\<rparr>) = fits_source c" "fits_source (c\<lparr>c_Author := x\<rparr>) = fits_source c"
    "fits_source (c\<lparr>c_ReleaseTime := y\<rparr>) = fits_source c" "fits_source (c\<lparr>c_Duration := y\<rparr>) = fits_source c" for c x y
    by (simp_all add: ident_def fits_columns_def fits_source_def)
  show "ident (setStreamMetadata E s c) = ident c" "fits_columns c \<Longrightarrow> fits_columns (setStreamMetadata E s c)"
    "fits_source (setStreamMetadata E s c) = fits_source c"
    by (simp_all add: setStreamMetadata_def Let_def set_if_def upd split: option.split)
qed

lemma channel_columns [simp]:
  "ident (setChannelMetadata s c) = ident c"
  "fits_columns c \<Longrightarrow> fits_columns (setChannelMetadata s c)"
  "fits_source (setChannelMetadata s c) = fits_source c"
proof -
  have upd: "ident (c\<lparr>c_Type := x\<rparr>) = ident c" "ident (c\<lparr>c_Email := x\<rparr>) = ident c"
    "fits_columns (c\<lparr>c_Type := x\<rparr>) = fits_columns c" "fits_source (c\<lparr>c_Type := x\<rparr>) = fits_source c"
    "fits_source (c\<lparr>c_Email := x\<rparr>) = fits_source c"
    "fits_columns c \<Longrightarrow> fits_columns (c\<lparr>c_Email := Some (ellipsis 255 252 z)\<rparr>)" for c x z
    by (simp_all add: ident_def fits_columns_def fits_source_def ellipsis_length)
  show "ident (setChannelMetadata s c) = ident c" "fits_columns c \<Longrightarrow> fits_columns (setChannelMetadata s c)"
    "fits_source (setChannelMetadata s c) = fits_source c"
    by (simp_all add: setChannelMetadata_def Let_def set_if_def upd split: option.split)
qed

lemma set_kind_columns [simp]:
  "ident (set_kind E h p c) = ident c" "fits_columns c \<Longrightarrow> fits_columns (set_kind E h p c)"
  "fits_source (set_kind E h p c) = fits_source c"
proof -
  have upd: "ident (c\<lparr>c_Language := x\<rparr>) = ident c" "fits_columns (c\<lparr>c_Language := x\<rparr>) = fits_columns c"
    "fits_source (c\<lparr>c_Language := x\<rparr>) = fits_source c" for c x
    by (simp_all add: ident_def fits_columns_def fits_source_def)
  show "ident (set_kind E h p c) = ident c" "fits_columns c \<Longrightarrow> fits_columns (set_kind E h p c)"
    "fits_source (set_kind E h p c) = fits_source c"
    by (simp_all add: set_kind_def Let_def upd split: option.split list.split)
qed


section \<open>Copying a decoded claim\<close>

lemma nsfw_columns [simp]:
  "ident (c\<lparr>c_IsNSFW := b\<rparr>) = ident c" "fits_columns (c\<lparr>c_IsNSFW := b\<rparr>) = fits_columns c"
  "fits_source (c\<lparr>c_IsNSFW := b\<rparr>) = fits_source c"
  by (simp_all add: ident_def fits_columns_def fits_source_def)

lemma post_bind_any: "(\<And>x v. post (f x) v Q) \<Longrightarrow> post (bind m f) w Q"
  by (auto simp: post_def bind_Ok_iff)

lemma setTags_post:
  "post (setTags ts c) w (\<lambda>c' _. ident c' = ident c \<and> fits_columns c' = fits_columns c \<and> fits_source c' = fits_source c)"
proof (induction ts arbitrary: c w)
  case Nil
  show ?case unfolding setTags.simps by (intro post_ret) simp
next
  case (Cons t ts)
  have nsfw: "ident (set_if b (\<lambda>c. c\<lparr>c_IsNSFW := True\<rparr>) c) = ident c \<and>
      fits_columns (set_if b (\<lambda>c. c\<lparr>c_IsNSFW := True\<rparr>) c) = fits_columns c \<and>
      fits_source (set_if b (\<lambda>c. c\<lparr>c_IsNSFW := True\<rparr>) c) = fits_source c" for b
    by (simp add: set_if_def)
  have step: "post (setTags ts (set_if b (\<lambda>c. c\<lparr>c_IsNSFW := True\<rparr>) c)) v
      (\<lambda>c' _. ident c' = ident c \<and> fits_columns c' = fits_columns c \<and> fits_source c' = fits_source c)" for b v
    using Cons.IH [of "set_if b (\<lambda>c. c\<lparr>c_IsNSFW := True\<rparr>) c" v] nsfw [of b] by simp
  show ?case
    unfolding setTags.simps Let_def
    by (intro post_bind_any post_case_sum post_case_option post_cond post_ret post_lift nsfw step) simp
qed

lemma UpdateClaimData_post:
  "post (UpdateClaimData E h c) w (\<lambda>c' _. ident c' = ident c \<and> fits_columns c' \<and> fits_source c')"
proof (rule postI)
  fix c' w'
  assume run: "UpdateClaimData E h c w = (Ok c', w')"
  let ?c0 = "setSourceInfo h (set_ValueAsJSON E c)" and ?p = "case sh_Claim h of Some c \<Rightarrow> c | None \<Rightarrow> zero_pbClaim"
  obtain c1 w1 c2 w2 where r: "resetMetadata ?c0 w = (Ok c1, w1)" and t: "setTags (pc_Tags ?p) (set_texts ?p c1) w1 = (Ok c2, w2)"
    and c': "c' = setVersion h (setCertificateInfo E h (setPublisherInfo h (set_kind E h ?p c2)))"
    using run by (auto simp: UpdateClaimData_def setMetaDataInfo_def Let_def bind_Ok_iff)
  have c1: "c1 = resetColumns ?c0" using r by (auto simp: resetMetadata_def bind_Ok_iff)
  note tags = postD [OF setTags_post t]
  show "ident c' = ident c \<and> fits_columns c' \<and> fits_source c'"
    using tags by (simp add: c' c1)
qed

text \<open>C37: Whatever a claim contains, the columns copied from it fit the widths the program cuts them to, and the
  row keeps its identity: its key, claim id, name, outpoint and bid state.\<close>

theorem UpdateClaimData_fits:
  assumes "UpdateClaimData E helper claim w = (Ok claim', w')"
  shows "fits_columns claim' \<and> fits_source claim' \<and> ident claim' = ident claim"
  using postD [OF UpdateClaimData_post assms] by simp


definition demo_env :: env where
  "demo_env = \<lparr>ext = demo_ext, chainName = ''lbrycrd_main'', decodeClaimBytes = (\<lambda>_ _. Inl EOF),
     decodeClaimHex = (\<lambda>_ _. Inl EOF), decodeSupportBytes = (\<lambda>_ _. Inl EOF), encodeBase58 = (\<lambda>_. ''''),
     marshalCertificate = (\<lambda>_. Inl EOF)\<rparr>"

definition demo_helper :: StakeHelper where
  "demo_helper = \<lparr>sh_Claim = Some (zero_pbClaim\<lparr>pc_Title := ''t'', pc_Tags := [''mature'']\<rparr>),
     sh_Stream = Some \<lparr>st_Author = ''me'', st_License = ''MIT'', st_LicenseUrl = '''', st_Fee = None,
       st_Source = Some \<lparr>src_Hash = [1], src_Name = ''f'', src_Size = 3, src_MediaType = ''video/mp4'',
         src_Url = replicate 300 CHR ''u'', src_SdHash = [2]\<rparr>,
       st_ReleaseTime = 0, st_Image = None, st_Video = None, st_Audio = None\<rparr>,
     sh_LegacyClaim = None, sh_ClaimID = [], sh_Signature = None\<rparr>"

theorem UpdateClaimData_fits_witness:
  "\<exists>c' w'. UpdateClaimData demo_env demo_helper (zeroClaim\<lparr>c_ClaimID := ''ab''\<rparr>) demo_world = (Ok c', w') \<and>
     fits_columns c' \<and> c_ClaimID c' = ''ab''"
proof -
  let ?r = "UpdateClaimData demo_env demo_helper (zeroClaim\<lparr>c_ClaimID := ''ab''\<rparr>) demo_world"
  have "is_ok (fst ?r)" by code_simp
  then obtain c' w' where r: "?r = (Ok c', w')" by (cases ?r; cases "fst ?r") auto
  from UpdateClaimData_fits [OF r] show ?thesis
    using r by (auto simp: ident_def)
qed

end
