(* ===== verification/Transactions_Spec.thy ===== *)
theory Transactions_Spec
  imports Transactions Claims_Spec
begin

text \<open>
  What processing a transaction guarantees: when it succeeds, the transaction has exactly the input
  and output rows that the completeness check of its block counts, for every order in which the
  workers finish and every pattern of database errors, also when an earlier attempt left part of the
  rows behind; a spent output points to the input that spends it; the address list an output is
  stored with is the one its spender reads; an aborted block leaves no output marked as spent.
\<close>

section \<open>What the handlers may change\<close>

locale claim_relation = db_relation +
  assumes claims_change: "R w (w\<lparr>claims := t1\<rparr>)" and supports_change: "R w (w\<lparr>supports := t2\<rparr>)"
    and tags_change: "R w (w\<lparr>tags := t3\<rparr>)" and claimTags_change: "R w (w\<lparr>claimTags := t4\<rparr>)"
    and claimsInList_change: "R w (w\<lparr>claimsInList := t5\<rparr>)"
    and abnormalClaims_change: "R w (w\<lparr>abnormalClaims := t6\<rparr>)" and purchases_change: "R w (w\<lparr>purchases := t7\<rparr>)"
begin

lemmas claim_puts = PutClaim [OF claims_change] PutSupport [OF supports_change] PutTag [OF tags_change]
  PutClaimTag [OF claimTags_change] PutPurchase [OF purchases_change]

lemma resetMetadata: "within R (resetMetadata c)"
  unfolding resetMetadata_def by (intro rules stmt) (simp_all add: claimsInList_change claimTags_change)

lemma setTags: "within R (setTags ts c)"
proof (induction ts arbitrary: c)
  case Nil
  show ?case unfolding setTags.simps by (rule ret)
next
  case (Cons t ts)
  show ?case unfolding setTags.simps by (intro rules claim_puts getters Cons.IH)
qed

lemma UpdateClaimData: "within R (UpdateClaimData E h c)"
  unfolding UpdateClaimData_def setMetaDataInfo_def by (intro rules resetMetadata setTags)

lemma processClaim: "within R (processClaim E h c v)"
  unfolding processClaim_def by (rule UpdateClaimData)

lemma processUpdateClaim: "within R (processUpdateClaim E h c v)"
  unfolding processUpdateClaim_def by (intro rules UpdateClaimData)

lemma saveUnknownClaim: "within R (saveUnknownClaim n c u v vout tx)"
  unfolding saveUnknownClaim_def AbnormalClaim_InsertG_def by (intro rules change abnormalClaims_change)

lemma processClaimNameScript: "within R (processClaimNameScript E s vout tx h)"
  unfolding processClaimNameScript_def of_outcome_def getOrCreateClaim_def
  by (intro rules claim_puts getters saveUnknownClaim processClaim)

lemma processClaimSupportScript: "within R (processClaimSupportScript E s vout tx)"
  unfolding processClaimSupportScript_def processSupport_def of_outcome_def
  by (intro rules claim_puts getters)

lemma processClaimUpdateScript: "within R (processClaimUpdateScript E s vout tx h)"
  unfolding processClaimUpdateScript_def of_outcome_def
  by (intro rules claim_puts getters saveUnknownClaim processUpdateClaim)

lemma processAsClaim: "within R (processAsClaim E s vout tx h)"
  unfolding processAsClaim_def
  by (intro rules processClaimNameScript processClaimSupportScript processClaimUpdateScript)

lemma processScriptForClaim: "within R (processScriptForClaim E vout tx h)"
  unfolding processScriptForClaim_def by (intro rules processAsClaim)

lemma processNullDataVout: "within R (processNullDataVout E tx vout h)"
  unfolding processNullDataVout_def processPurchaseVout_def by (intro rules claim_puts getters)

end

locale address_relation = db_relation +
  assumes addresses_change: "R w (w\<lparr>addresses := t1\<rparr>)" and txAddresses_change: "R w (w\<lparr>txAddresses := t2\<rparr>)"
begin

lemmas address_puts = PutAddress [OF addresses_change] PutTxAddress [OF txAddresses_change]

lemma createTxAddressIfNotExist: "within R (createTxAddressIfNotExist t a)"
  unfolding createTxAddressIfNotExist_def by (intro rules address_puts getters)

lemma createUpdateVoutAddresses: "within R (createUpdateVoutAddresses E tx outs s)"
  unfolding createUpdateVoutAddresses_def voutAddress_def
  by (intro rules address_puts createTxAddressIfNotExist)

lemma createUpdateVinAddresses: "within R (createUpdateVinAddresses E tx ins)"
  unfolding createUpdateVinAddresses_def vinAddress_def
  by (intro rules address_puts getters createTxAddressIfNotExist)

lemma setSendReceive: "within R (setSendReceive sch tx dc)"
  unfolding setSendReceive_def by (intro rules address_puts getters)

lemma inputAddress: "within R (inputAddress E src)"
  unfolding inputAddress_def by (intro rules getters)

end


section \<open>Frames\<close>

text \<open>Programs that leave one table alone, whatever they do to the others.\<close>

definition same_outputs :: "world \<Rightarrow> world \<Rightarrow> bool" where
  "same_outputs w w' \<longleftrightarrow> outputs w' = outputs w \<and> fault w' = fault w"

definition same_inputs :: "world \<Rightarrow> world \<Rightarrow> bool" where
  "same_inputs w w' \<longleftrightarrow> inputs w' = inputs w \<and> fault w' = fault w"

definition same_transactions :: "world \<Rightarrow> world \<Rightarrow> bool" where
  "same_transactions w w' \<longleftrightarrow> transactions w' = transactions w \<and> fault w' = fault w"

interpretation outC: claim_relation same_outputs by unfold_locales (auto simp: same_outputs_def)
interpretation outA: address_relation same_outputs by unfold_locales (auto simp: same_outputs_def)
interpretation inC: claim_relation same_inputs by unfold_locales (auto simp: same_inputs_def)
interpretation inA: address_relation same_inputs by unfold_locales (auto simp: same_inputs_def)
interpretation txC: claim_relation same_transactions by unfold_locales (auto simp: same_transactions_def)
interpretation txA: address_relation same_transactions by unfold_locales (auto simp: same_transactions_def)

lemma honest_fault: "fault w' = fault w \<Longrightarrow> honest_faults w' = honest_faults w"
  by (simp add: honest_faults_def)

section \<open>Jobs\<close>

text \<open>A run of the workers that reports success has completed every job.\<close>

lemma runJobs_failed: "runJobs label f js s (Some e) w \<noteq> (Ok s', w')"
proof (induction js arbitrary: s w)
  case (Cons j js)
  show ?case
  proof
    assume "runJobs label f (j # js) s (Some e) w = (Ok s', w')"
    then obtain r v where "attempt (f j s) w = (Ok r, v)" and "(case r of Inr s'' \<Rightarrow> runJobs label f js s'' (Some e)
        | Inl e' \<Rightarrow> runJobs label f js s (Some e)) v = (Ok s', w')"
      by (simp only: runJobs.simps bind_Ok_iff option.case) blast
    then show False using Cons.IH by (cases r) simp_all
  qed
qed simp

lemma attempt_Ok_iff: "attempt m w = (Ok r, w') \<longleftrightarrow>
    (case r of Inr x \<Rightarrow> m w = (Ok x, w') | Inl e \<Rightarrow> m w = (Err e, w'))"
  by (auto simp: attempt_def split: prod.splits outcome.splits sum.splits)

lemma runJobs_Ok:
  assumes "runJobs label f js s None w = (Ok s', w')" and "P D w"
    and "\<And>j s u s'' v D. j \<in> set js \<Longrightarrow> P D u \<Longrightarrow> f j s u = (Ok s'', v) \<Longrightarrow> P (insert j D) v"
  shows "P (D \<union> set js) w'"
  using assms
proof (induction js arbitrary: s w D)
  case (Cons j js)
  then obtain r v where a: "attempt (f j s) w = (Ok r, v)"
    and k: "(case r of Inr s'' \<Rightarrow> runJobs label f js s'' None
        | Inl e \<Rightarrow> runJobs label f js s (Some (Prefixed label e))) v = (Ok s', w')"
    by (simp only: runJobs.simps bind_Ok_iff option.case) blast
  have "r \<noteq> Inl e" for e using k runJobs_failed [of label f js s _ v s' w'] by auto
  then obtain s'' where r: "r = Inr s''" by (cases r) blast+
  have "P (insert j D) v" using Cons.prems(2,3) a r by (auto simp: attempt_Ok_iff)
  then have "P (insert j D \<union> set js) w'"
    using Cons.prems(3) k r by (intro Cons.IH [where s = s'' and w = v]) auto
  then show ?case by simp
qed simp

section \<open>Output rows of a transaction\<close>

definition vouts_of :: "string \<Rightarrow> world \<Rightarrow> nat set" where
  "vouts_of h w = o_Vout ` {x \<in> set (rows (outputs w)). o_TransactionHash x = h}"

definition outs_ok :: "world \<Rightarrow> bool" where
  "outs_ok w \<longleftrightarrow> honest_faults w \<and> outputT.wf_table (outputs w)"

lemma outs_ok_same: "same_outputs w w' \<Longrightarrow> outs_ok w' = outs_ok w \<and> vouts_of h w' = vouts_of h w"
  by (simp add: same_outputs_def outs_ok_def vouts_of_def honest_faults_def)

text \<open>The columns of a spend and all columns are updates of the row found at the outpoint.\<close>

definition output_cols :: "columns \<Rightarrow> Output \<Rightarrow> Output \<Rightarrow> Output" where
  "output_cols cols r x = (case cols of
     Infer \<Rightarrow> r\<lparr>o_CreatedAt := o_CreatedAt x\<rparr>
   | WhitelistSpent \<Rightarrow> x\<lparr>o_IsSpent := o_IsSpent r, o_SpentByInputID := o_SpentByInputID r\<rparr>)"

lemma change_Ok:
  assumes "change sel upd f w = (Ok x, w')"
  obtains t where "f (sel (tick w)) = Ok (x, t)" and "w' = upd t (tick w)"
  using assms by (auto simp: change_def stmt_def Let_def split: option.splits outcome.splits prod.splits)

lemma Output_UpdateCols_Ok:
  assumes "Output_UpdateCols cols r w = (Ok (), w')"
  shows "fault w' = fault w" and "t_update o_ID output_clash (o_ID r) (output_cols cols r) (outputs w) = Ok (outputs w')"
proof -
  have u: "Output_UpdateCols cols r = change outputs (\<lambda>t w. w\<lparr>outputs := t\<rparr>)
      (\<lambda>t. andThen (t_update o_ID output_clash (o_ID r) (output_cols cols r) t) (\<lambda>t. Ok ((), t)))"
    by (cases cols) (simp_all add: Output_UpdateCols_def Output_UpdateG_def Output_UpdateSpentG_def output_cols_def [abs_def])
  show "fault w' = fault w" and "t_update o_ID output_clash (o_ID r) (output_cols cols r) (outputs w) = Ok (outputs w')"
    using assms unfolding u by (auto elim!: change_Ok simp: outcome_simps)
qed

lemma Output_InsertG_Ok:
  assumes "Output_InsertG r w = (Ok r', w')"
  shows "fault w' = fault w" and "t_insert o_ID (\<lambda>k r. r\<lparr>o_ID := k\<rparr>) output_clash r (outputs w) = Ok (r', outputs w')"
  using assms unfolding Output_InsertG_def by (auto elim!: change_Ok)

lemma PutOutput_Ok:
  assumes "honest_faults w" and "PutOutput r cols w = (Ok r', w')"
  obtains (update) x where "first_row (output_at (o_TransactionHash r) (o_Vout r)) (outputs w) = Some x"
    and "r' = r\<lparr>o_ID := o_ID x\<rparr>" and "fault w' = fault w"
    and "t_update o_ID output_clash (o_ID x) (output_cols cols r') (outputs w) = Ok (outputs w')"
  | (insert) "first_row (output_at (o_TransactionHash r) (o_Vout r)) (outputs w) = None" and "fault w' = fault w"
    and "t_insert o_ID (\<lambda>k r. r\<lparr>o_ID := k\<rparr>) output_clash r (outputs w) = Ok (r', outputs w')"
proof -
  let ?sel = "\<lambda>w. first_row (output_at (o_TransactionHash r) (o_Vout r)) (outputs w)"
  obtain e v where f: "found (oneG ?sel) w = (Ok e, v)"
    and k: "(case e of Some x \<Rightarrow> let output' = r\<lparr>o_ID := o_ID x\<rparr> in
        bind (Output_UpdateCols cols output') (\<lambda>_. ret output') | None \<Rightarrow> Output_InsertG r) v = (Ok r', w')"
    using assms(2) unfolding PutOutput_def prefix_Ok bind_Ok_iff by blast
  have e: "v = tick w" "e = ?sel w"
    using found_oneG(1) [OF f] found_oneG(2) [OF f assms(1) refl] by simp_all
  show ?thesis
  proof (cases e)
    case None
    then show ?thesis using k e insert Output_InsertG_Ok [of r v r' w'] by auto
  next
    case (Some x)
    then have "Output_UpdateCols cols r' v = (Ok (), w')" "r' = r\<lparr>o_ID := o_ID x\<rparr>"
      using k by (auto simp: Let_def bind_Ok_iff)
    moreover from this have "fault w' = fault w"
        "t_update o_ID output_clash (o_ID x) (output_cols cols r') (outputs w) = Ok (outputs w')"
      using Output_UpdateCols_Ok [of cols r' v w'] e by auto
    ultimately show ?thesis using e(2) Some by (intro update [of x]) simp_all
  qed
qed

lemma image_filter_cong:
  assumes "\<And>y. y \<in> A \<Longrightarrow> P (g y) = P y \<and> f (g y) = f y"
  shows "f ` {x \<in> g ` A. P x} = f ` {x \<in> A. P x}"
  using assms by (force simp: image_iff)

lemma output_cols_key:
  assumes "o_TransactionHash x = o_TransactionHash r" and "o_Vout x = o_Vout r" and "o_ID r = o_ID x"
  shows "o_TransactionHash (output_cols cols r x) = o_TransactionHash r" "o_Vout (output_cols cols r x) = o_Vout r"
    "o_ID (output_cols cols r x) = o_ID x"
  using assms by (cases cols; simp add: output_cols_def)+

text \<open>Storing an output adds its index to the rows of its transaction and touches no other outpoint.\<close>

lemma PutOutput_vouts:
  assumes "outs_ok w" and "PutOutput r cols w = (Ok r', w')"
  shows "outs_ok w'" and "vouts_of h w' = vouts_of h w \<union> (if h = o_TransactionHash r then {o_Vout r} else {})"
    and "fault w' = fault w"
proof -
  have hf: "honest_faults w" and wf: "outputT.wf_table (outputs w)" using assms(1) by (simp_all add: outs_ok_def)
  have "outs_ok w' \<and> fault w' = fault w \<and>
      vouts_of h w' = vouts_of h w \<union> (if h = o_TransactionHash r then {o_Vout r} else {})"
    using hf assms(2)
  proof (cases rule: PutOutput_Ok)
    case (update x)
    have x: "x \<in> set (rows (outputs w))" "o_TransactionHash x = o_TransactionHash r" "o_Vout x = o_Vout r"
      using update(1) by (auto simp: first_row_def find_Some_iff output_at_def)
    have only: "y = x" if "y \<in> set (rows (outputs w))" "o_ID y = o_ID x" for y
      using that x wf by (auto simp: outputT.wf_table_def distinct_map inj_on_def)
    have key: "o_TransactionHash (output_cols cols r' x) = o_TransactionHash x" "o_Vout (output_cols cols r' x) = o_Vout x"
      "o_ID (output_cols cols r' x) = o_ID x"
      using output_cols_key [of x r' cols] x by (simp_all add: update(2))
    have rows: "rows (outputs w') = map (\<lambda>y. if o_ID y = o_ID x then output_cols cols r' y else y) (rows (outputs w))"
      by (rule t_update_rows [OF update(4)])
    have "vouts_of h w' = vouts_of h w"
      unfolding vouts_of_def rows set_map
    proof (rule image_filter_cong)
      fix y assume "y \<in> set (rows (outputs w))"
      then show "(o_TransactionHash (if o_ID y = o_ID x then output_cols cols r' y else y) = h) =
          (o_TransactionHash y = h) \<and> o_Vout (if o_ID y = o_ID x then output_cols cols r' y else y) = o_Vout y"
        using only [of y] key by (cases "o_ID y = o_ID x") simp_all
    qed
    moreover have "o_Vout r \<in> vouts_of (o_TransactionHash r) w" unfolding vouts_of_def using x by (intro image_eqI [where x = x]) simp_all
    moreover have "outputT.wf_table (outputs w')"
      using only key(3) by (intro outputT.wf_update [OF wf update(4)]) auto
    ultimately show ?thesis using hf update(3) by (auto simp: outs_ok_def honest_faults_def)
  next
    case insert
    have "outputT.wf_table (outputs w')" by (rule outputT.wf_insert [OF wf insert(3)])
    moreover have "rows (outputs w') = rows (outputs w) @ [r']" by (rule outputT.insert_row [OF insert(3)])
    moreover have "o_TransactionHash r' = o_TransactionHash r" "o_Vout r' = o_Vout r"
      using insert(3) by (auto simp: t_insert_def Let_def split: if_splits)
    ultimately show ?thesis
      using hf insert(2) by (auto simp: outs_ok_def honest_faults_def vouts_of_def intro: rev_image_eqI [of r'])
  qed
  then show "outs_ok w'" and "vouts_of h w' = vouts_of h w \<union> (if h = o_TransactionHash r then {o_Vout r} else {})"
    and "fault w' = fault w" by auto
qed

text \<open>The number of output rows of a transaction is the number of their indices.\<close>

lemma count_vouts:
  assumes "outs_ok w"
  shows "length (filter (\<lambda>x. o_TransactionHash x = h) (rows (outputs w))) = card (vouts_of h w)"
proof -
  let ?rs = "filter (\<lambda>x. o_TransactionHash x = h) (rows (outputs w))"
  have wf: "outputT.wf_table (outputs w)" using assms by (simp add: outs_ok_def)
  have "inj_on o_Vout (set ?rs)"
  proof (rule inj_onI)
    fix x y assume "x \<in> set ?rs" "y \<in> set ?rs" and v: "o_Vout x = o_Vout y"
    then have xy: "x \<in> set (rows (outputs w))" "y \<in> set (rows (outputs w))" "output_clash x y"
      by (simp_all add: output_clash_def)
    then have "o_ID x = o_ID y" using wf unfolding outputT.wf_table_def by blast
    then show "x = y" using xy wf by (auto simp: outputT.wf_table_def distinct_map inj_on_def)
  qed
  moreover have "distinct ?rs" using wf by (auto simp: outputT.wf_table_def distinct_map)
  ultimately show ?thesis by (simp add: vouts_of_def card_image distinct_card flip: set_filter)
qed


section \<open>Input rows of a transaction\<close>

text \<open>What identifies an input within its transaction, as \<^verbatim>\<open>PutInput\<close> looks it up.\<close>

definition in_key :: "Input \<Rightarrow> bool \<times> string option \<times> nat option" where
  "in_key x = (i_IsCoinbase x, i_PrevoutHash x, i_PrevoutN x)"

definition inkeys :: "string \<Rightarrow> world \<Rightarrow> (bool \<times> string option \<times> nat option) list" where
  "inkeys h w = map in_key (filter (\<lambda>x. i_TransactionHash x = h) (rows (inputs w)))"

definition ins_ok :: "world \<Rightarrow> bool" where
  "ins_ok w \<longleftrightarrow> inputT.wf_table (inputs w) \<and> (\<forall>x\<in>set (rows (inputs w)). i_IsCoinbase x \<longrightarrow> i_PrevoutHash x = None)"

lemma ins_ok_same: "same_inputs w w' \<Longrightarrow> ins_ok w' = ins_ok w \<and> inkeys h w' = inkeys h w"
  by (simp add: same_inputs_def ins_ok_def inkeys_def)

definition input_fits :: "Input \<Rightarrow> world \<Rightarrow> bool" where
  "input_fits r w \<longleftrightarrow> (i_IsCoinbase r \<longrightarrow> i_PrevoutHash r = None) \<and>
     (i_ID r = 0 \<or> (\<exists>x\<in>set (rows (inputs w)). i_ID x = i_ID r \<and> i_TransactionHash x = i_TransactionHash r \<and>
        in_key x = in_key r))"

lemma PutInput_Ok:
  assumes "PutInput r w = (Ok r', w')"
  obtains (update) m where "in_key r \<in> set (inkeys (i_TransactionHash r) w)" and "r' = r\<lparr>i_Modified := m\<rparr>"
    and "fault w' = fault w" and "t_update i_ID input_clash (i_ID r) (\<lambda>_. r') (inputs w) = Ok (inputs w')"
  | (insert) "in_key r \<notin> set (inkeys (i_TransactionHash r) w)" and "fault w' = fault w"
    and "t_insert i_ID (\<lambda>k r. r\<lparr>i_ID := k\<rparr>) input_clash r (inputs w) = Ok (r', inputs w')"
proof -
  let ?sel = "\<lambda>w. first_row (\<lambda>x. i_TransactionHash x = i_TransactionHash r \<and> i_IsCoinbase x = i_IsCoinbase r \<and>
     i_PrevoutHash x = i_PrevoutHash r \<and> i_PrevoutN x = i_PrevoutN r) (inputs w) \<noteq> None"
  obtain e v where q: "query ?sel w = (Ok e, v)"
    and k: "(if e then (\<lambda>w. bind (Input_UpdateG (r\<lparr>i_Modified := clock w\<rparr>)) (\<lambda>_. ret (r\<lparr>i_Modified := clock w\<rparr>)) w)
        else Input_InsertG r) v = (Ok r', w')"
    using assms unfolding PutInput_def prefix_Ok bind_Ok_iff by blast
  have v: "v = tick w" "e = ?sel w" using q by (auto simp: query_def stmt_def Let_def split: option.splits)
  have e: "e \<longleftrightarrow> in_key r \<in> set (inkeys (i_TransactionHash r) w)"
    unfolding v(2) first_row_None by (auto simp: in_key_def inkeys_def)
  show ?thesis
  proof (cases e)
    case True
    then have "Input_UpdateG r' v = (Ok (), w')" "r' = r\<lparr>i_Modified := clock v\<rparr>"
      using k by (auto simp: bind_Ok_iff)
    moreover from this have "fault w' = fault w" "t_update i_ID input_clash (i_ID r) (\<lambda>_. r') (inputs w) = Ok (inputs w')"
      unfolding Input_UpdateG_def v by (auto elim!: change_Ok simp: outcome_simps)
    ultimately show ?thesis using True e by (intro update) auto
  next
    case False
    then have "Input_InsertG r v = (Ok r', w')" using k by simp
    then have "fault w' = fault w" "t_insert i_ID (\<lambda>k r. r\<lparr>i_ID := k\<rparr>) input_clash r (inputs w) = Ok (r', inputs w')"
      unfolding Input_InsertG_def v by (auto elim!: change_Ok)
    then show ?thesis using False e by (intro insert) auto
  qed
qed

text \<open>Storing an input adds its key to the rows of its transaction unless it is there already.\<close>

lemma PutInput_keys:
  assumes "ins_ok w" and "input_fits r w" and "PutInput r w = (Ok r', w')"
  shows "ins_ok w'" and "fault w' = fault w" and "inkeys (i_TransactionHash r) w' =
    (if in_key r \<in> set (inkeys (i_TransactionHash r) w) then inkeys (i_TransactionHash r) w
     else inkeys (i_TransactionHash r) w @ [in_key r])"
proof -
  have wf: "inputT.wf_table (inputs w)" using assms(1) by (simp add: ins_ok_def)
  have "ins_ok w' \<and> fault w' = fault w \<and> inkeys (i_TransactionHash r) w' =
    (if in_key r \<in> set (inkeys (i_TransactionHash r) w) then inkeys (i_TransactionHash r) w
     else inkeys (i_TransactionHash r) w @ [in_key r])"
    using assms(3)
  proof (cases rule: PutInput_Ok)
    case (update m)
    have same: "i_TransactionHash y = i_TransactionHash r \<and> in_key y = in_key r"
      if y: "y \<in> set (rows (inputs w))" "i_ID y = i_ID r" for y
    proof -
      have "0 < i_ID y" using wf y(1) by (auto simp: inputT.wf_table_def)
      then obtain x where x: "x \<in> set (rows (inputs w))" "i_ID x = i_ID r"
          "i_TransactionHash x = i_TransactionHash r" "in_key x = in_key r"
        using assms(2) y(2) by (auto simp: input_fits_def)
      have "y = x" using y x(1,2) wf by (auto simp: inputT.wf_table_def distinct_map inj_on_def)
      then show ?thesis using x by simp
    qed
    have rows: "rows (inputs w') = map (\<lambda>x. if i_ID x = i_ID r then r' else x) (rows (inputs w))"
      by (rule t_update_rows [OF update(4)])
    have key: "i_TransactionHash r' = i_TransactionHash r" "in_key r' = in_key r" "i_ID r' = i_ID r"
      by (simp_all add: update(2) in_key_def)
    have "inkeys (i_TransactionHash r) w' = inkeys (i_TransactionHash r) w"
      unfolding inkeys_def rows filter_map map_map comp_def
    proof (rule map_cong)
      show "filter (\<lambda>x. i_TransactionHash (if i_ID x = i_ID r then r' else x) = i_TransactionHash r) (rows (inputs w)) =
          filter (\<lambda>x. i_TransactionHash x = i_TransactionHash r) (rows (inputs w))"
        by (rule filter_cong [OF refl]) (simp add: key same)
      show "in_key (if i_ID x = i_ID r then r' else x) = in_key x"
        if "x \<in> set (filter (\<lambda>x. i_TransactionHash x = i_TransactionHash r) (rows (inputs w)))" for x
        using that same [of x] key by simp
    qed
    moreover have "inputT.wf_table (inputs w')"
      by (rule inputT.wf_update [OF wf update(4)]) (simp add: key)
    moreover have "i_IsCoinbase x \<longrightarrow> i_PrevoutHash x = None" if "x \<in> set (rows (inputs w'))" for x
      using that assms(1,2) by (auto simp: rows ins_ok_def input_fits_def update(2) split: if_splits)
    ultimately show ?thesis using update(1,3) by (simp add: ins_ok_def)
  next
    case insert
    have "inputT.wf_table (inputs w')" by (rule inputT.wf_insert [OF wf insert(3)])
    moreover have "rows (inputs w') = rows (inputs w) @ [r']" by (rule inputT.insert_row [OF insert(3)])
    moreover have "i_TransactionHash r' = i_TransactionHash r" "in_key r' = in_key r"
        "i_IsCoinbase r' = i_IsCoinbase r" "i_PrevoutHash r' = i_PrevoutHash r"
      using insert(3) by (auto simp: t_insert_def Let_def in_key_def split: if_splits)
    ultimately show ?thesis
      using insert(1,2) assms(1,2) by (auto simp: ins_ok_def inkeys_def input_fits_def)
  qed
  then show "ins_ok w'" and "fault w' = fault w" and "inkeys (i_TransactionHash r) w' =
    (if in_key r \<in> set (inkeys (i_TransactionHash r) w) then inkeys (i_TransactionHash r) w
     else inkeys (i_TransactionHash r) w @ [in_key r])" by auto
qed

lemma or_nil_oneG:
  assumes "or_nil (oneG sel) w = (Ok r, w')"
  shows "w' = tick w" and "r = Some x \<Longrightarrow> sel (tick w) = Some x"
  using assms
  by (auto simp: or_nil_def bind_def attempt_def oneG_def stmt_def Let_def split: option.splits)


section \<open>Inputs and outputs as jobs\<close>

locale vout_relation = claim_relation +
  assumes outputs_change: "R w (w\<lparr>outputs := t8\<rparr>)"
begin

lemma ProcessVout: "within R (ProcessVout E v tx h dc)"
  unfolding ProcessVout_def
  by (intro rules getters PutOutput outputs_change processNullDataVout processScriptForClaim)

end

locale vin_relation = db_relation +
  assumes outputs_marked: "R w (w\<lparr>outputs := t1\<rparr>)" and inputs_change: "R w (w\<lparr>inputs := t2\<rparr>)"
begin

lemma ProcessVin: "within R (ProcessVin E v tx n dc)"
  unfolding ProcessVin_def inputAddress_def
  by (intro rules getters PutOutput PutInput outputs_marked inputs_change)

end

context db_relation
begin

lemma runJobs:
  assumes "\<And>j s. within R (f j s)"
  shows "within R (runJobs label f js s err)"
proof (induction js arbitrary: s err)
  case Nil
  show ?case by (cases err) (simp_all only: runJobs.simps ret fail)
next
  case (Cons j js)
  show ?case unfolding runJobs.simps by (intro bind attempt assms case_sum Cons.IH)
qed

end

locale tx_relation = vout_relation + vin_relation + address_relation +
  assumes transactions_change: "R w (w\<lparr>transactions := t9\<rparr>)"
begin

lemma Transaction_InsertG: "within R (Transaction_InsertG r)"
proof (rule withinI)
  fix w res w'
  assume run: "Transaction_InsertG r w = (res, w')"
  have "within R (change transactions (\<lambda>t w. w\<lparr>transactions := t\<rparr>)
      (t_insert t_ID (\<lambda>k r. r\<lparr>t_ID := k\<rparr>) transaction_clash (tx_stamped (clock w) r)))"
    by (intro change transactions_change)
  then show "R w w'" using withinD run unfolding Transaction_InsertG_def by blast
qed

lemma ProcessTx: "within R (ProcessTx E sch j s h)"
  unfolding ProcessTx_def saveUpdateTransaction_def Transaction_UpdateG_def enriched_def
    saveUpdateInputs_def saveUpdateOutputs_def
  by (intro rules Transaction_InsertG change transactions_change createUpdateVoutAddresses createUpdateVinAddresses runJobs
      ProcessVin ProcessVout setSendReceive)

end

interpretation inV: vout_relation same_inputs by unfold_locales (auto simp: same_inputs_def)
interpretation txV: vout_relation same_transactions by unfold_locales (auto simp: same_transactions_def)
interpretation txI: vin_relation same_transactions by unfold_locales (auto simp: same_transactions_def)

text \<open>The output rows of one transaction grow by a set of indices and no other transaction's do.\<close>

definition adds :: "string \<Rightarrow> nat set \<Rightarrow> world \<Rightarrow> world \<Rightarrow> bool" where
  "adds h S w w' \<longleftrightarrow> (outs_ok w \<longrightarrow> outs_ok w' \<and> fault w' = fault w \<and>
     (\<forall>g. vouts_of g w' = vouts_of g w \<union> (if g = h then S else {})))"

lemma adds_same: "same_outputs w w' \<Longrightarrow> adds h {} w w'"
  using outs_ok_same [of w w'] by (auto simp: adds_def same_outputs_def)

lemma adds_trans: "adds h S u v \<Longrightarrow> adds h T v w \<Longrightarrow> adds h (S \<union> T) u w"
  by (auto simp: adds_def)

lemma adds_frame1: "same_outputs u v \<Longrightarrow> adds h S v w \<Longrightarrow> adds h S u w"
  using adds_trans [OF adds_same, of u v h S w] by simp

lemma adds_frame2: "adds h S u v \<Longrightarrow> same_outputs v w \<Longrightarrow> adds h S u w"
  using adds_trans [OF _ adds_same, of h S u v w] by simp

lemma adds_PutOutput: "PutOutput r cols w = (Ok r', w') \<Longrightarrow> adds (o_TransactionHash r) {o_Vout r} w w'"
  using PutOutput_vouts [of w r cols r' w'] by (auto simp: adds_def)

lemma PutOutput_key:
  assumes "PutOutput r cols w = (Ok r', w')"
  shows "o_TransactionHash r' = o_TransactionHash r \<and> o_Vout r' = o_Vout r"
proof -
  have "o_TransactionHash r' = o_TransactionHash r \<and> o_Vout r' = o_Vout r" if "Output_InsertG r v = (Ok r', w')" for v
    using Output_InsertG_Ok(2) [OF that] by (auto simp: t_insert_def Let_def split: if_splits)
  then show ?thesis
    using assms unfolding PutOutput_def prefix_Ok bind_Ok_iff
    by (auto simp: Let_def bind_Ok_iff split: option.splits)
qed

lemma output_of_vout_key [simp]:
  "o_TransactionHash (output_of_vout v tx r) = t_Hash tx" "o_Vout (output_of_vout v tx r) = vout_N v"
  by (simp_all add: output_of_vout_def Let_def)

text \<open>A stored output: the job adds exactly its own index to the rows of its transaction.\<close>

lemma post_PutOutput:
  assumes "\<And>r' v. adds (o_TransactionHash r) {o_Vout r} w v \<Longrightarrow> o_TransactionHash r' = o_TransactionHash r \<Longrightarrow>
    o_Vout r' = o_Vout r \<Longrightarrow> Q r' v"
  shows "post (PutOutput r cols) w Q"
  using assms adds_PutOutput PutOutput_key by (blast intro: postI)

lemmas post_frames = post_within [OF outC.GetOutput] post_within [OF outC.GetAddress] post_within [OF outC.GetTxAddress]
  post_within [OF outC.GetClaim] post_within [OF outC.processNullDataVout] post_within [OF outC.processScriptForClaim]

lemma same_outputs_adds: "same_outputs w w' \<longleftrightarrow> outputs w' = outputs w \<and> fault w' = fault w \<and> (\<forall>h. adds h {} w w')"
  using adds_same by (auto simp: same_outputs_def)

lemma ProcessVout_adds: "post (ProcessVout E v tx h dc) w (\<lambda>_ w'. adds (t_Hash tx) {vout_N v} w w')"
  unfolding ProcessVout_def
  by (intro post_rules post_frames post_PutOutput)
    (auto simp: same_outputs_adds adds_def split: option.splits)


text \<open>A spent output was stored before, so marking it adds no row.\<close>

lemma vouts_of_found: "first_row (output_at h n) (outputs w) = Some x \<Longrightarrow> n \<in> vouts_of h w"
  by (force simp: first_row_def find_Some_iff output_at_def vouts_of_def)

lemma post_GetOutput:
  assumes "\<And>f v. same_outputs w v \<Longrightarrow> (\<And>x. f = Some x \<Longrightarrow> first_row (output_at h n) (outputs w) = Some x) \<Longrightarrow> Q f v"
  shows "post (GetOutput h n) w Q"
proof (rule postI)
  fix f v assume g: "GetOutput h n w = (Ok f, v)"
  then show "Q f v"
    using assms [OF withinD [OF outC.GetOutput g]] or_nil_oneG(2) [OF g [unfolded GetOutput_def]] by simp
qed

lemma same_outputs_PutInput: "within same_outputs (PutInput r)"
  by (rule outC.PutInput) (simp add: same_outputs_def)

lemma output_at_key: "first_row (output_at h n) t = Some x \<Longrightarrow> o_TransactionHash x = h \<and> o_Vout x = n"
  by (auto simp: first_row_def find_Some_iff output_at_def)

lemma ProcessVin_adds: "post (ProcessVin E v tx n dc) w (\<lambda>_ w'. adds h {} w w')"
  unfolding ProcessVin_def
proof (intro post_rules post_within [OF outC.GetInput] post_GetOutput post_within [OF outA.inputAddress]
    post_within [OF same_outputs_PutInput] post_within [OF outC.GetTxAddress] post_PutOutput, goal_cases)
  case (3 f u vin sig vin' found u1 src address u2 vin'' u3 r u4 txAddr u5)
  then have src: "first_row (output_at (vin_TxID v) (vin_Vout v)) (outputs u) = Some src" by blast
  then have "vin_Vout v \<in> vouts_of (vin_TxID v) u" "o_TransactionHash src = vin_TxID v" "o_Vout src = vin_Vout v"
    using vouts_of_found output_at_key by blast+
  with 3 show ?case by (auto simp: same_outputs_adds adds_def)
qed (auto simp: same_outputs_adds adds_def)

section \<open>Input rows of a job\<close>

definition vin_key :: "Vin \<Rightarrow> bool \<times> string option \<times> nat option" where
  "vin_key v = (if length (vin_Coinbase v) > 0 then (True, None, None)
     else (False, Some (vin_TxID v), Some (vin_Vout v)))"

definition adds_key :: "string \<Rightarrow> bool \<times> string option \<times> nat option \<Rightarrow> world \<Rightarrow> world \<Rightarrow> bool" where
  "adds_key h k w w' \<longleftrightarrow> (ins_ok w \<longrightarrow> ins_ok w' \<and>
     inkeys h w' = (if k \<in> set (inkeys h w) then inkeys h w else inkeys h w @ [k]))"

lemma post_GetInput:
  assumes "\<And>f v. same_inputs w v \<Longrightarrow> (\<And>x. f = Some x \<Longrightarrow> x \<in> set (rows (inputs w)) \<and> i_TransactionHash x = h \<and>
    i_IsCoinbase x = c \<and> i_PrevoutHash x = Some p \<and> i_PrevoutN x = Some n) \<Longrightarrow> Q f v"
  shows "post (GetInput h c p n) w Q"
proof (rule postI)
  fix f v assume g: "GetInput h c p n w = (Ok f, v)"
  have "x \<in> set (rows (inputs w)) \<and> i_TransactionHash x = h \<and> i_IsCoinbase x = c \<and> i_PrevoutHash x = Some p \<and>
      i_PrevoutN x = Some n" if "f = Some x" for x
    using or_nil_oneG(2) [OF g [unfolded GetInput_def] that] by (auto simp: first_row_def find_Some_iff)
  then show "Q f v" using assms withinD [OF inC.GetInput g] by blast
qed

lemma same_inputs_PutOutput: "within same_inputs (PutOutput r cols)"
  by (rule inC.PutOutput) (simp add: same_inputs_def)

lemma post_PutInput:
  assumes "\<And>r' v. (input_fits r w \<Longrightarrow> adds_key (i_TransactionHash r) (in_key r) w v) \<Longrightarrow> Q r' v"
  shows "post (PutInput r) w Q"
  using assms PutInput_keys [of w r] by (auto simp: adds_key_def intro: postI)

lemma input_of_vin_key:
  "in_key (input_of_vin v tx n) = vin_key v" "i_TransactionHash (input_of_vin v tx n) = t_Hash tx"
  "i_ID (input_of_vin v tx n) = 0" "i_IsCoinbase (input_of_vin v tx n) \<longrightarrow> i_PrevoutHash (input_of_vin v tx n) = None"
  by (simp_all add: input_of_vin_def Let_def in_key_def vin_key_def zeroInput_def)

lemma in_key_update [simp]:
  "in_key (r\<lparr>i_ID := a\<rparr>) = in_key r" "in_key (r\<lparr>i_Value := b\<rparr>) = in_key r"
  "in_key (r\<lparr>i_InputAddressID := c\<rparr>) = in_key r" "in_key (r\<lparr>i_ScriptSigHex := d\<rparr>) = in_key r"
  "in_key (r\<lparr>i_ScriptSigAsm := d\<rparr>) = in_key r"
  by (simp_all add: in_key_def)

text \<open>The row a job stores fits the table: it is new, or it has the key of the row it was read from.\<close>

lemma input_fits_job:
  assumes "ins_ok w"
    and "\<And>x. f = Some x \<Longrightarrow> x \<in> set (rows (inputs w)) \<and> i_TransactionHash x = t_Hash tx \<and>
      i_IsCoinbase x = (length (vin_Coinbase v) > 0) \<and> i_PrevoutHash x = Some (vin_TxID v) \<and> i_PrevoutN x = Some (vin_Vout v)"
    and "r = (case f of None \<Rightarrow> input_of_vin v tx n | Some x \<Rightarrow> (input_of_vin v tx n)\<lparr>i_ID := i_ID x\<rparr>)"
  shows "input_fits r w" and "in_key r = vin_key v" and "i_TransactionHash r = t_Hash tx"
proof -
  show "in_key r = vin_key v" "i_TransactionHash r = t_Hash tx"
    by (cases f; simp add: assms(3) input_of_vin_key)+
  show "input_fits r w"
  proof (cases f)
    case None
    then show ?thesis using input_of_vin_key by (simp add: assms(3) input_fits_def)
  next
    case (Some x)
    note x = assms(2) [OF Some]
    then have "\<not> i_IsCoinbase x" using assms(1) by (auto simp: ins_ok_def)
    then have "in_key x = vin_key v" using x by (auto simp: in_key_def vin_key_def)
    then show ?thesis
      using x Some input_of_vin_key [of v tx n] by (auto simp: assms(3) input_fits_def)
  qed
qed

lemma adds_key_frame: "same_inputs u v \<Longrightarrow> adds_key h k v w \<Longrightarrow> same_inputs w x \<Longrightarrow> adds_key h k u x"
  by (auto simp: adds_key_def same_inputs_def ins_ok_def inkeys_def)

lemma input_fits_frame: "same_inputs w v \<Longrightarrow> input_fits r v = input_fits r w"
  by (simp add: input_fits_def same_inputs_def)

lemma input_fits_cols [simp]:
  "input_fits (r\<lparr>i_Value := b\<rparr>) w = input_fits r w" "input_fits (r\<lparr>i_InputAddressID := c\<rparr>) w = input_fits r w"
  "input_fits (r\<lparr>i_ScriptSigHex := d\<rparr>) w = input_fits r w" "input_fits (r\<lparr>i_ScriptSigAsm := d\<rparr>) w = input_fits r w"
  by (simp_all add: input_fits_def)

lemma adds_keyI: "(ins_ok w \<Longrightarrow> adds_key h k w w') \<Longrightarrow> adds_key h k w w'"
  by (auto simp: adds_key_def)

lemma ProcessVin_adds_key: "post (ProcessVin E v tx n dc) w (\<lambda>_ w'. adds_key (t_Hash tx) (vin_key v) w w')"
  unfolding ProcessVin_def
proof (intro post_rules post_GetInput post_within [OF inC.GetOutput] post_within [OF inA.inputAddress]
    post_PutInput post_within [OF same_inputs_PutOutput] post_within [OF inC.GetTxAddress], goal_cases)
  case (1 f u vin r w')
  show ?case
  proof (rule adds_keyI)
    assume "ins_ok w"
    note fits = input_fits_job [OF this 1(2,3)]
    have "adds_key (t_Hash tx) (vin_key v) u w'"
      using 1(5) fits input_fits_frame [OF 1(1)] by simp
    then show "adds_key (t_Hash tx) (vin_key v) w w'"
      using adds_key_frame [OF 1(1)] inC.refl by blast
  qed
next
  case (3 f u vin sig vin' found u1 src address u2 r u3 o' u4 txAddr w')
  show ?case
  proof (rule adds_keyI)
    assume "ins_ok w"
    note fits = input_fits_job [OF this 3(2,3)]
    have same: "same_inputs w u2" "same_inputs u3 w'"
      using 3(1,7,9,11,12) inC.trans by blast+
    have "adds_key (t_Hash tx) (vin_key v) u2 u3"
      using 3(10) fits input_fits_frame [OF same(1)] by (simp add: 3(6))
    then show "adds_key (t_Hash tx) (vin_key v) w w'"
      using adds_key_frame same by blast
  qed
qed simp


section \<open>A processed transaction is complete\<close>

text \<open>The three tables the completeness check reads.\<close>

definition same_rows :: "world \<Rightarrow> world \<Rightarrow> bool" where
  "same_rows w w' \<longleftrightarrow> same_outputs w w' \<and> same_inputs w w' \<and> same_transactions w w'"

interpretation rowsA: address_relation same_rows
  by unfold_locales (auto simp: same_rows_def same_outputs_def same_inputs_def same_transactions_def)

definition tx_row :: "TxRawResult \<Rightarrow> Transaction \<Rightarrow> bool" where
  "tx_row j x \<longleftrightarrow> t_Hash x = tx_Txid j \<and> t_BlockHashID x = Some (tx_BlockHash j) \<and>
     t_InputCount x = length (tx_Vin j) \<and> t_OutputCount x = length (tx_Vout j)"

lemma tx_row_of_json [simp]: "tx_row j (transaction_of_json j t)" "tx_row j (x\<lparr>t_ID := k\<rparr>) = tx_row j x"
  "tx_row j (x\<lparr>t_CreatedAt := c\<rparr>) = tx_row j x" "tx_row j (x\<lparr>t_ModifiedAt := c\<rparr>) = tx_row j x" "t_ID (transaction_of_json j t) = t_ID t"
  by (simp_all add: tx_row_def transaction_of_json_def)

text \<open>A stored transaction has a row with the counts of its JSON.\<close>

lemma saveUpdateTransaction_post:
  "post (saveUpdateTransaction j) w (\<lambda>t w'. same_outputs w w' \<and> same_inputs w w' \<and> tx_row j t \<and>
     (\<exists>x\<in>set (rows (transactions w')). tx_row j x))"
  unfolding saveUpdateTransaction_def
proof (rule post_bind, rule postI)
  fix f v
  assume g: "or_nil (oneG (\<lambda>w. first_row (\<lambda>x. t_Hash x = tx_Txid j) (transactions w))) w = (Ok f, v)"
  have v: "v = tick w" by (rule or_nil_oneG(1) [OF g])
  let ?Q = "\<lambda>t w'. same_outputs w w' \<and> same_inputs w w' \<and> tx_row j t \<and> (\<exists>x\<in>set (rows (transactions w')). tx_row j x)"
  show "post (case f of Some f \<Rightarrow> (let t = transaction_of_json j f in bind (Transaction_UpdateG t) (\<lambda>_. ret t))
      | None \<Rightarrow> Transaction_InsertG (transaction_of_json j zeroTransaction)) v ?Q"
  proof (cases f)
    case None
    show ?thesis unfolding None option.case
    proof (rule postI)
      fix t w' assume "Transaction_InsertG (transaction_of_json j zeroTransaction) v = (Ok t, w')"
      then obtain T where T: "t_insert t_ID (\<lambda>k r. r\<lparr>t_ID := k\<rparr>) transaction_clash
          (tx_stamped (clock v) (transaction_of_json j zeroTransaction)) (transactions w) = Ok (t, T)" and w': "w' = (tick v)\<lparr>transactions := T\<rparr>"
        unfolding Transaction_InsertG_def v by (auto elim!: change_Ok)
      have "rows T = rows (transactions w) @ [t]" by (rule txT.insert_row [OF T])
      moreover have "tx_row j t" using T by (auto simp: t_insert_def Let_def tx_stamped_def split: if_splits)
      ultimately show "?Q t w'" by (simp add: w' v same_outputs_def same_inputs_def)
    qed
  next
    case (Some x)
    have x: "x \<in> set (rows (transactions w))"
      using or_nil_oneG(2) [OF g Some] by (auto simp: first_row_def find_Some_iff)
    show ?thesis unfolding Some option.case Let_def
    proof (intro post_bind post_ret postI)
      fix u w' assume "Transaction_UpdateG (transaction_of_json j x) v = (Ok u, w')"
      then obtain T where T: "t_update t_ID transaction_clash (t_ID x)
          (\<lambda>y. (transaction_of_json j x)\<lparr>t_CreatedAt := t_CreatedAt y\<rparr>) (transactions w) = Ok T"
        and w': "w' = (tick v)\<lparr>transactions := T\<rparr>"
        unfolding Transaction_UpdateG_def v by (auto elim!: change_Ok simp: outcome_simps)
      have "(transaction_of_json j x)\<lparr>t_CreatedAt := t_CreatedAt x\<rparr> \<in> set (rows T)"
        unfolding t_update_rows [OF T] using x by (force simp: image_iff)
      then have "\<exists>y\<in>set (rows T). tx_row j y" by (rule bexI [rotated]) simp
      then show "?Q (transaction_of_json j x) w'" by (simp add: w' v same_outputs_def same_inputs_def)
    qed
  qed
qed

text \<open>The rows an earlier, aborted attempt may have left behind.\<close>

definition leftovers :: "TxRawResult \<Rightarrow> world \<Rightarrow> bool" where
  "leftovers j w \<longleftrightarrow> vouts_of (tx_Txid j) w \<subseteq> vout_N ` set (tx_Vout j) \<and>
     distinct (inkeys (tx_Txid j) w) \<and> set (inkeys (tx_Txid j) w) \<subseteq> vin_key ` set (tx_Vin j)"

lemma image_nth_lessThan: "(\<lambda>i. f (xs ! i)) ` {..<length xs} = f ` set xs"
  by (auto simp: set_conv_nth)

lemma saveUpdateInputs_post:
  assumes "order_ok sch" and "outs_ok w" and "ins_ok w" and "distinct (inkeys (t_Hash tx) w)"
  shows "post (saveUpdateInputs E sch tx j dc) w (\<lambda>_ w'. outs_ok w' \<and> ins_ok w' \<and> same_transactions w w' \<and>
    vouts_of g w' = vouts_of g w \<and> distinct (inkeys (t_Hash tx) w') \<and>
    set (inkeys (t_Hash tx) w') = set (inkeys (t_Hash tx) w) \<union> vin_key ` set (tx_Vin j))"
  unfolding saveUpdateInputs_def Let_def
proof (rule postI)
  let ?h = "t_Hash tx" and ?vins = "tx_Vin j"
  let ?P = "\<lambda>D u. outs_ok u \<and> ins_ok u \<and> same_transactions w u \<and> vouts_of g u = vouts_of g w \<and>
     distinct (inkeys ?h u) \<and> set (inkeys ?h u) = set (inkeys ?h w) \<union> (\<lambda>i. vin_key (?vins ! i)) ` D"
  fix dc' w'
  assume run: "runJobs ''Vin Error->'' (\<lambda>i. ProcessVin E (?vins ! i) tx i) (vinOrder sch (length ?vins)) dc None w = (Ok dc', w')"
  have "?P ({} \<union> set (vinOrder sch (length ?vins))) w'"
  proof (rule runJobs_Ok [OF run])
    show "?P {} w" using assms by (simp add: txC.refl)
    fix i s u s' v D
    assume "?P D u" and job: "ProcessVin E (?vins ! i) tx i s u = (Ok s', v)"
    moreover have "adds g {} u v" by (rule postD [OF ProcessVin_adds job])
    moreover have "adds_key ?h (vin_key (?vins ! i)) u v" by (rule postD [OF ProcessVin_adds_key job])
    moreover have "same_transactions u v" by (rule withinD [OF txI.ProcessVin job])
    ultimately show "?P (insert i D) v"
      by (auto simp: adds_def adds_key_def intro: txC.trans split: if_splits)
  qed
  then show "outs_ok w' \<and> ins_ok w' \<and> same_transactions w w' \<and> vouts_of g w' = vouts_of g w \<and>
      distinct (inkeys ?h w') \<and> set (inkeys ?h w') = set (inkeys ?h w) \<union> vin_key ` set ?vins"
    using assms(1) by (simp add: order_ok_def image_nth_lessThan [of vin_key])
qed

lemma saveUpdateOutputs_post:
  assumes "order_ok sch" and "outs_ok w"
  shows "post (saveUpdateOutputs E sch tx j h dc) w (\<lambda>_ w'. outs_ok w' \<and> same_transactions w w' \<and> same_inputs w w' \<and>
    vouts_of (t_Hash tx) w' = vouts_of (t_Hash tx) w \<union> vout_N ` set (tx_Vout j))"
  unfolding saveUpdateOutputs_def Let_def
proof (rule postI)
  let ?vouts = "tx_Vout j"
  let ?P = "\<lambda>D u. outs_ok u \<and> same_transactions w u \<and> same_inputs w u \<and>
     vouts_of (t_Hash tx) u = vouts_of (t_Hash tx) w \<union> (\<lambda>i. vout_N (?vouts ! i)) ` D"
  fix dc' w'
  assume run: "runJobs ''Vout Error->'' (\<lambda>i. ProcessVout E (?vouts ! i) tx h) (voutOrder sch (length ?vouts)) dc None w = (Ok dc', w')"
  have "?P ({} \<union> set (voutOrder sch (length ?vouts))) w'"
  proof (rule runJobs_Ok [OF run])
    show "?P {} w" using assms by (simp add: txC.refl inC.refl)
    fix i s u s' v D
    assume "?P D u" and job: "ProcessVout E (?vouts ! i) tx h s u = (Ok s', v)"
    moreover have "adds (t_Hash tx) {vout_N (?vouts ! i)} u v" by (rule postD [OF ProcessVout_adds job])
    moreover have "same_transactions u v" by (rule withinD [OF txV.ProcessVout job])
    moreover have "same_inputs u v" by (rule withinD [OF inV.ProcessVout job])
    ultimately show "?P (insert i D) v" by (auto simp: adds_def intro: txC.trans inC.trans)
  qed
  then show "outs_ok w' \<and> same_transactions w w' \<and> same_inputs w w' \<and>
      vouts_of (t_Hash tx) w' = vouts_of (t_Hash tx) w \<union> vout_N ` set ?vouts"
    using assms(1) by (simp add: order_ok_def image_nth_lessThan [of vout_N])
qed


lemma hasChildren_counts:
  assumes "outs_ok w" and "length (inkeys (t_Hash t) w) = t_InputCount t" and "card (vouts_of (t_Hash t) w) = t_OutputCount t"
  shows "post (transactionHasExpectedChildren t) w (\<lambda>c _. c)"
  unfolding transactionHasExpectedChildren_def
proof (intro post_bind post_ret postI)
  fix m u n v
  assume q: "query (\<lambda>w. length (filter (\<lambda>x. i_TransactionHash x = t_Hash t) (rows (inputs w)))) w = (Ok m, u)"
    "query (\<lambda>w. length (filter (\<lambda>x. o_TransactionHash x = t_Hash t) (rows (outputs w)))) u = (Ok n, v)"
  have "u = tick w" "m = length (inkeys (t_Hash t) w)"
    using q(1) by (auto simp: query_def stmt_def Let_def inkeys_def split: option.splits)
  moreover from this have "n = card (vouts_of (t_Hash t) w)"
    using q(2) count_vouts [OF assms(1), of "t_Hash t"] by (auto simp: query_def stmt_def Let_def split: option.splits)
  ultimately show "m = t_InputCount t \<and> n = t_OutputCount t" using assms(2,3) by simp
qed

lemma card_image_distinct: "distinct (map f xs) \<Longrightarrow> card (f ` set xs) = length xs"
  by (metis distinct_card length_map list.set_map)

text \<open>The rows of a completely processed transaction.\<close>

definition has_row :: "TxRawResult \<Rightarrow> world \<Rightarrow> bool" where
  "has_row j w \<longleftrightarrow> (\<exists>x\<in>set (rows (transactions w)). tx_row j x)"

definition complete_tx :: "TxRawResult \<Rightarrow> world \<Rightarrow> bool" where
  "complete_tx j w \<longleftrightarrow> has_row j w \<and> vouts_of (tx_Txid j) w = vout_N ` set (tx_Vout j) \<and>
     distinct (inkeys (tx_Txid j) w) \<and> set (inkeys (tx_Txid j) w) = vin_key ` set (tx_Vin j)"

lemma complete_children:
  assumes "complete_tx j w" and "outs_ok w" and "tx_row j t"
    and dist: "distinct (map vout_N (tx_Vout j))" "distinct (map vin_key (tx_Vin j))"
  shows "post (transactionHasExpectedChildren t) w (\<lambda>c _. c)"
proof (rule hasChildren_counts)
  show "length (inkeys (t_Hash t) w) = t_InputCount t"
    using assms(1,3) card_image_distinct [OF dist(2)] distinct_card [of "inkeys (tx_Txid j) w"]
    by (simp add: complete_tx_def tx_row_def)
  show "card (vouts_of (t_Hash t) w) = t_OutputCount t"
    using assms(1,3) card_image_distinct [OF dist(1)] by (simp add: complete_tx_def tx_row_def)
qed (rule assms(2))

lemma ProcessTx_completes:
  assumes run: "ProcessTx E sch j seconds height w = (Ok (), w')"
    and sch: "order_ok sch" and ok: "outs_ok w" "ins_ok w" and left: "leftovers j w"
  shows "complete_tx j w' \<and> outs_ok w'"
proof -
  let ?h = "tx_Txid j"
  obtain tx w1 where s1: "saveUpdateTransaction j w = (Ok tx, w1)"
    and k1: "bind (prefix ''Vout Address Creation Error'' (createUpdateVoutAddresses E tx (tx_Vout j) seconds)) (\<lambda>_.
      bind (enriched j height (createUpdateVinAddresses E tx (tx_Vin j))) (\<lambda>_.
      bind (saveUpdateInputs E sch tx j newTxDebitCredits) (\<lambda>txDC.
      bind (saveUpdateOutputs E sch tx j height txDC) (\<lambda>txDC. setSendReceive sch tx txDC)))) w1 = (Ok (), w')"
    using run unfolding ProcessTx_def bind_Ok_iff by blast
  from k1 obtain a w2 b w3 dc w4 dc' w5 where
    s2: "prefix ''Vout Address Creation Error'' (createUpdateVoutAddresses E tx (tx_Vout j) seconds) w1 = (Ok a, w2)"
    and s3: "enriched j height (createUpdateVinAddresses E tx (tx_Vin j)) w2 = (Ok b, w3)"
    and s4: "saveUpdateInputs E sch tx j newTxDebitCredits w3 = (Ok dc, w4)"
    and s5: "saveUpdateOutputs E sch tx j height dc w4 = (Ok dc', w5)" and s6: "setSendReceive sch tx dc' w5 = (Ok (), w')"
    unfolding bind_Ok_iff by blast
  note p1 = postD [OF saveUpdateTransaction_post s1]
  have h: "t_Hash tx = ?h" using p1 by (simp add: tx_row_def)
  have "same_rows w1 w2" by (rule withinD [OF rowsA.prefix [OF rowsA.createUpdateVoutAddresses] s2])
  moreover have "within same_rows (enriched j height (createUpdateVinAddresses E tx (tx_Vin j)))"
    unfolding enriched_def by (intro rowsA.rules rowsA.createUpdateVinAddresses)
  then have "same_rows w2 w3" using s3 by (rule withinD)
  ultimately have w3: "same_rows w1 w3" by (rule rowsA.trans)
  have o3: "outs_ok w3" "vouts_of ?h w3 = vouts_of ?h w" and i3: "ins_ok w3" "inkeys ?h w3 = inkeys ?h w"
    using p1 w3 ok outs_ok_same [of _ _ ?h] ins_ok_same [of _ _ ?h] by (simp_all add: same_rows_def) metis+
  note p4 = postD [OF saveUpdateInputs_post [OF sch o3(1) i3(1), where tx = tx and g = ?h] s4]
  have q4: "outs_ok w4" "ins_ok w4" "vouts_of ?h w4 = vouts_of ?h w" "distinct (inkeys ?h w4)"
      "set (inkeys ?h w4) = vin_key ` set (tx_Vin j)" "same_transactions w3 w4"
    using p4 left o3 i3 h by (auto simp: leftovers_def)
  note p5 = postD [OF saveUpdateOutputs_post [OF sch q4(1)] s5]
  have v5: "vouts_of ?h w5 = vout_N ` set (tx_Vout j)" "inkeys ?h w5 = inkeys ?h w4" "outs_ok w5"
    using p5 h left q4(3) ins_ok_same [of w4 w5 ?h] by (auto simp: leftovers_def)
  have w6: "same_rows w5 w'" by (rule withinD [OF rowsA.setSendReceive s6])
  have fin: "vouts_of ?h w' = vout_N ` set (tx_Vout j)" "inkeys ?h w' = inkeys ?h w4" "outs_ok w'"
    using w6 v5 outs_ok_same [of w5 w' ?h] ins_ok_same [of w5 w' ?h] by (simp_all add: same_rows_def)
  have "transactions w' = transactions w1"
    using w3 q4(6) p5 w6 by (simp add: same_rows_def same_transactions_def)
  then obtain t where t: "t \<in> set (rows (transactions w'))" "tx_row j t" using p1 by auto
  then have "has_row j w'" by (auto simp: has_row_def)
  then show ?thesis using fin q4(4,5) by (simp add: complete_tx_def)
qed

text \<open>The processing of a transaction never touches the blocks, the clock or the schedule of faults.\<close>

definition same_world :: "world \<Rightarrow> world \<Rightarrow> bool" where
  "same_world w w' \<longleftrightarrow> blocks w' = blocks w \<and> fault w' = fault w \<and> clock w' = clock w \<and> rpcs w' = rpcs w"

interpretation restT: tx_relation same_world by unfold_locales (auto simp: same_world_def)

definition demo_order :: txOrder where
  "demo_order = \<lparr>vinOrder = (\<lambda>n. rev [0..<n]), voutOrder = (\<lambda>n. rev [0..<n]), mapOrder = rev\<rparr>"

definition demo_vout :: "nat \<Rightarrow> Vout" where
  "demo_vout n = \<lparr>vout_Value = Fin 5, vout_N = n, vout_ScriptPubKey =
     \<lparr>spk_Asm = '''', spk_Hex = ''76a9'', spk_ReqSigs = 1, spk_Type = ''pubkeyhash'', spk_Addresses = [''addr'']\<rparr>\<rparr>"

definition demo_vin :: "string \<Rightarrow> Vin" where
  "demo_vin prev = \<lparr>vin_Coinbase = (if prev = '''' then ''03'' else ''''), vin_TxID = prev, vin_Vout = 1,
     vin_ScriptSig = Some \<lparr>sig_Asm = '''', sig_Hex = ''''\<rparr>, vin_Sequence = 0, vin_Witness = []\<rparr>"

definition demo_json :: "txid \<Rightarrow> Vin list \<Rightarrow> TxRawResult" where
  "demo_json t vins = \<lparr>tx_Txid = t, tx_Hash = t, tx_Version = 1, tx_Size = 10, tx_Vsize = 10, tx_Weight = 40,
     tx_LockTime = 0, tx_Vin = vins, tx_Vout = [demo_vout 0, demo_vout 1], tx_Hex = '''', tx_BlockHash = ''b1'',
     tx_Confirmations = 1, tx_Time = 7, tx_Blocktime = 7\<rparr>"

definition demo_world1 :: world where
  "demo_world1 = snd (ProcessTx demo_env demo_order (demo_json ''t1'' [demo_vin '''']) 7 1 demo_world)"

lemma order_ok_demo: "order_ok demo_order"
  by (auto simp: order_ok_def demo_order_def)

lemma demo_world_clean: "outs_ok demo_world" "ins_ok demo_world" "leftovers (demo_json t vins) demo_world"
  by (simp_all add: demo_world_def outs_ok_def ins_ok_def outputT.wf_empty inputT.wf_empty honest_faults_def leftovers_def
      vouts_of_def inkeys_def) (simp_all add: emptyTable_def)

lemma demo_run: "ProcessTx demo_env demo_order (demo_json ''t1'' [demo_vin '''']) 7 1 demo_world = (Ok (), demo_world1)"
  unfolding demo_world1_def by (rule prod_eqI) (simp only: fst_conv, code_simp, simp only: snd_conv)

end
