(* ===== verification/TxFrame.thy ===== *)
theory TxFrame
  imports Transactions_Spec
begin

text \<open>
  What one transaction's processing does to the rows of all transactions, whatever statements fail on
  the way: the rows of other transactions keep their keys, its own rows only grow, and they stay
  within what its JSON announces. With this a transaction that was processed completely stays
  complete while the other transactions of its block are processed.
\<close>

section \<open>The step of a transaction\<close>

definition tx_rows :: "string \<Rightarrow> world \<Rightarrow> Transaction list" where
  "tx_rows h w = filter (\<lambda>x. t_Hash x = h) (rows (transactions w))"

definition rows_ok :: "world \<Rightarrow> bool" where
  "rows_ok w \<longleftrightarrow> outs_ok w \<and> ins_ok w \<and> txT.wf_table (transactions w)"

definition others_same :: "string \<Rightarrow> world \<Rightarrow> world \<Rightarrow> bool" where
  "others_same h w w' \<longleftrightarrow> (\<forall>g. g \<noteq> h \<longrightarrow> vouts_of g w' = vouts_of g w \<and> inkeys g w' = inkeys g w \<and> tx_rows g w' = tx_rows g w)"

definition own_grow :: "TxRawResult \<Rightarrow> world \<Rightarrow> world \<Rightarrow> bool" where
  "own_grow j w w' \<longleftrightarrow> vouts_of (tx_Txid j) w \<subseteq> vouts_of (tx_Txid j) w' \<and>
     set (inkeys (tx_Txid j) w) \<subseteq> set (inkeys (tx_Txid j) w') \<and> (has_row j w \<longrightarrow> has_row j w')"

definition tx_step :: "TxRawResult \<Rightarrow> world \<Rightarrow> world \<Rightarrow> bool" where
  "tx_step j w w' \<longleftrightarrow> (rows_ok w \<and> leftovers j w \<longrightarrow>
     rows_ok w' \<and> leftovers j w' \<and> fault w' = fault w \<and> others_same (tx_Txid j) w w' \<and> own_grow j w w')"

lemma tx_step_same_rows: "same_rows w w' \<Longrightarrow> tx_step j w w'"
  by (simp add: tx_step_def same_rows_def same_outputs_def same_inputs_def same_transactions_def rows_ok_def outs_ok_def ins_ok_def
      leftovers_def vouts_of_def inkeys_def others_same_def own_grow_def tx_rows_def has_row_def honest_faults_def)

lemma tx_step_trans: "tx_step j u v \<Longrightarrow> tx_step j v w \<Longrightarrow> tx_step j u w"
  by (auto simp: tx_step_def others_same_def own_grow_def)

interpretation stepC: claim_relation "tx_step j"
  by unfold_locales (auto intro: tx_step_trans tx_step_same_rows
      simp: same_rows_def same_outputs_def same_inputs_def same_transactions_def)
interpretation stepA: address_relation "tx_step j"
  by unfold_locales (auto intro: tx_step_same_rows
      simp: same_rows_def same_outputs_def same_inputs_def same_transactions_def)

section \<open>Writes\<close>

text \<open>A write that fails has changed nothing: it reads, then runs one statement.\<close>

definition unchanged :: "world \<Rightarrow> world \<Rightarrow> bool" where
  "unchanged w w' \<longleftrightarrow> (\<exists>n. w' = w\<lparr>stmts := n\<rparr>)"

interpretation un: db_relation unchanged
proof unfold_locales
  show "unchanged w w" for w unfolding unchanged_def by (rule exI [of _ "stmts w"]) simp
qed (auto simp: unchanged_def)

definition atomic :: "'a db \<Rightarrow> bool" where
  "atomic m \<longleftrightarrow> (\<forall>w. runs m w (\<lambda>_ _. True) (unchanged w))"

lemma atomic_change: "atomic (change sel upd f)"
  unfolding atomic_def
proof (intro allI runsI TrueI)
  fix w :: world and r w'
  assume "change sel upd f w = (r, w')" and "\<And>x. r \<noteq> Ok x"
  then show "unchanged w w'" using change_result [of sel upd f w r w'] by (auto simp: unchanged_def)
qed

lemma atomic_prefix: "atomic m \<Longrightarrow> atomic (prefix s m)"
  unfolding atomic_def by (blast intro: runs_prefix)

lemma atomic_then_ret: "atomic m \<Longrightarrow> atomic (bind m (\<lambda>_. ret y))"
  unfolding atomic_def by (intro allI runs_bind) (auto simp: runs_def split: prod.splits outcome.splits)

lemma atomic_bind:
  assumes "within unchanged m" and "\<And>x. atomic (f x)"
  shows "atomic (bind m f)"
  unfolding atomic_def
proof (intro allI runs_bind)
  fix w
  show "runs m w (\<lambda>x v. runs (f x) v (\<lambda>_ _. True) (unchanged w)) (unchanged w)"
  proof (rule runs_within [OF assms(1)])
    fix x v assume v: "unchanged w v"
    have "runs (f x) v (\<lambda>_ _. True) (unchanged v)" using assms(2) by (simp add: atomic_def)
    then show "runs (f x) v (\<lambda>_ _. True) (unchanged w)"
      using un.trans [OF v] by (auto simp: runs_def split: prod.splits outcome.splits)
  qed
qed

lemma atomic_at: "(\<And>v. atomic (m v)) \<Longrightarrow> atomic (\<lambda>w. m (h w) w)"
  by (simp add: atomic_def runs_def)

lemma atomic_stamped: "(\<And>v. atomic (U v)) \<Longrightarrow> atomic (\<lambda>w. bind (U (h w)) (\<lambda>_. ret (h w)) w)"
  using atomic_then_ret [of "U (h w)" "h w" for w] by (simp add: atomic_def runs_def)

lemma atomic_PutOutput: "atomic (PutOutput r cols)"
  unfolding PutOutput_def Let_def
  by (intro atomic_prefix atomic_bind un.rules)
    (auto split: option.split intro!: atomic_then_ret atomic_change
      simp: Output_UpdateCols_def Output_UpdateG_def Output_UpdateSpentG_def Output_InsertG_def split: columns.split)

lemma atomic_PutInput: "atomic (PutInput r)"
proof -
  have "atomic (Input_UpdateG v)" "atomic (Input_InsertG v)" for v
    unfolding Input_UpdateG_def Input_InsertG_def by (rule atomic_change)+
  then show ?thesis
    unfolding PutInput_def
    by (intro atomic_prefix atomic_bind un.rules) (auto intro: atomic_stamped [where U = Input_UpdateG])
qed

lemma unchanged_same_rows: "unchanged w w' \<Longrightarrow> same_rows w w'"
  by (auto simp: unchanged_def same_rows_def same_outputs_def same_inputs_def same_transactions_def)

lemmas unchanged_step = tx_step_same_rows [OF unchanged_same_rows]

text \<open>A step that adds output rows, or input rows, within what the JSON announces.\<close>

lemma tx_step_outputs:
  assumes "adds h S w w'" and "same_inputs w w'" and "same_transactions w w'"
    and "S \<subseteq> vouts_of h w \<or> (h = tx_Txid j \<and> S \<subseteq> vout_N ` set (tx_Vout j))"
  shows "tx_step j w w'"
  unfolding tx_step_def
proof (intro impI)
  assume ok: "rows_ok w \<and> leftovers j w"
  then have "\<forall>g. vouts_of g w' = vouts_of g w \<union> (if g = h then S else {})" "outs_ok w'" "fault w' = fault w"
    using assms(1) by (auto simp: adds_def rows_ok_def)
  moreover have "inkeys g w' = inkeys g w" "ins_ok w' = ins_ok w" for g
    using ins_ok_same [OF assms(2)] by simp_all
  moreover have "tx_rows g w' = tx_rows g w" "has_row j w' = has_row j w" "transactions w' = transactions w" for g
    using assms(3) by (simp_all add: same_transactions_def tx_rows_def has_row_def)
  ultimately show "rows_ok w' \<and> leftovers j w' \<and> fault w' = fault w \<and> others_same (tx_Txid j) w w' \<and> own_grow j w w'"
    using ok assms(4) by (auto simp: rows_ok_def leftovers_def others_same_def own_grow_def)
qed

lemma tx_step_inputs:
  assumes "adds_key (tx_Txid j) k w w'" and "same_outputs w w'" and "same_transactions w w'"
    and "k \<in> vin_key ` set (tx_Vin j)" and "\<And>g. g \<noteq> tx_Txid j \<Longrightarrow> ins_ok w \<Longrightarrow> inkeys g w' = inkeys g w"
  shows "tx_step j w w'"
  unfolding tx_step_def
proof (intro impI)
  assume ok: "rows_ok w \<and> leftovers j w"
  then have k: "inkeys (tx_Txid j) w' = (if k \<in> set (inkeys (tx_Txid j) w) then inkeys (tx_Txid j) w else inkeys (tx_Txid j) w @ [k])"
      "ins_ok w'"
    using assms(1) by (auto simp: adds_key_def rows_ok_def)
  have "vouts_of g w' = vouts_of g w" "outs_ok w' = outs_ok w" for g
    using outs_ok_same [OF assms(2)] by simp_all
  moreover have "tx_rows g w' = tx_rows g w" "has_row j w' = has_row j w" "transactions w' = transactions w" "fault w' = fault w" for g
    using assms(3) by (simp_all add: same_transactions_def tx_rows_def has_row_def)
  ultimately show "rows_ok w' \<and> leftovers j w' \<and> fault w' = fault w \<and> others_same (tx_Txid j) w w' \<and> own_grow j w w'"
    using ok k assms(4,5) by (auto simp: rows_ok_def leftovers_def others_same_def own_grow_def)
qed

lemma same_PutOutput: "within same_inputs (PutOutput r cols)" "within same_transactions (PutOutput r cols)"
  by (rule inC.PutOutput, simp add: same_inputs_def) (rule txC.PutOutput, simp add: same_transactions_def)

lemma same_PutInput: "within same_outputs (PutInput r)" "within same_transactions (PutInput r)"
  by (rule outC.PutInput, simp add: same_outputs_def) (rule txC.PutInput, simp add: same_transactions_def)

lemma runs_atomic:
  assumes "atomic m" and "\<And>x v. m w = (Ok x, v) \<Longrightarrow> Q x v" and "\<And>v. unchanged w v \<Longrightarrow> X v"
  shows "runs m w Q X"
proof -
  have "runs m w (\<lambda>_ _. True) (unchanged w)" using assms(1) by (simp add: atomic_def)
  then show ?thesis
    using assms(2,3) by (cases "m w"; cases "fst (m w)") (auto simp: runs_def)
qed

lemma PutOutput_runs:
  assumes "o_Vout r \<in> vouts_of (o_TransactionHash r) w \<or>
      (o_TransactionHash r = tx_Txid j \<and> o_Vout r \<in> vout_N ` set (tx_Vout j))"
    and "tx_step j u w"
    and "\<And>r' v. tx_step j u v \<Longrightarrow> o_TransactionHash r' = o_TransactionHash r \<Longrightarrow> o_Vout r' = o_Vout r \<Longrightarrow> Q r' v"
    and "\<And>v. tx_step j u v \<Longrightarrow> X v"
  shows "runs (PutOutput r cols) w Q X"
proof (rule runs_atomic [OF atomic_PutOutput])
  fix r' v assume p: "PutOutput r cols w = (Ok r', v)"
  have "tx_step j w v"
    by (rule tx_step_outputs [OF adds_PutOutput [OF p] withinD [OF same_PutOutput(1) p] withinD [OF same_PutOutput(2) p]])
      (use assms(1) in auto)
  then show "Q r' v" using assms(3) PutOutput_key [OF p] tx_step_trans [OF assms(2)] by blast
qed (use assms(4) tx_step_trans [OF assms(2)] unchanged_step in blast)


lemma PutInput_others:
  assumes "ins_ok w" and "input_fits r w" and "PutInput r w = (Ok r', w')" and g: "g \<noteq> i_TransactionHash r"
  shows "inkeys g w' = inkeys g w"
proof -
  have wf: "inputT.wf_table (inputs w)" using assms(1) by (simp add: ins_ok_def)
  show ?thesis
    using assms(3)
  proof (cases rule: PutInput_Ok)
    case (update m)
    have other: "i_TransactionHash y \<noteq> g" if y: "y \<in> set (rows (inputs w))" "i_ID y = i_ID r" for y
    proof -
      have "0 < i_ID y" using wf y(1) by (auto simp: inputT.wf_table_def)
      then obtain x where x: "x \<in> set (rows (inputs w))" "i_ID x = i_ID r" "i_TransactionHash x = i_TransactionHash r"
        using assms(2) y(2) by (auto simp: input_fits_def)
      have "y = x" using y x(1,2) wf by (auto simp: inputT.wf_table_def distinct_map inj_on_def)
      then show ?thesis using x(3) g by simp
    qed
    have rows: "rows (inputs w') = map (\<lambda>x. if i_ID x = i_ID r then r' else x) (rows (inputs w))"
      by (rule t_update_rows [OF update(4)])
    have "i_TransactionHash r' \<noteq> g" using g by (simp add: update(2))
    then have "filter (\<lambda>x. i_TransactionHash (if i_ID x = i_ID r then r' else x) = g) (rows (inputs w)) =
        filter (\<lambda>x. i_TransactionHash x = g) (rows (inputs w))"
      using other by (intro filter_cong) auto
    then show ?thesis
      unfolding inkeys_def rows filter_map map_map comp_def using other by (intro map_cong) auto
  next
    case insert
    have "i_TransactionHash r' = i_TransactionHash r"
      using insert(3) by (auto simp: t_insert_def Let_def split: if_splits)
    then show ?thesis using g by (simp add: inkeys_def inputT.insert_row [OF insert(3)])
  qed
qed

lemma PutInput_runs:
  assumes "ins_ok w \<Longrightarrow> input_fits r w" and "i_TransactionHash r = tx_Txid j" and "in_key r \<in> vin_key ` set (tx_Vin j)"
    and "tx_step j u w" and "\<And>r' v. tx_step j u v \<Longrightarrow> same_outputs w v \<Longrightarrow> Q r' v" and "\<And>v. tx_step j u v \<Longrightarrow> X v"
  shows "runs (PutInput r) w Q X"
proof (rule runs_atomic [OF atomic_PutInput])
  fix r' v assume p: "PutInput r w = (Ok r', v)"
  have k: "adds_key (tx_Txid j) (in_key r) w v"
    by (rule adds_keyI) (use PutInput_keys [OF _ _ p] assms(1,2) in \<open>simp add: adds_key_def\<close>)
  have "tx_step j w v"
    by (rule tx_step_inputs [OF k withinD [OF same_PutInput(1) p] withinD [OF same_PutInput(2) p]])
      (use assms(1,2,3) PutInput_others [OF _ _ p] in auto)
  then show "Q r' v" using assms(5) tx_step_trans [OF assms(4)] withinD [OF same_PutInput(1) p] by blast
qed (use assms(6) tx_step_trans [OF assms(4)] unchanged_step in blast)

section \<open>Jobs\<close>

lemma unchanged_vouts: "unchanged w v \<Longrightarrow> vouts_of h v = vouts_of h w"
  by (auto simp: unchanged_def vouts_of_def)

lemma runs_step:
  assumes "within (tx_step j) m" and "tx_step j u w" and "\<And>x v. tx_step j u v \<Longrightarrow> Q x v" and "\<And>v. tx_step j u v \<Longrightarrow> X v"
  shows "runs m w Q X"
  using assms(3,4) tx_step_trans [OF assms(2)] by (intro runs_within [OF assms(1)]) blast+

lemmas runs_steps = runs_step [OF stepC.GetOutput] runs_step [OF stepC.GetAddress] runs_step [OF stepC.GetTxAddress]
  runs_step [OF stepC.GetClaim] runs_step [OF stepC.processNullDataVout] runs_step [OF stepC.processScriptForClaim]

lemma ProcessVout_step:
  assumes "t_Hash tx = tx_Txid j" and "v \<in> set (tx_Vout j)"
  shows "within (tx_step j) (ProcessVout E v tx h dc)"
proof (rule within_runs)
  fix w
  show "runs (ProcessVout E v tx h dc) w (\<lambda>_. tx_step j w) (tx_step j w)"
    unfolding ProcessVout_def
    by (intro runs_rules runs_steps [where u = w] PutOutput_runs [where u = w])
      (use assms stepC.refl in \<open>auto split: option.splits\<close>)
qed


text \<open>The reading part of a job leaves the world as it was, so what it found still holds when it writes.\<close>

lemma runs_un:
  assumes "within unchanged m" and "unchanged u w" and "\<And>x v. unchanged u v \<Longrightarrow> Q x v" and "\<And>v. unchanged u v \<Longrightarrow> X v"
  shows "runs m w Q X"
  using assms(3,4) un.trans [OF assms(2)] by (intro runs_within [OF assms(1)]) blast+

lemma GetOutput_runs:
  assumes "unchanged u w"
    and "\<And>f v. unchanged u v \<Longrightarrow> (\<And>x. f = Some x \<Longrightarrow> o_TransactionHash x = h \<and> o_Vout x = n \<and> n \<in> vouts_of h u) \<Longrightarrow> Q f v"
    and "\<And>v. unchanged u v \<Longrightarrow> X v"
  shows "runs (GetOutput h n) w Q X"
proof (rule runsI)
  fix f v assume g: "GetOutput h n w = (Ok f, v)"
  have "first_row (output_at h n) (outputs w) = Some x" if "f = Some x" for x
    using or_nil_oneG(2) [OF g [unfolded GetOutput_def] that] by simp
  then have "o_TransactionHash x = h \<and> o_Vout x = n \<and> n \<in> vouts_of h u" if "f = Some x" for x
    using that output_at_key vouts_of_found unchanged_vouts [OF assms(1)] by blast
  then show "Q f v" using assms(2) un.trans [OF assms(1) withinD [OF un.GetOutput g]] by blast
qed (use assms(3) un.trans [OF assms(1)] withinD [OF un.GetOutput] in blast)

definition job_found :: "Vin \<Rightarrow> Transaction \<Rightarrow> world \<Rightarrow> Input option \<Rightarrow> bool" where
  "job_found v tx w f \<longleftrightarrow> (\<forall>x. f = Some x \<longrightarrow> x \<in> set (rows (inputs w)) \<and> i_TransactionHash x = t_Hash tx \<and>
     i_IsCoinbase x = (length (vin_Coinbase v) > 0) \<and> i_PrevoutHash x = Some (vin_TxID v) \<and> i_PrevoutN x = Some (vin_Vout v))"

lemma GetInput_runs:
  assumes "\<And>f v. unchanged w v \<Longrightarrow> job_found jv tx w f \<Longrightarrow> Q f v" and "\<And>v. unchanged w v \<Longrightarrow> X v"
  shows "runs (GetInput (t_Hash tx) (length (vin_Coinbase jv) > 0) (vin_TxID jv) (vin_Vout jv)) w Q X"
proof (rule runsI)
  fix f v assume g: "GetInput (t_Hash tx) (length (vin_Coinbase jv) > 0) (vin_TxID jv) (vin_Vout jv) w = (Ok f, v)"
  have "job_found jv tx w f"
    unfolding job_found_def using or_nil_oneG(2) [OF g [unfolded GetInput_def]] by (auto simp: first_row_def find_Some_iff)
  then show "Q f v" using assms(1) withinD [OF un.GetInput g] by blast
qed (use assms(2) withinD [OF un.GetInput] in blast)

definition job_row :: "Vin \<Rightarrow> Transaction \<Rightarrow> nat \<Rightarrow> Input option \<Rightarrow> Input" where
  "job_row v tx n f = (case f of None \<Rightarrow> input_of_vin v tx n | Some x \<Rightarrow> (input_of_vin v tx n)\<lparr>i_ID := i_ID x\<rparr>)"

lemma PutInput_job:
  assumes "unchanged u w" and "job_found jv tx u f" and "t_Hash tx = tx_Txid j" and "jv \<in> set (tx_Vin j)"
    and key: "in_key r = in_key (job_row jv tx n f)" "i_TransactionHash r = i_TransactionHash (job_row jv tx n f)"
      "i_ID r = i_ID (job_row jv tx n f)"
    and "\<And>r' v. tx_step j u v \<Longrightarrow> same_outputs u v \<Longrightarrow> Q r' v" and "\<And>v. tx_step j u v \<Longrightarrow> X v"
  shows "runs (PutInput r) w Q X"
proof -
  have same: "same_inputs u w" "same_outputs u w" using assms(1) by (auto simp: unchanged_def same_inputs_def same_outputs_def)
  have k: "in_key (job_row jv tx n f) = vin_key jv" "i_TransactionHash (job_row jv tx n f) = t_Hash tx"
    by (cases f; simp add: job_row_def input_of_vin_key)+
  have fits: "input_fits r w" if "ins_ok w"
  proof -
    have "ins_ok u" using that ins_ok_same [OF same(1)] by simp
    then have "input_fits (job_row jv tx n f) u"
      using input_fits_job(1) [of u f tx jv _ n] assms(2) unfolding job_found_def job_row_def by blast
    then show ?thesis
      using key input_fits_frame [OF same(1)] by (auto simp: input_fits_def in_key_def)
  qed
  show ?thesis
    by (rule PutInput_runs [where j = j and u = u, OF fits _ _ unchanged_step [OF assms(1)]])
      (use key k assms(3,4,8,9) outC.trans [OF same(2)] in auto)
qed

lemma un_inputAddress: "within unchanged (inputAddress E src)"
  unfolding inputAddress_def by (intro un.rules un.getters)

text \<open>An input spends an output that was found, so marking it adds no row, and its own row has the key the
  JSON gives it.\<close>

lemma ProcessVin_step:
  assumes tx: "t_Hash tx = tx_Txid j" and v: "v \<in> set (tx_Vin j)"
  shows "within (tx_step j) (ProcessVin E v tx n dc)"
proof (rule within_runs)
  fix w
  show "runs (ProcessVin E v tx n dc) w (\<lambda>_. tx_step j w) (tx_step j w)"
    unfolding ProcessVin_def job_row_def [symmetric]
    by (intro runs_rules GetInput_runs GetOutput_runs [where u = w] runs_un [OF un_inputAddress, where u = w]
      PutInput_job [where u = w and j = j and tx = tx and jv = v and n = n] PutOutput_runs [where u = w and j = j]
      runs_steps [where u = w and j = j])
    (use tx v un.refl unchanged_step in \<open>auto simp: outs_ok_same\<close>)
qed


section \<open>The transaction row\<close>

lemma Transaction_UpdateG_Ok:
  assumes "Transaction_UpdateG r w = (Ok u, w')"
  shows "t_update t_ID transaction_clash (t_ID r) (\<lambda>x. r\<lparr>t_CreatedAt := t_CreatedAt x\<rparr>) (transactions w) = Ok (transactions w')"
    and "same_outputs w w'" and "same_inputs w w'"
  using assms unfolding Transaction_UpdateG_def
  by (auto elim!: change_Ok simp: outcome_simps same_outputs_def same_inputs_def)

lemma Transaction_InsertG_Ok:
  assumes "Transaction_InsertG r w = (Ok r', w')"
  shows "t_insert t_ID (\<lambda>k r. r\<lparr>t_ID := k\<rparr>) transaction_clash (tx_stamped (clock w) r) (transactions w) = Ok (r', transactions w')"
    and "same_outputs w w'" and "same_inputs w w'"
  using assms unfolding Transaction_InsertG_def by (auto elim!: change_Ok simp: same_outputs_def same_inputs_def)

lemma tx_step_transactions:
  assumes "same_outputs w w'" and "same_inputs w w'"
    and "txT.wf_table (transactions w) \<Longrightarrow> txT.wf_table (transactions w') \<and> has_row j w' \<and> (\<forall>g. g \<noteq> tx_Txid j \<longrightarrow> tx_rows g w' = tx_rows g w)"
  shows "tx_step j w w'"
proof -
  have "vouts_of g w' = vouts_of g w" "outs_ok w' = outs_ok w" "inkeys g w' = inkeys g w" "ins_ok w' = ins_ok w" for g
    using outs_ok_same [OF assms(1)] ins_ok_same [OF assms(2)] by simp_all
  moreover have "fault w' = fault w" using assms(1) by (simp add: same_outputs_def)
  ultimately show ?thesis
    using assms(3) by (auto simp: tx_step_def rows_ok_def leftovers_def others_same_def own_grow_def)
qed

lemma transaction_of_json_hash [simp]: "t_Hash (transaction_of_json j t) = tx_Txid j"
  by (simp add: transaction_of_json_def)

lemma update_transaction_step:
  assumes x: "x \<in> set (rows (transactions w))" "t_Hash x = tx_Txid j"
    and run: "Transaction_UpdateG (transaction_of_json j x) w = (Ok u, w')"
  shows "tx_step j w w'"
proof (rule tx_step_transactions [OF Transaction_UpdateG_Ok(2,3) [OF run]])
  assume wf: "txT.wf_table (transactions w)"
  note up = Transaction_UpdateG_Ok(1) [OF run, simplified]
  have only: "y = x" if "y \<in> set (rows (transactions w))" "t_ID y = t_ID x" for y
    using that x wf by (auto simp: txT.wf_table_def distinct_map inj_on_def)
  have rows: "rows (transactions w') = map (\<lambda>y. if t_ID y = t_ID x then (transaction_of_json j x)\<lparr>t_CreatedAt := t_CreatedAt y\<rparr> else y)
      (rows (transactions w))"
    by (rule t_update_rows [OF up])
  have "txT.wf_table (transactions w')" by (rule txT.wf_update [OF wf up]) simp
  moreover have "has_row j w'"
    unfolding has_row_def rows set_map
    by (rule bexI [where x = "(transaction_of_json j x)\<lparr>t_CreatedAt := t_CreatedAt x\<rparr>"]) (simp, rule rev_image_eqI [OF x(1)], simp)
  moreover have "tx_rows g w' = tx_rows g w" if "g \<noteq> tx_Txid j" for g
  proof -
    have flt: "filter (\<lambda>y. t_Hash (if t_ID y = t_ID x then (transaction_of_json j x)\<lparr>t_CreatedAt := t_CreatedAt y\<rparr> else y) = g) (rows (transactions w)) =
        filter (\<lambda>y. t_Hash y = g) (rows (transactions w))"
      using that only x(2) by (intro filter_cong) auto
    have "t_ID y \<noteq> t_ID x" if "y \<in> set (filter (\<lambda>y. t_Hash y = g) (rows (transactions w)))" for y
      using that only [of y] x(2) \<open>g \<noteq> tx_Txid j\<close> by auto
    then show ?thesis
      unfolding tx_rows_def rows filter_map comp_def flt by (intro map_idI) simp
  qed
  ultimately show "txT.wf_table (transactions w') \<and> has_row j w' \<and> (\<forall>g. g \<noteq> tx_Txid j \<longrightarrow> tx_rows g w' = tx_rows g w)" by blast
qed

lemma insert_transaction_step:
  assumes run: "Transaction_InsertG (transaction_of_json j zeroTransaction) w = (Ok t, w')"
  shows "tx_step j w w'" and "t_Hash t = tx_Txid j"
proof -
  note ins = Transaction_InsertG_Ok(1) [OF run]
  have t: "tx_row j t" "t_Hash t = tx_Txid j" using ins by (auto simp: t_insert_def Let_def tx_stamped_def split: if_splits)
  then show "t_Hash t = tx_Txid j" by simp
  show "tx_step j w w'"
    by (rule tx_step_transactions [OF Transaction_InsertG_Ok(2,3) [OF run]])
      (use txT.wf_insert [OF _ ins] t in \<open>auto simp: has_row_def tx_rows_def txT.insert_row [OF ins]\<close>)
qed

lemma saveUpdateTransaction_runs:
  "runs (saveUpdateTransaction j) w (\<lambda>t w'. tx_step j w w' \<and> t_Hash t = tx_Txid j) (tx_step j w)"
  unfolding saveUpdateTransaction_def
proof (rule runs_bind, rule runsI)
  let ?find = "or_nil (oneG (\<lambda>w. first_row (\<lambda>x. t_Hash x = tx_Txid j) (transactions w)))"
  have un: "within unchanged ?find" by (intro un.rules)
  show "tx_step j w v" if "?find w = (r, v)" for r v using withinD [OF un that] unchanged_step by blast
  fix f v
  assume g: "or_nil (oneG (\<lambda>w. first_row (\<lambda>x. t_Hash x = tx_Txid j) (transactions w))) w = (Ok f, v)"
  have v: "unchanged w v" using or_nil_oneG(1) [OF g] by (auto simp: unchanged_def)
  have f: "x \<in> set (rows (transactions v)) \<and> t_Hash x = tx_Txid j" if "f = Some x" for x
    using or_nil_oneG(2) [OF g that] v by (auto simp: first_row_def find_Some_iff unchanged_def)
  have at: "atomic (Transaction_UpdateG r)" "atomic (Transaction_InsertG r)" for r
    unfolding Transaction_UpdateG_def Transaction_InsertG_def by (rule atomic_change atomic_at [where h = clock])+
  have step: "tx_step j w z" if "tx_step j v z" for z using tx_step_trans [OF unchanged_step [OF v] that] .
  show "runs (case f of Some f \<Rightarrow> (let t = transaction_of_json j f in bind (Transaction_UpdateG t) (\<lambda>_. ret t))
      | None \<Rightarrow> Transaction_InsertG (transaction_of_json j zeroTransaction)) v (\<lambda>t w'. tx_step j w w' \<and> t_Hash t = tx_Txid j) (tx_step j w)"
    by (intro runs_rules runs_atomic [OF at(1)] runs_atomic [OF at(2)])
      (use f step update_transaction_step insert_transaction_step unchanged_step in auto)
qed


section \<open>The whole transaction\<close>

context db_relation
begin

lemma runJobs_set:
  assumes "\<And>j s. j \<in> set js \<Longrightarrow> within R (f j s)"
  shows "within R (runJobs label f js s err)"
  using assms
proof (induction js arbitrary: s err)
  case Nil
  show ?case by (cases err) (simp_all only: runJobs.simps ret fail)
next
  case (Cons j js)
  have "within R (runJobs label f js s err)" for s err using Cons by simp
  then show ?case unfolding runJobs.simps using Cons.prems by (intro bind attempt case_sum) simp_all
qed

end

lemma saveUpdateInputs_step:
  assumes "order_ok sch" and "t_Hash tx = tx_Txid j"
  shows "within (tx_step j) (saveUpdateInputs E sch tx j dc)"
  unfolding saveUpdateInputs_def Let_def using assms
  by (intro stepC.runJobs_set ProcessVin_step) (auto simp: order_ok_def)

lemma saveUpdateOutputs_step:
  assumes "order_ok sch" and "t_Hash tx = tx_Txid j"
  shows "within (tx_step j) (saveUpdateOutputs E sch tx j h dc)"
  unfolding saveUpdateOutputs_def Let_def using assms
  by (intro stepC.runJobs_set ProcessVout_step) (auto simp: order_ok_def)

lemma ProcessTx_step:
  assumes "order_ok sch"
  shows "within (tx_step j) (ProcessTx E sch j seconds height)"
proof (rule within_runs)
  fix w
  show "runs (ProcessTx E sch j seconds height) w (\<lambda>_. tx_step j w) (tx_step j w)"
    unfolding ProcessTx_def
  proof (rule runs_bind, rule runsI)
    fix tx v assume s: "saveUpdateTransaction j w = (Ok tx, v)"
    note tx = runsD [OF saveUpdateTransaction_runs s, simplified]
    let ?rest = "bind (prefix ''Vout Address Creation Error'' (createUpdateVoutAddresses E tx (tx_Vout j) seconds)) (\<lambda>_.
      bind (enriched j height (createUpdateVinAddresses E tx (tx_Vin j))) (\<lambda>_.
      bind (saveUpdateInputs E sch tx j newTxDebitCredits) (\<lambda>txDC.
      bind (saveUpdateOutputs E sch tx j height txDC) (\<lambda>txDC. setSendReceive sch tx txDC))))"
    have "within (tx_step j) ?rest"
      unfolding enriched_def using assms tx
      by (intro stepC.rules stepA.createUpdateVoutAddresses stepA.createUpdateVinAddresses saveUpdateInputs_step
          saveUpdateOutputs_step stepA.setSendReceive) simp_all
    then show "runs ?rest v (\<lambda>_. tx_step j w) (tx_step j w)"
      using tx tx_step_trans by (intro runs_within [where R = "tx_step j"]) blast+
  next
    fix r v assume s: "saveUpdateTransaction j w = (r, v)"
    show "tx_step j w v" using runsD [OF saveUpdateTransaction_runs s] by (cases r) auto
  qed
qed

section \<open>A complete transaction\<close>

lemma one_tx_row:
  assumes wf: "txT.wf_table (transactions w)" and t: "t \<in> set (rows (transactions w))" "t_Hash t = h"
  shows "tx_rows h w = [t]"
proof -
  have "x = t" if "x \<in> set (tx_rows h w)" for x
  proof -
    have x: "x \<in> set (rows (transactions w))" "transaction_clash x t" using that t by (simp_all add: tx_rows_def transaction_clash_def)
    then have "t_ID x = t_ID t" using wf t unfolding txT.wf_table_def by blast
    then show ?thesis using wf x t by (auto simp: txT.wf_table_def distinct_map dest: inj_onD)
  qed
  then have only: "set (tx_rows h w) \<subseteq> {t}" by blast
  have "t \<in> set (tx_rows h w)" using t by (simp add: tx_rows_def)
  then obtain ys where "tx_rows h w = t # ys" using only by (cases "tx_rows h w") auto
  moreover have "distinct (tx_rows h w)" using wf by (simp add: tx_rows_def txT.wf_table_def distinct_map)
  ultimately show ?thesis using only by (cases ys) auto
qed

definition output_numbers :: "string \<Rightarrow> world \<Rightarrow> nat list" where
  "output_numbers h w = map o_Vout (filter (\<lambda>x. o_TransactionHash x = h) (rows (outputs w)))"

lemma output_numbers_once: "outs_ok w \<Longrightarrow> distinct (output_numbers h w) \<and> set (output_numbers h w) = vouts_of h w"
proof -
  assume ok: "outs_ok w"
  have s: "set (output_numbers h w) = vouts_of h w" by (simp add: output_numbers_def vouts_of_def)
  have "length (output_numbers h w) = card (set (output_numbers h w))"
    unfolding s using count_vouts [OF ok, of h] by (simp add: output_numbers_def)
  then show ?thesis using s by (simp add: card_distinct)
qed

text \<open>C36: A transaction that was processed successfully is complete: the database holds exactly one row of it, under its block, with the
  counts of its JSON; exactly one output row for each output the JSON lists, by its number, and no other; exactly one input row for each
  input it lists, by what it spends, and no other; and the check that later decides whether its block is complete is passed. The rows of all other
  transactions, and which inputs and outputs they have, are as they were. This holds for every order in which the workers finish, for every pattern of database
  errors the run survived, and when an earlier attempt had left part of the rows behind. The hypotheses are tables with unique keys that hold no
  rows under this transaction but such leftovers, and a JSON whose outputs and inputs are distinct.\<close>

theorem ProcessTx_complete:
  assumes run: "ProcessTx E sch j seconds height w = (Ok (), w')"
    and sch: "order_ok sch" and ok: "rows_ok w" and left: "leftovers j w"
    and dist: "distinct (map vout_N (tx_Vout j))" "distinct (map vin_key (tx_Vin j))"
  shows "\<exists>t. tx_rows (tx_Txid j) w' = [t] \<and> tx_row j t \<and>
    mset (output_numbers (tx_Txid j) w') = mset (map vout_N (tx_Vout j)) \<and>
    mset (inkeys (tx_Txid j) w') = mset (map vin_key (tx_Vin j)) \<and>
    (\<forall>c v. transactionHasExpectedChildren t w' = (Ok c, v) \<longrightarrow> c) \<and>
    (\<forall>g. g \<noteq> tx_Txid j \<longrightarrow> tx_rows g w' = tx_rows g w \<and> mset (output_numbers g w') = mset (output_numbers g w) \<and> inkeys g w' = inkeys g w)"
proof -
  have before: "outs_ok w" "ins_ok w" using ok by (simp_all add: rows_ok_def)
  have c: "complete_tx j w'" using ProcessTx_completes [OF run sch before left] by blast
  have "tx_step j w w'" by (rule withinD [OF ProcessTx_step [OF sch] run])
  then have after: "rows_ok w'" and others: "others_same (tx_Txid j) w w'" using ok left by (simp_all add: tx_step_def)
  have o: "outs_ok w'" "txT.wf_table (transactions w')" using after by (simp_all add: rows_ok_def)
  obtain t where t: "t \<in> set (rows (transactions w'))" "tx_row j t" using c by (auto simp: complete_tx_def has_row_def)
  have row: "tx_rows (tx_Txid j) w' = [t]" using one_tx_row [OF o(2) t(1)] t(2) by (simp add: tx_row_def)
  have outs: "mset (output_numbers (tx_Txid j) w') = mset (map vout_N (tx_Vout j))"
    using output_numbers_once [OF o(1)] c dist(1) set_eq_iff_mset_eq_distinct by (metis complete_tx_def list.set_map)
  have ins: "mset (inkeys (tx_Txid j) w') = mset (map vin_key (tx_Vin j))"
    using c dist(2) set_eq_iff_mset_eq_distinct by (metis complete_tx_def list.set_map)
  have "mset (output_numbers g w') = mset (output_numbers g w)" if "g \<noteq> tx_Txid j" for g
    using output_numbers_once [OF o(1), of g] output_numbers_once [OF before(1), of g] others that
    by (metis others_same_def set_eq_iff_mset_eq_distinct)
  then show ?thesis using row t(2) outs ins others complete_children [OF c o(1) t(2) dist]
    by (intro exI [of _ t]) (auto simp: post_def others_same_def)
qed

theorem ProcessTx_complete_witness:
  "\<exists>t. tx_rows ''t1'' demo_world1 = [t] \<and> tx_row (demo_json ''t1'' [demo_vin '''']) t \<and> mset (output_numbers ''t1'' demo_world1) = {#0, 1#} \<and>
     inkeys ''t1'' demo_world1 = [(True, None, None)] \<and> fst (transactionHasExpectedChildren t demo_world1) = Ok True"
proof -
  let ?j = "demo_json ''t1'' [demo_vin '''']"
  have "distinct (map vout_N (tx_Vout ?j))" "distinct (map vin_key (tx_Vin ?j))" by (simp_all add: demo_json_def demo_vout_def)
  moreover have "rows_ok demo_world" using demo_world_clean by (simp add: rows_ok_def) (simp add: demo_world_def txT.wf_empty)
  ultimately obtain t where t: "tx_rows (tx_Txid ?j) demo_world1 = [t]" "tx_row ?j t"
    and m: "mset (output_numbers (tx_Txid ?j) demo_world1) = mset (map vout_N (tx_Vout ?j))" "mset (inkeys (tx_Txid ?j) demo_world1) = mset (map vin_key (tx_Vin ?j))"
    and c: "\<forall>c v. transactionHasExpectedChildren t demo_world1 = (Ok c, v) \<longrightarrow> c"
    using ProcessTx_complete [OF demo_run order_ok_demo _ demo_world_clean(3)] by blast
  have j: "tx_Txid ?j = ''t1''" "map vout_N (tx_Vout ?j) = [0, 1]" "map vin_key (tx_Vin ?j) = [(True, None, None)]"
    by (simp_all add: demo_json_def demo_vout_def demo_vin_def vin_key_def)
  have "inkeys ''t1'' demo_world1 = [(True, None, None)]" using m(2) unfolding j by (simp add: mset_single_iff_right)
  moreover have "same_world demo_world demo_world1" by (rule withinD [OF restT.ProcessTx demo_run])
  then have "no_faults demo_world1" unfolding same_world_def no_faults_def by (simp add: demo_world_def)
  then have "fst (transactionHasExpectedChildren t demo_world1) = Ok True"
    using c by (auto simp: transactionHasExpectedChildren_def bind_def query_run)
  ultimately show ?thesis using t m(1) unfolding j by (intro exI [of _ t]) simp
qed

end
