(* ===== verification/BlockSync_Spec.thy ===== *)
theory BlockSync_Spec
  imports BlockSync TxFrame Scheduler_Spec Blocks_Spec
begin

text \<open>
  The scheduler and the database together. A run on the database is a run of the scheduler with the
  work of the workers in between, so what was proved of the scheduler holds for it; the log of the
  work respects the dependencies; and when the run ends without error every transaction of the block
  has all its rows.
\<close>

section \<open>A block run refines the scheduler\<close>

lemma block_run_sched: "block_reachable E conf g w r \<Longrightarrow> sched_reachable conf g (sched r)"
  unfolding block_reachable_def sched_reachable_def
proof (induction rule: rtranclp_induct)
  case base
  show ?case by (simp add: initRun_def)
next
  case (step r r')
  from step.hyps(2) show ?case
    by (cases rule: block_step.cases) (use step.IH in \<open>auto intro: rtranclp.rtrancl_into_rtrancl\<close>)
qed

section \<open>Completeness is kept\<close>

lemma complete_step:
  assumes "tx_step j w w'" and "rows_ok w" and "leftovers j w" and "complete_tx k w" and "tx_Txid k = tx_Txid j \<Longrightarrow> k = j"
  shows "complete_tx k w'"
proof (cases "tx_Txid k = tx_Txid j")
  case True
  then have "k = j" using assms(5) by blast
  moreover have "own_grow j w w'" "leftovers j w'" using assms(1-3) by (auto simp: tx_step_def)
  ultimately show ?thesis
    using assms(4) by (auto simp: complete_tx_def own_grow_def leftovers_def)
next
  case False
  have o: "others_same (tx_Txid j) w w'" using assms(1-3) by (auto simp: tx_step_def)
  then have t: "tx_rows (tx_Txid k) w' = tx_rows (tx_Txid k) w" using False by (simp add: others_same_def)
  have "has_row k v \<longleftrightarrow> (\<exists>x\<in>set (tx_rows (tx_Txid k) v). tx_row k x)" for v
    by (auto simp: has_row_def tx_rows_def tx_row_def)
  then have "has_row k w' = has_row k w" using t by simp
  then show ?thesis using assms(4) o False by (simp add: complete_tx_def others_same_def)
qed

lemma leftovers_step:
  assumes "tx_step j w w'" and "rows_ok w" and "leftovers j w" and "leftovers k w" and "tx_Txid k = tx_Txid j \<Longrightarrow> k = j"
  shows "leftovers k w'"
  using assms by (cases "tx_Txid k = tx_Txid j") (auto simp: tx_step_def leftovers_def others_same_def)

section \<open>The invariant of a run\<close>

definition block_txs :: "blockTxGraph \<Rightarrow> TxRawResult set" where
  "block_txs g = ran (txByID g)"

definition block_ready :: "blockTxGraph \<Rightarrow> world \<Rightarrow> bool" where
  "block_ready g w \<longleftrightarrow> sched_start g \<and> rows_ok w \<and> (\<forall>tx\<in>block_txs g. leftovers tx w)"

definition ordered_log :: "blockTxGraph \<Rightarrow> (txid \<times> goerr option) list \<Rightarrow> bool" where
  "ordered_log g log \<longleftrightarrow> (\<forall>i<length log. \<forall>p. (p, fst (log ! i)) \<in> (edge_rel g)\<^sup>+ \<longrightarrow> (p, None) \<in> set (take i log))"

definition run_inv :: "schedConf \<Rightarrow> blockTxGraph \<Rightarrow> world \<Rightarrow> blockRun \<Rightarrow> bool" where
  "run_inv conf g w r \<longleftrightarrow> sched_inv conf g (sched r) \<and> rows_ok (db r) \<and> (\<forall>tx\<in>block_txs g. leftovers tx (db r)) \<and>
     fault (db r) = fault w \<and> blocks (db r) = blocks w \<and>
     (\<forall>h. h \<notin> dom (txByID g) \<longrightarrow> tx_rows h (db r) = tx_rows h w) \<and>
     (\<forall>tx\<in>block_txs g. (tx_Txid tx, None) \<in> set (processed r) \<longrightarrow> complete_tx tx (db r)) \<and>
     (\<forall>t. completed (graph (sched r)) t \<longrightarrow> (t, None) \<in> set (processed r)) \<and> ordered_log g (processed r)"

lemma block_txs_id: "sched_start g \<Longrightarrow> tx \<in> block_txs g \<Longrightarrow> txByID g (tx_Txid tx) = Some tx"
  by (auto simp: block_txs_def ran_def sched_start_def) (metis domI option.inject subsetD)

lemma block_txs_inj: "sched_start g \<Longrightarrow> tx \<in> block_txs g \<Longrightarrow> ty \<in> block_txs g \<Longrightarrow> tx_Txid tx = tx_Txid ty \<Longrightarrow> tx = ty"
  using block_txs_id [of g tx] block_txs_id [of g ty] by (metis option.inject)

lemma job_out:
  assumes inv: "sched_inv conf g s" and start: "sched_start g" and out: "jobs_out conf s j" and j: "job_tx j = Some tx"
  shows "tx \<in> block_txs g" and "(p, tx_Txid tx) \<in> (edge_rel g)\<^sup>+ \<Longrightarrow> completed (graph s) p"
proof -
  obtain polls sends where in1: "j \<in> set (inflight (dispatchPhase conf polls sends s))"
    using out by (auto simp: jobs_out_def)
  let ?s1 = "dispatchPhase conf polls sends s"
  have inv1: "sched_inv conf g ?s1" by (rule dispatchPhase_inv [OF inv start])
  have id: "job_id j = tx_Txid tx" by (simp add: job_id_def j)
  have "txByID g (tx_Txid tx) = Some tx" using sched_invD(12) [OF inv1 in1] id j by simp
  then show "tx \<in> block_txs g" by (auto simp: block_txs_def ran_def)
  assume path: "(p, tx_Txid tx) \<in> (edge_rel g)\<^sup>+"
  have "tx_Txid tx \<in> set (pool ?s1)" using in1 id by (force simp: pool_def)
  then have "unresolved (graph ?s1) (tx_Txid tx) = 0" using sched_invD(10) [OF inv1] by auto
  then have "p \<in> done_set ?s1"
    using unresolved_ancestors_done [OF inv1 _ path] start by (simp add: sched_start_def)
  moreover have "completed (graph ?s1) = completed (graph s)"
  proof (cases "terminalErr s = None")
    case True
    show ?thesis by (rule dispatchPhase_spec [OF True, of conf polls sends]) (erule ssubst, simp)
  next
    case False
    then show ?thesis by (simp only: dispatchPhase_def if_False)
  qed
  ultimately show "completed (graph s) p" by (simp add: done_set_def)
qed

lemma ordered_log_snoc:
  assumes "ordered_log g log" and "\<And>p. (p, fst x) \<in> (edge_rel g)\<^sup>+ \<Longrightarrow> (p, None) \<in> set log"
  shows "ordered_log g (log @ [x])"
  using assms by (auto simp: ordered_log_def nth_append less_Suc_eq)

lemma run_inv_work:
  assumes inv: "run_inv conf g w r" and start: "sched_start g" and job: "jobs_out conf (sched r) j" "job_tx j = Some tx"
    and sch: "order_ok sch" and run: "ProcessTx E sch tx t h (db r) = (res, w')" and np: "\<And>p. res \<noteq> Panic p"
  shows "run_inv conf g w (r\<lparr>db := w', processed := processed r @ [(tx_Txid tx, answer res)]\<rparr>)"
proof -
  note out = job_out [OF _ start job]
  have si: "sched_inv conf g (sched r)" using inv by (simp add: run_inv_def)
  have tx: "tx \<in> block_txs g" by (rule out(1) [OF si])
  have ok: "rows_ok (db r)" "leftovers tx (db r)" using inv tx by (auto simp: run_inv_def)
  have step: "tx_step tx (db r) w'" by (rule withinD [OF ProcessTx_step [OF sch] run])
  have world: "same_world (db r) w'" by (rule withinD [OF restT.ProcessTx run])
  have new: "complete_tx tx w'" if "answer res = None"
  proof -
    have "res = Ok ()" using that np by (cases res) (auto simp: answer_def)
    then show ?thesis using ProcessTx_completes [OF _ sch, of E tx t h "db r" w'] run ok by (auto simp: rows_ok_def)
  qed
  have keep: "complete_tx k w'" if "k \<in> block_txs g" "complete_tx k (db r)" for k
    using complete_step [OF step ok that(2)] block_txs_inj [OF start that(1) tx] by blast
  have "leftovers k w'" if "k \<in> block_txs g" for k
    using leftovers_step [OF step ok] block_txs_inj [OF start that tx] inv that by (auto simp: run_inv_def)
  moreover have "rows_ok w'" using step ok by (auto simp: tx_step_def)
  moreover have "tx_rows k w' = tx_rows k w" if "k \<notin> dom (txByID g)" for k
  proof -
    have "k \<noteq> tx_Txid tx" using that block_txs_id [OF start tx] by auto
    then show ?thesis using step ok inv that by (auto simp: tx_step_def others_same_def run_inv_def)
  qed
  moreover have "ordered_log g (processed r @ [(tx_Txid tx, answer res)])"
    by (rule ordered_log_snoc) (use inv out(2) [OF si] in \<open>auto simp: run_inv_def\<close>)
  moreover have "complete_tx k w'" if "k \<in> block_txs g" "(tx_Txid k, None) \<in> set (processed r @ [(tx_Txid tx, answer res)])" for k
    using that keep new inv block_txs_inj [OF start that(1) tx] by (auto simp: run_inv_def)
  ultimately show ?thesis
    using inv world by (auto simp: run_inv_def same_world_def)
qed

lemma run_inv_reachable:
  assumes "block_ready g w" and "block_reachable E conf g w r"
  shows "run_inv conf g w r"
  using assms(2) unfolding block_reachable_def
proof (induction rule: rtranclp_induct)
  case base
  have "sched_inv conf g (initSched g)" using assms(1) sched_inv_init by (simp add: block_ready_def)
  moreover have "completed g = (\<lambda>_. False)" using assms(1) by (simp add: block_ready_def sched_start_def)
  ultimately show ?case
    using assms(1) by (simp add: run_inv_def initRun_def block_ready_def initSched_def ordered_log_def)
next
  case (step r r')
  have start: "sched_start g" using assms(1) by (simp add: block_ready_def)
  from step.hyps(2) show ?case
  proof (cases rule: block_step.cases)
    case (Work j tx sch res v)
    then show ?thesis using run_inv_work [OF step.IH start] by blast
  next
    case (Loop s)
    have "sched_inv conf g s" using sched_step_inv Loop(2) step.IH start by (auto simp: run_inv_def)
    moreover have "(t, None) \<in> set (processed r)" if "completed (graph s) t" for t
      using Loop(3) [OF that] step.IH by (auto simp: run_inv_def)
    ultimately show ?thesis using step.IH unfolding Loop(1) run_inv_def by simp
  qed
qed

section \<open>A finished run\<close>

lemma run_complete:
  assumes ready: "block_ready g w" and run: "block_reachable E conf g w r"
    and fin: "\<not> looping (sched r)" "terminalErr (sched r) = None"
  shows "\<forall>tx\<in>block_txs g. complete_tx tx (db r)"
proof
  fix tx assume tx: "tx \<in> block_txs g"
  have start: "sched_start g" using ready by (simp add: block_ready_def)
  have inv: "run_inv conf g w r" by (rule run_inv_reachable [OF ready run])
  have "int (length (order g)) \<le> completedCount (sched r)"
    using sched_reachable_inv(2) [OF block_run_sched [OF run] start fin(1)] fin(2) by simp
  then have "done_set (sched r) = set (order g)"
    using done_set_full(1) inv start by (auto simp: run_inv_def sched_start_def)
  moreover have "tx_Txid tx \<in> set (order g)"
    using block_txs_id [OF start tx] start by (auto simp: sched_start_def)
  ultimately have "completed (graph (sched r)) (tx_Txid tx)" by (auto simp: done_set_def)
  then show "complete_tx tx (db r)" using inv tx by (auto simp: run_inv_def)
qed

text \<open>C2: The workers of a block run respect its dependencies on the database: whenever \<^verbatim>\<open>processTx\<close> is run on a transaction,
  every transaction of the block that it depends on, directly or through others, has already been run to
  success on the same database, whatever the interleaving of workers, answers, retries and stop signals.\<close>

theorem work_respects_dependencies:
  assumes "block_ready g w" and "block_reachable E conf g w r" and "i < length (processed r)"
    and "(p, fst (processed r ! i)) \<in> (edge_rel g)\<^sup>+"
  shows "(p, None) \<in> set (take i (processed r))"
  using run_inv_reachable [OF assms(1,2)] assms(3,4) by (auto simp: run_inv_def ordered_log_def)

section \<open>The transactions of a block\<close>

text \<open>What the node answers for a block: the transaction of each id, under the block's hash, with distinct
  output indices and distinct inputs.\<close>

definition answers_ok :: "txid list \<Rightarrow> string \<Rightarrow> (nat \<Rightarrow> TxRawResult) \<Rightarrow> bool" where
  "answers_ok txIDs hash f \<longleftrightarrow> distinct txIDs \<and> '''' \<notin> set txIDs \<and>
     (\<forall>i<length txIDs. tx_Txid (f i) = txIDs ! i \<and> tx_BlockHash (f i) = hash \<and>
        distinct (map vout_N (tx_Vout (f i))) \<and> distinct (map vin_key (tx_Vin (f i))))"

definition answered :: "(nat \<Rightarrow> TxRawResult) \<Rightarrow> nat list \<Rightarrow> fetchEvent list" where
  "answered f is = map (\<lambda>i. FetchResult i (Inr (f i))) is"

definition block_clean :: "txid list \<Rightarrow> string \<Rightarrow> (nat \<Rightarrow> TxRawResult) \<Rightarrow> world \<Rightarrow> bool" where
  "block_clean txIDs hash f w \<longleftrightarrow> rows_ok w \<and> (\<forall>i<length txIDs. leftovers (f i) w) \<and>
     (\<forall>x\<in>set (rows (transactions w)). t_BlockHashID x = Some hash \<longrightarrow> t_Hash x \<in> set txIDs)"

lemma map_filter_Some: "List.map_filter id (map (\<lambda>i. Some (h i)) xs) = map h xs"
  by (induction xs) (simp_all add: List.map_filter_def)

lemma fetched_graph:
  assumes "answers_ok txIDs hash f" and "distinct is" and "set is = {..<length txIDs}"
    and "fetchBlockRawTransactions txIDs (answered f is) = Some (Ok (txs, byID))"
    and "buildDependencies E (newBlockTxGraph txs byID) = Ok (g, err)"
  shows "order g = txIDs" and "sched_start g" and "block_txs g = f ` {..<length txIDs}" and "dom (txByID g) = set txIDs"
proof -
  let ?n = "length txIDs"
  have f: "distinct txIDs" "\<forall>i<?n. tx_Txid (f i) = txIDs ! i" using assms(1) by (auto simp: answers_ok_def)
  have t: "txs = map (\<lambda>i. Some (f i)) [0..<?n]" "byID = map_of (map (\<lambda>i. (txIDs ! i, f i)) [0..<?n])"
    using fetch_collects [OF assms(2,3) f] assms(4) by (auto simp: answered_def)
  have b: "byID (txIDs ! i) = Some (f i)" if "i < ?n" for i
    unfolding t(2) using that f(1) by (intro map_of_is_SomeI) (auto simp: comp_def distinct_conv_nth)
  have "dom byID = set (map ((!) txIDs) [0..<?n])" unfolding t(2) by (force simp: dom_map_of_conv_image_fst)
  then have d: "dom byID = set txIDs" by (simp only: map_nth)
  have "map (\<lambda>i. tx_Txid (f i)) [0..<?n] = txIDs" using f(2) by (intro nth_equalityI) simp_all
  then show o: "order g = txIDs"
    using buildDependencies_order(1) [OF assms(5)] by (simp add: t(1) map_filter_Some comp_def)
  have id: "\<forall>x tx. byID x = Some tx \<longrightarrow> tx_Txid tx = x"
    using b d f(2) by (metis domI in_set_conv_nth option.inject)
  show "sched_start g"
    by (rule buildDependencies_sched_start [OF assms(5)]) (use assms(1) d o id f(1) in \<open>auto simp: answers_ok_def\<close>)
  have e: "txByID g = byID" by (rule buildDependencies_order(5) [OF assms(5)])
  show "dom (txByID g) = set txIDs" by (simp add: e d)
  show "block_txs g = f ` {..<?n}"
    unfolding block_txs_def e
  proof (intro equalityI subsetI)
    fix tx assume "tx \<in> ran byID"
    then obtain a where a: "byID a = Some tx" by (auto simp: ran_def)
    then obtain i where i: "i < ?n" "txIDs ! i = a" using d by (metis domI in_set_conv_nth)
    then have "f i = tx" using b [OF i(1)] a by simp
    then show "tx \<in> f ` {..<?n}" using i(1) by blast
  next
    fix tx assume "tx \<in> f ` {..<?n}"
    then show "tx \<in> ran byID" using b by (auto intro: ranI)
  qed
qed

text \<open>A successful synchronisation has completed every transaction of the block and added no row under
  another id.\<close>

lemma sync_complete:
  assumes f: "answers_ok txIDs hash f" and ev: "distinct is" "set is = {..<length txIDs}" and clean: "block_clean txIDs hash f w"
    and sync: "syncTransactionsDependencyAware E conf txIDs (answered f is) w (Ok ()) w'"
  shows "rows_ok w'" and "blocks w' = blocks w" and "\<forall>i<length txIDs. complete_tx (f i) w'"
    and "\<forall>h. h \<notin> set txIDs \<longrightarrow> tx_rows h w' = tx_rows h w"
proof -
  have "rows_ok w' \<and> blocks w' = blocks w \<and> (\<forall>i<length txIDs. complete_tx (f i) w') \<and> (\<forall>h. h \<notin> set txIDs \<longrightarrow> tx_rows h w' = tx_rows h w)"
    using sync
  proof (cases rule: syncTransactionsDependencyAware.cases)
    case (Empty txs byID g)
    then have "txIDs = []" using fetched_graph(1) [OF f ev Empty(2,3)] by simp
    then show ?thesis using Empty clean by (simp add: block_clean_def)
  next
    case (Run txs byID g r)
    note g = fetched_graph [OF f ev Run(1,2)]
    have ready: "block_ready g w" using g clean by (auto simp: block_ready_def block_clean_def)
    have t: "terminalErr (sched r) = None" "w' = db r"
      using Run(6) by (auto simp: run_result_def split: option.splits prod.splits outcome.splits)
    have "run_inv conf g w r" by (rule run_inv_reachable [OF ready Run(4)])
    then show ?thesis
      using run_complete [OF ready Run(4,5) t(1)] g t(2) by (auto simp: run_inv_def)
  qed
  then show "rows_ok w'" and "blocks w' = blocks w" and "\<forall>i<length txIDs. complete_tx (f i) w'"
    and "\<forall>h. h \<notin> set txIDs \<longrightarrow> tx_rows h w' = tx_rows h w" by blast+
qed

text \<open>The rows the completeness check of the block reads.\<close>

lemma tx_rows_single:
  assumes "txT.wf_table (transactions w)" and "x \<in> set (rows (transactions w))" and "y \<in> set (rows (transactions w))"
    and "t_Hash x = t_Hash y"
  shows "x = y"
proof -
  have "t_ID x = t_ID y" using assms unfolding txT.wf_table_def transaction_clash_def by blast
  then show ?thesis using assms by (auto simp: txT.wf_table_def distinct_map inj_on_def)
qed

lemma block_rows:
  assumes f: "answers_ok txIDs hash f" and wf: "txT.wf_table (transactions w)"
    and all: "\<forall>i<length txIDs. complete_tx (f i) w"
    and only: "\<forall>x\<in>set (rows (transactions w)). t_BlockHashID x = Some hash \<longrightarrow> t_Hash x \<in> set txIDs"
  defines "xs \<equiv> filter (\<lambda>t. t_BlockHashID t = Some hash) (rows (transactions w))"
  shows "length xs = length txIDs" and "\<forall>x\<in>set xs. \<exists>i<length txIDs. tx_row (f i) x"
proof -
  have row: "\<exists>x\<in>set (rows (transactions w)). tx_row (f i) x" if "i < length txIDs" for i
    using all that by (auto simp: complete_tx_def has_row_def)
  have one: "\<exists>i<length txIDs. tx_row (f i) x" if x: "x \<in> set xs" for x
  proof -
    have x': "x \<in> set (rows (transactions w))" "t_Hash x \<in> set txIDs" using x only by (auto simp: xs_def)
    then obtain i where i: "i < length txIDs" "txIDs ! i = t_Hash x" by (auto simp: in_set_conv_nth)
    obtain y where y: "y \<in> set (rows (transactions w))" "tx_row (f i) y" using row [OF i(1)] by blast
    have "t_Hash y = t_Hash x" using y(2) i f by (simp add: tx_row_def answers_ok_def)
    then have "x = y" using tx_rows_single [OF wf x'(1) y(1)] by simp
    then show ?thesis using y(2) i(1) by blast
  qed
  then show "\<forall>x\<in>set xs. \<exists>i<length txIDs. tx_row (f i) x" by blast
  have "t_Hash ` set xs = set txIDs"
  proof (intro equalityI subsetI)
    show "h \<in> set txIDs" if "h \<in> t_Hash ` set xs" for h using that only by (auto simp: xs_def)
    fix h assume "h \<in> set txIDs"
    then obtain i where i: "i < length txIDs" "txIDs ! i = h" by (auto simp: in_set_conv_nth)
    obtain y where y: "y \<in> set (rows (transactions w))" "tx_row (f i) y" using row [OF i(1)] by blast
    then have "y \<in> set xs" "t_Hash y = h" using i f by (auto simp: xs_def tx_row_def answers_ok_def)
    then show "h \<in> t_Hash ` set xs" by blast
  qed
  moreover have "inj_on t_Hash (set xs)"
    by (rule inj_onI) (rule tx_rows_single [OF wf], auto simp: xs_def)
  moreover have "distinct xs" using wf by (auto simp: xs_def txT.wf_table_def distinct_map)
  moreover have "distinct txIDs" using f by (simp add: answers_ok_def)
  ultimately show "length xs = length txIDs" by (metis card_image distinct_card)
qed

section \<open>The block\<close>

text \<open>Storing and marking a block touches the table of blocks only.\<close>

definition blocks_only :: "world \<Rightarrow> world \<Rightarrow> bool" where
  "blocks_only w w' \<longleftrightarrow> (\<exists>t n. w' = w\<lparr>blocks := t, stmts := n\<rparr>)"

interpretation bo: db_relation blocks_only
proof unfold_locales
  show "blocks_only w w" for w unfolding blocks_only_def by (rule exI [of _ "blocks w"], rule exI [of _ "stmts w"]) simp
  show "blocks_only u w" if "blocks_only u v" "blocks_only v w" for u v w
    using that unfolding blocks_only_def by (elim exE) (simp, blast)
  show "blocks_only w (w\<lparr>stmts := n\<rparr>)" for w n
    unfolding blocks_only_def by (rule exI [of _ "blocks w"], rule exI [of _ n]) simp
qed

lemma blocks_change: "blocks_only w (w\<lparr>blocks := t\<rparr>)"
  unfolding blocks_only_def by (rule exI [of _ t], rule exI [of _ "stmts w"]) simp

lemma bo_writes: "within blocks_only (Block_UpdateWith k h)" "within blocks_only (Block_UpdateG b)" "within blocks_only (Block_InsertG b)"
  unfolding Block_UpdateG_def Block_UpdateWith_def Block_InsertG_def by (intro bo.change blocks_change)+

lemma bo_programs:
  "within blocks_only (parseBlockInfo h jb)" "within blocks_only (setPreviousBlockInfo h s)"
  "within blocks_only (markBlockProcessingState b st)"
  unfolding parseBlockInfo_def setPreviousBlockInfo_def markBlockProcessingState_def
  by (intro bo.rules bo_writes)+

lemma blocks_only_rows:
  assumes "blocks_only w w'"
  shows "rows_ok w' = rows_ok w" and "leftovers j w' = leftovers j w" and "complete_tx j w' = complete_tx j w"
    and "transactions w' = transactions w" and "outs_ok w' = outs_ok w" and "block_clean ids hash f w' = block_clean ids hash f w"
proof -
  obtain t n where "w' = w\<lparr>blocks := t, stmts := n\<rparr>" using assms by (auto simp: blocks_only_def)
  then show "rows_ok w' = rows_ok w" "leftovers j w' = leftovers j w" "complete_tx j w' = complete_tx j w"
    "transactions w' = transactions w" "outs_ok w' = outs_ok w" "block_clean ids hash f w' = block_clean ids hash f w"
    by (simp_all add: rows_ok_def leftovers_def complete_tx_def has_row_def outs_ok_def ins_ok_def vouts_of_def inkeys_def
      block_clean_def honest_faults_def)
qed

text \<open>The row of the block.\<close>

definition row_of :: "nat \<Rightarrow> string \<Rightarrow> world \<Rightarrow> bool" where
  "row_of k hash w \<longleftrightarrow> blockT.wf_table (blocks w) \<and> (\<exists>x\<in>set (rows (blocks w)). b_ID x = k \<and> b_Hash x = hash)"

lemma Block_UpdateWith_Ok:
  assumes "Block_UpdateWith k h w = (Ok u, w')"
  shows "t_update b_ID block_clash k h (blocks w) = Ok (blocks w')"
  using assms unfolding Block_UpdateWith_def by (auto elim!: change_Ok simp: outcome_simps)

lemma Block_UpdateWith_row_of:
  assumes "row_of k hash w" and "Block_UpdateWith m h w = (Ok u, w')"
    and "\<And>x. x \<in> set (rows (blocks w)) \<Longrightarrow> b_ID x = m \<Longrightarrow> b_ID (h x) = m \<and> (m = k \<and> b_Hash x = hash \<longrightarrow> b_Hash (h x) = hash)"
  shows "row_of k hash w'"
proof -
  note up = Block_UpdateWith_Ok [OF assms(2)]
  have wf: "blockT.wf_table (blocks w')"
    by (rule blockT.wf_update [OF _ up]) (use assms(1,3) in \<open>auto simp: row_of_def\<close>)
  obtain x where x: "x \<in> set (rows (blocks w))" "b_ID x = k" "b_Hash x = hash" using assms(1) by (auto simp: row_of_def)
  have "(if b_ID x = m then h x else x) \<in> set (rows (blocks w'))"
    unfolding t_update_rows [OF up] using x(1) by simp
  moreover have "b_ID (if b_ID x = m then h x else x) = k" "b_Hash (if b_ID x = m then h x else x) = hash"
    using x assms(3) [OF x(1)] by auto
  ultimately show ?thesis using wf unfolding row_of_def by blast
qed

lemma parseBlockInfo_row_of:
  assumes "blockT.wf_table (blocks w)"
  shows "post (parseBlockInfo height jb) w (\<lambda>b w'. row_of (b_ID b) (bl_Hash jb) w' \<and> b_Hash b = bl_Hash jb \<and> b_Height b = height \<and>
    b_TXCount b = bl_NTx jb \<and> (\<exists>x\<in>set (rows (blocks w')). b_ID x = b_ID b \<and> b_Height x = height))"
  unfolding parseBlockInfo_def
proof (rule post_bind, rule postI)
  fix fnd v
  assume g: "or_nil (oneG (\<lambda>w. first_row (\<lambda>b. b_Hash b = bl_Hash jb) (blocks w))) w = (Ok fnd, v)"
  have v: "blocks v = blocks w" using or_nil_oneG(1) [OF g] by simp
  let ?Q = "\<lambda>b w'. row_of (b_ID b) (bl_Hash jb) w' \<and> b_Hash b = bl_Hash jb \<and> b_Height b = height \<and> b_TXCount b = bl_NTx jb \<and>
    (\<exists>x\<in>set (rows (blocks w')). b_ID x = b_ID b \<and> b_Height x = height)"
  show "post (case fnd of Some x \<Rightarrow> let block = block_of_json height jb x in bind (Block_UpdateG block) (\<lambda>_. ret block)
      | None \<Rightarrow> Block_InsertG (block_of_json height jb zeroBlock)) v ?Q"
  proof (cases fnd)
    case None
    have "?Q b w'" if "Block_InsertG (block_of_json height jb zeroBlock) v = (Ok b, w')" for b w'
    proof -
      have ins: "t_insert b_ID (\<lambda>k r. r\<lparr>b_ID := k\<rparr>) block_clash (block_of_json height jb zeroBlock) (blocks w) = Ok (b, blocks w')"
        using that v unfolding Block_InsertG_def by (auto elim!: change_Ok)
      then have "b_Hash b = bl_Hash jb" "b_Height b = height" "b_TXCount b = bl_NTx jb"
        by (auto simp: t_insert_def Let_def block_of_json_def split: if_splits)
      then show ?thesis
        using blockT.wf_insert [OF assms ins] blockT.insert_row [OF ins] by (simp add: row_of_def)
    qed
    then show ?thesis unfolding None option.case by (auto simp: post_def)
  next
    case (Some x)
    have x: "x \<in> set (rows (blocks w))" "b_Hash x = bl_Hash jb"
      using or_nil_oneG(2) [OF g Some] by (auto simp: first_row_def find_Some_iff)
    let ?b = "block_of_json height jb x"
    have b: "b_ID ?b = b_ID x" "b_Hash ?b = bl_Hash jb" "b_Height ?b = height" "b_TXCount ?b = bl_NTx jb"
      by (simp_all add: block_of_json_def)
    have "?Q ?b w'" if "Block_UpdateG ?b v = (Ok u, w')" for u w'
    proof -
      note up = that [unfolded Block_UpdateG_def]
      have "row_of (b_ID x) (bl_Hash jb) w'"
        by (rule Block_UpdateWith_row_of [OF _ up]) (use x assms v b in \<open>auto simp: row_of_def\<close>)
      moreover have "?b\<lparr>b_CreatedAt := b_CreatedAt x\<rparr> \<in> set (rows (blocks w'))"
        unfolding t_update_rows [OF Block_UpdateWith_Ok [OF up]] using x v b by (force simp: image_iff)
      ultimately show ?thesis using b by (auto intro!: bexI [of _ "?b\<lparr>b_CreatedAt := b_CreatedAt x\<rparr>"])
    qed
    then show ?thesis unfolding Some option.case Let_def by (auto simp: post_def bind_Ok_iff)
  qed
qed

lemma setPreviousBlockInfo_row_of:
  assumes "row_of k hash w" and "\<exists>x\<in>set (rows (blocks w)). b_ID x = k \<and> b_Height x = height"
  shows "post (setPreviousBlockInfo height s) w (\<lambda>_ w'. row_of k hash w')"
  unfolding setPreviousBlockInfo_def
proof (intro post_cond post_ret post_bind postI)
  fix prev v u w'
  assume h: "\<not> height < 1" and one: "oneG (\<lambda>w. first_row (\<lambda>b. b_Height b = height - 1) (blocks w)) w = (Ok prev, v)"
    and up: "Block_UpdateG (prev\<lparr>b_NextBlockHash := Some s\<rparr>) v = (Ok u, w')"
  have v: "blocks v = blocks w" using bf_oneG [OF one] by (simp add: bf_def)
  have p: "prev \<in> set (rows (blocks w))" "b_Height prev = height - 1"
    using oneG_Ok [OF one] by (auto simp: first_row_def find_Some_iff)
  obtain x where x: "x \<in> set (rows (blocks w))" "b_ID x = k" "b_Height x = height" using assms(2) by blast
  have ne: "b_ID prev \<noteq> k"
  proof
    assume "b_ID prev = k"
    then have "prev = x" using p(1) x assms(1) by (auto simp: row_of_def blockT.wf_table_def distinct_map inj_on_def)
    then show False using p(2) x(3) h by simp
  qed
  have "row_of k hash v" using assms(1) v by (simp add: row_of_def)
  then show "row_of k hash w'"
    by (rule Block_UpdateWith_row_of [OF _ up [unfolded Block_UpdateG_def]]) (use ne in auto)
qed (rule assms(1))

lemma unchanged_rows:
  assumes "unchanged w w'"
  shows "complete_tx j w' = complete_tx j w" and "outs_ok w' = outs_ok w" and "transactions w' = transactions w"
  using assms
  by (auto simp: unchanged_def complete_tx_def has_row_def outs_ok_def vouts_of_def inkeys_def honest_faults_def)

lemma un_hasExpectedChildren: "within unchanged (transactionHasExpectedChildren t)"
  unfolding transactionHasExpectedChildren_def by (intro un.rules)

lemma allComplete_post:
  assumes "outs_ok w" and "\<forall>t\<in>set ts. \<exists>j. complete_tx j w \<and> tx_row j t \<and> distinct (map vout_N (tx_Vout j)) \<and> distinct (map vin_key (tx_Vin j))"
  shows "post (allComplete ts) w (\<lambda>c _. c)"
  using assms
proof (induction ts arbitrary: w)
  case Nil
  show ?case unfolding allComplete.simps by (rule post_ret) simp
next
  case (Cons t ts)
  obtain j where j: "complete_tx j w" "tx_row j t" "distinct (map vout_N (tx_Vout j))" "distinct (map vin_key (tx_Vin j))"
    using Cons.prems(2) by auto
  show ?case
    unfolding allComplete.simps
  proof (rule post_bind, rule postI)
    fix c v assume r: "transactionHasExpectedChildren t w = (Ok c, v)"
    have c using postD [OF complete_children [OF j(1) Cons.prems(1) j(2,3,4)] r] .
    moreover have v: "unchanged w v" by (rule withinD [OF un_hasExpectedChildren r])
    have "post (allComplete ts) v (\<lambda>c _. c)"
      by (rule Cons.IH) (use Cons.prems unchanged_rows [OF v] in auto)
    ultimately show "post (if c then allComplete ts else ret False) v (\<lambda>c _. c)" by simp
  qed
qed

lemma block_passes:
  assumes f: "answers_ok txIDs (b_Hash b) f" and ok: "rows_ok w" and all: "\<forall>i<length txIDs. complete_tx (f i) w"
    and only: "\<forall>x\<in>set (rows (transactions w)). t_BlockHashID x = Some (b_Hash b) \<longrightarrow> t_Hash x \<in> set txIDs"
    and n: "b_TXCount b = int (length txIDs)"
  shows "post (blockHasExpectedTransactions b) w (\<lambda>c _. c)"
  unfolding blockHasExpectedTransactions_def
proof (rule post_bind, rule postI)
  fix txs v
  assume q: "query (\<lambda>w. filter (\<lambda>t. t_BlockHashID t = Some (b_Hash b)) (rows (transactions w))) w = (Ok txs, v)"
  have v: "v = tick w" "txs = filter (\<lambda>t. t_BlockHashID t = Some (b_Hash b)) (rows (transactions w))"
    using q by (auto simp: query_def stmt_def Let_def split: option.splits)
  have un: "unchanged w v" using v(1) by (auto simp: unchanged_def)
  have wf: "txT.wf_table (transactions w)" using ok by (simp add: rows_ok_def)
  note rows = block_rows [OF f wf all only, folded v(2)]
  have "post (allComplete txs) v (\<lambda>c _. c)"
  proof (rule allComplete_post)
    show "outs_ok v" using ok unchanged_rows(2) [OF un] by (simp add: rows_ok_def)
    show "\<forall>t\<in>set txs. \<exists>j. complete_tx j v \<and> tx_row j t \<and> distinct (map vout_N (tx_Vout j)) \<and> distinct (map vin_key (tx_Vin j))"
    proof
      fix t assume "t \<in> set txs"
      then obtain i where i: "i < length txIDs" "tx_row (f i) t" using rows(2) by blast
      then show "\<exists>j. complete_tx j v \<and> tx_row j t \<and> distinct (map vout_N (tx_Vout j)) \<and> distinct (map vin_key (tx_Vin j))"
        using all f unchanged_rows(1) [OF un] by (intro exI [of _ "f i"]) (simp add: answers_ok_def)
    qed
  qed
  then show "post (if int (length txs) \<noteq> b_TXCount b then ret False else allComplete txs) v (\<lambda>c _. c)"
    using rows(1) n by simp
qed

lemma ProcessBlock_Ok:
  assumes "ProcessBlock sync height jb w = (Ok (Some b, None), w')"
  obtains w1 w2 w3 where "parseBlockInfo height jb w = (Ok b, w1)" and "setPreviousBlockInfo height (bl_Hash jb) w1 = (Ok (), w2)"
    and "sync (bl_Tx jb) (b_BlockTime b) (b_Height b) w2 = (Ok (), w3)"
    and "markBlockProcessingState b BlockProcessingStateComplete w3 = (Ok (), w')"
proof -
  let ?rest = "\<lambda>block. bind (setPreviousBlockInfo height (bl_Hash jb)) (\<lambda>_.
    bind (sync (bl_Tx jb) (b_BlockTime block) (b_Height block)) (\<lambda>_. markBlockProcessingState block BlockProcessingStateComplete))"
  obtain r v where p: "attempt (parseBlockInfo height jb) w = (Ok r, v)"
    and k: "(case r of Inl e \<Rightarrow> ret (None, Some e)
      | Inr block \<Rightarrow> bind (attempt (?rest block)) (\<lambda>r2. ret (Some block, case r2 of Inl e \<Rightarrow> Some e | Inr _ \<Rightarrow> None))) v = (Ok (Some b, None), w')"
    using assms unfolding ProcessBlock_def bind_Ok_iff by blast
  then obtain block where r: "r = Inr block" by (cases r) auto
  then obtain r2 where a: "attempt (?rest block) v = (Ok r2, w')" and b: "block = b" "(case r2 of Inl e \<Rightarrow> Some e | Inr _ \<Rightarrow> None) = None"
    using k by (auto simp: bind_Ok_iff)
  then have "?rest b v = (Ok (), w')" by (cases r2) (auto simp: attempt_Ok_iff)
  moreover have "parseBlockInfo height jb w = (Ok b, v)" using p r b(1) by (simp add: attempt_Ok_iff)
  ultimately show thesis using that by (auto simp: bind_Ok_iff)
qed

text \<open>C1: A block that \<^verbatim>\<open>ProcessBlock\<close> reports as processed is complete: its row is stored as complete, and the check by which
  the daemon later decides whether to throw the newest block away finds every transaction of the block with all its inputs
  and outputs. This composes the fetching of the transactions, the dependency graph, every interleaving of the
  scheduler with its workers and their retries, every order of the inputs and outputs inside a transaction, and every
  pattern of database errors the block survived.\<close>

theorem ProcessBlock_complete:
  assumes run: "ProcessBlock sync height jb w = (Ok (Some b, None), w')"
    and sync: "\<forall>t h v v'. sync (bl_Tx jb) t h v = (Ok (), v') \<longrightarrow>
      syncTransactionsDependencyAware E (conf t h) (bl_Tx jb) (answered f arrived) v (Ok ()) v'"
    and f: "answers_ok (bl_Tx jb) (bl_Hash jb) f" "bl_NTx jb = int (length (bl_Tx jb))"
    and ev: "distinct arrived" "set arrived = {..<length (bl_Tx jb)}"
    and w: "block_clean (bl_Tx jb) (bl_Hash jb) f w" "blockT.wf_table (blocks w)"
  shows "(\<forall>c v. blockHasExpectedTransactions b w' = (Ok c, v) \<longrightarrow> c) \<and>
    (\<exists>x\<in>set (rows (blocks w')). b_ID x = b_ID b \<and> b_Hash x = bl_Hash jb \<and>
       b_ProcessingState x = Some BlockProcessingStateComplete)"
proof -
  obtain w1 w2 w3 where s1: "parseBlockInfo height jb w = (Ok b, w1)"
    and s2: "setPreviousBlockInfo height (bl_Hash jb) w1 = (Ok (), w2)"
    and s3: "sync (bl_Tx jb) (b_BlockTime b) (b_Height b) w2 = (Ok (), w3)"
    and s4: "markBlockProcessingState b BlockProcessingStateComplete w3 = (Ok (), w')"
    by (rule ProcessBlock_Ok [OF run])
  note b = postD [OF parseBlockInfo_row_of [OF w(2)] s1]
  have o1: "blocks_only w w1" by (rule withinD [OF bo_programs(1) s1])
  have o2: "blocks_only w1 w2" by (rule withinD [OF bo_programs(2) s2])
  have o4: "blocks_only w3 w'" by (rule withinD [OF bo_programs(3) s4])
  have clean: "block_clean (bl_Tx jb) (bl_Hash jb) f w2"
    using w(1) blocks_only_rows(6) [OF o1] blocks_only_rows(6) [OF o2] by simp
  have "syncTransactionsDependencyAware E (conf (b_BlockTime b) (b_Height b)) (bl_Tx jb) (answered f arrived) w2 (Ok ()) w3"
    using sync s3 by simp
  note fin = sync_complete [OF f(1) ev clean this]
  have "t_Hash x \<in> set (bl_Tx jb)" if x: "x \<in> set (rows (transactions w3))" "t_BlockHashID x = Some (bl_Hash jb)" for x
  proof (rule ccontr)
    assume n: "t_Hash x \<notin> set (bl_Tx jb)"
    have "x \<in> set (tx_rows (t_Hash x) w3)" using x(1) by (simp add: tx_rows_def)
    then have "x \<in> set (tx_rows (t_Hash x) w2)" using fin(4) n by simp
    then show False using clean x(2) n by (auto simp: block_clean_def tx_rows_def)
  qed
  then have "post (blockHasExpectedTransactions b) w' (\<lambda>c _. c)"
    using b f fin(1,3) blocks_only_rows [OF o4] by (intro block_passes [where f = f and txIDs = "bl_Tx jb"]) auto
  moreover have "row_of (b_ID b) (bl_Hash jb) w3"
    using postD [OF setPreviousBlockInfo_row_of s2] b fin(2) by (auto simp: row_of_def)
  then obtain x where x: "x \<in> set (rows (blocks w3))" "b_ID x = b_ID b" "b_Hash x = bl_Hash jb" by (auto simp: row_of_def)
  have "x\<lparr>b_ProcessingState := Some BlockProcessingStateComplete\<rparr> \<in> set (rows (blocks w'))"
    unfolding t_update_rows [OF Block_UpdateWith_Ok [OF s4 [unfolded markBlockProcessingState_def]]]
    using x by (force simp: image_iff)
  ultimately show ?thesis using x by (auto simp: post_def intro!: bexI [of _ "x\<lparr>b_ProcessingState := Some BlockProcessingStateComplete\<rparr>"])
qed

end
