(* ===== verification/BlockSync_Demo.thy ===== *)
theory BlockSync_Demo
  imports BlockSync_Spec
begin

text \<open>Concrete runs of a block: one transaction through \<^verbatim>\<open>ProcessBlock\<close>, and two transactions of which the second spends
  an output of the first.\<close>

section \<open>A block of one transaction\<close>

text \<open>The graph of a single transaction without claim events that spends nothing of its own block.\<close>

definition single_graph :: "TxRawResult \<Rightarrow> blockTxGraph" where
  "single_graph tx = \<lparr>txByID = [tx_Txid tx \<mapsto> tx], children = (\<lambda>_. []), unresolved = (\<lambda>_. 0), completed = (\<lambda>_. False),
     attempts = (\<lambda>_. 0), edgeSet = {}, order = [tx_Txid tx], ready = [tx_Txid tx]\<rparr>"

lemma single_graph:
  assumes "tx_Vin tx = [v]" and "vin_TxID v \<noteq> tx_Txid tx" and "claimGraphEvents X tx = []"
  shows "buildDependencies X (newBlockTxGraph [Some tx] [tx_Txid tx \<mapsto> tx]) = Ok (single_graph tx, None)"
  using assms
  by (simp add: buildDependencies_def newBlockTxGraph_def addUTXODependencies_def addUTXODependency_def addClaimDependencies_def
      sortChildren_def single_graph_def List.map_filter_def Let_def)

text \<open>Its run: the transaction is handed out and processed, its answer received, and the loop ends.\<close>

lemma single_run:
  assumes "ProcessTx E sch tx (blockTime conf) (blockHeight conf) w = (Ok (), w')" and "order_ok sch"
    and "MaxParallelTxProcessing conf \<ge> 1"
  shows "\<exists>r. block_reachable E conf (single_graph tx) w r \<and> \<not> looping (sched r) \<and> run_result r = (Ok (), w')"
proof -
  let ?g = "single_graph tx" and ?never = "\<lambda>_::nat. False"
  let ?job = "\<lparr>job_tx = Some tx, job_blockTime = blockTime conf, job_blockHeight = blockHeight conf, job_failcount = 0\<rparr>"
  let ?s = "initSched ?g"
  have wc: "workerCount conf ?g = 1" using assms(3) by (simp add: workerCount_def single_graph_def Let_def Util.Min_def)
  have d: "dispatchPhase conf ?never ?never ?s = ?s\<lparr>graph := ?g\<lparr>ready := []\<rparr>, inflight := [?job], active := 1\<rparr>"
    using wc by (simp add: dispatchPhase_def dispatchReadyTransactions_def initSched_def single_graph_def Let_def)
  let ?s1 = "?s\<lparr>graph := ?g\<lparr>ready := []\<rparr>, inflight := [?job], active := 1\<rparr>"
  let ?res = "\<lparr>res_tx = tx, res_blockTime = blockTime conf, res_blockHeight = blockHeight conf, res_err = None, res_failcount = 1\<rparr>"
  let ?s2 = "onResult conf False ?res (?s1\<lparr>inflight := remove_nth 0 (inflight ?s1)\<rparr>)"
  let ?r0 = "initRun ?g w"
  let ?r1 = "?r0\<lparr>db := w', processed := [(tx_Txid tx, None)]\<rparr>"
  have more: "more_to_do ?s" by (simp add: more_to_do_def initSched_def single_graph_def)
  have out: "jobs_out conf ?s ?job" unfolding jobs_out_def by (intro exI) (subst d, simp)
  from block_step.Work [of ?r0 conf ?job tx sch E "Ok ()" w']
  have 1: "block_step E conf ?r0 ?r1"
    using more out assms(1,2) by (simp add: initRun_def answer_def)
  have step: "sched_step conf ?s ?s2"
    by (rule sched_step.Result [OF more d [symmetric], where err = None])
      (simp_all add: stalled_def initSched_def runScheduledTxWorker_def)
  have s2: "completed (graph ?s2) t \<Longrightarrow> t = tx_Txid tx" "completedCount ?s2 = 1" "order (graph ?s2) = [tx_Txid tx]"
    "looping ?s2" "terminalErr ?s2 = None" for t
    by (simp_all add: onResult_def initSched_def single_graph_def releaseChildren_def Let_def split: if_splits)
  have 2: "block_step E conf ?r1 (?r1\<lparr>sched := ?s2\<rparr>)"
    by (rule block_step.Loop) (use step s2(1) in \<open>auto simp: initRun_def\<close>)
  have 3: "block_step E conf (?r1\<lparr>sched := ?s2\<rparr>) (?r1\<lparr>sched := ?s2\<lparr>looping := False\<rparr>\<rparr>)"
    using block_step.Loop [of conf "?r1\<lparr>sched := ?s2\<rparr>" "?s2\<lparr>looping := False\<rparr>" E] sched_step.Done [of ?s2 conf] s2 by simp
  let ?r3 = "?r1\<lparr>sched := ?s2\<lparr>looping := False\<rparr>\<rparr>"
  have "block_reachable E conf ?g w ?r3"
    using 1 2 3 unfolding block_reachable_def by (meson converse_rtranclp_into_rtranclp r_into_rtranclp)
  moreover have "run_result ?r3 = (Ok (), w')" unfolding run_result_def using s2(5) by (simp split: option.split)
  ultimately show ?thesis by (intro exI [of _ ?r3]) simp
qed

definition demo_single :: TxRawResult where
  "demo_single = Transactions_Spec.demo_json ''t1'' [demo_vin '''']"

definition demo_conf_at :: "nat \<Rightarrow> nat \<Rightarrow> schedConf" where
  "demo_conf_at t h = \<lparr>MaxParallelTxProcessing = 2, MaxFailures = 3, blockTime = t, blockHeight = h\<rparr>"

definition demo_sync :: "txid list \<Rightarrow> nat \<Rightarrow> nat \<Rightarrow> world \<Rightarrow> unit outcome \<times> world" where
  "demo_sync ids t h = ProcessTx demo_env demo_order demo_single t h"

definition demo_block_json :: GetBlockResponse where
  "demo_block_json = (Blocks_Spec.demo_json ''b1'' '''')\<lparr>bl_Tx := [''t1''], bl_NTx := 1\<rparr>"

lemma demo_sync_run:
  assumes "demo_sync ids t h w = (Ok (), w')"
  shows "syncTransactionsDependencyAware demo_env (demo_conf_at t h) [''t1''] (answered (\<lambda>_. demo_single) [0]) w (Ok ()) w'"
proof -
  have v: "tx_Vin demo_single = [demo_vin '''']" "vin_TxID (demo_vin '''') \<noteq> tx_Txid demo_single" "tx_Txid demo_single = ''t1''"
    by (simp_all add: demo_single_def Transactions_Spec.demo_json_def demo_vin_def)
  have "claimGraphEvents (ext demo_env) demo_single = []" by code_simp
  note g = single_graph [OF v(1,2) this]
  obtain r where r: "block_reachable demo_env (demo_conf_at t h) (single_graph demo_single) w r" "\<not> looping (sched r)"
    "run_result r = (Ok (), w')"
    using single_run [of demo_env demo_order demo_single "demo_conf_at t h" w w'] assms order_ok_demo
    by (auto simp: demo_sync_def demo_conf_at_def)
  have f: "fetchBlockRawTransactions [''t1''] (answered (\<lambda>_. demo_single) [0]) = Some (Ok ([Some demo_single], [tx_Txid demo_single \<mapsto> demo_single]))"
    by (simp add: fetchBlockRawTransactions_def answered_def fetchLoop.simps v)
  show ?thesis
    by (rule syncTransactionsDependencyAware.Run [OF f g _ r]) (simp add: single_graph_def)
qed

definition demo_after :: "(Block option \<times> goerr option) outcome \<times> world" where
  "demo_after = ProcessBlock demo_sync 0 demo_block_json demo_world"

lemma demo_after: "case fst demo_after of Ok (Some b, None) \<Rightarrow> True | _ \<Rightarrow> False"
  by code_simp

lemma demo_rows: "rows_ok demo_world" "rows (transactions demo_world) = []"
proof -
  show "rows_ok demo_world" using demo_world_clean by (simp add: rows_ok_def) (simp add: demo_world_def txT.wf_empty)
  show "rows (transactions demo_world) = []" by (simp add: demo_world_def emptyTable_def)
qed

theorem ProcessBlock_complete_witness:
  "\<exists>b w'. ProcessBlock demo_sync 0 demo_block_json demo_world = (Ok (Some b, None), w') \<and>
     (\<exists>x\<in>set (rows (blocks w')). b_Hash x = ''b1'' \<and> b_ProcessingState x = Some BlockProcessingStateComplete)"
proof -
  obtain b w' where r: "ProcessBlock demo_sync 0 demo_block_json demo_world = (Ok (Some b, None), w')"
    using demo_after unfolding demo_after_def
    by (cases "ProcessBlock demo_sync 0 demo_block_json demo_world") (auto split: outcome.splits prod.splits option.splits)
  have j: "bl_Tx demo_block_json = [''t1'']" "bl_Hash demo_block_json = ''b1''" "bl_NTx demo_block_json = 1"
    by (simp_all add: demo_block_json_def Blocks_Spec.demo_json_def)
  have "answers_ok (bl_Tx demo_block_json) (bl_Hash demo_block_json) (\<lambda>_. demo_single)"
    by (simp add: answers_ok_def j demo_single_def Transactions_Spec.demo_json_def demo_vout_def)
  moreover have "block_clean (bl_Tx demo_block_json) (bl_Hash demo_block_json) (\<lambda>_. demo_single) demo_world"
    using demo_world_clean(1,2) demo_world_clean(3) [of "''t1''" "[demo_vin '''']"]
    by (simp add: block_clean_def demo_rows demo_single_def j)
  moreover have "blockT.wf_table (blocks demo_world)" by (simp add: demo_world_def blockT.wf_empty)
  ultimately have "\<exists>x\<in>set (rows (blocks w')). b_ID x = b_ID b \<and> b_Hash x = bl_Hash demo_block_json \<and>
      b_ProcessingState x = Some BlockProcessingStateComplete"
    using ProcessBlock_complete [OF r, where E = demo_env and conf = demo_conf_at and f = "\<lambda>_. demo_single" and arrived = "[0]"]
      demo_sync_run j by auto
  then show ?thesis using r j(2) by auto
qed

section \<open>A transaction that spends an output of its block\<close>

definition demo_first :: TxRawResult where
  "demo_first = (Transactions_Spec.demo_json ''t1'' [])\<lparr>tx_Vout := []\<rparr>"

definition demo_spender :: TxRawResult where
  "demo_spender = (Transactions_Spec.demo_json ''t2'' [demo_vin ''t1''])\<lparr>tx_Vout := []\<rparr>"

definition demo_spend :: blockTxDependency where
  "demo_spend = \<lparr>parent = ''t1'', child = ''t2'', reason = dependencyReasonUTXO\<rparr>"

definition demo_pair :: blockTxGraph where
  "demo_pair = \<lparr>txByID = [''t1'' \<mapsto> demo_first, ''t2'' \<mapsto> demo_spender], children = (\<lambda>t. if t = ''t1'' then [demo_spend] else []),
     unresolved = (\<lambda>t. if t = ''t2'' then 1 else 0), completed = (\<lambda>_. False), attempts = (\<lambda>_. 0),
     edgeSet = {demo_spend}, order = [''t1'', ''t2''], ready = [''t1'']\<rparr>"

definition demo_job :: "TxRawResult \<Rightarrow> txToProcess" where
  "demo_job tx = \<lparr>job_tx = Some tx, job_blockTime = 7, job_blockHeight = 1, job_failcount = 0\<rparr>"

definition demo_done :: "TxRawResult \<Rightarrow> txProcessResult" where
  "demo_done tx = \<lparr>res_tx = tx, res_blockTime = 7, res_blockHeight = 1, res_err = None, res_failcount = 1\<rparr>"

definition demo_pair1 :: schedState where
  "demo_pair1 = (let s1 = dispatchPhase (demo_conf_at 7 1) (\<lambda>_. False) (\<lambda>_. False) (initSched demo_pair)
     in onResult (demo_conf_at 7 1) False (demo_done demo_first) (s1\<lparr>inflight := remove_nth 0 (inflight s1)\<rparr>))"

definition demo_deadlocks :: world where
  "demo_deadlocks = demo_world\<lparr>fault := (\<lambda>n. if n < 2 then None else Some (MySQLError 1213))\<rparr>"

definition demo_halfway :: world where
  "demo_halfway = snd (ProcessTx demo_env demo_order demo_first 7 1 demo_deadlocks)"

definition demo_second :: "unit outcome \<times> world" where
  "demo_second = ProcessTx demo_env demo_order demo_spender 7 1 demo_halfway"

lemma demo_first_run: "ProcessTx demo_env demo_order demo_first 7 1 demo_deadlocks = (Ok (), demo_halfway)"
  unfolding demo_halfway_def by (rule prod_eqI) (simp only: fst_conv, code_simp, simp only: snd_conv)

lemma demo_second_run: "fst demo_second = Err (MySQLError 1213)"
  by code_simp

lemma demo_pair_start: "sched_start demo_pair"
proof -
  have "incoming demo_pair c = (if c = ''t2'' then {demo_spend} else {})" for c
    by (auto simp: incoming_def demo_pair_def demo_spend_def)
  then show ?thesis
    by (auto simp: sched_start_def wf_graph_def demo_pair_def demo_spend_def demo_first_def demo_spender_def
        Transactions_Spec.demo_json_def split: if_splits)
qed

lemma demo_pair_step: "sched_step (demo_conf_at 7 1) (initSched demo_pair) demo_pair1"
  unfolding demo_pair1_def Let_def
  by (rule sched_step.Result [where polls = "\<lambda>_. False" and sends = "\<lambda>_. False" and err = None], code_simp,
      rule refl, code_simp, code_simp, code_simp, code_simp)

lemma demo_pair_run:
  "\<exists>r. block_reachable demo_env (demo_conf_at 7 1) demo_pair demo_deadlocks r \<and> processed r = [(''t1'', None), (''t2'', Some (MySQLError 1213))]"
proof -
  let ?r0 = "initRun demo_pair demo_deadlocks" and ?c = "demo_conf_at 7 1" and ?never = "\<lambda>_::nat. False"
  let ?r1 = "?r0\<lparr>db := demo_halfway, processed := [(''t1'', None)]\<rparr>"
  let ?r2 = "?r1\<lparr>sched := demo_pair1\<rparr>"
  let ?r3 = "?r2\<lparr>db := snd demo_second, processed := [(''t1'', None), (''t2'', Some (MySQLError 1213))]\<rparr>"
  have j: "inflight (dispatchPhase ?c ?never ?never (initSched demo_pair)) = [demo_job demo_first]"
    "inflight (dispatchPhase ?c ?never ?never demo_pair1) = [demo_job demo_spender]"
    "more_to_do (initSched demo_pair)" "more_to_do demo_pair1" by code_simp+
  then have out: "jobs_out ?c (initSched demo_pair) (demo_job demo_first)" "jobs_out ?c demo_pair1 (demo_job demo_spender)"
    unfolding jobs_out_def by (intro exI [of _ ?never], simp)+
  have second: "ProcessTx demo_env demo_order demo_spender 7 1 demo_halfway = (Err (MySQLError 1213), snd demo_second)"
    using demo_second_run by (auto simp: demo_second_def prod_eq_iff)
  have t: "tx_Txid demo_first = ''t1''" "tx_Txid demo_spender = ''t2''"
    by (simp_all add: demo_first_def demo_spender_def Transactions_Spec.demo_json_def)
  have "block_step demo_env ?c ?r0 ?r1"
    using block_step.Work [of ?r0 ?c "demo_job demo_first" demo_first demo_order demo_env "Ok ()" demo_halfway]
      j(3) out(1) order_ok_demo demo_first_run t by (simp add: initRun_def answer_def demo_job_def demo_first_def)
  moreover have "completed (graph demo_pair1) x \<Longrightarrow> x = ''t1''" for x
    by (simp add: demo_pair1_def Let_def onResult_def demo_done_def t dispatchPhase_def dispatchReadyTransactions_def initSched_def
        releaseChildren_def releaseEdge_def demo_pair_def demo_conf_at_def workerCount_def Util.Min_def demo_spend_def numeral_2_eq_2
        split: if_splits)
  then have "block_step demo_env ?c ?r1 ?r2"
    by (intro block_step.Loop) (use demo_pair_step in \<open>auto simp: initRun_def\<close>)
  moreover have "block_step demo_env ?c ?r2 ?r3"
    using block_step.Work [of ?r2 ?c "demo_job demo_spender" demo_spender demo_order demo_env "Err (MySQLError 1213)" "snd demo_second"]
      j(4) out(2) order_ok_demo second t by (simp add: initRun_def answer_def demo_job_def)
  ultimately have "block_reachable demo_env ?c demo_pair demo_deadlocks ?r3"
    unfolding block_reachable_def by (meson converse_rtranclp_into_rtranclp r_into_rtranclp)
  then show ?thesis by (intro exI [of _ ?r3]) simp
qed

theorem work_respects_dependencies_witness:
  "\<exists>r. block_reachable demo_env (demo_conf_at 7 1) demo_pair demo_deadlocks r \<and>
     (''t1'', ''t2'') \<in> (edge_rel demo_pair)\<^sup>+ \<and> fst (processed r ! 1) = ''t2'' \<and> (''t1'', None) \<in> set (take 1 (processed r))"
proof -
  have "rows_ok demo_deadlocks" "leftovers demo_first demo_deadlocks" "leftovers demo_spender demo_deadlocks"
    by (simp_all add: demo_deadlocks_def demo_world_def rows_ok_def outs_ok_def ins_ok_def txT.wf_empty outputT.wf_empty inputT.wf_empty
        honest_faults_def leftovers_def vouts_of_def inkeys_def tx_rows_def) (simp_all add: emptyTable_def)
  then have ready: "block_ready demo_pair demo_deadlocks"
    using demo_pair_start by (auto simp: block_ready_def block_txs_def demo_pair_def ran_def split: if_splits)
  obtain r where r: "block_reachable demo_env (demo_conf_at 7 1) demo_pair demo_deadlocks r"
    "processed r = [(''t1'', None), (''t2'', Some (MySQLError 1213))]"
    using demo_pair_run by blast
  have "(''t1'', ''t2'') \<in> (edge_rel demo_pair)\<^sup>+"
    by (rule r_into_trancl) (simp add: edge_rel_def demo_pair_def demo_spend_def)
  then show ?thesis
    using work_respects_dependencies [OF ready r(1), of 1 "''t1''"] r by (intro exI [of _ r]) simp
qed

end
