(* ===== verification/Scheduler_Refine.thy ===== *)
theory Scheduler_Refine
  imports Scheduler_Spec
begin

text \<open>
  What the scheduler promises, as an abstract machine, and that the scheduler implements it. The abstract machine knows only
  the dependencies of the block and the set of transactions that are done: in a step it does one more transaction, and may do so
  only when everything that one depends on is done. The queue of ready transactions, the counters, the jobs at
  the workers, the retries and the stop signals of the code are not visible in it.
\<close>

section \<open>Simulation\<close>

locale simulation = step_system +
  fixes abs :: "'a \<Rightarrow> 'b" and astep :: "'b \<Rightarrow> 'b \<Rightarrow> bool"
  assumes sim: "inv s \<Longrightarrow> step s t \<Longrightarrow> abs t = abs s \<or> astep (abs s) (abs t)"
begin

lemma run_simulated: "step\<^sup>*\<^sup>* init s \<Longrightarrow> astep\<^sup>*\<^sup>* (abs init) (abs s)"
proof (induction rule: rtranclp_induct)
  case (step r s)
  then show ?case using sim [OF reachable_inv step.hyps(2)] by (auto intro: rtranclp.rtrancl_into_rtrancl)
qed simp

end

section \<open>The abstract machine\<close>

inductive serial_step :: "blockTxGraph \<Rightarrow> txid set \<Rightarrow> txid set \<Rightarrow> bool" for g where
  Do: "t \<in> set (order g) \<Longrightarrow> t \<notin> D \<Longrightarrow> (\<And>p. (p, t) \<in> edge_rel g \<Longrightarrow> p \<in> D) \<Longrightarrow> serial_step g D (insert t D)"

text \<open>Doing the transactions of a list one after the other.\<close>

fun serial :: "blockTxGraph \<Rightarrow> txid set \<Rightarrow> txid list \<Rightarrow> bool" where
  "serial g D [] = True"
| "serial g D (t # ts) = (t \<in> set (order g) \<and> t \<notin> D \<and> (\<forall>p. (p, t) \<in> edge_rel g \<longrightarrow> p \<in> D) \<and> serial g (insert t D) ts)"

lemma serial_snoc:
  "serial g D (ts @ [t]) \<longleftrightarrow> serial g D ts \<and> t \<in> set (order g) \<and> t \<notin> D \<union> set ts \<and> (\<forall>p. (p, t) \<in> edge_rel g \<longrightarrow> p \<in> D \<union> set ts)"
  by (induction ts arbitrary: D) auto

lemma serial_distinct: "serial g D ts \<Longrightarrow> distinct ts \<and> set ts \<inter> D = {} \<and> set ts \<subseteq> set (order g)"
  by (induction ts arbitrary: D) auto

lemma serial_steps:
  assumes "(serial_step g)\<^sup>*\<^sup>* D D'"
  shows "\<exists>ts. serial g D ts \<and> D' = D \<union> set ts"
  using assms
proof (induction rule: rtranclp_induct)
  case base
  show ?case by (rule exI [of _ "[]"]) simp
next
  case (step E F)
  then obtain ts where ts: "serial g D ts" "E = D \<union> set ts" by blast
  from step.hyps(2) obtain t where "F = insert t E" "serial g D (ts @ [t])"
    by (cases rule: serial_step.cases) (auto simp: serial_snoc ts)
  then show ?case by (intro exI [of _ "ts @ [t]"]) (simp add: ts(2))
qed

section \<open>The scheduler implements it\<close>

lemma done_set_dispatch [simp]: "done_set (dispatchPhase conf polls sends s) = done_set s"
proof (cases "terminalErr s = None")
  case True
  obtain k k' where e: "dispatchPhase conf polls sends s =
       s\<lparr>graph := (graph s)\<lparr>ready := drop k' (ready (graph s))\<rparr>,
         inflight := inflight s @ map (mk_job conf (graph s)) (take k (ready (graph s))),
         terminalErr := terminalErr (dispatchPhase conf polls sends s), active := active s + int k\<rparr>"
    by (rule dispatchPhase_spec [OF True, where conf = conf and polls = polls and sends = sends])
  have "graph (dispatchPhase conf polls sends s) = (graph s)\<lparr>ready := drop k' (ready (graph s))\<rparr>" by (subst e) simp
  then show ?thesis by (simp add: done_set_def)
qed (auto simp: dispatchPhase_def)

lemma done_set_sel [simp]:
  "done_set (s\<lparr>inflight := js\<rparr>) = done_set s" "done_set (s\<lparr>active := n\<rparr>) = done_set s" "done_set (s\<lparr>looping := b\<rparr>) = done_set s"
  "done_set (s\<lparr>terminalErr := e\<rparr>) = done_set s" "done_set (onRetryReady t (s\<lparr>retryTimers := ts\<rparr>)) = done_set s"
  by (simp_all add: done_set_def onRetryReady_def)

lemma completed_releaseChildren [simp]: "completed (releaseChildren t g) = completed g"
proof -
  have "completed (fold releaseEdge es g) = completed g" for es
    by (induction es arbitrary: g) (simp_all add: releaseEdge_def Let_def)
  then show ?thesis by (simp add: releaseChildren_def)
qed

lemma onResult_done:
  "done_set (onResult conf stopped result s) = done_set s \<or>
   done_set (onResult conf stopped result s) = insert (tx_Txid (res_tx result)) (done_set s)"
  by (auto simp: onResult_def Let_def done_set_def handleScheduledTxError_def split: option.splits prod.splits if_splits)

lemma handed_out:
  assumes "sched_inv conf g s" and "sched_start g" and "j \<in> set (inflight s)"
  shows "serial_step g (done_set s) (insert (job_id j) (done_set s))"
proof (rule serial_step.Do)
  have "job_id j \<in> set (pool s)" using assms(3) by (simp add: pool_def)
  then have j: "job_id j \<in> set (order g)" "job_id j \<notin> done_set s" and u: "unresolved (graph s) (job_id j) = 0"
    using sched_invD(10) [OF assms(1)] by auto
  show "job_id j \<in> set (order g)" "job_id j \<notin> done_set s" by (fact j)+
  show "p \<in> done_set s" if "(p, job_id j) \<in> edge_rel g" for p
    using unresolved_parents_done [OF assms(1) _ u that] assms(2) by (simp add: sched_start_def)
qed

lemma sched_step_serial:
  assumes "sched_step conf s s'" and inv: "sched_inv conf g s" and start: "sched_start g"
  shows "done_set s' = done_set s \<or> serial_step g (done_set s) (done_set s')"
  using assms(1)
proof (cases rule: sched_step.cases)
  case (Result s1 polls sends i err result stopped)
  let ?j = "inflight s1 ! i" and ?s = "s1\<lparr>inflight := remove_nth i (inflight s1)\<rparr>"
  have i1: "sched_inv conf g s1" using dispatchPhase_inv [OF inv start] Result by simp
  have "tx_Txid (res_tx result) = job_id ?j"
    using Result(7) by (auto simp: runScheduledTxWorker_def job_id_def split: option.splits)
  moreover have "done_set s1 = done_set s" using Result(3) by simp
  ultimately show ?thesis
    using onResult_done [of conf stopped result ?s] handed_out [OF i1 start, of ?j] Result(1,6) by auto
qed simp_all

interpretation serialized: simulation "sched_run_step conf g" "initSched g" "sched_run_inv conf g" done_set "serial_step g"
proof
  show "done_set t = done_set s \<or> serial_step g (done_set s) (done_set t)"
    if "sched_run_inv conf g s" "sched_run_step conf g s t" for s t
    using that sched_step_serial [of conf s t g] by (auto simp: sched_run_inv_def sched_run_step_def)
qed

text \<open>C3: The scheduler implements the serial machine: the transactions a run has completed, whatever the interleaving of
  the workers, the retries and the stops, are those of a list that processes one transaction after the other, each
  once and each after everything it depends on; and when the run ends without error the list is a serial order of the whole
  block.\<close>

theorem scheduler_serializable:
  assumes "sched_start g" and "sched_reachable conf g s"
  shows "\<exists>ts. serial g {} ts \<and> done_set s = set ts \<and>
    (\<not> looping s \<longrightarrow> terminalErr s = None \<longrightarrow> set ts = set (order g) \<and> length ts = length (order g))"
proof -
  have "done_set (initSched g) = {}" using assms(1) by (simp add: done_set_def initSched_def sched_start_def)
  then obtain ts where ts: "serial g {} ts" "done_set s = set ts"
    using serialized.run_simulated [of conf g s] serial_steps [of g "{}" "done_set s"] assms by (auto simp: sched_reachable_run)
  have "set ts = set (order g) \<and> length ts = length (order g)" if "\<not> looping s" "terminalErr s = None"
  proof -
    have "set ts = set (order g)"
      using done_set_full(1) [OF sched_reachable_inv(1) [OF assms(2,1)]] sched_reachable_inv(2) [OF assms(2,1) that(1)] that(2)
        assms(1) ts(2) by (simp add: sched_start_def)
    moreover have "distinct (order g)" "distinct ts" using assms(1) serial_distinct [OF ts(1)] by (simp_all add: sched_start_def)
    ultimately show ?thesis using distinct_card by metis
  qed
  then show ?thesis using ts by (intro exI [of _ ts]) auto
qed

theorem scheduler_serializable_witness:
  "\<exists>ts. serial demo_g {} ts \<and> set ts = {''aa'', ''bb''} \<and> length ts = 2"
proof -
  let ?s = "demo_s2\<lparr>looping := False\<rparr>"
  have "terminalErr ?s = None" "\<not> looping ?s" by code_simp+
  then show ?thesis
    using scheduler_serializable [OF demo_sched_start demo_reachable(3)] by (auto simp: demo_g_def)
qed

end
