(* ===== verification/ClaimTrie.thy ===== *)
theory ClaimTrie
  imports Blocks Effects
begin

text \<open>
  \<^verbatim>\<open>daemon/jobs/claimtriesync.go\<close>: the job that keeps the bid state, the effective amount and the height of validity of the claims
  in step with the claim trie of the node. The workers of a phase run their jobs in any order, one at a time: the jobs of a
  phase work on different claims, or on claims of different names. The answers of the database come in the order the database
  chooses where the query does not order them. Both orders are parameters. \<^verbatim>\<open>runtime.NumCPU()-1\<close> workers are taken to
  be at least one.
\<close>

section \<open>Parameters\<close>

record trieClaim =
  tc_Name :: string
  tc_ClaimID :: string
  tc_ValidAtHeight :: int
  tc_EffectiveAmount :: nat
  tc_PendingAmount :: nat

record trieNode =
  getClaimsForName :: "nat \<Rightarrow> string \<Rightarrow> goerr + trieClaim list"
  getBlockCount :: "nat \<Rightarrow> goerr + nat"

record trieOrder =
  byAmount :: "Claim list \<Rightarrow> Claim list"
  pageRows :: "Claim list \<Rightarrow> Claim list"
  outputRows :: "Output list \<Rightarrow> Output list"
  nameOrder :: "string list \<Rightarrow> string list"
  jobOrder :: "trieClaim list \<Rightarrow> trieClaim list"

section \<open>Expiration\<close>

definition expirationHardForkHeight :: "64 word" where "expirationHardForkHeight = 400155"
definition hardForkBlocksToExpiration :: "64 word" where "hardForkBlocksToExpiration = 2102400"
definition blocksToExpiration :: "64 word" where "blocksToExpiration = 262974"

lemmas expiration_defs = expirationHardForkHeight_def hardForkBlocksToExpiration_def blocksToExpiration_def

definition GetIsExpiredAtHeight :: "64 word \<Rightarrow> 64 word \<Rightarrow> bool" where
  "GetIsExpiredAtHeight height blockHeight =
     (if height = 0 then False
      else if height \<ge> expirationHardForkHeight then height + hardForkBlocksToExpiration < blockHeight
      else if height + blocksToExpiration \<ge> expirationHardForkHeight then height + hardForkBlocksToExpiration < blockHeight
      else height + blocksToExpiration < blockHeight)"

section \<open>Bid states\<close>

definition hash_is :: "string option \<Rightarrow> Transaction \<Rightarrow> bool" where
  "hash_is h t \<longleftrightarrow> h = Some (t_Hash t)"

definition getClaimStatus :: "Claim \<Rightarrow> nat \<Rightarrow> string db" where
  "getClaimStatus claim atHeight =
     bind (attempt (oneG (\<lambda>w. first_row
         (hash_is (if c_TransactionHashUpdate claim \<noteq> None then c_TransactionHashUpdate claim else c_TransactionHashID claim))
         (transactions w)))) (\<lambda>transaction.
       case transaction of
         Inl _ \<Rightarrow> ret ''Accepted''
       | Inr t \<Rightarrow>
           bind (attempt (oneG (\<lambda>w. first_row (\<lambda>o'. o_TransactionID o' = t_ID t \<and> Some (o_Vout o') = c_VoutUpdate claim)
             (outputs w)))) (\<lambda>output.
             case output of
               Inl _ \<Rightarrow> ret ''ERROR''
             | Inr o' \<Rightarrow>
                 let status = (if o_IsSpent o' then ''Spent'' else ''Accepted'');
                     status = (if GetIsExpiredAtHeight (of_nat (c_Height claim)) (of_nat atHeight) then ''Expired'' else status)
                 in ret (if status = ''Accepted'' then ''Active'' else status)))"

definition putBidState :: "string \<Rightarrow> Claim \<Rightarrow> unit db" where
  "putBidState state claim =
     (if c_BidState claim \<noteq> state then bind (PutClaim (claim\<lparr>c_BidState := state\<rparr>)) (\<lambda>_. ret ()) else ret ())"

fun bidLoop :: "nat \<Rightarrow> bool \<Rightarrow> Claim list \<Rightarrow> unit db" where
  "bidLoop atHeight foundControlling [] = ret ()"
| "bidLoop atHeight foundControlling (claim # cs) =
     bind (if foundControlling then ret False
           else bind (getClaimStatus claim atHeight) (\<lambda>s. ret (s = ''Active''))) (\<lambda>controls.
       if controls then bind (putBidState ''Controlling'' claim) (\<lambda>_. bidLoop atHeight True cs)
       else bind (getClaimStatus claim atHeight) (\<lambda>status.
            bind (putBidState status claim) (\<lambda>_. bidLoop atHeight foundControlling cs)))"

definition bids_on :: "string \<Rightarrow> nat \<Rightarrow> Claim \<Rightarrow> bool" where
  "bids_on name atHeight c \<longleftrightarrow> c_Name c = name \<and> c_ValidAtHeight c \<le> atHeight"

definition setBidStateOfClaimsForName :: "trieOrder \<Rightarrow> string \<Rightarrow> nat \<Rightarrow> unit db" where
  "setBidStateOfClaimsForName sch name atHeight =
     bind (query (\<lambda>w. byAmount sch (filter (bids_on name atHeight) (rows (claims w))))) (bidLoop atHeight False)"

text \<open>A failing name is only logged.\<close>

definition SetControllingClaimForNames :: "trieOrder \<Rightarrow> Claim list \<Rightarrow> nat \<Rightarrow> unit db" where
  "SetControllingClaimForNames sch cs atHeight =
     forM (nameOrder sch (remdups (map c_Name cs)))
       (\<lambda>name. bind (attempt (setBidStateOfClaimsForName sch name atHeight)) (\<lambda>_. ret ()))"

section \<open>Amounts and heights\<close>

text \<open>The update of the two columns; the column \<^verbatim>\<open>modified_at\<close> is stamped by the table.\<close>

definition Claim_UpdateTrieG :: "nat \<Rightarrow> nat \<Rightarrow> nat \<Rightarrow> unit db" where
  "Claim_UpdateTrieG k valid amount =
     stmt (\<lambda>w. (Ok (), w\<lparr>claims := t_map (\<lambda>x. if c_ID x = k
         then x\<lparr>c_ValidAtHeight := valid, c_EffectiveAmount := amount, c_ModifiedAt := clock w\<rparr> else x) (claims w)\<rparr>))"

definition nextAmount :: "nat \<Rightarrow> trieClaim \<Rightarrow> nat" where
  "nextAmount amount j =
     (if amount \<noteq> tc_EffectiveAmount j then
        if tc_PendingAmount j \<noteq> 0 \<and> amount \<noteq> tc_PendingAmount j then tc_PendingAmount j else tc_EffectiveAmount j
      else amount)"

text \<open>The height of validity is an \<^verbatim>\<open>int32\<close> of the node, converted to \<^verbatim>\<open>uint\<close>.\<close>

definition validHeight :: "trieClaim \<Rightarrow> nat" where
  "validHeight j = unat (of_int (tc_ValidAtHeight j) :: 64 word)"

definition syncClaim :: "trieClaim \<Rightarrow> unit db" where
  "syncClaim claimJSON =
     bind (attempt (oneG (\<lambda>w. first_row (claim_with (tc_ClaimID claimJSON)) (claims w)))) (\<lambda>found.
       case found of
         Inl e \<Rightarrow>
           if e = ErrNoRows
           then bind (attempt (oneG (\<lambda>w. first_row (\<lambda>x. ac_ClaimID x = tc_ClaimID claimJSON) (abnormalClaims w)))) (\<lambda>_. ret ())
           else ret ()
       | Inr claim \<Rightarrow>
           let valid = validHeight claimJSON; amount = nextAmount (c_EffectiveAmount claim) claimJSON
           in if c_ValidAtHeight claim \<noteq> valid \<or> c_EffectiveAmount claim \<noteq> tc_EffectiveAmount claimJSON
              then bind (attempt (Claim_UpdateTrieG (c_ID claim) valid amount)) (\<lambda>_. ret ())
              else ret ())"

text \<open>The claims of all names are queued for the workers; a name the node does not answer for is skipped.\<close>

fun claimsOfNames :: "trieNode \<Rightarrow> string list \<Rightarrow> trieClaim list db" where
  "claimsOfNames N [] = ret []"
| "claimsOfNames N (name # names) =
     bind (attempt (rpc (\<lambda>i. getClaimsForName N i name))) (\<lambda>r.
     bind (claimsOfNames N names) (\<lambda>rest. ret ((case r of Inl _ \<Rightarrow> [] | Inr js \<Rightarrow> js) @ rest)))"

definition SyncClaims :: "trieNode \<Rightarrow> trieOrder \<Rightarrow> Claim list \<Rightarrow> unit db" where
  "SyncClaims N sch cs =
     bind (claimsOfNames N (nameOrder sch (remdups (map c_Name cs)))) (\<lambda>js. forM (jobOrder sch js) syncClaim)"

section \<open>Choosing the claims to look at again\<close>

text \<open>
  The claims with an id above \<open>prev\<close>, in the order the database returns them, cut at the limit; only the two selected columns
  are loaded.
\<close>

definition page :: "trieOrder \<Rightarrow> (Claim \<Rightarrow> bool) \<Rightarrow> int \<Rightarrow> world \<Rightarrow> Claim list" where
  "page sch P prev w = take 15000 (filter (\<lambda>c. int (c_ID c) > prev \<and> P c) (pageRows sch (rows (claims w))))"

definition idAndName :: "Claim \<Rightarrow> Claim" where
  "idAndName c = zeroClaim\<lparr>c_ID := c_ID c, c_Name := c_Name c\<rparr>"

definition lastID :: "int \<Rightarrow> Claim list \<Rightarrow> int" where
  "lastID prev cs = (if cs = [] then prev else int (c_ID (last cs)))"

text \<open>What was sent before an error stays sent, so the claims are returned along with the error.\<close>

type_synonym sent = "Claim list \<times> goerr option"

function sendPages :: "trieOrder \<Rightarrow> (Claim \<Rightarrow> bool) \<Rightarrow> int \<Rightarrow> Claim list \<Rightarrow> sent db" where
  "sendPages sch P prev acc w =
     (case query (page sch P prev) w of
        (Ok cs, w') \<Rightarrow>
          let acc' = acc @ map idAndName cs; next = lastID prev cs
          in if next = prev then (Ok (acc', None), w') else sendPages sch P next acc' w'
      | (Err e, w') \<Rightarrow> (Ok (acc, Some e), w')
      | (Panic p, w') \<Rightarrow> (Panic p, w'))"
  by pat_completeness auto

lemma query_cases:
  assumes "query f w = (r, w')"
  shows "w' = w\<lparr>stmts := stmts w + 1\<rparr>" and "r = Ok x \<Longrightarrow> x = f w'" and "r \<noteq> Panic p"
  using assms by (auto simp: query_def stmt_def Let_def split: option.splits)

lemma page_next:
  assumes "lastID prev (page sch P prev w) \<noteq> prev"
  shows "prev < lastID prev (page sch P prev w)"
    and "page sch P prev w \<noteq> []" and "last (page sch P prev w) \<in> set (pageRows sch (rows (claims w)))"
proof -
  show n: "page sch P prev w \<noteq> []" using assms by (auto simp: lastID_def)
  then have "last (page sch P prev w) \<in> set (page sch P prev w)" by simp
  then have "last (page sch P prev w) \<in> set (filter (\<lambda>c. int (c_ID c) > prev \<and> P c) (pageRows sch (rows (claims w))))"
    unfolding page_def by (rule in_set_takeD)
  then show "prev < lastID prev (page sch P prev w)" "last (page sch P prev w) \<in> set (pageRows sch (rows (claims w)))"
    using n by (simp_all add: lastID_def)
qed

lemma filter_above:
  assumes "x \<in> set xs" and "prev < g x"
  shows "length (filter (\<lambda>c. g x < g c) xs) < length (filter (\<lambda>c. prev < (g c :: int)) xs)"
proof -
  have "filter (\<lambda>c. g x < g c) xs = filter (\<lambda>c. g x < g c) (filter (\<lambda>c. prev < g c) xs)"
    using assms(2) by (induction xs) auto
  also have "length \<dots> < length (filter (\<lambda>c. prev < g c) xs)"
    using assms by (intro length_filter_less [of x]) auto
  finally show ?thesis .
qed

termination sendPages
proof (relation "measure (\<lambda>(sch, P, prev, acc, w). length (filter (\<lambda>c. prev < int (c_ID c)) (pageRows sch (rows (claims w)))))")
  fix sch P prev acc w r w' cs acc' "next"
  assume q: "(r, w') = query (page sch P prev) w" and r: "r = Ok cs" and n: "next = lastID prev cs" "next \<noteq> prev"
  note q' = query_cases [OF q [symmetric]]
  have cs: "cs = page sch P prev w'" and w': "claims w' = claims w" using q'(1) q'(2) [OF r] by simp_all
  note p = page_next [of prev sch P w', folded cs, OF n(2) [unfolded n(1)]]
  have "next = int (c_ID (last cs))" using p(2) n(1) by (simp add: lastID_def)
  then show "((sch, P, next, acc', w'), sch, P, prev, acc, w) \<in>
      measure (\<lambda>(sch, P, prev, acc, w). length (filter (\<lambda>c. prev < int (c_ID c)) (pageRows sch (rows (claims w)))))"
    using filter_above [of "last cs" _ prev "\<lambda>c. int (c_ID c)", OF p(3)] p(1) n(1) w' by simp
qed simp

definition getModifiedClaims :: "trieOrder \<Rightarrow> time \<Rightarrow> sent db" where
  "getModifiedClaims sch since = sendPages sch (\<lambda>c. since = 0 \<or> c_ModifiedAt c \<ge> since) (-1) []"

definition getNewValidClaims :: "trieOrder \<Rightarrow> nat \<Rightarrow> sent db" where
  "getNewValidClaims sch lastHeight = sendPages sch (\<lambda>c. c_ValidAtHeight c \<ge> lastHeight) (-1) []"

function chunks :: "nat \<Rightarrow> 'a list \<Rightarrow> 'a list list" where
  "chunks n xs = (if xs = [] \<or> n = 0 then [] else take n xs # chunks n (drop n xs))"
  by pat_completeness auto
termination by (relation "measure (\<lambda>(n, xs). length xs)") auto

declare chunks.simps [simp del]

fun sendSupported :: "trieOrder \<Rightarrow> string list list \<Rightarrow> Claim list \<Rightarrow> sent db" where
  "sendSupported sch [] acc = ret (acc, None)"
| "sendSupported sch (ids # batches) acc =
     bind (attempt (query (\<lambda>w. nameOrder sch (remdups (map c_Name (filter (\<lambda>c. c_ClaimID c \<in> set ids) (rows (claims w)))))))) (\<lambda>r.
       case r of
         Inl e \<Rightarrow> ret (acc, Some e)
       | Inr names \<Rightarrow> sendSupported sch batches (acc @ map (\<lambda>n. zeroClaim\<lparr>c_Name := n\<rparr>) names))"

definition getSupportedClaims :: "trieOrder \<Rightarrow> time \<Rightarrow> sent db" where
  "getSupportedClaims sch since =
     bind (attempt (query (\<lambda>w. nameOrder sch (remdups (map s_SupportedClaimID (filter (\<lambda>s. s_ModifiedAt s \<ge> since) (rows (supports w)))))))) (\<lambda>r.
       case r of
         Inl e \<Rightarrow> ret ([], Some e)
       | Inr claimIds \<Rightarrow> sendSupported sch (chunks 15000 claimIds) [])"

section \<open>Looking at them\<close>

definition BatchSize :: nat where "BatchSize = 5000"

definition reprocessBatch :: "trieNode \<Rightarrow> trieOrder \<Rightarrow> nat \<Rightarrow> Claim list \<Rightarrow> unit db" where
  "reprocessBatch N sch currentHeight batch =
     bind (SyncClaims N sch batch) (\<lambda>_. SetControllingClaimForNames sch batch currentHeight)"

fun reprocessLoop :: "trieNode \<Rightarrow> trieOrder \<Rightarrow> nat \<Rightarrow> string list \<Rightarrow> Claim list \<Rightarrow> Claim list \<Rightarrow> unit db" where
  "reprocessLoop N sch currentHeight names batch [] = reprocessBatch N sch currentHeight batch"
| "reprocessLoop N sch currentHeight names batch (c # rest) =
     (let batch' = (if c_Name c \<in> set names then batch else batch @ [c]);
          names' = (if c_Name c \<in> set names then names else c_Name c # names)
      in if length batch' > BatchSize
         then bind (reprocessBatch N sch currentHeight batch') (\<lambda>_. reprocessLoop N sch currentHeight names' [] rest)
         else reprocessLoop N sch currentHeight names' batch' rest)"

definition reprocessUpdatedClaims :: "trieNode \<Rightarrow> trieOrder \<Rightarrow> nat \<Rightarrow> Claim list \<Rightarrow> unit db" where
  "reprocessUpdatedClaims N sch currentHeight received = reprocessLoop N sch currentHeight [] [] received"

section \<open>Claims whose output was spent\<close>

definition spentOutputs :: "trieOrder \<Rightarrow> time \<Rightarrow> nat \<Rightarrow> world \<Rightarrow> Output list" where
  "spentOutputs sch since lastProcessed w =
     take 15000 (filter (\<lambda>o'. o_ModifiedAt o' \<ge> since \<and> o_IsSpent o' \<and> o_ID o' > lastProcessed) (outputRows sch (rows (outputs w))))"

text \<open>Only the id, the claim id and the hash that is looked for are loaded.\<close>

definition getSpentClaimsToUpdate :: "trieOrder \<Rightarrow> time \<Rightarrow> bool \<Rightarrow> nat \<Rightarrow> (Claim list \<times> nat) db" where
  "getSpentClaimsToUpdate sch since hasUpdate lastProcessed =
     bind (query (spentOutputs sch since lastProcessed)) (\<lambda>os.
       if os = [] then ret ([], lastProcessed)
       else
         let hashes = map (\<lambda>o'. Some (o_TransactionHash o')) os;
             col = (if hasUpdate then c_TransactionHashUpdate else c_TransactionHashID);
             selected = (\<lambda>c. if hasUpdate
               then zeroClaim\<lparr>c_ID := c_ID c, c_ClaimID := c_ClaimID c, c_TransactionHashUpdate := c_TransactionHashUpdate c\<rparr>
               else zeroClaim\<lparr>c_ID := c_ID c, c_ClaimID := c_ClaimID c, c_TransactionHashID := c_TransactionHashID c\<rparr>)
         in bind (query (\<lambda>w. map selected (filter (\<lambda>c. col c \<in> set hashes) (pageRows sch (rows (claims w)))))) (\<lambda>cs.
              ret (cs, o_ID (last os))))"

definition Claims_markSpentG :: "nat list \<Rightarrow> unit db" where
  "Claims_markSpentG ids =
     stmt (\<lambda>w. (Ok (), w\<lparr>claims := t_map (\<lambda>x. if c_ID x \<in> set ids
         then x\<lparr>c_BidState := ''Spent'', c_ModifiedAt := clock w\<rparr> else x) (claims w)\<rparr>))"

text \<open>The claims without updates are written one by one, the others in batches.\<close>

definition markSpent :: "bool \<Rightarrow> Claim list \<Rightarrow> unit db" where
  "markSpent hasUpdate cs =
     (if hasUpdate then forM (chunks 15000 cs) (\<lambda>batch. Claims_markSpentG (map c_ID batch))
      else forM cs (\<lambda>claim. if c_TransactionHashUpdate claim \<noteq> None then ret () else Claims_markSpentG [c_ID claim]))"

function spentLoop :: "trieOrder \<Rightarrow> time \<Rightarrow> bool \<Rightarrow> nat \<Rightarrow> unit db" where
  "spentLoop sch since hasUpdate lastProcessed w =
     (case getSpentClaimsToUpdate sch since hasUpdate lastProcessed w of
        (Ok (cs, newLastProcessed), w1) \<Rightarrow>
          (case markSpent hasUpdate cs w1 of
             (Ok _, w2) \<Rightarrow>
               if lastProcessed = newLastProcessed then (Ok (), w2) else spentLoop sch since hasUpdate newLastProcessed w2
           | (Err e, w2) \<Rightarrow> (Err e, w2)
           | (Panic p, w2) \<Rightarrow> (Panic p, w2))
      | (Err e, w1) \<Rightarrow> (Err e, w1)
      | (Panic p, w1) \<Rightarrow> (Panic p, w1))"
  by pat_completeness auto

text \<open>The job writes nothing but claims.\<close>

definition only_claims :: "world \<Rightarrow> world \<Rightarrow> bool" where
  "only_claims w w' \<longleftrightarrow> (\<exists>t n. w' = w\<lparr>claims := t, stmts := n\<rparr>)"

interpretation oc: db_relation only_claims
proof
  show "only_claims w w" for w unfolding only_claims_def by (rule exI [of _ "claims w"], rule exI [of _ "stmts w"]) simp
  show "only_claims u w" if uv: "only_claims u v" and vw: "only_claims v w" for u v w
  proof -
    obtain t n where "v = u\<lparr>claims := t, stmts := n\<rparr>" using uv by (auto simp: only_claims_def)
    moreover obtain t' n' where "w = v\<lparr>claims := t', stmts := n'\<rparr>" using vw by (auto simp: only_claims_def)
    ultimately show ?thesis unfolding only_claims_def by (intro exI [of _ t'] exI [of _ n']) simp
  qed
  show "only_claims w (w\<lparr>stmts := n\<rparr>)" for w n
    unfolding only_claims_def by (rule exI [of _ "claims w"], rule exI [of _ n]) simp
qed

lemma only_claims_write: "only_claims w (w\<lparr>claims := t\<rparr>)"
  unfolding only_claims_def by (rule exI [of _ t], rule exI [of _ "stmts w"]) simp

lemma only_claims_same:
  assumes "only_claims w w'"
  shows "transactions w' = transactions w" "outputs w' = outputs w" "supports w' = supports w" "fault w' = fault w"
    "clock w' = clock w" "jobStatuses w' = jobStatuses w" "abnormalClaims w' = abnormalClaims w"
  using assms by (auto simp: only_claims_def)

lemma oc_spent: "within only_claims (getSpentClaimsToUpdate sch since b n)" "within only_claims (markSpent b cs)"
proof -
  have "within only_claims (Claims_markSpentG ids)" for ids
    unfolding Claims_markSpentG_def by (rule oc.stmt) (simp add: only_claims_write)
  then show "within only_claims (markSpent b cs)" unfolding markSpent_def by (intro oc.rules)
  show "within only_claims (getSpentClaimsToUpdate sch since b n)"
    unfolding getSpentClaimsToUpdate_def by (intro oc.rules)
qed

lemma getSpentClaimsToUpdate_next:
  assumes "getSpentClaimsToUpdate sch since b n w = (Ok (cs, m), w')"
  shows "m = n \<or> n < m \<and> (\<exists>o'\<in>set (outputRows sch (rows (outputs w))). o_ID o' = m)"
proof -
  obtain os v where q: "query (spentOutputs sch since n) w = (Ok os, v)"
    and k: "(if os = [] then ret ([], n) else
         let hashes = map (\<lambda>o'. Some (o_TransactionHash o')) os;
             col = (if b then c_TransactionHashUpdate else c_TransactionHashID);
             selected = (\<lambda>c. if b
               then zeroClaim\<lparr>c_ID := c_ID c, c_ClaimID := c_ClaimID c, c_TransactionHashUpdate := c_TransactionHashUpdate c\<rparr>
               else zeroClaim\<lparr>c_ID := c_ID c, c_ClaimID := c_ClaimID c, c_TransactionHashID := c_TransactionHashID c\<rparr>)
         in bind (query (\<lambda>w. map selected (filter (\<lambda>c. col c \<in> set hashes) (pageRows sch (rows (claims w)))))) (\<lambda>cs.
              ret (cs, o_ID (last os)))) v = (Ok (cs, m), w')"
    using assms unfolding getSpentClaimsToUpdate_def bind_Ok_iff by blast
  show ?thesis
  proof (cases "os = []")
    case True
    then show ?thesis using k by simp
  next
    case False
    then have m: "m = o_ID (last os)" using k by (auto simp: Let_def bind_Ok_iff)
    have "os = spentOutputs sch since n v" "outputs v = outputs w" using query_cases [OF q] by simp_all
    moreover have "last os \<in> set os" using False by simp
    ultimately have "last os \<in> set (filter (\<lambda>o'. o_ModifiedAt o' \<ge> since \<and> o_IsSpent o' \<and> o_ID o' > n) (outputRows sch (rows (outputs w))))"
      unfolding spentOutputs_def by (metis in_set_takeD)
    then show ?thesis by (auto simp: m)
  qed
qed

termination spentLoop
proof (relation "measure (\<lambda>(sch, since, b, n, w). length (filter (\<lambda>o'. int n < int (o_ID o')) (outputRows sch (rows (outputs w)))))")
  fix sch since b n w r w1 p cs m r2 w2 u
  assume g: "(r, w1) = getSpentClaimsToUpdate sch since b n w" "r = Ok p" "(cs, m) = p"
    and k: "(r2, w2) = markSpent b cs w1" "r2 = Ok u" and m: "n \<noteq> m"
  have g': "getSpentClaimsToUpdate sch since b n w = (Ok (cs, m), w1)" using g by simp
  have o: "outputs w2 = outputs w"
    using only_claims_same(2) [OF withinD [OF oc_spent(1) g']] only_claims_same(2) [OF withinD [OF oc_spent(2) k(1) [symmetric]]] by simp
  obtain x where "n < m" "x \<in> set (outputRows sch (rows (outputs w)))" "o_ID x = m"
    using getSpentClaimsToUpdate_next [OF g'] m by auto
  then show "((sch, since, b, m, w2), sch, since, b, n, w) \<in>
      measure (\<lambda>(sch, since, b, n, w). length (filter (\<lambda>o'. int n < int (o_ID o')) (outputRows sch (rows (outputs w)))))"
    using filter_above [of x _ "int n" "\<lambda>o'. int (o_ID o')"] o by simp
qed simp

definition updateSpentClaims :: "trieOrder \<Rightarrow> time \<Rightarrow> unit db" where
  "updateSpentClaims sch since = bind (spentLoop sch since False 0) (\<lambda>_. spentLoop sch since True 0)"

section \<open>The job\<close>

text \<open>
  The state of a job is stored as a JSON document; \<open>stateCodec\<close> is its encoding and the text of an error. The variable
  \<^verbatim>\<open>lastSync\<close> of the package is passed along.
\<close>

record claimTrieSyncStatus =
  PreviousSyncTime :: time
  LastHeight :: int

record stateCodec =
  marshalState :: "claimTrieSyncStatus \<Rightarrow> string"
  unmarshalState :: "string \<Rightarrow> goerr + claimTrieSyncStatus"
  errorText :: "goerr \<Rightarrow> string"

definition claimTrieSyncJob :: string where "claimTrieSyncJob = ''claimtriesyncjob''"

definition setJobStatus :: "JobStatus \<Rightarrow> world \<Rightarrow> world" where
  "setJobStatus j w = w\<lparr>jobStatuses := map (\<lambda>x. if js_JobName x = js_JobName j then j else x) (jobStatuses w)\<rparr>"

definition JobStatus_InsertG :: "JobStatus \<Rightarrow> unit db" where
  "JobStatus_InsertG j = stmt (\<lambda>w.
     if js_JobName j \<in> js_JobName ` set (jobStatuses w) then (Err duplicateEntry, w)
     else (Ok (), w\<lparr>jobStatuses := jobStatuses w @ [j]\<rparr>))"

definition JobStatus_UpdateG :: "JobStatus \<Rightarrow> unit db" where
  "JobStatus_UpdateG j = stmt (\<lambda>w. (Ok (), setJobStatus j w))"

definition JobStatus_UpsertG :: "JobStatus \<Rightarrow> unit db" where
  "JobStatus_UpsertG j = stmt (\<lambda>w. (Ok (),
     if js_JobName j \<in> js_JobName ` set (jobStatuses w) then setJobStatus j w
     else w\<lparr>jobStatuses := jobStatuses w @ [j]\<rparr>))"

definition getClaimTrieSyncJobStatus :: "stateCodec \<Rightarrow> (JobStatus \<times> claimTrieSyncStatus) db" where
  "getClaimTrieSyncJobStatus cod =
     bind (found (oneG (\<lambda>w. find (\<lambda>j. js_JobName j = claimTrieSyncJob) (jobStatuses w)))) (\<lambda>row.
     bind (case row of
             Some j \<Rightarrow> ret j
           | None \<Rightarrow>
               let j = zeroJobStatus\<lparr>js_JobName := claimTrieSyncJob, js_LastSync := 0,
                     js_State := Some (marshalState cod \<lparr>PreviousSyncTime = 458265600, LastHeight = 0\<rparr>)\<rparr>
               in bind (attempt (JobStatus_InsertG j)) (\<lambda>r.
                    case r of Inl _ \<Rightarrow> lift (Panic (Raised ''Cannot Retrieve/Create JobStatus'')) | Inr _ \<Rightarrow> ret j)) (\<lambda>jobStatus.
       case js_State jobStatus of
         None \<Rightarrow> fail EOF
       | Some s \<Rightarrow> (case unmarshalState cod s of Inl e \<Rightarrow> fail e | Inr st \<Rightarrow> ret (jobStatus, st))))"

definition saveJobError :: "stateCodec \<Rightarrow> JobStatus \<Rightarrow> goerr \<Rightarrow> unit db" where
  "saveJobError cod jobStatus e =
     bind (attempt (JobStatus_UpsertG (jobStatus\<lparr>js_ErrorMessage := Some (errorText cod e), js_IsSuccess := False\<rparr>))) (\<lambda>_. ret ())"

text \<open>
  The claims the three queries send. A query that fails ends the sending; what was sent before is still looked at.
\<close>

definition claimsToReprocess :: "trieOrder \<Rightarrow> time \<Rightarrow> nat \<Rightarrow> sent db" where
  "claimsToReprocess sch since lastHeight =
     bind (getModifiedClaims sch since) (\<lambda>(cs, e).
       if e \<noteq> None \<or> since = 0 then ret (cs, e)
       else
         bind (getSupportedClaims sch since) (\<lambda>(ds, e).
           if e \<noteq> None then ret (cs @ ds, e)
           else bind (getNewValidClaims sch lastHeight) (\<lambda>(es, e). ret (cs @ ds @ es, e))))"

text \<open>
  The sending queries and the reprocessing share a channel of 50000 claims; the schedule modelled is the one where the queries
  come first.
\<close>

definition ClaimTrieSync :: "stateCodec \<Rightarrow> trieNode \<Rightarrow> trieOrder \<Rightarrow> unit db" where
  "ClaimTrieSync cod N sch =
     bind (attempt (getClaimTrieSyncJobStatus cod)) (\<lambda>status.
       case status of
         Inl _ \<Rightarrow> ret ()
       | Inr (jobStatus, lastSync) \<Rightarrow>
           bind (attempt (updateSpentClaims sch (PreviousSyncTime lastSync))) (\<lambda>spent.
             case spent of
               Inl e \<Rightarrow> saveJobError cod jobStatus e
             | Inr _ \<Rightarrow>
                 bind (\<lambda>w. (Ok (clock w), w)) (\<lambda>started.
                 bind (attempt (rpc (getBlockCount N))) (\<lambda>count.
                   case count of
                     Inl _ \<Rightarrow> ret ()
                   | Inr blockHeight \<Rightarrow>
                       let lastSync = \<lparr>PreviousSyncTime = js_LastSync jobStatus, LastHeight = int blockHeight\<rparr>
                       in bind (claimsToReprocess sch (js_LastSync jobStatus) blockHeight) (\<lambda>(received, sendErr).
                          bind (attempt (reprocessUpdatedClaims N sch blockHeight received)) (\<lambda>result.
                            case sendErr of
                              Some e \<Rightarrow> saveJobError cod jobStatus e
                            | None \<Rightarrow>
                                (case result of
                                   Inl e \<Rightarrow> saveJobError cod jobStatus e
                                 | Inr _ \<Rightarrow>
                                     bind (attempt (JobStatus_UpdateG (jobStatus\<lparr>js_LastSync := started, js_IsSuccess := True,
                                       js_ErrorMessage := None, js_State := Some (marshalState cod lastSync)\<rparr>))) (\<lambda>r.
                                       case r of Inl _ \<Rightarrow> lift (Panic (Raised ''UpdateG'')) | Inr _ \<Rightarrow> ret ()))))))))"

end
