(* ===== verification/ClaimTrie_Spec.thy ===== *)
theory ClaimTrie_Spec
  imports ClaimTrie Effects "HOL-Library.Multiset"
begin

text \<open>
  What the claim trie job achieves: when claims expire, which claim of a name ends up controlling it, that repeated answers of the
  node settle, that paging misses no claim, and which errors the job does not notice.
\<close>

section \<open>Expiration\<close>

text \<open>The rule of the network: a claim lives for 262974 blocks, or for 2102400 if it was still alive at the fork.\<close>

definition lifetime :: "nat \<Rightarrow> nat" where
  "lifetime h = (if h + 262974 < 400155 then 262974 else 2102400)"

text \<open>C12: \<^verbatim>\<open>GetIsExpiredAtHeight\<close>, with its three branches on machine integers, computes the rule of the network: a claim is
  expired exactly when it has a height and its lifetime has passed, for every height whose sum with the lifetime fits the
  machine integer.\<close>

theorem GetIsExpiredAtHeight_rule:
  assumes "h + 2102400 < 2 ^ 64" and "b < 2 ^ 64"
  shows "GetIsExpiredAtHeight (of_nat h) (of_nat b) \<longleftrightarrow> 0 < h \<and> h + lifetime h < b"
proof -
  have un: "unat (of_nat n :: 64 word) = n" if "n < 2 ^ 64" for n
    using that by (simp only: unat_of_nat len_bit0 len_num1) (rule mod_less, simp)
  have u: "unat (of_nat h :: 64 word) = h" "unat (of_nat b :: 64 word) = b"
    by (rule un [OF le_less_trans [OF le_add1 assms(1)]]) (rule un [OF assms(2)])
  have add: "(of_nat h :: 64 word) + numeral k = of_nat (h + numeral k)" for k by (simp only: of_nat_add of_nat_numeral)
  have "h + 262974 \<le> h + 2102400" by simp
  note lt = le_less_trans [OF this assms(1)]
  have s: "unat ((of_nat h :: 64 word) + 2102400) = h + 2102400" "unat ((of_nat h :: 64 word) + 262974) = h + 262974"
    unfolding add by (rule un [OF assms(1)], rule un [OF lt])
  have c: "unat (400155 :: 64 word) = 400155" by simp
  have z: "(of_nat h :: 64 word) = 0 \<longleftrightarrow> h = 0" by (simp only: unat_eq_zero [symmetric] u)
  show ?thesis
    unfolding GetIsExpiredAtHeight_def expiration_defs word_le_nat_alt word_less_nat_alt s u c z
    by (auto simp: lifetime_def)
qed

theorem GetIsExpiredAtHeight_rule_witness:
  "GetIsExpiredAtHeight (of_nat 137181) (of_nat 500000) = False \<and> GetIsExpiredAtHeight (of_nat 137180) (of_nat 500000) = True"
  using GetIsExpiredAtHeight_rule [of 137181 500000] GetIsExpiredAtHeight_rule [of 137180 500000]
  by (simp add: lifetime_def)

section \<open>Amounts settle\<close>

lemma nextAmount_twice: "nextAmount (nextAmount a j) j = tc_EffectiveAmount j \<or> nextAmount a j = tc_EffectiveAmount j"
  by (simp add: nextAmount_def)

lemma find_map_same: "\<forall>x\<in>set xs. P (f x) = P x \<Longrightarrow> find P (map f xs) = map_option f (find P xs)"
  by (induction xs) auto

lemma wf_t_map:
  assumes "claimT.wf_table t" and "\<And>x. c_ID (f x) = c_ID x" and "\<And>x y. claim_clash (f x) (f y) = claim_clash x y"
  shows "claimT.wf_table (t_map f t)"
  using assms(1) by (auto simp: claimT.wf_table_def t_map_def assms(2,3) comp_def)

lemma Claim_UpdateTrieG_run:
  assumes "fault w (stmts w) = None"
  shows "Claim_UpdateTrieG k v a w = (Ok (), w\<lparr>stmts := stmts w + 1, claims := t_map (\<lambda>x. if c_ID x = k
    then x\<lparr>c_ValidAtHeight := v, c_EffectiveAmount := a, c_ModifiedAt := clock w\<rparr> else x) (claims w)\<rparr>)"
  using assms by (simp add: Claim_UpdateTrieG_def stmt_def cong: if_cong)

text \<open>Whether a run of \<^verbatim>\<open>syncClaim\<close> writes the row.\<close>

definition outdated :: "trieClaim \<Rightarrow> Claim \<Rightarrow> bool" where
  "outdated j c \<longleftrightarrow> c_ValidAtHeight c \<noteq> validHeight j \<or> c_EffectiveAmount c \<noteq> tc_EffectiveAmount j"

lemma syncClaim_writes:
  assumes "no_faults w" and "first_row (claim_with (tc_ClaimID j)) (claims w) = Some c" and "outdated j c"
  shows "syncClaim j w = (Ok (), w\<lparr>stmts := stmts w + 2, claims := t_map (\<lambda>x. if c_ID x = c_ID c
    then x\<lparr>c_ValidAtHeight := validHeight j, c_EffectiveAmount := nextAmount (c_EffectiveAmount c) j, c_ModifiedAt := clock w\<rparr> else x) (claims w)\<rparr>)"
proof -
  have f: "fault w n = None" for n using assms(1) by (simp add: no_faults_def)
  show ?thesis
    using assms(2,3) by (simp add: outdated_def syncClaim_def bind_def attempt_def oneG_def stmt_def f Claim_UpdateTrieG_run Let_def) (simp cong: if_cong)
qed

lemma syncClaim_idle:
  assumes "no_faults w" and "first_row (claim_with (tc_ClaimID j)) (claims w) = Some c" and "\<not> outdated j c"
  shows "syncClaim j w = (Ok (), w\<lparr>stmts := stmts w + 1\<rparr>)"
proof -
  have f: "fault w n = None" for n using assms(1) by (simp add: no_faults_def)
  show ?thesis
    using assms(2,3) by (auto simp: outdated_def syncClaim_def bind_def attempt_def oneG_def stmt_def f Let_def)
qed

text \<open>The row of a claim after a run, and the two columns after two runs.\<close>

definition synced :: "trieClaim \<Rightarrow> time \<Rightarrow> Claim \<Rightarrow> Claim" where
  "synced j now c =
     (if outdated j c
      then c\<lparr>c_ValidAtHeight := validHeight j, c_EffectiveAmount := nextAmount (c_EffectiveAmount c) j, c_ModifiedAt := now\<rparr> else c)"

lemma synced_sel [simp]: "c_ID (synced j now c) = c_ID c" "claim_with i (synced j now c) = claim_with i c"
  "claim_clash (synced j now x) y = claim_clash x y" "claim_clash y (synced j now x) = claim_clash y x"
  by (simp_all add: synced_def claim_with_def claim_clash_def)

lemma synced_twice: "\<not> outdated j (synced j m (synced j n c))"
  by (simp add: synced_def outdated_def nextAmount_def)

lemma synced_columns: "synced j m c = c\<lparr>c_ValidAtHeight := c_ValidAtHeight (synced j m c),
    c_EffectiveAmount := c_EffectiveAmount (synced j m c), c_ModifiedAt := c_ModifiedAt (synced j m c)\<rparr>"
  by (simp add: synced_def)

text \<open>One row of the table replaced.\<close>

definition put_row :: "Claim \<Rightarrow> Claim table \<Rightarrow> Claim table" where
  "put_row c t = t_map (\<lambda>x. if c_ID x = c_ID c then c else x) t"

lemma put_row_twice: "c_ID c = c_ID d \<Longrightarrow> put_row d (put_row c t) = put_row d t"
  by (simp add: put_row_def t_map_def comp_def cong: if_cong)

lemma put_row_found:
  assumes "first_row (claim_with i) t = Some c" and "claimT.wf_table t" and "c_ID d = c_ID c" and "claim_with i d"
  shows "first_row (claim_with i) (put_row d t) = Some d"
proof -
  have c: "c \<in> set (rows t)" "claim_with i c" using assms(1) by (auto simp: first_row_def find_Some_iff)
  have same: "claim_with i (if c_ID x = c_ID d then d else x) = claim_with i x" if "x \<in> set (rows t)" for x
  proof (cases "c_ID x = c_ID d")
    case True
    then have "x = c" using that c(1) assms(2,3) by (auto simp: claimT.wf_table_def distinct_map dest: inj_onD)
    then show ?thesis using c(2) assms(4) by simp
  qed simp
  then show ?thesis using assms(1,3) by (simp add: first_row_def put_row_def t_map_def find_map_same)
qed

lemma syncClaim_run:
  assumes nf: "no_faults w" and wf: "claimT.wf_table (claims w)" and c: "first_row (claim_with (tc_ClaimID j)) (claims w) = Some c"
  shows "syncClaim j w = (Ok (), w\<lparr>stmts := stmts w + (if outdated j c then 2 else 1), claims := put_row (synced j (clock w) c) (claims w)\<rparr>)"
proof -
  have mem: "c \<in> set (rows (claims w))" using c by (auto simp: first_row_def find_Some_iff)
  have uniq: "x = c" if "x \<in> set (rows (claims w))" "c_ID x = c_ID c" for x
    using wf that mem by (auto simp: claimT.wf_table_def distinct_map dest: inj_onD)
  show ?thesis
  proof (cases "outdated j c")
    case True
    have "t_map (\<lambda>x. if c_ID x = c_ID c then x\<lparr>c_ValidAtHeight := validHeight j, c_EffectiveAmount := nextAmount (c_EffectiveAmount c) j,
        c_ModifiedAt := clock w\<rparr> else x) (claims w) = put_row (synced j (clock w) c) (claims w)"
      unfolding put_row_def using True uniq by (intro t_map_cong) (auto simp: synced_def)
    then show ?thesis using syncClaim_writes [OF nf c True] True by simp
  next
    case False
    have "t_map (\<lambda>x. if c_ID x = c_ID c then c else x) (claims w) = t_map (\<lambda>x. x) (claims w)" using uniq by (intro t_map_cong) auto
    then have "put_row (synced j (clock w) c) (claims w) = claims w" using False by (simp add: put_row_def synced_def t_map_def)
    then show ?thesis using syncClaim_idle [OF nf c False] False by simp
  qed
qed

lemma put_row_wf:
  assumes "first_row P t = Some c" and "claimT.wf_table t" and "c_ID d = c_ID c"
    and "\<And>y. claim_clash d y = claim_clash c y" and "\<And>y. claim_clash y d = claim_clash y c"
  shows "claimT.wf_table (put_row d t)"
proof -
  have c: "c \<in> set (rows t)" using assms(1) by (auto simp: first_row_def find_Some_iff)
  have ids: "map c_ID (rows (put_row d t)) = map c_ID (rows t)" by (simp add: put_row_def t_map_def)
  have "\<not> claim_clash x y" if "x \<in> set (rows (put_row d t))" "y \<in> set (rows (put_row d t))" "c_ID x \<noteq> c_ID y" for x y
  proof -
    obtain a b where a: "a \<in> set (rows t)" "x = (if c_ID a = c_ID d then d else a)" and b: "b \<in> set (rows t)" "y = (if c_ID b = c_ID d then d else b)"
      using \<open>x \<in> _\<close> \<open>y \<in> _\<close> by (auto simp: put_row_def t_map_def)
    then show ?thesis using that(3) c assms(2-5) by (auto simp: claimT.wf_table_def split: if_splits)
  qed
  moreover have "\<forall>x\<in>set (rows (put_row d t)). 0 < c_ID x \<and> c_ID x < nextID t"
  proof -
    have "\<forall>i\<in>set (map c_ID (rows t)). 0 < i \<and> i < nextID t" using assms(2) by (simp add: claimT.wf_table_def)
    then show ?thesis unfolding ids [symmetric] by simp
  qed
  moreover have "nextID (put_row d t) = nextID t" by (simp add: put_row_def t_map_def)
  ultimately show ?thesis using assms(2) unfolding claimT.wf_table_def ids by simp
qed

text \<open>C13: What the node reports of a claim settles in the database: after two runs of \<^verbatim>\<open>syncClaim\<close> on the same report the stored
  amount is the effective one and the stored height of validity the reported one; the two runs have changed nothing else than these
  two columns and the time stamp of that row; and every further run, however much later, writes nothing: its only
  statement is the one that reads the claim. One run may not be enough, since a pending amount is stored first. The hypotheses are a
  database without faults and with unique ids that has the claim.\<close>

theorem syncClaim_settles:
  assumes nf: "no_faults w" and wf: "claimT.wf_table (claims w)" and c: "first_row (claim_with (tc_ClaimID j)) (claims w) = Some c"
  shows "\<exists>w1 w2 n stamp c'. syncClaim j w = (Ok (), w1) \<and> syncClaim j w1 = (Ok (), w2) \<and>
    c' = c\<lparr>c_ValidAtHeight := validHeight j, c_EffectiveAmount := tc_EffectiveAmount j, c_ModifiedAt := stamp\<rparr> \<and>
    first_row (claim_with (tc_ClaimID j)) (claims w2) = Some c' \<and>
    w2 = w\<lparr>stmts := n, claims := t_map (\<lambda>x. if c_ID x = c_ID c then c' else x) (claims w)\<rparr> \<and>
    (\<forall>later. syncClaim j (w2\<lparr>clock := later\<rparr>) = (Ok (), w2\<lparr>clock := later, stmts := n + 1\<rparr>))"
proof -
  let ?s = "synced j (clock w)" and ?i = "tc_ClaimID j"
  have found: "claim_with ?i c" using c by (auto simp: first_row_def find_Some_iff)
  note wf' = put_row_wf [OF c wf]
  obtain n1 where 1: "syncClaim j w = (Ok (), w\<lparr>stmts := n1, claims := put_row (?s c) (claims w)\<rparr>)"
    using syncClaim_run [OF assms] by blast
  let ?w1 = "w\<lparr>stmts := n1, claims := put_row (?s c) (claims w)\<rparr>"
  have r1: "first_row (claim_with ?i) (claims ?w1) = Some (?s c)" using put_row_found [OF c wf, of "?s c"] found by simp
  have "no_faults ?w1" "claimT.wf_table (claims ?w1)" using nf wf' [of "?s c"] by (simp_all add: no_faults_def)
  then obtain n where 2: "syncClaim j ?w1 = (Ok (), ?w1\<lparr>stmts := n, claims := put_row (synced j (clock ?w1) (?s c)) (claims ?w1)\<rparr>)"
    using syncClaim_run [OF _ _ r1] by blast
  let ?c = "?s (?s c)" and ?w2 = "w\<lparr>stmts := n, claims := put_row (?s (?s c)) (claims w)\<rparr>"
  have w2: "syncClaim j ?w1 = (Ok (), ?w2)" using 2 by (simp add: put_row_twice)
  have r2: "first_row (claim_with ?i) (claims ?w2) = Some ?c" using put_row_found [OF c wf, of ?c] found by simp
  have "syncClaim j (?w2\<lparr>clock := later\<rparr>) = (Ok (), ?w2\<lparr>clock := later, stmts := n + 1\<rparr>)" for later
  proof -
    have "no_faults (?w2\<lparr>clock := later\<rparr>)" using nf by (simp add: no_faults_def)
    then show ?thesis using syncClaim_idle [of "?w2\<lparr>clock := later\<rparr>" j ?c] r2 synced_twice [of j "clock w" "clock w" c] by simp
  qed
  moreover have "?c = c\<lparr>c_ValidAtHeight := validHeight j, c_EffectiveAmount := tc_EffectiveAmount j, c_ModifiedAt := c_ModifiedAt ?c\<rparr>"
    by (simp add: synced_def outdated_def nextAmount_def)
  ultimately show ?thesis using 1 w2 r2 put_row_def [of ?c "claims w"]
    by (intro exI [of _ ?w1] exI [of _ ?w2] exI [of _ n] exI [of _ "c_ModifiedAt ?c"] exI [of _ ?c]) simp
qed


theorem syncClaim_settles_witness:
  "\<exists>w1 w2 c'.
     let w = demo_world\<lparr>claims := \<lparr>rows = [zeroClaim\<lparr>c_ID := 1, c_ClaimID := ''ab'', c_EffectiveAmount := 5\<rparr>], nextID = 2\<rparr>\<rparr>;
         j = \<lparr>tc_Name = ''n'', tc_ClaimID = ''ab'', tc_ValidAtHeight = 7, tc_EffectiveAmount = 9, tc_PendingAmount = 8\<rparr>
     in syncClaim j w = (Ok (), w1) \<and> syncClaim j w1 = (Ok (), w2) \<and> syncClaim j (w2\<lparr>clock := 50\<rparr>) = (Ok (), w2\<lparr>clock := 50, stmts := stmts w2 + 1\<rparr>) \<and>
       first_row (claim_with ''ab'') (claims w2) = Some c' \<and> c_EffectiveAmount c' = 9"
proof -
  let ?w = "demo_world\<lparr>claims := \<lparr>rows = [zeroClaim\<lparr>c_ID := 1, c_ClaimID := ''ab'', c_EffectiveAmount := 5\<rparr>], nextID = 2\<rparr>\<rparr>"
  let ?j = "\<lparr>tc_Name = ''n'', tc_ClaimID = ''ab'', tc_ValidAtHeight = 7, tc_EffectiveAmount = 9, tc_PendingAmount = 8\<rparr>"
  have "no_faults ?w" by (simp add: no_faults_def demo_world_def)
  moreover have "claimT.wf_table (claims ?w)" by (simp add: claimT.wf_table_def zeroClaim_def)
  moreover have "first_row (claim_with (tc_ClaimID ?j)) (claims ?w) = Some (zeroClaim\<lparr>c_ID := 1, c_ClaimID := ''ab'', c_EffectiveAmount := 5\<rparr>)"
    by (simp add: first_row_def claim_with_def)
  ultimately obtain w1 w2 n stamp c' where r: "syncClaim ?j ?w = (Ok (), w1)" "syncClaim ?j w1 = (Ok (), w2)"
    and c: "c' = zeroClaim\<lparr>c_ID := 1, c_ClaimID := ''ab'', c_EffectiveAmount := 5\<rparr>\<lparr>c_ValidAtHeight := validHeight ?j,
        c_EffectiveAmount := tc_EffectiveAmount ?j, c_ModifiedAt := stamp\<rparr>"
    and found: "first_row (claim_with (tc_ClaimID ?j)) (claims w2) = Some c'"
    and w2: "w2 = ?w\<lparr>stmts := n, claims := t_map (\<lambda>x. if c_ID x = c_ID (zeroClaim\<lparr>c_ID := 1, c_ClaimID := ''ab'', c_EffectiveAmount := 5\<rparr>)
        then c' else x) (claims ?w)\<rparr>"
    and again: "\<forall>later. syncClaim ?j (w2\<lparr>clock := later\<rparr>) = (Ok (), w2\<lparr>clock := later, stmts := n + 1\<rparr>)"
    by (elim syncClaim_settles [THEN exE] exE conjE)
  have "n = stmts w2" by (simp add: w2)
  then have "syncClaim ?j (w2\<lparr>clock := 50\<rparr>) = (Ok (), w2\<lparr>clock := 50, stmts := stmts w2 + 1\<rparr>)" using again by simp
  then show ?thesis using r c found unfolding Let_def by (intro exI [of _ w1] exI [of _ w2] exI [of _ c']) simp
qed


section \<open>The controlling claim\<close>

text \<open>The status of a claim as the tables have it.\<close>

definition status_in :: "Transaction table \<Rightarrow> Output table \<Rightarrow> nat \<Rightarrow> Claim \<Rightarrow> string" where
  "status_in ts os h c =
     (case first_row (hash_is (if c_TransactionHashUpdate c \<noteq> None then c_TransactionHashUpdate c else c_TransactionHashID c)) ts of
        None \<Rightarrow> ''Accepted''
      | Some t \<Rightarrow>
          (case first_row (\<lambda>o'. o_TransactionID o' = t_ID t \<and> Some (o_Vout o') = c_VoutUpdate c) os of
             None \<Rightarrow> ''ERROR''
           | Some o' \<Rightarrow>
               if GetIsExpiredAtHeight (of_nat (c_Height c)) (of_nat h) then ''Expired''
               else if o_IsSpent o' then ''Spent'' else ''Active''))"

lemma getClaimStatus_run:
  assumes "no_faults w"
  obtains n where "getClaimStatus c h w = (Ok (status_in (transactions w) (outputs w) h c), w\<lparr>stmts := n\<rparr>)"
proof -
  have f: "fault w n = None" for n using assms by (simp add: no_faults_def)
  have "\<exists>n. getClaimStatus c h w = (Ok (status_in (transactions w) (outputs w) h c), w\<lparr>stmts := n\<rparr>)"
    unfolding getClaimStatus_def status_in_def
    by (auto simp: bind_def attempt_def oneG_def stmt_def f Let_def split: option.splits)
  then show thesis using that by blast
qed

text \<open>The states a run gives to the claims it reads, by their ids.\<close>

fun bid_plan :: "(Claim \<Rightarrow> string) \<Rightarrow> bool \<Rightarrow> Claim list \<Rightarrow> (nat \<times> string) list" where
  "bid_plan st foundControlling [] = []"
| "bid_plan st foundControlling (c # cs) =
     (if \<not> foundControlling \<and> st c = ''Active'' then (c_ID c, ''Controlling'') # bid_plan st True cs
      else (c_ID c, st c) # bid_plan st foundControlling cs)"

definition bidden :: "time \<Rightarrow> string \<Rightarrow> Claim \<Rightarrow> Claim" where
  "bidden now b x = (if c_BidState x = b then x else x\<lparr>c_BidState := b, c_ModifiedAt := now\<rparr>)"

definition apply_plan :: "time \<Rightarrow> (nat \<times> string) list \<Rightarrow> Claim \<Rightarrow> Claim" where
  "apply_plan now plan x = (case map_of plan (c_ID x) of None \<Rightarrow> x | Some b \<Rightarrow> bidden now b x)"

lemma status_in_state: "status_in ts os h (x\<lparr>c_BidState := b, c_ModifiedAt := n\<rparr>) = status_in ts os h x"
  by (simp add: status_in_def cong: if_cong option.case_cong)

lemma bidden_sel [simp]:
  "c_ID (bidden now b x) = c_ID x" "c_Name (bidden now b x) = c_Name x" "c_BidState (bidden now b x) = b"
  "claim_clash (bidden now b x) y = claim_clash x y" "claim_clash y (bidden now b x) = claim_clash y x"
  "bids_on name h (bidden now b x) = bids_on name h x" "c_EffectiveAmount (bidden now b x) = c_EffectiveAmount x"
  "status_in ts os h (bidden now b x) = status_in ts os h x"
  by (simp_all add: bidden_def claim_clash_def bids_on_def status_in_state)

lemma apply_plan_sel [simp]:
  "c_ID (apply_plan now p x) = c_ID x" "claim_clash (apply_plan now p x) y = claim_clash x y" "claim_clash y (apply_plan now p x) = claim_clash y x"
  "bids_on name h (apply_plan now p x) = bids_on name h x" "c_EffectiveAmount (apply_plan now p x) = c_EffectiveAmount x"
  "status_in ts os h (apply_plan now p x) = status_in ts os h x"
  by (simp_all add: apply_plan_def split: option.split)

lemma bid_plan_ids [simp]: "map fst (bid_plan st b cs) = map c_ID cs"
  by (induction cs arbitrary: b) auto

lemma putBidState_run:
  assumes nf: "no_faults w" and wf: "claimT.wf_table (claims w)" and c: "c \<in> set (rows (claims w))"
  obtains n where "putBidState b c w = (Ok (), w\<lparr>stmts := n, claims := t_map (apply_plan (clock w) [(c_ID c, b)]) (claims w)\<rparr>)"
proof (cases "c_BidState c = b")
  case True
  have "apply_plan (clock w) [(c_ID c, b)] x = x" if "x \<in> set (rows (claims w))" for x
  proof (cases "c_ID x = c_ID c")
    case True
    then have "x = c" using wf that c by (auto simp: claimT.wf_table_def distinct_map dest: inj_onD)
    then show ?thesis using \<open>c_BidState c = b\<close> by (simp add: apply_plan_def bidden_def)
  qed (simp add: apply_plan_def)
  then have "t_map (apply_plan (clock w) [(c_ID c, b)]) (claims w) = claims w" by (simp add: t_map_def map_idI)
  then show thesis using True by (intro that [of "stmts w"]) (simp add: putBidState_def)
next
  case False
  have f: "fault w n = None" for n using nf by (simp add: no_faults_def)
  have id: "0 < c_ID c" using wf c by (simp add: claimT.wf_table_def)
  have uniq: "x = c" if "x \<in> set (rows (claims w))" "c_ID x = c_ID c" for x
    using wf that c by (auto simp: claimT.wf_table_def distinct_map dest: inj_onD)
  have fr: "first_row (\<lambda>x. c_ID x = c_ID c) (claims w) = Some c"
  proof (cases "find (\<lambda>x. c_ID x = c_ID c) (rows (claims w))")
    case None
    then show ?thesis using c by (auto simp: find_None_iff)
  next
    case (Some x)
    then have "x \<in> set (rows (claims w))" "c_ID x = c_ID c" by (auto simp: find_Some_iff)
    then show ?thesis using uniq Some by (simp add: first_row_def)
  qed
  let ?c = "c\<lparr>c_BidState := b, c_ID := c_ID c, c_ModifiedAt := clock w\<rparr>"
  have clash: "\<not> claim_clash y ?c" if "y \<in> set (rows (claims w))" "c_ID y \<noteq> c_ID c" for y
    using wf that c by (auto simp: claimT.wf_table_def claim_clash_def)
  have row: "(if c_ID x = c_ID c then ?c\<lparr>c_CreatedAt := c_CreatedAt x\<rparr> else x) = apply_plan (clock w) [(c_ID c, b)] x"
    if "x \<in> set (rows (claims w))" for x
    using uniq [OF that] False by (cases "c_ID x = c_ID c") (simp_all add: apply_plan_def bidden_def)
  have upd: "t_update c_ID claim_clash (c_ID c) (\<lambda>x. ?c\<lparr>c_CreatedAt := c_CreatedAt x\<rparr>) (claims w) =
      Ok (t_map (apply_plan (clock w) [(c_ID c, b)]) (claims w))"
  proof -
    have "\<not> claim_clash y (?c\<lparr>c_CreatedAt := k\<rparr>)" if "y \<in> set (rows (claims w))" "c_ID y \<noteq> c_ID c" for y k
      using clash [OF that] by (simp add: claim_clash_def)
    then have "\<not> (\<exists>x\<in>set (rows (claims w)). c_ID x = c_ID c \<and>
        (\<exists>y\<in>set (rows (claims w)). c_ID y \<noteq> c_ID c \<and> claim_clash y (?c\<lparr>c_CreatedAt := c_CreatedAt x\<rparr>)))" by blast
    then show ?thesis unfolding t_update_def t_map_def by (simp add: row cong: map_cong)
  qed
  have "putBidState b c w = (Ok (), w\<lparr>stmts := stmts w + 2, claims := t_map (apply_plan (clock w) [(c_ID c, b)]) (claims w)\<rparr>)"
    using False id fr upd
    by (simp add: putBidState_def PutClaim_def prefix_def find_claim_for_put_def bind_def found_def attempt_def oneG_def stmt_def f
        Claim_UpdateG_def change_def Let_def)
  then show thesis by (rule that)
qed

lemma apply_plan_Cons:
  assumes "i \<notin> set (map fst p)"
  shows "apply_plan now p (apply_plan now [(i, b)] x) = apply_plan now ((i, b) # p) x"
proof (cases "c_ID x = i")
  case True
  have "map_of p i = None" using assms by (simp add: map_of_eq_None_iff)
  then show ?thesis using True by (simp add: apply_plan_def)
qed (simp add: apply_plan_def)

lemma bidLoop_run:
  assumes "no_faults w" and "claimT.wf_table (claims w)" and "set cs \<subseteq> set (rows (claims w))" and "distinct (map c_ID cs)"
  shows "\<exists>n. bidLoop h b cs w = (Ok (), w\<lparr>stmts := n,
    claims := t_map (apply_plan (clock w) (bid_plan (status_in (transactions w) (outputs w) h) b cs)) (claims w)\<rparr>)"
  using assms
proof (induction cs arbitrary: b w)
  case Nil
  have "apply_plan (clock w) [] = id" by (auto simp: apply_plan_def)
  then have "w\<lparr>stmts := stmts w, claims := t_map (apply_plan (clock w) []) (claims w)\<rparr> = w" by (simp add: t_map_def)
  then show ?case by (intro exI [of _ "stmts w"]) simp
next
  case (Cons c cs)
  let ?st = "status_in (transactions w) (outputs w) h"
  let ?s = "if \<not> b \<and> ?st c = ''Active'' then ''Controlling'' else ?st c" and ?b = "b \<or> ?st c = ''Active''"
  have step: "\<exists>n. bidLoop h b (c # cs) w =
      bidLoop h ?b cs (w\<lparr>stmts := n, claims := t_map (apply_plan (clock w) [(c_ID c, ?s)]) (claims w)\<rparr>)"
  proof -
    have put: "\<exists>m. putBidState s c (w\<lparr>stmts := n\<rparr>) = (Ok (), w\<lparr>stmts := m, claims := t_map (apply_plan (clock w) [(c_ID c, s)]) (claims w)\<rparr>)" for s n
    proof -
      have "no_faults (w\<lparr>stmts := n\<rparr>)" "claimT.wf_table (claims (w\<lparr>stmts := n\<rparr>))" "c \<in> set (rows (claims (w\<lparr>stmts := n\<rparr>)))"
        using Cons.prems by simp_all
      then obtain m where "putBidState s c (w\<lparr>stmts := n\<rparr>) = (Ok (), (w\<lparr>stmts := n\<rparr>)\<lparr>stmts := m,
          claims := t_map (apply_plan (clock (w\<lparr>stmts := n\<rparr>)) [(c_ID c, s)]) (claims (w\<lparr>stmts := n\<rparr>))\<rparr>)"
        by (rule putBidState_run)
      then show ?thesis by (intro exI [of _ m]) simp
    qed
    have status: "\<exists>m. getClaimStatus c h (w\<lparr>stmts := n\<rparr>) = (Ok (?st c), w\<lparr>stmts := m\<rparr>)" for n
    proof -
      have "no_faults (w\<lparr>stmts := n\<rparr>)" using Cons.prems by simp
      then obtain m where "getClaimStatus c h (w\<lparr>stmts := n\<rparr>) =
          (Ok (status_in (transactions (w\<lparr>stmts := n\<rparr>)) (outputs (w\<lparr>stmts := n\<rparr>)) h c), (w\<lparr>stmts := n\<rparr>)\<lparr>stmts := m\<rparr>)"
        by (rule getClaimStatus_run)
      then show ?thesis by (intro exI [of _ m]) simp
    qed
    obtain n1 where n1: "getClaimStatus c h w = (Ok (?st c), w\<lparr>stmts := n1\<rparr>)" using status [of "stmts w"] by auto
    obtain n2 where n2: "getClaimStatus c h (w\<lparr>stmts := n1\<rparr>) = (Ok (?st c), w\<lparr>stmts := n2\<rparr>)" using status by blast
    obtain p1 where p1: "putBidState ''Controlling'' c (w\<lparr>stmts := n1\<rparr>) = (Ok (), w\<lparr>stmts := p1, claims := t_map (apply_plan (clock w) [(c_ID c, ''Controlling'')]) (claims w)\<rparr>)"
      using put by blast
    obtain p2 where p2: "putBidState (?st c) c (w\<lparr>stmts := n2\<rparr>) = (Ok (), w\<lparr>stmts := p2, claims := t_map (apply_plan (clock w) [(c_ID c, ?st c)]) (claims w)\<rparr>)"
      using put by blast
    obtain p3 where p3: "putBidState (?st c) c (w\<lparr>stmts := n1\<rparr>) = (Ok (), w\<lparr>stmts := p3, claims := t_map (apply_plan (clock w) [(c_ID c, ?st c)]) (claims w)\<rparr>)"
      using put by blast
    consider "b" | "\<not> b" "?st c = ''Active''" | "\<not> b" "?st c \<noteq> ''Active''" by blast
    then show ?thesis
    proof cases
      case 1
      then show ?thesis by (intro exI [of _ p3]) (simp add: bind_def n1 p3)
    next
      case 2
      then show ?thesis by (intro exI [of _ p1]) (simp add: bind_def n1 p1)
    next
      case 3
      then show ?thesis by (intro exI [of _ p2]) (simp add: bind_def n1 n2 p2)
    qed
  qed
  then obtain n where n: "bidLoop h b (c # cs) w =
      bidLoop h ?b cs (w\<lparr>stmts := n, claims := t_map (apply_plan (clock w) [(c_ID c, ?s)]) (claims w)\<rparr>)" by blast
  let ?w = "w\<lparr>stmts := n, claims := t_map (apply_plan (clock w) [(c_ID c, ?s)]) (claims w)\<rparr>"
  have "no_faults ?w" using Cons.prems(1) by (simp add: no_faults_def)
  moreover have "claimT.wf_table (claims ?w)" using wf_t_map [OF Cons.prems(2), of "apply_plan (clock w) [(c_ID c, ?s)]"] by simp
  moreover have "x \<in> set (rows (claims ?w))" if "x \<in> set cs" for x
  proof -
    have "c_ID x \<noteq> c_ID c" using imageI [OF that, of c_ID] Cons.prems(4) by auto
    then have "x = apply_plan (clock w) [(c_ID c, ?s)] x" by (simp add: apply_plan_def)
    moreover have "x \<in> set (rows (claims w))" using that Cons.prems(3) by auto
    ultimately show ?thesis by (simp add: t_map_def)
  qed
  ultimately obtain m where m: "bidLoop h ?b cs ?w = (Ok (), ?w\<lparr>stmts := m,
      claims := t_map (apply_plan (clock ?w) (bid_plan (status_in (transactions ?w) (outputs ?w) h) ?b cs)) (claims ?w)\<rparr>)"
    using Cons.IH [of ?w ?b] Cons.prems(4) by auto
  have "c_ID c \<notin> set (map fst (bid_plan ?st ?b cs))" using Cons.prems(4) by simp
  note comp = apply_plan_Cons [OF this]
  have plan: "bid_plan ?st b (c # cs) = (c_ID c, ?s) # bid_plan ?st ?b cs" by simp
  have "t_map (apply_plan (clock w) (bid_plan ?st ?b cs)) (t_map (apply_plan (clock w) [(c_ID c, ?s)]) (claims w)) =
      t_map (apply_plan (clock w) (bid_plan ?st b (c # cs))) (claims w)"
    unfolding plan by (simp add: t_map_def comp)
  then show ?case using n m by (intro exI [of _ m]) simp
qed

text \<open>What the plan gives to the claims of a list with distinct ids.\<close>

lemma bid_plan_found:
  assumes "c \<in> set cs" and "distinct (map c_ID cs)"
  shows "map_of (bid_plan st True cs) (c_ID c) = Some (st c)"
  using assms by (induction cs) (auto, metis imageI)

lemma bid_plan_spec:
  assumes "distinct (map c_ID cs)" and "\<forall>c. st c \<noteq> ''Controlling''"
  shows "\<forall>c\<in>set cs. map_of (bid_plan st False cs) (c_ID c) =
    Some (if find (\<lambda>c. st c = ''Active'') cs = Some c then ''Controlling'' else st c)"
  using assms
proof (induction cs)
  case (Cons a cs)
  have other: "c_ID c \<noteq> c_ID a" if "c \<in> set cs" for c using imageI [OF that, of c_ID] Cons.prems(1) by auto
  show ?case
  proof (cases "st a = ''Active''")
    case True
    then show ?thesis using other Cons.prems bid_plan_found [of _ cs st] by auto
  next
    case False
    then have "find (\<lambda>c. st c = ''Active'') cs \<noteq> Some a" by (auto simp: find_Some_iff)
    then show ?thesis using False other Cons by auto
  qed
qed simp

text \<open>What the database does for \<^verbatim>\<open>ORDER BY effective_amount DESC\<close>.\<close>

definition sorts_by_amount :: "trieOrder \<Rightarrow> bool" where
  "sorts_by_amount sch \<longleftrightarrow> (\<forall>cs. mset (byAmount sch cs) = mset cs \<and>
     sorted_wrt (\<lambda>a b. c_EffectiveAmount a \<ge> c_EffectiveAmount b) (byAmount sch cs))"

lemma find_sorted:
  assumes "sorted_wrt R xs" and "find P xs = Some x" and "y \<in> set xs" and "P y"
  shows "y = x \<or> R x y"
  using assms by (induction xs) (auto split: if_splits)

lemma status_in_not_controlling: "status_in ts os h c \<noteq> ''Controlling''"
  by (auto simp: status_in_def split: option.split)

text \<open>C10: After \<^verbatim>\<open>setBidStateOfClaimsForName\<close> the bid states of a name are right: if no claim of the name that is valid at the
  height is active, each of them gets its own status; otherwise one active claim with the largest effective amount becomes
  controlling and every other one gets its own status. A claim whose bid state was right already stays as it is; of the others only
  the bid state and the time stamp change; claims of other names, claims that are not yet valid and all other
  tables are untouched. The hypotheses are a database without faults and with unique ids that sorts by amount as the query asks.\<close>

theorem setBidState_controlling:
  assumes nf: "no_faults w" and wf: "claimT.wf_table (claims w)" and ord: "sorts_by_amount sch"
    and st: "st = status_in (transactions w) (outputs w) h"
  shows "\<exists>n t. setBidStateOfClaimsForName sch name h w = (Ok (), w\<lparr>stmts := n, claims := t_map (\<lambda>x.
      let b = (if t = Some x then ''Controlling'' else st x)
      in if bids_on name h x \<and> c_BidState x \<noteq> b then x\<lparr>c_BidState := b, c_ModifiedAt := clock w\<rparr> else x) (claims w)\<rparr>) \<and>
    (let B = {x \<in> set (rows (claims w)). bids_on name h x \<and> st x = ''Active''} in
     case t of None \<Rightarrow> B = {} | Some x \<Rightarrow> x \<in> B \<and> (\<forall>y\<in>B. c_EffectiveAmount y \<le> c_EffectiveAmount x))"
proof -
  let ?F = "filter (bids_on name h) (rows (claims w))"
  let ?cs = "byAmount sch ?F"
  have perm: "mset ?cs = mset ?F" and sorted: "sorted_wrt (\<lambda>a b. c_EffectiveAmount a \<ge> c_EffectiveAmount b) ?cs"
    using ord by (auto simp: sorts_by_amount_def)
  have set: "set ?cs = set ?F" by (rule mset_eq_setD [OF perm])
  have ids: "distinct (map c_ID (rows (claims w)))" using wf by (simp add: claimT.wf_table_def)
  have dist: "distinct (map c_ID ?cs)"
    using distinct_map_filter [OF ids] perm by (metis mset_map mset_eq_imp_distinct_iff)
  let ?p = "bid_plan st False ?cs"
  let ?g = "apply_plan (clock w) ?p" and ?top = "find (\<lambda>c. st c = ''Active'') ?cs"
  let ?f = "\<lambda>x. let b = (if ?top = Some x then ''Controlling'' else st x)
      in if bids_on name h x \<and> c_BidState x \<noteq> b then x\<lparr>c_BidState := b, c_ModifiedAt := clock w\<rparr> else x"
  have q: "query (\<lambda>w. byAmount sch (filter (bids_on name h) (rows (claims w)))) w = (Ok ?cs, w\<lparr>stmts := stmts w + 1\<rparr>)"
    using nf by (simp add: query_def stmt_def no_faults_def)
  have "\<exists>n. bidLoop h False ?cs (w\<lparr>stmts := stmts w + 1\<rparr>) = (Ok (), w\<lparr>stmts := n, claims := t_map ?g (claims w)\<rparr>)"
    using bidLoop_run [of "w\<lparr>stmts := stmts w + 1\<rparr>" ?cs h False] nf wf dist set by (auto simp: st)
  then obtain n where r: "setBidStateOfClaimsForName sch name h w = (Ok (), w\<lparr>stmts := n, claims := t_map ?g (claims w)\<rparr>)"
    using q by (auto simp: setBidStateOfClaimsForName_def bind_def)
  have "?g x = ?f x" if x: "x \<in> set (rows (claims w))" for x
  proof (cases "bids_on name h x")
    case True
    then have "map_of ?p (c_ID x) = Some (if ?top = Some x then ''Controlling'' else st x)"
      using bid_plan_spec [OF dist, of st] x set by (simp add: st status_in_not_controlling)
    then show ?thesis using True by (simp add: apply_plan_def bidden_def)
  next
    case False
    then have "c_ID x \<notin> c_ID ` set ?cs" using x ids set by (auto simp: distinct_map dest: inj_onD)
    then have "map_of ?p (c_ID x) = None" by (simp add: map_of_eq_None_iff flip: set_map)
    then show ?thesis using False by (simp add: apply_plan_def)
  qed
  then have eq: "t_map ?g (claims w) = t_map ?f (claims w)" by (rule t_map_cong)
  have run: "setBidStateOfClaimsForName sch name h w = (Ok (), w\<lparr>stmts := n, claims := t_map ?f (claims w)\<rparr>)"
    using r unfolding eq .
  let ?B = "{x \<in> set (rows (claims w)). bids_on name h x \<and> st x = ''Active''}"
  have B: "?B = {x \<in> set ?cs. st x = ''Active''}" using set by auto
  have "case ?top of None \<Rightarrow> ?B = {} | Some x \<Rightarrow> x \<in> ?B \<and> (\<forall>y\<in>?B. c_EffectiveAmount y \<le> c_EffectiveAmount x)"
  proof (cases ?top)
    case None
    then have "?B = {}" unfolding B find_None_iff by auto
    then show ?thesis using None by simp
  next
    case (Some x)
    have "x \<in> ?B" using Some unfolding B by (auto simp: find_Some_iff)
    moreover have "c_EffectiveAmount y \<le> c_EffectiveAmount x" if "y \<in> ?B" for y
      using find_sorted [OF sorted Some, of y] that unfolding B by auto
    ultimately show ?thesis using Some by simp
  qed
  then show ?thesis using run unfolding Let_def by (intro exI [of _ n] exI [of _ ?top] conjI)
qed

definition demo_sch :: trieOrder where
  "demo_sch = \<lparr>byAmount = (\<lambda>cs. rev (sort_key c_EffectiveAmount cs)), pageRows = id, outputRows = id, nameOrder = id, jobOrder = id\<rparr>"

definition demo_bid :: "nat \<Rightarrow> nat \<Rightarrow> string \<Rightarrow> Claim" where
  "demo_bid k amount state = zeroClaim\<lparr>c_ID := k, c_ClaimID := [CHR ''a'', char_of k], c_Name := ''n'', c_Height := 5, c_EffectiveAmount := amount,
     c_TransactionHashUpdate := Some ''t'', c_VoutUpdate := Some k, c_BidState := state\<rparr>"

definition demo_out_at :: "nat \<Rightarrow> bool \<Rightarrow> Output" where
  "demo_out_at k spent = zeroOutput\<lparr>o_ID := k, o_TransactionID := 1, o_TransactionHash := ''t'', o_Vout := k, o_IsSpent := spent\<rparr>"

definition demo_bids :: world where
  "demo_bids = demo_world\<lparr>
     claims := \<lparr>rows = [demo_bid 1 5 ''Accepted'', demo_bid 2 9 ''Controlling'', demo_bid 3 7 ''Active''], nextID = 4\<rparr>,
     transactions := \<lparr>rows = [zeroTransaction\<lparr>t_ID := 1, t_Hash := ''t''\<rparr>], nextID = 2\<rparr>,
     outputs := \<lparr>rows = [demo_out_at 1 False, demo_out_at 2 True, demo_out_at 3 False], nextID = 4\<rparr>\<rparr>"

lemma demo_bids_ok: "no_faults demo_bids" "claimT.wf_table (claims demo_bids)" "sorts_by_amount demo_sch"
proof -
  show "no_faults demo_bids" by (simp add: no_faults_def demo_bids_def demo_world_def)
  show "claimT.wf_table (claims demo_bids)"
    by (simp add: claimT.wf_table_def demo_bids_def demo_bid_def zeroClaim_def claim_clash_def)
  have "sorted_wrt (\<lambda>a b. c_EffectiveAmount a \<ge> c_EffectiveAmount b) (rev (sort_key c_EffectiveAmount cs))" for cs
    using sorted_sort_key [of c_EffectiveAmount cs] by (simp add: sorted_wrt_rev sorted_map)
  then show "sorts_by_amount demo_sch" unfolding sorts_by_amount_def demo_sch_def by (intro allI conjI) simp_all
qed

text \<open>The claim of the largest amount is spent, so the next one controls the name.\<close>

theorem setBidState_controlling_witness:
  "map c_BidState (rows (claims (snd (setBidStateOfClaimsForName demo_sch ''n'' 10 demo_bids)))) = [''Active'', ''Spent'', ''Controlling'']"
proof -
  let ?st = "status_in (transactions demo_bids) (outputs demo_bids) 10"
  obtain n t where r: "setBidStateOfClaimsForName demo_sch ''n'' 10 demo_bids = (Ok (), demo_bids\<lparr>stmts := n, claims := t_map (\<lambda>x.
      let b = (if t = Some x then ''Controlling'' else ?st x)
      in if bids_on ''n'' 10 x \<and> c_BidState x \<noteq> b then x\<lparr>c_BidState := b, c_ModifiedAt := clock demo_bids\<rparr> else x) (claims demo_bids)\<rparr>)"
    and t: "let B = {x \<in> set (rows (claims demo_bids)). bids_on ''n'' 10 x \<and> ?st x = ''Active''} in
     case t of None \<Rightarrow> B = {} | Some x \<Rightarrow> x \<in> B \<and> (\<forall>y\<in>B. c_EffectiveAmount y \<le> c_EffectiveAmount x)"
    using setBidState_controlling [OF demo_bids_ok refl, of "''n''" 10] by blast
  have rows: "rows (claims demo_bids) = [demo_bid 1 5 ''Accepted'', demo_bid 2 9 ''Controlling'', demo_bid 3 7 ''Active'']"
    by (simp add: demo_bids_def)
  have st: "?st (demo_bid 1 5 ''Accepted'') = ''Active''" "?st (demo_bid 2 9 ''Controlling'') = ''Spent''" "?st (demo_bid 3 7 ''Active'') = ''Active''"
    by code_simp+
  have bids: "bids_on ''n'' 10 (demo_bid k a s)" for k a s by (simp add: bids_on_def demo_bid_def zeroClaim_def)
  have B: "{x \<in> set (rows (claims demo_bids)). bids_on ''n'' 10 x \<and> ?st x = ''Active''} = {demo_bid 1 5 ''Accepted'', demo_bid 3 7 ''Active''}"
    using st bids unfolding rows by auto
  have amount: "c_EffectiveAmount (demo_bid k a s) = a" "c_ID (demo_bid k a s) = k" "c_BidState (demo_bid k a s) = s" for k a s by (simp_all add: demo_bid_def)
  have "t = Some (demo_bid 3 7 ''Active'')" using t unfolding B Let_def by (cases t) (auto simp: amount)
  moreover have "demo_bid 3 7 ''Active'' \<noteq> demo_bid 1 5 ''Accepted''" "demo_bid 3 7 ''Active'' \<noteq> demo_bid 2 9 ''Controlling''"
    by (metis amount(1) numeral_eq_iff semiring_norm(89,90))+
  ultimately show ?thesis by (simp add: r t_map_def rows st bids amount Let_def del: One_nat_def)
qed

section \<open>Paging\<close>

text \<open>A favourable order, which the query does not ask for: the rows of a page come by their ids.\<close>

definition pages_by_id :: "trieOrder \<Rightarrow> bool" where
  "pages_by_id sch \<longleftrightarrow> (\<forall>cs. distinct (map c_ID cs) \<longrightarrow>
     set (pageRows sch cs) = set cs \<and> sorted_wrt (\<lambda>a b. c_ID a < c_ID b) (pageRows sch cs))"

lemma filter_after_take:
  assumes "sorted_wrt (\<lambda>a b. g a < (g b :: nat)) L" and "take n L \<noteq> []"
  shows "filter (\<lambda>c. g (last (take n L)) < g c) L = drop n L"
proof -
  let ?x = "last (take n L)"
  have s: "sorted_wrt (\<lambda>a b. g a < g b) (take n L @ drop n L)" using assms(1) by simp
  have "g c \<le> g ?x" if "c \<in> set (take n L)" for c
  proof -
    have "take n L = butlast (take n L) @ [?x]" using assms(2) by simp
    then have "c \<in> set (butlast (take n L)) \<or> c = ?x" and "sorted_wrt (\<lambda>a b. g a < g b) (butlast (take n L) @ [?x])"
      using that s by (metis Un_iff set_append set_ConsD empty_iff list.set(1), metis sorted_wrt_append)
    then show ?thesis by (auto simp: sorted_wrt_append)
  qed
  moreover have "g ?x < g c" if "c \<in> set (drop n L)" for c
    using s that last_in_set [OF assms(2)] unfolding sorted_wrt_append by blast
  ultimately have "filter (\<lambda>c. g ?x < g c) (take n L) = []" "filter (\<lambda>c. g ?x < g c) (drop n L) = drop n L"
    by (auto simp: filter_empty_conv not_less)
  then show ?thesis by (metis append_Nil append_take_drop_id filter_append)
qed

lemma sendPages_complete:
  assumes "no_faults w" and "distinct (map c_ID (rows (claims w)))" and "pages_by_id sch"
  shows "\<exists>n. sendPages sch P prev acc w =
    (Ok (acc @ map idAndName (filter (\<lambda>c. prev < int (c_ID c) \<and> P c) (pageRows sch (rows (claims w)))), None), w\<lparr>stmts := n\<rparr>)"
  using assms
proof (induction sch P prev acc w rule: sendPages.induct)
  case (1 sch P prev acc w)
  let ?pr = "pageRows sch (rows (claims w))" and ?w = "w\<lparr>stmts := stmts w + 1\<rparr>"
  let ?L = "filter (\<lambda>c. prev < int (c_ID c) \<and> P c) ?pr"
  let ?cs = "page sch P prev w"
  have q: "query (page sch P prev) w = (Ok ?cs, ?w)"
    using "1.prems"(1) by (simp add: query_def stmt_def no_faults_def page_def)
  have cs: "?cs = take 15000 ?L" by (simp add: page_def)
  have srt: "sorted_wrt (\<lambda>a b. c_ID a < c_ID b) ?pr" using "1.prems"(2,3) by (simp add: pages_by_id_def)
  show ?case
  proof (cases "lastID prev ?cs = prev")
    case True
    have "?L = []"
    proof (rule ccontr)
      assume "?L \<noteq> []"
      then have n: "?cs \<noteq> []" using cs by simp
      then have "last ?cs \<in> set ?L" using cs by (metis in_set_takeD last_in_set)
      then show False using True n by (simp add: lastID_def)
    qed
    then show ?thesis using True q cs by (intro exI [of _ "stmts w + 1"]) (subst sendPages.simps, simp add: Let_def)
  next
    case False
    note nx = page_next [OF False]
    have next': "lastID prev ?cs = int (c_ID (last ?cs))" using nx(2) by (simp add: lastID_def)
    have "filter (\<lambda>c. c_ID (last (take 15000 ?L)) < c_ID c) ?L = drop 15000 ?L"
      by (rule filter_after_take) (use srt nx(2) cs in \<open>auto intro: sorted_wrt_filter\<close>)
    moreover have "filter (\<lambda>c. lastID prev ?cs < int (c_ID c) \<and> P c) ?pr = filter (\<lambda>c. c_ID (last ?cs) < c_ID c) ?L"
      using nx(1) unfolding next' filter_filter by (intro filter_cong) auto
    ultimately have tail: "filter (\<lambda>c. lastID prev ?cs < int (c_ID c) \<and> P c) ?pr = drop 15000 ?L" by (simp only: cs)
    obtain n where "sendPages sch P (lastID prev ?cs) (acc @ map idAndName ?cs) ?w =
        (Ok ((acc @ map idAndName ?cs) @ map idAndName (filter (\<lambda>c. lastID prev ?cs < int (c_ID c) \<and> P c) ?pr), None), ?w\<lparr>stmts := n\<rparr>)"
      using "1.IH" [OF q [symmetric] refl refl refl False] "1.prems" by auto
    moreover have "map idAndName ?cs @ map idAndName (drop 15000 ?L) = map idAndName ?L" unfolding cs by (metis append_take_drop_id map_append)
    ultimately show ?thesis using False q tail by (intro exI [of _ n]) (subst sendPages.simps, simp add: Let_def)
  qed
qed

text \<open>All that the documentation of the database promises of a page without \<^verbatim>\<open>ORDER BY\<close>: the rows, each once, in some order.\<close>

definition pages_once :: "trieOrder \<Rightarrow> bool" where
  "pages_once sch \<longleftrightarrow> (\<forall>cs. mset (pageRows sch cs) = mset cs)"

text \<open>What paging sends whatever that order is.\<close>

definition sends_some :: "trieOrder \<Rightarrow> (Claim \<Rightarrow> bool) \<Rightarrow> int \<Rightarrow> world \<Rightarrow> Claim list \<Rightarrow> bool" where
  "sends_some sch P prev w S \<longleftrightarrow> (let M = filter (\<lambda>c. prev < int (c_ID c) \<and> P c) (rows (claims w)) in
     set S \<subseteq> set M \<and> (\<forall>c\<in>set M. c \<in> set S \<or> (\<exists>d\<in>set S. c_ID c < c_ID d)) \<and> (length M \<le> 15000 \<longrightarrow> set S = set M) \<and>
     (\<forall>c\<in>set S. c \<in> set (page sch P prev w) \<or> lastID prev (page sch P prev w) < int (c_ID c)))"

lemma sends_some_step:
  assumes "distinct (map c_ID (rows (claims w)))" and "pages_once sch" and n: "lastID prev (page sch P prev w) \<noteq> prev"
    and rest: "sends_some sch P (lastID prev (page sch P prev w)) v S" and v: "claims v = claims w"
  shows "sends_some sch P prev w (page sch P prev w @ S)"
proof -
  let ?pr = "pageRows sch (rows (claims w))" and ?Q = "\<lambda>c. prev < int (c_ID c) \<and> P c" and ?cs = "page sch P prev w"
  let ?M = "filter ?Q (rows (claims w))" and ?M' = "filter (\<lambda>c. lastID prev ?cs < int (c_ID c) \<and> P c) (rows (claims w))"
  have ms: "mset (filter ?Q ?pr) = mset ?M" using assms(2) by (simp add: pages_once_def)
  have set: "set (filter ?Q ?pr) = set ?M" by (rule mset_eq_setD [OF ms])
  note nx = page_next [OF n]
  have l: "lastID prev ?cs = int (c_ID (last ?cs))" using nx(2) by (simp add: lastID_def)
  have page: "set ?cs \<subseteq> set ?M" unfolding page_def set [symmetric] by (auto dest: in_set_takeD)
  have last: "last ?cs \<in> set ?cs" using nx(2) by simp
  have M': "set ?M' \<subseteq> set ?M" using nx(1) by auto
  have S: "set S \<subseteq> set ?M'" "\<forall>c\<in>set ?M'. c \<in> set S \<or> (\<exists>d\<in>set S. c_ID c < c_ID d)" using rest v by (simp_all add: sends_some_def Let_def)
  have lost: "c \<in> set (?cs @ S) \<or> (\<exists>d\<in>set (?cs @ S). c_ID c < c_ID d)" if c: "c \<in> set ?M" for c
  proof (cases "lastID prev ?cs < int (c_ID c)")
    case True
    then have "c \<in> set ?M'" using c by simp
    then show ?thesis using S(2) by auto
  next
    case False
    then consider "c_ID c < c_ID (last ?cs)" | "c_ID c = c_ID (last ?cs)" using l by linarith
    then show ?thesis
    proof cases
      case 2
      have "last ?cs \<in> set (rows (claims w))" using last page by auto
      then have "c = last ?cs" using 2 c assms(1) by (auto simp: distinct_map dest: inj_onD)
      then show ?thesis using last by simp
    qed (use last in auto)
  qed
  have all: "set (?cs @ S) = set ?M" if "length ?M \<le> 15000"
  proof -
    have "length (filter ?Q ?pr) \<le> 15000" using that ms by (metis size_mset)
    then have "?cs = filter ?Q ?pr" by (simp add: page_def)
    then show ?thesis using set S(1) M' by auto
  qed
  have new: "lastID prev ?cs < int (c_ID c)" if "c \<in> set S" for c using that S(1) by auto
  have sound: "set (?cs @ S) \<subseteq> set ?M" using page S(1) M' by auto
  show ?thesis unfolding sends_some_def Let_def using sound lost all new by auto
qed

lemma sendPages_some:
  assumes "no_faults w" and "distinct (map c_ID (rows (claims w)))" and "pages_once sch"
  shows "\<exists>n S. sendPages sch P prev acc w = (Ok (acc @ map idAndName S, None), w\<lparr>stmts := n\<rparr>) \<and> sends_some sch P prev w S"
  using assms
proof (induction sch P prev acc w rule: sendPages.induct)
  case (1 sch P prev acc w)
  let ?w = "w\<lparr>stmts := stmts w + 1\<rparr>" and ?cs = "page sch P prev w"
  have q: "query (page sch P prev) w = (Ok ?cs, ?w)"
    using "1.prems"(1) by (simp add: query_def stmt_def no_faults_def page_def)
  show ?case
  proof (cases "lastID prev ?cs = prev")
    case True
    let ?L = "filter (\<lambda>c. prev < int (c_ID c) \<and> P c) (pageRows sch (rows (claims w)))"
    have cs: "?cs = take 15000 ?L" by (simp add: page_def)
    have "?L = []"
    proof (rule ccontr)
      assume "?L \<noteq> []"
      then have n: "?cs \<noteq> []" using cs by simp
      then have "last ?cs \<in> set ?L" using cs by (metis in_set_takeD last_in_set)
      then show False using True n by (simp add: lastID_def)
    qed
    moreover have "mset ?L = mset (filter (\<lambda>c. prev < int (c_ID c) \<and> P c) (rows (claims w)))" using "1.prems"(3) by (simp add: pages_once_def)
    ultimately have "filter (\<lambda>c. prev < int (c_ID c) \<and> P c) (rows (claims w)) = []" by (metis mset_zero_iff)
    then have "sends_some sch P prev w []" unfolding sends_some_def Let_def by simp
    moreover have "?cs = []" using \<open>?L = []\<close> cs by simp
    ultimately show ?thesis using True q by (intro exI [of _ "stmts w + 1"] exI [of _ "[]"]) (subst sendPages.simps, simp add: Let_def)
  next
    case False
    obtain n S where r: "sendPages sch P (lastID prev ?cs) (acc @ map idAndName ?cs) ?w =
        (Ok ((acc @ map idAndName ?cs) @ map idAndName S, None), ?w\<lparr>stmts := n\<rparr>)" and S: "sends_some sch P (lastID prev ?cs) ?w S"
      using "1.IH" [OF q [symmetric] refl refl refl False] "1.prems" by auto
    have "sends_some sch P prev w (?cs @ S)" using sends_some_step [OF "1.prems"(2,3) False S] by simp
    then show ?thesis using False q r by (intro exI [of _ n] exI [of _ "?cs @ S"]) (subst sendPages.simps, simp add: Let_def)
  qed
qed

text \<open>C11: What \<^verbatim>\<open>getModifiedClaims\<close> sends. It ends without an error and changes nothing. Every claim it sends has been modified since the
  given time (on the first run: is a claim of the table), with its id and its name. It sends all of them when there are
  at most 15000, the size of a page. With more of them it may miss one, as its query asks for no order, but only
  one whose id is below that of a claim it sent; if the database happens to return the rows by their ids it misses none, and
  sends each exactly once, in that order. The hypotheses are a database without faults and with unique ids, whose pages hold the rows in any order.\<close>

theorem getModifiedClaims_complete:
  assumes "no_faults w" and "claimT.wf_table (claims w)" and "pages_once sch"
  shows "\<exists>cs n. getModifiedClaims sch since w = (Ok (cs, None), w\<lparr>stmts := n\<rparr>) \<and>
    (let M = filter (\<lambda>c. since = 0 \<or> since \<le> c_ModifiedAt c) (rows (claims w)) in
      set cs \<subseteq> idAndName ` set M \<and>
      (\<forall>c\<in>set M. idAndName c \<in> set cs \<or> (\<exists>d\<in>set cs. c_ID c < c_ID d)) \<and>
      (length M \<le> 15000 \<longrightarrow> set cs = idAndName ` set M) \<and>
      (pages_by_id sch \<longrightarrow> set cs = idAndName ` set M \<and> sorted_wrt (<) (map c_ID cs)))"
proof -
  let ?P = "\<lambda>c. since = 0 \<or> since \<le> c_ModifiedAt c" and ?pr = "pageRows sch (rows (claims w))"
  let ?M = "filter ?P (rows (claims w))"
  have d: "distinct (map c_ID (rows (claims w)))" using assms(2) by (simp add: claimT.wf_table_def)
  obtain n S where r: "sendPages sch ?P (- 1) [] w = (Ok ([] @ map idAndName S, None), w\<lparr>stmts := n\<rparr>)" and S: "sends_some sch ?P (- 1) w S"
    using sendPages_some [OF assms(1) d assms(3)] by blast
  have run: "getModifiedClaims sch since w = (Ok (map idAndName S, None), w\<lparr>stmts := n\<rparr>)" using r by (simp add: getModifiedClaims_def)
  have s: "set S \<subseteq> set ?M" "\<forall>c\<in>set ?M. c \<in> set S \<or> (\<exists>d\<in>set S. c_ID c < c_ID d)" "length ?M \<le> 15000 \<longrightarrow> set S = set ?M"
    using S by (simp_all add: sends_some_def Let_def)
  have "set (map idAndName S) = idAndName ` set ?M \<and> sorted_wrt (<) (map c_ID (map idAndName S))" if by_id: "pages_by_id sch"
  proof -
    have pr: "set ?pr = set (rows (claims w))" "sorted_wrt (\<lambda>a b. c_ID a < c_ID b) ?pr" using by_id d by (simp_all add: pages_by_id_def)
    obtain m where "sendPages sch ?P (- 1) [] w = (Ok (map idAndName (filter ?P ?pr), None), w\<lparr>stmts := m\<rparr>)"
      using sendPages_complete [OF assms(1) d by_id, of ?P "-1" "[]"] by auto
    then have eq: "map idAndName S = map idAndName (filter ?P ?pr)" using r by simp
    have "sorted_wrt (<) (map c_ID (map idAndName (filter ?P ?pr)))"
      using sorted_wrt_filter [OF pr(2), of ?P] by (simp add: sorted_wrt_map idAndName_def)
    moreover have "set (map idAndName (filter ?P ?pr)) = idAndName ` set ?M" by (simp add: pr(1))
    ultimately show ?thesis unfolding eq by blast
  qed
  moreover have "idAndName c \<in> set (map idAndName S) \<or> (\<exists>d\<in>set (map idAndName S). c_ID c < c_ID d)" if "c \<in> set ?M" for c
    using s(2) that by (force simp: idAndName_def)
  moreover have "set (map idAndName S) \<subseteq> idAndName ` set ?M" "length ?M \<le> 15000 \<longrightarrow> set (map idAndName S) = idAndName ` set ?M"
    using s(1,3) by auto
  ultimately show ?thesis using run unfolding Let_def
    by (intro exI [of _ "map idAndName S"] exI [of _ n] conjI ballI impI) (blast | assumption)+
qed

text \<open>A claim is lost when the page that should hold it is full and ends with a larger id.\<close>

lemma getModifiedClaims_loses:
  assumes "no_faults w" and "claimT.wf_table (claims w)" and "pages_once sch" and "c \<in> set (rows (claims w))"
    and "c \<notin> set (page sch (\<lambda>c. since = 0 \<or> since \<le> c_ModifiedAt c) (- 1) w)"
    and "int (c_ID c) < lastID (- 1) (page sch (\<lambda>c. since = 0 \<or> since \<le> c_ModifiedAt c) (- 1) w)"
  shows "\<exists>cs n. getModifiedClaims sch since w = (Ok (cs, None), w\<lparr>stmts := n\<rparr>) \<and> c_ID c \<notin> c_ID ` set cs"
proof -
  let ?P = "\<lambda>c. since = 0 \<or> since \<le> c_ModifiedAt c"
  have d: "distinct (map c_ID (rows (claims w)))" using assms(2) by (simp add: claimT.wf_table_def)
  obtain n S where r: "sendPages sch ?P (- 1) [] w = (Ok ([] @ map idAndName S, None), w\<lparr>stmts := n\<rparr>)" and S: "sends_some sch ?P (- 1) w S"
    using sendPages_some [OF assms(1) d assms(3)] by blast
  have sub: "set S \<subseteq> set (rows (claims w))" using S by (auto simp: sends_some_def Let_def)
  have "\<forall>x\<in>set S. x \<in> set (page sch ?P (- 1) w) \<or> lastID (- 1) (page sch ?P (- 1) w) < int (c_ID x)"
    using S unfolding sends_some_def Let_def by blast
  then have not: "c \<notin> set S" using assms(5,6) by (metis less_asym)
  have "c_ID c \<notin> c_ID ` set S"
  proof
    assume "c_ID c \<in> c_ID ` set S"
    then obtain x where "x \<in> set S" "c_ID x = c_ID c" by auto
    then have "x = c" using d sub assms(4) by (auto simp: distinct_map dest: inj_onD)
    then show False using not \<open>x \<in> set S\<close> by simp
  qed
  then have "c_ID c \<notin> c_ID ` set (map idAndName S)" by (simp add: image_image idAndName_def)
  then show ?thesis using r by (intro exI [of _ "map idAndName S"] exI [of _ n]) (simp add: getModifiedClaims_def)
qed

text \<open>15001 claims that the database returns by falling ids: the first one is never looked at.\<close>

definition demo_many :: world where
  "demo_many = demo_world\<lparr>claims := \<lparr>rows = map (\<lambda>i. zeroClaim\<lparr>c_ID := Suc i\<rparr>) [0..<15001], nextID = 15002\<rparr>\<rparr>"

lemma getModifiedClaims_loses_one:
  "\<exists>cs n. getModifiedClaims (demo_sch\<lparr>pageRows := rev\<rparr>) 0 demo_many = (Ok (cs, None), demo_many\<lparr>stmts := n\<rparr>) \<and> 1 \<notin> c_ID ` set cs"
proof -
  let ?sch = "demo_sch\<lparr>pageRows := rev\<rparr>" and ?P = "\<lambda>c. (0::time) = 0 \<or> 0 \<le> c_ModifiedAt c" and ?c = "\<lambda>i. zeroClaim\<lparr>c_ID := Suc i\<rparr>"
  have r: "rows (claims demo_many) = ?c 0 # map ?c [1..<15001]" using upt_conv_Cons [of 0 15001] by (simp add: demo_many_def del: upt_Suc)
  have "page ?sch ?P (- 1) demo_many = take 15000 (rev (rows (claims demo_many)))"
    by (simp add: page_def demo_sch_def filter_id_conv)
  also have "\<dots> = rev (map ?c [1..<15001])" unfolding r by (simp del: upt_Suc)
  finally have p: "page ?sch ?P (- 1) demo_many = rev (map ?c [1..<15001])" .
  have l: "lastID (- 1) (page ?sch ?P (- 1) demo_many) = 2"
    using upt_conv_Cons [of 1 15001] unfolding p lastID_def by (simp add: last_rev del: upt_Suc)
  have "no_faults demo_many" by (simp add: demo_many_def no_faults_def demo_world_def)
  moreover have "claimT.wf_table (claims demo_many)"
    by (auto simp: demo_many_def claimT.wf_table_def comp_def distinct_map inj_on_def claim_clash_def zeroClaim_def simp del: upt_Suc)
  moreover have "pages_once ?sch" by (simp add: pages_once_def)
  moreover have "?c 0 \<in> set (rows (claims demo_many))" unfolding r by simp
  moreover have "?c 0 \<notin> set (page ?sch ?P (- 1) demo_many)"
  proof
    assume "?c 0 \<in> set (page ?sch ?P (- 1) demo_many)"
    then have "c_ID (?c 0) \<in> c_ID ` set (map ?c [1..<15001])" unfolding p set_rev by (rule imageI)
    then show False by (auto simp del: upt_Suc)
  qed
  moreover have "int (c_ID (?c 0)) < lastID (- 1) (page ?sch ?P (- 1) demo_many)" unfolding l by simp
  ultimately show ?thesis using getModifiedClaims_loses [of demo_many ?sch "?c 0" 0] by simp
qed

theorem getModifiedClaims_complete_witness:
  "\<exists>cs n. getModifiedClaims demo_sch 0 demo_bids = (Ok (cs, None), demo_bids\<lparr>stmts := n\<rparr>) \<and> c_ID ` set cs = {1, 2, 3}"
proof -
  have "pages_once demo_sch" by (simp add: pages_once_def demo_sch_def)
  then obtain cs n where r: "getModifiedClaims demo_sch 0 demo_bids = (Ok (cs, None), demo_bids\<lparr>stmts := n\<rparr>)"
    and all: "length (rows (claims demo_bids)) \<le> 15000 \<longrightarrow> set cs = idAndName ` set (rows (claims demo_bids))"
    using getModifiedClaims_complete [OF demo_bids_ok(1,2), of demo_sch 0] unfolding Let_def by auto
  have "length (rows (claims demo_bids)) = 3" by (simp add: demo_bids_def)
  then have "set cs = idAndName ` set (rows (claims demo_bids))" using all by simp
  then have "c_ID ` set cs = c_ID ` set (rows (claims demo_bids))" by (simp add: image_image idAndName_def)
  also have "\<dots> = {1, 2, 3}" by (simp add: demo_bids_def demo_bid_def)
  finally show ?thesis using r by blast
qed

section \<open>Errors the job does not notice\<close>

lemma calm_PutClaim: "calm (PutClaim c)"
proof -
  have w: "calm (Claim_UpdateG r)" "calm (Claim_InsertG r)" for r
    unfolding Claim_UpdateG_def Claim_InsertG_def
    by (auto intro!: calm_change simp: t_update_def t_insert_def calm_def change_def stmt_def Let_def split: option.split outcome.split)
  have "calm (find_claim_for_put c)"
    unfolding find_claim_for_put_def by (auto intro!: calm_rules(1-6) calm_found)
  moreover have "calm (\<lambda>w. bind (Claim_UpdateG (g w)) (\<lambda>_. ret (g w)) w)" for g
  proof -
    have "calm (bind (Claim_UpdateG r) (\<lambda>_. ret r))" for r by (intro calm_rules(1,6) w)
    then show ?thesis by (simp add: calm_def)
  qed
  ultimately show ?thesis
    unfolding PutClaim_def Let_def by (intro calm_rules(5,6)) (auto split: option.split intro: w)
qed

lemma getClaimStatus_never_fails: "never_fails (getClaimStatus c h)"
  unfolding getClaimStatus_def Let_def
  by (auto intro!: calm_rules(4) calm_rules(8-10) split: sum.split)

lemma bidLoop_calm: "calm (bidLoop h b cs)"
proof (induction cs arbitrary: b)
  case (Cons c cs)
  have "calm (putBidState s c)" for s
    unfolding putBidState_def by (auto intro: calm_rules calm_PutClaim)
  then show ?case
    using Cons.IH calm_rules(7) [OF getClaimStatus_never_fails] by (auto intro!: calm_rules(1,6))
qed (simp add: calm_rules)

lemma forM_never_fails: "(\<And>x. never_fails (f x)) \<Longrightarrow> never_fails (forM xs f)"
  by (induction xs) (auto intro: calm_rules)

lemma reprocessBatch_never_fails: "never_fails (reprocessBatch N sch h cs)"
proof -
  have "never_fails (syncClaim j)" for j
    unfolding syncClaim_def Claim_UpdateTrieG_def Let_def
    by (auto intro!: calm_rules(4) calm_rules(8-10) calm_stmt split: sum.split)
  moreover have "never_fails (claimsOfNames N names)" for names
  proof (induction names)
    case (Cons n names)
    have "calm (rpc f)" for f :: "nat \<Rightarrow> goerr + 'a" by (auto simp: calm_def rpc_def split: sum.split)
    then show ?case using Cons by (auto intro!: calm_rules(8-10))
  qed (simp add: never_fails_def)
  moreover have "never_fails (attempt (setBidStateOfClaimsForName sch name h))" for name
    unfolding setBidStateOfClaimsForName_def by (intro calm_rules(8-10) calm_rules(6) calm_rules(3) bidLoop_calm)
  ultimately show ?thesis
    unfolding reprocessBatch_def SyncClaims_def SetControllingClaimForNames_def by (intro calm_rules(9,10) forM_never_fails)
qed

text \<open>C14: \<^verbatim>\<open>reprocessUpdatedClaims\<close> never reports an error: whatever statements of the database and whatever calls of the node fail, it
  returns \<^verbatim>\<open>nil\<close>, since the errors of a name are only logged. The job then records the run as a success and moves its
  time stamp, and the claims it failed to bring up to date are not selected again until they are modified.\<close>

theorem reprocessUpdatedClaims_never_fails: "fst (reprocessUpdatedClaims N sch h cs w) = Ok ()"
proof -
  have "never_fails (reprocessLoop N sch h names batch cs)" for names batch
    by (induction cs arbitrary: names batch)
      (auto simp: Let_def reprocessBatch_never_fails intro!: calm_rules(9))
  then show ?thesis by (auto simp: reprocessUpdatedClaims_def never_fails_def)
qed

end
