(* ===== verification/Daemon.thy ===== *)
theory Daemon
  imports Blocks
begin

text \<open>
  \<^verbatim>\<open>daemon/daemon.go\<close>: the loop that follows the chain. An iteration asks the node for its height and hands one height after
  the other to the block worker, going on from the height the worker answers; the watchdog records what is in flight. There is
  one block worker, so a height is sent and its answer received before the next one is sent. Times are nanoseconds.
  Starting the jobs, tickers and dumping the stacks are left out.
\<close>

section \<open>Settings\<close>

record daemonSettings =
  set_DaemonMode :: int
  set_ProcessingDelay :: int
  set_DaemonDelay :: int
  set_BlockProcessingTimeout :: int
  set_BlockProcessingDumpInterval :: int
  set_ExitOnBlockProcessingTimeout :: bool

record daemonConf =
  processingMode :: int
  processingDelay :: int
  daemonDelay :: int
  blockProcessingTimeout :: int
  blockProcessingDumpDelay :: int
  exitOnBlockProcessingTimeout :: bool

definition beastmode :: int where "beastmode = 0"
definition slowsteadymode :: int where "slowsteadymode = 1"
definition daemonmode :: int where "daemonmode = 3"

definition ApplySettings :: "daemonSettings \<Rightarrow> daemonConf" where
  "ApplySettings settings =
     (let delay = (if set_DaemonDelay settings \<le> 0 then 1000000000 else set_DaemonDelay settings);
          dump = (if set_BlockProcessingDumpInterval settings \<le> 0 then set_BlockProcessingTimeout settings
                  else set_BlockProcessingDumpInterval settings);
          mode = set_DaemonMode settings
      in \<lparr>processingMode = mode,
          processingDelay =
            (if mode = beastmode then 0
             else if mode = slowsteadymode then 100 * 1000000
             else if mode = daemonmode then delay
             else set_ProcessingDelay settings),
          daemonDelay = delay, blockProcessingTimeout = set_BlockProcessingTimeout settings,
          blockProcessingDumpDelay = dump,
          exitOnBlockProcessingTimeout = set_ExitOnBlockProcessingTimeout settings\<rparr>)"

section \<open>The watchdog\<close>

text \<open>A zero time is \<open>None\<close>.\<close>

record blockWatchdogState =
  lastSuccessAt :: "int option"
  inflightStartedAt :: "int option"
  lastDumpAt :: "int option"
  lastSuccessHeight :: nat
  targetHeight :: nat
  inflightHeight :: nat

record blockWatchdogSnapshot =
  snap_lastSuccessAt :: "int option"
  snap_inflightStartedAt :: "int option"
  snap_lastSuccessHeight :: nat
  snap_targetHeight :: nat
  snap_inflightHeight :: nat
  snap_elapsed :: int

definition recordDaemonTarget :: "int \<Rightarrow> nat \<Rightarrow> nat \<Rightarrow> blockWatchdogState \<Rightarrow> blockWatchdogState" where
  "recordDaemonTarget now lastHeightProcessed height s =
     (let s = s\<lparr>targetHeight := height\<rparr>
      in if lastSuccessAt s = None then s\<lparr>lastSuccessAt := Some now, lastSuccessHeight := lastHeightProcessed\<rparr> else s)"

definition recordBlockStart :: "int \<Rightarrow> nat \<Rightarrow> blockWatchdogState \<Rightarrow> blockWatchdogState" where
  "recordBlockStart now height s = s\<lparr>inflightHeight := height, inflightStartedAt := Some now\<rparr>"

definition recordBlockSuccess :: "int \<Rightarrow> nat \<Rightarrow> blockWatchdogState \<Rightarrow> blockWatchdogState" where
  "recordBlockSuccess now height s = s\<lparr>lastSuccessHeight := height, lastSuccessAt := Some now\<rparr>"

definition clearInFlightBlock :: "nat \<Rightarrow> blockWatchdogState \<Rightarrow> blockWatchdogState" where
  "clearInFlightBlock height s =
     (if inflightHeight s = height then s\<lparr>inflightHeight := 0, inflightStartedAt := None\<rparr> else s)"

definition recordBlockFinished :: "int \<Rightarrow> nat \<Rightarrow> nat \<Rightarrow> blockWatchdogState \<Rightarrow> blockWatchdogState" where
  "recordBlockFinished now height processedHeight s =
     (clearInFlightBlock height s)\<lparr>lastSuccessHeight := processedHeight, lastSuccessAt := Some now\<rparr>"

definition nextBlockProcessingDumpDelay :: "daemonConf \<Rightarrow> int" where
  "nextBlockProcessingDumpDelay conf =
     (if blockProcessingDumpDelay conf > 0 then blockProcessingDumpDelay conf else blockProcessingTimeout conf)"

definition blockWatchdogInterval :: "daemonConf \<Rightarrow> int" where
  "blockWatchdogInterval conf =
     (if blockProcessingTimeout conf > 0 \<and> blockProcessingTimeout conf < 60 * 1000000000 then blockProcessingTimeout conf
      else 60 * 1000000000)"

definition blockTimeoutSnapshot ::
    "daemonConf \<Rightarrow> bool \<Rightarrow> int \<Rightarrow> blockWatchdogState \<Rightarrow> blockWatchdogSnapshot option \<times> blockWatchdogState" where
  "blockTimeoutSnapshot conf force now s =
     (case inflightStartedAt s of
        None \<Rightarrow> (None, s)
      | Some started \<Rightarrow>
          if blockProcessingTimeout conf \<le> 0 then (None, s)
          else
            let elapsed = now - started in
            if elapsed < blockProcessingTimeout conf then (None, s)
            else if \<not> force \<and> (case lastDumpAt s of None \<Rightarrow> False | Some t \<Rightarrow> now - t < nextBlockProcessingDumpDelay conf)
            then (None, s)
            else (Some \<lparr>snap_lastSuccessAt = lastSuccessAt s, snap_inflightStartedAt = inflightStartedAt s,
                        snap_lastSuccessHeight = lastSuccessHeight s, snap_targetHeight = targetHeight s,
                        snap_inflightHeight = inflightHeight s, snap_elapsed = elapsed\<rparr>,
                  s\<lparr>lastDumpAt := Some now\<rparr>))"

text \<open>Whether the process exits, and the state when it goes on.\<close>

definition handleBlockProcessingTimeout :: "daemonConf \<Rightarrow> int \<Rightarrow> bool \<Rightarrow> blockWatchdogState \<Rightarrow> bool \<times> blockWatchdogState" where
  "handleBlockProcessingTimeout conf now force s =
     (case blockTimeoutSnapshot conf force now s of
        (None, s') \<Rightarrow> (False, s')
      | (Some _, s') \<Rightarrow> (exitOnBlockProcessingTimeout conf, s'))"

text \<open>A tick of the watchdog.\<close>

definition runBlockProcessingWatchdog :: "daemonConf \<Rightarrow> int \<Rightarrow> blockWatchdogState \<Rightarrow> bool \<times> blockWatchdogState" where
  "runBlockProcessingWatchdog conf now s = handleBlockProcessingTimeout conf now False s"

section \<open>The block worker\<close>

definition rollbackBlockHeight :: "nat \<Rightarrow> nat" where
  "rollbackBlockHeight height = (if height = 0 then 0 else height - 1)"

text \<open>A panic of the block processing is recovered: the block is marked and the head cleaned up. An error is the one
  \<^verbatim>\<open>logrus.Fatal\<close> of the genesis block.\<close>

definition processBlockWithRecover ::
    "node \<Rightarrow> unit db \<Rightarrow> (txid list \<Rightarrow> nat \<Rightarrow> nat \<Rightarrow> unit db) \<Rightarrow> nat \<Rightarrow> nat db" where
  "processBlockWithRecover N genesis sync height w =
     (case RunBlockProcessing N genesis sync height w of
        (Panic p, w') \<Rightarrow>
          bind (attempt (MarkIncompleteBlockHeight height)) (\<lambda>_.
          bind (attempt cleanupIncompleteHead) (\<lambda>_. ret (rollbackBlockHeight height))) w'
      | r \<Rightarrow> r)"

section \<open>Handing over a height\<close>

text \<open>What the two \<^verbatim>\<open>select\<close> statements pick: the channel, the stop signal, or the timer at a time.\<close>

datatype sendEvent = Queued | SendStopped | SendTimedOut int
datatype waitEvent = Answered | WaitStopped | WaitTimedOut int
datatype 'a waiting = Finished 'a | Exited | StillWaiting

definition sendBlockHeight :: "daemonConf \<Rightarrow> sendEvent \<Rightarrow> blockWatchdogState \<Rightarrow> bool waiting \<times> blockWatchdogState" where
  "sendBlockHeight conf ev s =
     (case ev of
        Queued \<Rightarrow> (Finished True, s)
      | SendStopped \<Rightarrow> (Finished False, s)
      | SendTimedOut t \<Rightarrow>
          if blockProcessingTimeout conf \<le> 0 then (StillWaiting, s)
          else (case handleBlockProcessingTimeout conf t True s of
                  (True, s') \<Rightarrow> (Exited, s')
                | (False, s') \<Rightarrow> (Finished False, s')))"

fun waitForBlockProcessed ::
    "daemonConf \<Rightarrow> nat \<Rightarrow> waitEvent list \<Rightarrow> blockWatchdogState \<Rightarrow> (nat \<times> bool) waiting \<times> blockWatchdogState" where
  "waitForBlockProcessed conf processedHeight [] s = (StillWaiting, s)"
| "waitForBlockProcessed conf processedHeight (Answered # _) s = (Finished (processedHeight, True), s)"
| "waitForBlockProcessed conf processedHeight (WaitStopped # _) s = (Finished (0, False), s)"
| "waitForBlockProcessed conf processedHeight (WaitTimedOut t # evs) s =
     (if blockProcessingTimeout conf \<le> 0 then waitForBlockProcessed conf processedHeight evs s
      else (case handleBlockProcessingTimeout conf t True s of
              (True, s') \<Rightarrow> (Exited, s')
            | (False, s') \<Rightarrow> waitForBlockProcessed conf processedHeight evs s'))"

text \<open>\<open>answer\<close> is what the worker sends back for the height.\<close>

definition processBlockHeight ::
    "daemonConf \<Rightarrow> int \<Rightarrow> int \<Rightarrow> sendEvent \<Rightarrow> waitEvent list \<Rightarrow> nat \<Rightarrow> nat \<Rightarrow> blockWatchdogState \<Rightarrow>
     (nat \<times> bool) waiting \<times> blockWatchdogState" where
  "processBlockHeight conf started finished ev evs answer height s =
     (case sendBlockHeight conf ev (recordBlockStart started height s) of
        (Finished True, s1) \<Rightarrow>
          (case waitForBlockProcessed conf answer evs s1 of
             (Finished (p, True), s2) \<Rightarrow> (Finished (p, True), recordBlockFinished finished height p s2)
           | (Finished (p, False), s2) \<Rightarrow> (Finished (p, False), clearInFlightBlock height s2)
           | r \<Rightarrow> r)
      | (Finished False, s1) \<Rightarrow> (Finished (0, False), clearInFlightBlock height s1)
      | (Exited, s1) \<Rightarrow> (Exited, s1)
      | (StillWaiting, s1) \<Rightarrow> (StillWaiting, s1))"

section \<open>Iterations\<close>

text \<open>
  Where the daemon is: between two iterations, asking the node for its height, in the loop, handing over a height, or in an
  iteration that has returned without resetting \<^verbatim>\<open>running\<close>, or gone. \<open>history\<close> records the heights handed over and the heights
  answered.
\<close>

datatype location = Idle | Counting | Looping | Sending nat | Abandoned | Gone

record daemon =
  location :: location
  running :: bool
  jobsInitialized :: bool
  lastHeightProcessed :: nat
  nodeHeight :: nat
  watchdog :: blockWatchdogState
  store :: world
  history :: "(nat \<times> nat) list"

text \<open>The end of a round of the loop.\<close>

definition workToDo :: "daemon \<Rightarrow> bool" where
  "workToDo d \<longleftrightarrow> lastHeightProcessed d < nodeHeight d \<and> lastHeightProcessed d \<noteq> 0"

definition endRound :: "daemon \<Rightarrow> daemon" where
  "endRound d = (if workToDo d then d\<lparr>location := Looping\<rparr> else d\<lparr>location := Idle, running := False, jobsInitialized := True\<rparr>)"

text \<open>\<open>process\<close> is the block worker on the database.\<close>

inductive daemon_step :: "daemonConf \<Rightarrow> (nat \<Rightarrow> nat db) \<Rightarrow> daemon \<Rightarrow> daemon \<Rightarrow> bool" for conf process where
  Tick: "location d = Idle \<Longrightarrow> \<not> running d \<Longrightarrow> daemon_step conf process d (d\<lparr>location := Counting, running := True\<rparr>)"
| CountFailed: "location d = Counting \<Longrightarrow> daemon_step conf process d (d\<lparr>location := Idle, running := False\<rparr>)"
| Count: "location d = Counting \<Longrightarrow>
    daemon_step conf process d
      (d\<lparr>nodeHeight := height, watchdog := recordDaemonTarget now (lastHeightProcessed d) height (watchdog d),
        location := if lastHeightProcessed d = 0 then Sending 0 else Looping\<rparr>)"
| Stop: "location d = Looping \<Longrightarrow> daemon_step conf process d (d\<lparr>location := Abandoned\<rparr>)"
| Next: "location d = Looping \<Longrightarrow> nodeHeight d \<ge> lastHeightProcessed d + 1 \<Longrightarrow>
    daemon_step conf process d (d\<lparr>location := Sending (lastHeightProcessed d + 1)\<rparr>)"
| CaughtUp: "location d = Looping \<Longrightarrow> \<not> nodeHeight d \<ge> lastHeightProcessed d + 1 \<Longrightarrow>
    daemon_step conf process d (endRound d)"
| Processed: "location d = Sending h \<Longrightarrow> process h (store d) = (Ok r, w) \<Longrightarrow>
    processBlockHeight conf t0 t1 ev evs r h (watchdog d) = (Finished (p, True), s) \<Longrightarrow>
    d' = d\<lparr>lastHeightProcessed := p, watchdog := s, store := w, history := history d @ [(h, p)]\<rparr> \<Longrightarrow>
    daemon_step conf process d (if h = 0 then d'\<lparr>location := Looping\<rparr> else endRound d')"
| NotProcessed: "location d = Sending h \<Longrightarrow>
    processBlockHeight conf t0 t1 ev evs r h (watchdog d) = (Finished (p, False), s) \<Longrightarrow>
    w = store d \<or> w = snd (process h (store d)) \<Longrightarrow>
    daemon_step conf process d (d\<lparr>location := Abandoned, watchdog := s, store := w\<rparr>)"
| Exit: "location d = Sending h \<Longrightarrow>
    processBlockHeight conf t0 t1 ev evs r h (watchdog d) = (Exited, s) \<Longrightarrow>
    w = store d \<or> w = snd (process h (store d)) \<Longrightarrow>
    daemon_step conf process d (d\<lparr>location := Gone, watchdog := s, store := w\<rparr>)"
| Fatal: "location d = Sending h \<Longrightarrow> process h (store d) = (Err e, w) \<Longrightarrow>
    daemon_step conf process d (d\<lparr>location := Gone, store := w\<rparr>)"

inductive_cases daemon_stepE: "daemon_step conf process d d'"

text \<open>The start of the daemon: it goes on from the highest stored block unless a reindex is asked for.\<close>

definition startDaemon :: "bool \<Rightarrow> int \<Rightarrow> world \<Rightarrow> daemon" where
  "startDaemon reindex now w =
     (let s = \<lparr>lastSuccessAt = None, inflightStartedAt = None, lastDumpAt = None, lastSuccessHeight = 0, targetHeight = 0, inflightHeight = 0\<rparr>;
          d = \<lparr>location = Idle, running = False, jobsInitialized = False, lastHeightProcessed = 0, nodeHeight = 0, watchdog = s,
               store = w\<lparr>stmts := stmts w + 1\<rparr>, history = []\<rparr>
      in case (if fault w (stmts w) = None then highest (rows (blocks w)) else None) of
           Some lastBlock \<Rightarrow>
             if reindex then d
             else d\<lparr>lastHeightProcessed := b_Height lastBlock, watchdog := recordBlockSuccess now (b_Height lastBlock) s\<rparr>
         | None \<Rightarrow> d)"

definition daemon_reachable :: "daemonConf \<Rightarrow> (nat \<Rightarrow> nat db) \<Rightarrow> daemon \<Rightarrow> daemon \<Rightarrow> bool" where
  "daemon_reachable conf process d0 d \<longleftrightarrow> (daemon_step conf process)\<^sup>*\<^sup>* d0 d"

end
