(* ===== verification/Daemon_Spec.thy ===== *)
theory Daemon_Spec
  imports Daemon Blocks_Spec Transactions_Spec Systems
begin

text \<open>
  What the daemon guarantees and what it does not: no height between its start and the last height it has processed is skipped,
  and a block missing below the next one is never filled in.
\<close>

section \<open>The height goes up by one\<close>

lemma checkHandleReorg_le:
  assumes "checkHandleReorg N height h w = (Ok r, w')"
  shows "r \<le> height"
proof -
  have loop: "reorgLoop N height p d b c u = (Ok r, u') \<Longrightarrow> p \<le> height \<Longrightarrow> r \<le> height" for p d b c u u'
  proof (induction "100 - d" arbitrary: p d b c u u')
    case 0
    then show ?case by (subst (asm) reorgLoop.simps) (auto split: if_splits)
  next
    case (Suc n)
    have step: "r \<le> height" if "reorgLoop N height (p - 1) (d + 1) x y v = (Ok r, v')" for x y v v'
      by (rule Suc.hyps(1) [of "d + 1", OF _ that]) (use Suc.hyps(2) Suc.prems(2) in simp_all)
    show ?case using Suc.prems
      by (subst (asm) reorgLoop.simps) (auto simp: bind_Ok_iff split_sum_ex split: if_split_asm intro: step)
  qed
  show ?thesis
    using assms loop by (auto simp: checkHandleReorg_def bind_Ok_iff split_sum_ex split: if_splits)
qed

lemma RunBlockProcessing_le:
  assumes "RunBlockProcessing N genesis sync height w = (Ok r, w')"
  shows "r \<le> height"
  using assms checkHandleReorg_le
  by (fastforce simp: RunBlockProcessing_def bind_Ok_iff split_sum_ex attempt_Ok_iff split: if_splits option.splits prod.splits)

lemma processBlockWithRecover_le:
  assumes "processBlockWithRecover N genesis sync height w = (Ok r, w')"
  shows "r \<le> height"
  using assms RunBlockProcessing_le
  by (auto simp: processBlockWithRecover_def bind_Ok_iff rollbackBlockHeight_def split: prod.splits outcome.splits if_splits)

section \<open>No height is skipped\<close>

text \<open>The heights above \<open>base\<close> up to \<open>top\<close> have been answered as processed, and nothing was answered below them since.\<close>

definition covered :: "nat \<Rightarrow> nat \<Rightarrow> (nat \<times> nat) list \<Rightarrow> bool" where
  "covered base final hist \<longleftrightarrow> (\<forall>k. base < k \<and> k \<le> final \<longrightarrow>
     (\<exists>i<length hist. hist ! i = (k, k) \<and> (\<forall>j. i < j \<and> j < length hist \<longrightarrow> k \<le> snd (hist ! j))))"

lemma covered_snoc:
  assumes "covered base final hist" and "h = final + 1 \<or> h = 0" and "r \<le> h"
  shows "covered base r (hist @ [(h, r)])"
  unfolding covered_def
proof (intro allI impI)
  fix k assume k: "base < k \<and> k \<le> r"
  let ?hist = "hist @ [(h, r)]"
  show "\<exists>i<length ?hist. ?hist ! i = (k, k) \<and> (\<forall>j. i < j \<and> j < length ?hist \<longrightarrow> k \<le> snd (?hist ! j))"
  proof (cases "k \<le> final")
    case True
    then obtain i where i: "i < length hist" "hist ! i = (k, k)" "\<forall>j. i < j \<and> j < length hist \<longrightarrow> k \<le> snd (hist ! j)"
      using assms(1) k by (auto simp: covered_def)
    then show ?thesis using k by (intro exI [of _ i]) (auto simp: nth_append less_Suc_eq)
  next
    case False
    then have "h = k" "r = k" using k assms(2,3) by auto
    then show ?thesis by (intro exI [of _ "length hist"]) auto
  qed
qed

definition daemon_inv :: "nat \<Rightarrow> daemon \<Rightarrow> bool" where
  "daemon_inv base d \<longleftrightarrow> covered base (lastHeightProcessed d) (history d) \<and>
     (\<forall>h. location d = Sending h \<longrightarrow> h = lastHeightProcessed d + 1 \<or> h = 0)"

lemma endRound_sel [simp]:
  "lastHeightProcessed (endRound d) = lastHeightProcessed d" "history (endRound d) = history d" "location (endRound d) \<noteq> Sending h"
  by (simp_all add: endRound_def)

lemma processBlockHeight_answer:
  assumes "processBlockHeight conf t0 t1 ev evs r h s = (Finished (p, True), s')"
  shows "p = r"
proof -
  have "waitForBlockProcessed conf r evs u = (Finished (p, True), u') \<Longrightarrow> p = r" for evs u u'
    by (induction conf r evs u rule: waitForBlockProcessed.induct) (auto split: if_splits prod.splits bool.splits)
  then show ?thesis using assms
    by (auto simp: processBlockHeight_def split: prod.splits waiting.splits bool.splits)
qed

lemma daemon_inv_step:
  assumes "daemon_inv base d" and "daemon_step conf (processBlockWithRecover N genesis sync) d d'"
  shows "daemon_inv base d'"
  using assms(2)
proof (cases rule: daemon_step.cases)
  case (Processed h r w t0 t1 ev evs p s d1)
  have "p \<le> h" using processBlockHeight_answer [OF Processed(4)] processBlockWithRecover_le [OF Processed(3)] by simp
  then have "covered base p (history d @ [(h, p)])"
    using covered_snoc assms(1) Processed(2) by (auto simp: daemon_inv_def)
  then show ?thesis using Processed by (auto simp: daemon_inv_def)
qed (use assms(1) in \<open>auto simp: daemon_inv_def\<close>)

interpretation daemon: step_system "daemon_step conf (processBlockWithRecover N genesis sync)" "startDaemon reindex now w"
  "daemon_inv (lastHeightProcessed (startDaemon reindex now w))"
proof
  show "daemon_inv (lastHeightProcessed (startDaemon reindex now w)) (startDaemon reindex now w)"
    by (auto simp: daemon_inv_def covered_def startDaemon_def Let_def split: option.split)
qed (rule daemon_inv_step)

text \<open>C15: The daemon skips no height: every height above the one it started from and up to the last one it has processed was handed
  to the block worker and answered as processed, and since then no lower height was answered, whatever the worker
  does, however the node's height moves, and through reorganisations, failures, recovered panics, timeouts and stop signals.\<close>

theorem daemon_skips_no_height:
  assumes "daemon_reachable conf (processBlockWithRecover N genesis sync) (startDaemon reindex now w) d"
    and "lastHeightProcessed (startDaemon reindex now w) < k" and "k \<le> lastHeightProcessed d"
  shows "\<exists>i<length (history d). history d ! i = (k, k) \<and> (\<forall>j. i < j \<and> j < length (history d) \<longrightarrow> k \<le> snd (history d ! j))"
  using daemon.reachable_inv [OF assms(1) [unfolded daemon_reachable_def]] assms(2,3)
  by (auto simp: daemon_inv_def covered_def)

section \<open>A missing block below the next height\<close>

definition lacks :: "nat \<Rightarrow> world \<Rightarrow> bool" where
  "lacks h w \<longleftrightarrow> (\<forall>b\<in>set (rows (blocks w)). b_Height b \<noteq> h)"

lemma getBlockToProcess_blocks: "getBlockToProcess N h w = (r, w') \<Longrightarrow> blocks w' = blocks w \<and> (\<forall>p. r \<noteq> Panic p)"
  by (auto simp: getBlockToProcess_def bind_def prefix_def rpc_def split: sum.splits outcome.splits prod.splits)

lemma blockAtHeight_lacks:
  assumes "lacks h w" and "blockAtHeight h w = (r, w')"
  shows "blocks w' = blocks w \<and> (\<exists>e. r = Err e)"
proof -
  have "first_row (\<lambda>b. b_Height b = h) (blocks w) = None"
    using assms(1) by (auto simp: lacks_def first_row_def find_None_iff)
  then show ?thesis using assms(2)
    by (auto simp: blockAtHeight_def bind_def oneG_def stmt_def Let_def split: option.splits)
qed

lemma RunBlockProcessing_lacks:
  assumes "lacks h w"
  obtains w' where "RunBlockProcessing N genesis sync (h + 1) w = (Ok h, w')" and "blocks w' = blocks w"
proof -
  obtain r w1 where g: "getBlockToProcess N (h + 1) w = (r, w1)" by fastforce
  note g' = getBlockToProcess_blocks [OF g]
  have l1: "lacks h w1" using assms g' by (simp add: lacks_def)
  obtain r2 w2 where b: "blockAtHeight h w1 = (r2, w2)" by fastforce
  obtain e where e: "r2 = Err e" "blocks w2 = blocks w1" using blockAtHeight_lacks [OF l1 b] by blast
  show thesis
  proof (cases r)
    case (Ok jb)
    have "checkHandleReorg N (h + 1) (bl_PreviousBlockHash jb) w1 = (Ok h, w2) \<or>
        (\<exists>e. checkHandleReorg N (h + 1) (bl_PreviousBlockHash jb) w1 = (Err e, w2))"
      using b e by (simp add: checkHandleReorg_def bind_def attempt_def)
    then have "RunBlockProcessing N genesis sync (h + 1) w = (Ok h, w2)"
      using g Ok by (auto simp: RunBlockProcessing_def bind_def attempt_def)
    then show thesis using that g' e by simp
  next
    case (Err e)
    then have "RunBlockProcessing N genesis sync (h + 1) w = (Ok h, w1)"
      using g by (simp add: RunBlockProcessing_def bind_def attempt_def)
    then show thesis using that g' by simp
  qed (use g' in blast)
qed

definition stuck :: "nat \<Rightarrow> Block list \<Rightarrow> daemon \<Rightarrow> bool" where
  "stuck h bs d \<longleftrightarrow> lastHeightProcessed d = h \<and> rows (blocks (store d)) = bs \<and> (\<forall>x. location d = Sending x \<longrightarrow> x = h + 1)"

lemma stuck_step:
  assumes "stuck h bs d" and "0 < h" and "\<forall>b\<in>set bs. b_Height b \<noteq> h"
    and "daemon_step conf (processBlockWithRecover N genesis sync) d d'"
  shows "stuck h bs d'"
proof -
  have work: "\<exists>w. processBlockWithRecover N genesis sync (h + 1) (store d) = (Ok h, w) \<and> blocks w = blocks (store d)"
  proof -
    have "lacks h (store d)" using assms(1,3) by (auto simp: lacks_def stuck_def)
    from RunBlockProcessing_lacks [OF this, of N genesis sync] show ?thesis
      by (metis (no_types, lifting) processBlockWithRecover_def old.prod.case outcome.case(1))
  qed
  from assms(4) show ?thesis
  proof (cases rule: daemon_step.cases)
    case (Processed x r w t0 t1 ev evs p s d1)
    have "x = h + 1" using assms(1) Processed(2) by (simp add: stuck_def)
    then have "p = h" "blocks w = blocks (store d)"
      using processBlockHeight_answer [OF Processed(4)] Processed(3) work by auto
    then show ?thesis using assms(1,2) Processed by (auto simp: stuck_def endRound_def)
  next
    case (NotProcessed x t0 t1 ev evs r p s w)
    then show ?thesis using assms(1) work by (auto simp: stuck_def)
  next
    case (Exit x t0 t1 ev evs r s w)
    then show ?thesis using assms(1) work by (auto simp: stuck_def)
  next
    case (Fatal x e w)
    then show ?thesis using assms(1) work by (auto simp: stuck_def)
  qed (use assms(1,2) in \<open>auto simp: stuck_def endRound_def\<close>)
qed

text \<open>C16: When the block at the last height processed is missing from the database, the daemon never fills it in: although the code says
  that it steps back to fill the gap, the height it steps back to is taken for processed, so the next height is tried
  again for ever. No answer of the node, no error and no panic leads the daemon out of this; the rows of
  the blocks stay as they are.\<close>

theorem missing_block_never_filled:
  assumes "daemon_reachable conf (processBlockWithRecover N genesis sync) d d'"
    and "0 < lastHeightProcessed d" and "\<forall>x. location d \<noteq> Sending x"
    and "\<forall>b\<in>set (rows (blocks (store d))). b_Height b \<noteq> lastHeightProcessed d"
  shows "lastHeightProcessed d' = lastHeightProcessed d \<and> rows (blocks (store d')) = rows (blocks (store d))"
proof -
  have "stuck (lastHeightProcessed d) (rows (blocks (store d))) d'"
    using assms(1) unfolding daemon_reachable_def
    by (induction rule: rtranclp_induct) (use assms(2-4) stuck_step in \<open>auto simp: stuck_def [of _ _ d]\<close>)
  then show ?thesis by (simp add: stuck_def)
qed

section \<open>Concrete iterations\<close>

text \<open>The first height of the first iteration, handed over and answered at once.\<close>

lemma first_height:
  assumes "lastHeightProcessed (startDaemon reindex now w) = l" and "0 < l" and "l < H"
    and "store (startDaemon reindex now w) = w0" and "process (l + 1) w0 = (Ok r, w')"
  obtains d where "daemon_reachable conf process (startDaemon reindex now w) d" and "history d = [(l + 1, r)]"
    and "lastHeightProcessed d = r" and "store d = w'" and "\<forall>x. location d \<noteq> Sending x"
proof -
  let ?d0 = "startDaemon reindex now w"
  let ?d1 = "?d0\<lparr>location := Counting, running := True\<rparr>"
  let ?d2 = "?d1\<lparr>nodeHeight := H, watchdog := recordDaemonTarget 0 l H (watchdog ?d0), location := Looping\<rparr>"
  let ?d3 = "?d2\<lparr>location := Sending (l + 1)\<rparr>"
  let ?s = "recordBlockFinished 2 (l + 1) r (recordBlockStart 1 (l + 1) (watchdog ?d2))"
  let ?d4 = "?d3\<lparr>lastHeightProcessed := r, watchdog := ?s, store := w', history := history ?d3 @ [(l + 1, r)]\<rparr>"
  have start: "location ?d0 = Idle" "running ?d0 = False" "history ?d0 = []"
    by (simp_all add: startDaemon_def Let_def split: option.split)
  have 1: "daemon_step conf process ?d0 ?d1" using start by (intro daemon_step.Tick) simp_all
  have 2: "daemon_step conf process ?d1 ?d2"
    using daemon_step.Count [where d = ?d1 and conf = conf and process = process and height = H and now = 0] assms(1,2) by simp
  have 3: "daemon_step conf process ?d2 ?d3"
    using daemon_step.Next [of ?d2 conf process] assms(1,3) by simp
  have 4: "daemon_step conf process ?d3 (endRound ?d4)"
    using daemon_step.Processed [of ?d3 "l + 1" process r w' conf 1 2 Queued "[Answered]" r ?s ?d4] assms(4,5)
    by (simp add: processBlockHeight_def sendBlockHeight_def)
  have "daemon_reachable conf process ?d0 (endRound ?d4)"
    using 1 2 3 4 unfolding daemon_reachable_def by (meson converse_rtranclp_into_rtranclp r_into_rtranclp)
  moreover have "store (endRound ?d4) = w'" by (simp add: endRound_def)
  ultimately show thesis using that [of "endRound ?d4"] start(3) by simp
qed

definition demo_daemon_conf :: daemonConf where
  "demo_daemon_conf = ApplySettings \<lparr>set_DaemonMode = 0, set_ProcessingDelay = 0, set_DaemonDelay = 1,
     set_BlockProcessingTimeout = 10, set_BlockProcessingDumpInterval = 10, set_ExitOnBlockProcessingTimeout = False\<rparr>"

definition demo_chain_node :: "string \<Rightarrow> bool \<Rightarrow> node" where
  "demo_chain_node prev alive = \<lparr>getBlockHash = (\<lambda>_ h. Inr (if h = 2 then ''n2'' else ''n3'')),
     getBlock = (\<lambda>_ hash. if hash = ''n3'' then Inr (Blocks_Spec.demo_json ''n3'' prev)
       else if alive then Inr (Blocks_Spec.demo_json ''n2'' ''h1'') else Inl EOF),
     getRawTransaction = (\<lambda>_ _. Inl EOF)\<rparr>"

definition demo_process :: "string \<Rightarrow> bool \<Rightarrow> nat \<Rightarrow> nat db" where
  "demo_process prev alive = processBlockWithRecover (demo_chain_node prev alive) (ret ()) (\<lambda>_ _ _. ret ())"

lemma demo_forked_start:
  "lastHeightProcessed (startDaemon False 0 forked) = 2" "store (startDaemon False 0 forked) = forked\<lparr>stmts := 1\<rparr>"
  by code_simp (simp add: startDaemon_def forked_def demo_world_def Let_def split: option.split)

theorem daemon_skips_no_height_witness:
  "\<exists>d. daemon_reachable demo_daemon_conf (demo_process ''x2'' True) (startDaemon False 0 forked) d \<and> (3, 3) \<in> set (history d)"
proof -
  have "fst (demo_process ''x2'' True (2 + 1) (forked\<lparr>stmts := 1\<rparr>)) = Ok 3" by code_simp
  then obtain w' where p: "demo_process ''x2'' True (2 + 1) (forked\<lparr>stmts := 1\<rparr>) = (Ok 3, w')" by (metis prod.collapse)
  obtain d where d: "daemon_reachable demo_daemon_conf (demo_process ''x2'' True) (startDaemon False 0 forked) d"
    "lastHeightProcessed d = 3"
    by (rule first_height [where process = "demo_process ''x2'' True" and H = 3 and conf = demo_daemon_conf, OF demo_forked_start(1) _ _ demo_forked_start(2) p]) simp_all
  show ?thesis
    using daemon_skips_no_height [OF d(1) [unfolded demo_process_def], of 3] d demo_forked_start(1)
    by (auto simp: in_set_conv_nth)
qed

text \<open>The node stops answering after the fork block was removed: the daemon stays at a height whose block is gone.\<close>

theorem missing_block_never_filled_witness:
  "\<exists>d. daemon_reachable demo_daemon_conf (demo_process ''n2'' False) (startDaemon False 0 forked) d \<and> history d = [(3, 2)] \<and>
     lastHeightProcessed ` {d'. daemon_reachable demo_daemon_conf (demo_process ''n2'' True) d d'} = {2}"
proof -
  let ?r = "demo_process ''n2'' False (2 + 1) (forked\<lparr>stmts := 1\<rparr>)"
  have "fst ?r = Ok 2" "map b_Height (rows (blocks (snd ?r))) = [1]" by code_simp+
  then obtain w' where p: "?r = (Ok 2, w')" and gap: "map b_Height (rows (blocks w')) = [1]" by (metis prod.collapse)
  obtain d where d: "daemon_reachable demo_daemon_conf (demo_process ''n2'' False) (startDaemon False 0 forked) d"
    "history d = [(2 + 1, 2)]" "lastHeightProcessed d = 2" "store d = w'" "\<forall>x. location d \<noteq> Sending x"
    by (rule first_height [where process = "demo_process ''n2'' False" and H = 3 and conf = demo_daemon_conf, OF demo_forked_start(1) _ _ demo_forked_start(2) p]) simp_all
  have "b_Height b = 1" if "b \<in> set (rows (blocks w'))" for b
    using arg_cong [OF gap, of set] that by auto
  then have "lastHeightProcessed d' = 2" if "daemon_reachable demo_daemon_conf (demo_process ''n2'' True) d d'" for d'
    using missing_block_never_filled [OF that [unfolded demo_process_def]] d by force
  moreover have "daemon_reachable demo_daemon_conf (demo_process ''n2'' True) d d" by (simp add: daemon_reachable_def)
  ultimately have "lastHeightProcessed ` {d'. daemon_reachable demo_daemon_conf (demo_process ''n2'' True) d d'} = {2}" by force
  then show ?thesis using d by auto
qed

end
