(* ===== verification/ValueSync.thy ===== *)
theory ValueSync
  imports Blocks Effects
begin

text \<open>
  \<^verbatim>\<open>daemon/jobs/valuesync.go\<close>: the jobs that recompute columns the triggers of the database should have kept: balances of addresses,
  values of transactions and the number of claims in a channel. How the database sums amounts is a parameter.
\<close>

record sums =
  balanceOf :: "TransactionAddress list \<Rightarrow> f64"
  creditOf :: "TransactionAddress list \<Rightarrow> f64"

section \<open>Balances of addresses\<close>

definition syncAddressBalanceSet :: "sums \<Rightarrow> nat \<Rightarrow> nat \<Rightarrow> nat db" where
  "syncAddressBalanceSet S from batchSize = prefix ''SyncAddressBalances: ''
     (stmt (\<lambda>w. let f = (\<lambda>a. if a_ID a > from \<and> a_ID a < from + batchSize
                     then (let b = balanceOf S (filter (\<lambda>ta. ta_AddressID ta = a_ID a) (txAddresses w))
                           in if a_Balance a = b then a else a\<lparr>a_Balance := b, a_ModifiedAt := clock w\<rparr>) else a)
                 in (Ok (length (filter (\<lambda>a. f a \<noteq> a) (rows (addresses w)))), w\<lparr>addresses := t_map f (addresses w)\<rparr>)))"

text \<open>The loop is given fuel; without any left it has not ended.\<close>

fun addressLoop :: "sums \<Rightarrow> nat \<Rightarrow> nat \<Rightarrow> nat \<Rightarrow> nat option db" where
  "addressLoop S 0 lastAddressID addressesAdjusted = ret None"
| "addressLoop S (Suc fuel) lastAddressID addressesAdjusted =
     (if lastAddressID < addressesAdjusted
      then bind (syncAddressBalanceSet S lastAddressID 10000) (\<lambda>adjusted.
             addressLoop S fuel (lastAddressID + 10000) (addressesAdjusted + adjusted))
      else ret (Some addressesAdjusted))"

fun lastAddress :: "Address list \<Rightarrow> Address option" where
  "lastAddress [] = None"
| "lastAddress (a # as) = (case lastAddress as of None \<Rightarrow> Some a | Some b \<Rightarrow> if a_ID a \<ge> a_ID b then Some a else Some b)"

definition SyncAddressBalances :: "sums \<Rightarrow> nat \<Rightarrow> nat option db" where
  "SyncAddressBalances S fuel =
     bind (oneG (\<lambda>w. lastAddress (rows (addresses w)))) (\<lambda>latestAddress. addressLoop S fuel (a_ID latestAddress) 0)"

section \<open>Values of transactions\<close>

text \<open>The transactions of the blocks between two heights.\<close>

definition tx_between :: "nat \<Rightarrow> nat \<Rightarrow> world \<Rightarrow> Transaction \<Rightarrow> bool" where
  "tx_between from to w t \<longleftrightarrow>
     (\<exists>b\<in>set (rows (blocks w)). t_BlockHashID t = Some (b_Hash b) \<and> from \<le> b_Height b \<and> b_Height b \<le> to)"

definition Transactions_setValue :: "sums \<Rightarrow> nat \<Rightarrow> nat \<Rightarrow> nat db" where
  "Transactions_setValue S from to =
     stmt (\<lambda>w. let f = (\<lambda>t. if tx_between from to w t
                     then (let v = creditOf S (filter (\<lambda>ta. ta_TransactionID ta = t_ID t) (txAddresses w))
                           in if t_Value t = v then t else t\<lparr>t_Value := v, t_ModifiedAt := clock w\<rparr>) else t)
                in (Ok (length (filter (\<lambda>t. f t \<noteq> t) (rows (transactions w)))), w\<lparr>transactions := t_map f (transactions w)\<rparr>))"

fun valueLoop :: "sums \<Rightarrow> nat \<Rightarrow> nat \<Rightarrow> nat list \<Rightarrow> nat \<Rightarrow> nat db" where
  "valueLoop S latestHeight updateIncrement [] affected = ret affected"
| "valueLoop S latestHeight updateIncrement (i # is) affected =
     (let from = i * updateIncrement;
          to = (if (i + 1) * updateIncrement > latestHeight then latestHeight else (i + 1) * updateIncrement)
      in bind (prefix ''SyncTransactionValues: '' (Transactions_setValue S from to)) (\<lambda>n.
           valueLoop S latestHeight updateIncrement is (affected + n)))"

definition SyncTransactionValue :: "sums \<Rightarrow> nat db" where
  "SyncTransactionValue S =
     bind (prefix ''SyncTransactionValues: '' (oneG (\<lambda>w. highest (rows (blocks w))))) (\<lambda>latestBlock.
       let latestHeight = b_Height latestBlock in
       if latestHeight = 0 then fail (Prefixed ''SyncTransactionValues: '' (Msg ''latest height = 0''))
       else
         let updateIncrement = (if 5000 \<ge> latestHeight then latestHeight else 5000)
         in valueLoop S latestHeight updateIncrement [0..<latestHeight div updateIncrement] 0)"

section \<open>Claims in channels\<close>

definition published_in :: "string \<Rightarrow> Claim list \<Rightarrow> nat" where
  "published_in channel cs = length (filter (\<lambda>c. c_PublisherID c = Some channel) cs)"

definition Claim_UpdateCountG :: "nat \<Rightarrow> int \<Rightarrow> unit db" where
  "Claim_UpdateCountG k n =
     stmt (\<lambda>w. (Ok (), w\<lparr>claims := t_map (\<lambda>x. if c_ID x = k then x\<lparr>c_ClaimCount := n, c_ModifiedAt := clock w\<rparr> else x) (claims w)\<rparr>))"

definition syncChannel :: "Claim \<Rightarrow> unit db" where
  "syncChannel channel =
     bind (query (\<lambda>w. published_in (c_ClaimID channel) (rows (claims w)))) (\<lambda>cnt.
       if c_ClaimCount channel = int cnt then ret () else Claim_UpdateCountG (c_ID channel) (int cnt))"

definition channel_between :: "nat \<Rightarrow> nat \<Rightarrow> Claim \<Rightarrow> bool" where
  "channel_between from to c \<longleftrightarrow> from \<le> c_Height c \<and> c_Height c \<le> to \<and> c_ClaimType c = 2"

definition channelBatch :: "nat \<Rightarrow> nat \<Rightarrow> unit db" where
  "channelBatch latestHeight from =
     (let to = (if from + 5000 > latestHeight then latestHeight else from + 5000)
      in bind (query (\<lambda>w. filter (channel_between from to) (rows (claims w)))) (\<lambda>cs. forM cs syncChannel))"

function channelLoop :: "nat \<Rightarrow> nat \<Rightarrow> unit db" where
  "channelLoop latestHeight i =
     (if i < latestHeight then bind (channelBatch latestHeight i) (\<lambda>_. channelLoop latestHeight (i + 5000)) else ret ())"
  by pat_completeness auto
termination by (relation "measure (\<lambda>(latestHeight, i). latestHeight - i)") auto

declare channelLoop.simps [simp del]

definition SyncClaimCntInChannel :: "unit db" where
  "SyncClaimCntInChannel = prefix ''SyncClaimsInChannel: ''
     (bind (oneG (\<lambda>w. highest (rows (blocks w)))) (\<lambda>latestBlock.
        if b_Height latestBlock = 0 then fail (Msg ''latest height = 0'') else channelLoop (b_Height latestBlock) 0))"

end
