(* ===== verification/ValueSync_Spec.thy ===== *)
theory ValueSync_Spec
  imports ValueSync ClaimTrie_Spec
begin

text \<open>Which rows the value jobs bring up to date, and which they leave.\<close>

section \<open>Claims in channels\<close>

definition counted :: "Claim list \<Rightarrow> Claim \<Rightarrow> bool" where
  "counted cs c \<longleftrightarrow> c_ClaimCount c = int (published_in (c_ClaimID c) cs)"

text \<open>The row of a channel after a run.\<close>

definition recount :: "Claim list \<Rightarrow> time \<Rightarrow> Claim \<Rightarrow> Claim" where
  "recount cs now c = (if counted cs c then c else c\<lparr>c_ClaimCount := int (published_in (c_ClaimID c) cs), c_ModifiedAt := now\<rparr>)"

lemma recount_sel [simp]:
  "c_ID (recount cs now c) = c_ID c" "c_ClaimID (recount cs now c) = c_ClaimID c" "c_PublisherID (recount cs now c) = c_PublisherID c"
  "c_Height (recount cs now c) = c_Height c" "c_ClaimType (recount cs now c) = c_ClaimType c"
  "claim_clash (recount cs now c) d = claim_clash c d" "claim_clash d (recount cs now c) = claim_clash d c"
  "channel_between i j (recount cs now c) = channel_between i j c" "recount cs now (recount cs now c) = recount cs now c"
  by (simp_all add: recount_def claim_clash_def channel_between_def counted_def)

lemma published_in_map: "(\<And>x. c_PublisherID (f x) = c_PublisherID x) \<Longrightarrow> published_in ch (map f cs) = published_in ch cs"
  by (simp add: published_in_def filter_map comp_def)

text \<open>The rows after the channels of a set of ids were recounted.\<close>

definition recounted :: "nat set \<Rightarrow> time \<Rightarrow> Claim table \<Rightarrow> Claim table" where
  "recounted ids now t = t_map (\<lambda>x. if c_ID x \<in> ids then recount (rows t) now x else x) t"

lemma recounted_props:
  "published_in ch (rows (recounted ids now t)) = published_in ch (rows t)"
  "recounted ids now (recounted ids' now t) = recounted (ids \<union> ids') now t" "recounted {} now t = t"
  "claimT.wf_table t \<Longrightarrow> claimT.wf_table (recounted ids now t)"
proof -
  show p: "published_in ch (rows (recounted ids now t)) = published_in ch (rows t)" for ids t ch
    by (simp add: recounted_def t_map_def published_in_map)
  have "recount (rows (recounted ids' now t)) now x = recount (rows t) now x" for x
    by (simp add: recount_def counted_def p)
  then show "recounted ids now (recounted ids' now t) = recounted (ids \<union> ids') now t"
    by (simp add: recounted_def [of ids] recounted_def [of "ids \<union> ids'"]) (simp add: recounted_def t_map_def)
  show "recounted {} now t = t" by (simp add: recounted_def t_map_def)
  show "claimT.wf_table (recounted ids now t)" if "claimT.wf_table t"
    unfolding recounted_def by (rule wf_t_map [OF that]) simp_all
qed

lemma syncChannel_run:
  assumes nf: "no_faults w" and wf: "claimT.wf_table (claims w)" and c: "c \<in> set (rows (claims w))"
  shows "\<exists>n. syncChannel c w = (Ok (), w\<lparr>stmts := n, claims := recounted {c_ID c} (clock w) (claims w)\<rparr>)"
proof -
  have f: "fault w n = None" for n using nf by (simp add: no_faults_def)
  have uniq: "x = c" if "x \<in> set (rows (claims w))" "c_ID x = c_ID c" for x
    using wf that c by (auto simp: claimT.wf_table_def distinct_map dest: inj_onD)
  let ?n = "published_in (c_ClaimID c) (rows (claims w))"
  have row: "(if c_ID x \<in> {c_ID c} then recount (rows (claims w)) (clock w) x else x) =
      (if c_ClaimCount c = int ?n then x else if c_ID x = c_ID c then x\<lparr>c_ClaimCount := int ?n, c_ModifiedAt := clock w\<rparr> else x)"
    if "x \<in> set (rows (claims w))" for x
    using uniq [OF that] by (cases "c_ID x = c_ID c") (auto simp: recount_def counted_def)
  show ?thesis
  proof (cases "c_ClaimCount c = int ?n")
    case True
    then have "recounted {c_ID c} (clock w) (claims w) = claims w" using row by (simp add: recounted_def t_map_def map_idI)
    then show ?thesis using True by (intro exI [of _ "stmts w + 1"]) (simp add: syncChannel_def bind_def query_def stmt_def f)
  next
    case False
    then have "recounted {c_ID c} (clock w) (claims w) =
        t_map (\<lambda>x. if c_ID x = c_ID c then x\<lparr>c_ClaimCount := int ?n, c_ModifiedAt := clock w\<rparr> else x) (claims w)"
      using row by (simp add: recounted_def t_map_def)
    then show ?thesis using False
      by (intro exI [of _ "stmts w + 2"]) (simp add: syncChannel_def bind_def query_def stmt_def f Claim_UpdateCountG_def cong: if_cong)
  qed
qed

lemma channels_run:
  assumes "no_faults w" and "claimT.wf_table (claims w)" and "set cs \<subseteq> set (rows (claims w))" and "distinct (map c_ID cs)"
  shows "\<exists>n. forM cs syncChannel w = (Ok (), w\<lparr>stmts := n, claims := recounted (c_ID ` set cs) (clock w) (claims w)\<rparr>)"
  using assms
proof (induction cs arbitrary: w)
  case Nil
  show ?case by (intro exI [of _ "stmts w"]) (simp add: recounted_props(3))
next
  case (Cons c cs)
  obtain n where n: "syncChannel c w = (Ok (), w\<lparr>stmts := n, claims := recounted {c_ID c} (clock w) (claims w)\<rparr>)"
    using syncChannel_run [of w c] Cons.prems by auto
  let ?w = "w\<lparr>stmts := n, claims := recounted {c_ID c} (clock w) (claims w)\<rparr>"
  have "x \<in> set (rows (claims ?w))" if "x \<in> set cs" for x
  proof -
    have "c_ID x \<noteq> c_ID c" using imageI [OF that, of c_ID] Cons.prems(4) by auto
    moreover have "x \<in> set (rows (claims w))" using that Cons.prems(3) by auto
    ultimately show ?thesis by (force simp: recounted_def t_map_def)
  qed
  moreover have "no_faults ?w" using Cons.prems(1) by (simp add: no_faults_def)
  ultimately obtain m where "forM cs syncChannel ?w = (Ok (), ?w\<lparr>stmts := m, claims := recounted (c_ID ` set cs) (clock ?w) (claims ?w)\<rparr>)"
    using Cons.IH [of ?w] Cons.prems recounted_props(4) by auto
  then show ?case using n by (intro exI [of _ m]) (simp add: bind_def recounted_props(2) Un_commute)
qed

definition channel_ids :: "nat \<Rightarrow> nat \<Rightarrow> Claim table \<Rightarrow> nat set" where
  "channel_ids from to t = c_ID ` set (filter (channel_between from to) (rows t))"

lemma channel_ids_recounted [simp]: "channel_ids i j (recounted ids now t) = channel_ids i j t"
proof -
  let ?f = "\<lambda>x. if c_ID x \<in> ids then recount (rows t) now x else x"
  have "channel_between i j \<circ> ?f = channel_between i j" "c_ID \<circ> ?f = c_ID" by (auto simp: fun_eq_iff)
  moreover have "rows (recounted ids now t) = map ?f (rows t)" by (simp add: recounted_def t_map_def)
  ultimately show ?thesis by (simp only: channel_ids_def filter_map set_map image_comp)
qed

lemma channelBatch_run:
  assumes "no_faults w" and "claimT.wf_table (claims w)"
  shows "\<exists>n. channelBatch H i w = (Ok (), w\<lparr>stmts := n, claims := recounted (channel_ids i (min H (i + 5000)) (claims w)) (clock w) (claims w)\<rparr>)"
proof -
  let ?to = "if i + 5000 > H then H else i + 5000" and ?w = "w\<lparr>stmts := stmts w + 1\<rparr>"
  let ?cs = "filter (channel_between i ?to) (rows (claims w))"
  have "distinct (map c_ID ?cs)" using assms(2) by (simp add: claimT.wf_table_def distinct_map_filter)
  then obtain n where "forM ?cs syncChannel ?w = (Ok (), ?w\<lparr>stmts := n, claims := recounted (c_ID ` set ?cs) (clock ?w) (claims ?w)\<rparr>)"
    using channels_run [of ?w ?cs] assms by auto
  moreover have "?to = min H (i + 5000)" by simp
  moreover have "query (\<lambda>w. filter (channel_between i ?to) (rows (claims w))) w = (Ok ?cs, ?w)"
    using assms(1) by (simp add: query_def stmt_def no_faults_def)
  ultimately show ?thesis
    by (intro exI [of _ n]) (simp add: channelBatch_def bind_def channel_ids_def Let_def)
qed

lemma channelLoop_run:
  assumes "no_faults w" and "claimT.wf_table (claims w)" and "i < H"
  shows "\<exists>n. channelLoop H i w = (Ok (), w\<lparr>stmts := n, claims := recounted (channel_ids i H (claims w)) (clock w) (claims w)\<rparr>)"
  using assms
proof (induction H i arbitrary: w rule: channelLoop.induct)
  case (1 H i)
  obtain n where n: "channelBatch H i w = (Ok (), w\<lparr>stmts := n, claims := recounted (channel_ids i (min H (i + 5000)) (claims w)) (clock w) (claims w)\<rparr>)"
    using channelBatch_run "1.prems" by blast
  let ?w = "w\<lparr>stmts := n, claims := recounted (channel_ids i (min H (i + 5000)) (claims w)) (clock w) (claims w)\<rparr>"
  show ?case
  proof (cases "i + 5000 < H")
    case True
    have "no_faults ?w" "claimT.wf_table (claims ?w)" using "1.prems" recounted_props(4) by (auto simp: no_faults_def)
    then obtain m where m: "channelLoop H (i + 5000) ?w = (Ok (), ?w\<lparr>stmts := m, claims := recounted (channel_ids (i + 5000) H (claims ?w)) (clock ?w) (claims ?w)\<rparr>)"
      using "1.IH" [OF "1.prems"(3) _ _ True, of ?w] by blast
    have "channel_ids (i + 5000) H (claims w) \<union> channel_ids i (i + 5000) (claims w) = channel_ids i H (claims w)"
    proof -
      have "set (filter (channel_between (i + 5000) H) (rows (claims w))) \<union> set (filter (channel_between i (i + 5000)) (rows (claims w))) =
          set (filter (channel_between i H) (rows (claims w)))"
        using True by (auto simp: channel_between_def)
      then show ?thesis by (simp only: channel_ids_def image_Un [symmetric])
    qed
    then show ?thesis using n m True "1.prems"(3)
      by (intro exI [of _ m]) (subst channelLoop.simps, simp add: bind_def recounted_props(2) min_def)
  next
    case False
    then have "min H (i + 5000) = H" by simp
    then show ?thesis using n False "1.prems"(3)
      by (intro exI [of _ n]) (subst channelLoop.simps, simp add: bind_def, subst channelLoop.simps, simp)
  qed
qed

text \<open>C22: After \<^verbatim>\<open>SyncClaimCntInChannel\<close> every channel published at or below the highest block has the right count: the number of claims
  of the table that are published in it. The batches of 5000 heights miss no channel, no other column changes, and the
  channels above the highest block are left alone.\<close>

theorem SyncClaimCntInChannel_counts:
  assumes "no_faults w" and "claimT.wf_table (claims w)" and "highest (rows (blocks w)) = Some b" and "0 < b_Height b"
  shows "\<exists>w'. SyncClaimCntInChannel w = (Ok (), w') \<and>
    (\<forall>c\<in>set (rows (claims w')). c_ClaimType c = 2 \<and> c_Height c \<le> b_Height b \<longrightarrow>
       c_ClaimCount c = int (published_in (c_ClaimID c) (rows (claims w')))) \<and>
    map (\<lambda>c. c\<lparr>c_ClaimCount := 0, c_ModifiedAt := 0\<rparr>) (rows (claims w')) = map (\<lambda>c. c\<lparr>c_ClaimCount := 0, c_ModifiedAt := 0\<rparr>) (rows (claims w)) \<and>
    filter (\<lambda>c. c_Height c > b_Height b) (rows (claims w')) = filter (\<lambda>c. c_Height c > b_Height b) (rows (claims w))"
proof -
  let ?H = "b_Height b" and ?w = "w\<lparr>stmts := stmts w + 1\<rparr>" and ?ids = "channel_ids 0 (b_Height b) (claims w)"
  let ?f = "\<lambda>x. if c_ID x \<in> ?ids then recount (rows (claims w)) (clock w) x else x"
  have nf: "no_faults ?w" "claimT.wf_table (claims ?w)" using assms by simp_all
  obtain n where n: "channelLoop ?H 0 ?w = (Ok (), ?w\<lparr>stmts := n, claims := recounted (channel_ids 0 ?H (claims ?w)) (clock ?w) (claims ?w)\<rparr>)"
    using channelLoop_run [OF nf assms(4)] by blast
  have "oneG (\<lambda>w. highest (rows (blocks w))) w = (Ok b, ?w)"
    using assms(1,3) by (simp add: oneG_def stmt_def no_faults_def)
  then have run: "SyncClaimCntInChannel w = (Ok (), w\<lparr>stmts := n, claims := recounted ?ids (clock w) (claims w)\<rparr>)"
    using n assms(4) by (simp add: SyncClaimCntInChannel_def prefix_def bind_def)
  let ?w' = "w\<lparr>stmts := n, claims := recounted ?ids (clock w) (claims w)\<rparr>"
  have rows: "rows (claims ?w') = map ?f (rows (claims w))" by (simp add: recounted_def t_map_def)
  have ids: "c_ID x \<in> ?ids \<longleftrightarrow> channel_between 0 ?H x" if "x \<in> set (rows (claims w))" for x
    using that assms(2) by (auto simp: channel_ids_def claimT.wf_table_def distinct_map dest: inj_onD)
  have pub: "published_in ch (rows (claims ?w')) = published_in ch (rows (claims w))" for ch by (simp add: recounted_props(1))
  have "c_ClaimCount c = int (published_in (c_ClaimID c) (rows (claims ?w')))"
    if mem: "c \<in> set (rows (claims ?w'))" and chan: "c_ClaimType c = 2" "c_Height c \<le> ?H" for c
  proof -
    obtain x where x: "c = ?f x" "x \<in> set (rows (claims w))" using mem unfolding rows set_map by (rule imageE)
    then have "c_ClaimType x = 2" "c_Height x \<le> ?H" using chan by (auto split: if_splits)
    then have "c_ID x \<in> ?ids" using ids [OF x(2)] by (simp add: channel_between_def)
    then show ?thesis unfolding pub using x(1) by (auto simp: recount_def counted_def)
  qed
  moreover have "map (\<lambda>c. c\<lparr>c_ClaimCount := 0, c_ModifiedAt := 0\<rparr>) (rows (claims ?w')) = map (\<lambda>c. c\<lparr>c_ClaimCount := 0, c_ModifiedAt := 0\<rparr>) (rows (claims w))"
    unfolding rows by (simp add: recount_def)
  moreover have "filter (\<lambda>c. c_Height c > ?H) (rows (claims ?w')) = filter (\<lambda>c. c_Height c > ?H) (rows (claims w))"
  proof -
    have "((\<lambda>c. c_Height c > ?H) \<circ> ?f) = (\<lambda>c. c_Height c > ?H)" by (auto simp: fun_eq_iff)
    moreover have "?f x = x" if "x \<in> set (filter (\<lambda>c. c_Height c > ?H) (rows (claims w)))" for x
      using that ids [of x] by (auto simp: channel_between_def)
    ultimately show ?thesis unfolding rows filter_map by (simp only:) (rule map_idI)
  qed
  ultimately show ?thesis using run by (intro exI [of _ ?w']) blast
qed

definition demo_channels :: world where
  "demo_channels = demo_world\<lparr>blocks := \<lparr>rows = [zeroBlock\<lparr>b_ID := 1, b_Height := 6000\<rparr>], nextID = 2\<rparr>,
     claims := \<lparr>rows = [zeroClaim\<lparr>c_ID := 1, c_ClaimID := ''ch'', c_ClaimType := 2, c_Height := 5500\<rparr>,
       zeroClaim\<lparr>c_ID := 2, c_ClaimID := ''s'', c_PublisherID := Some ''ch''\<rparr>], nextID = 3\<rparr>\<rparr>"

theorem SyncClaimCntInChannel_counts_witness:
  "\<exists>w'. SyncClaimCntInChannel demo_channels = (Ok (), w') \<and> (1, 1) \<in> (\<lambda>c. (c_ID c, c_ClaimCount c)) ` set (rows (claims w'))"
proof -
  let ?w = demo_channels
  have "no_faults ?w" "claimT.wf_table (claims ?w)" "highest (rows (blocks ?w)) = Some (zeroBlock\<lparr>b_ID := 1, b_Height := 6000\<rparr>)"
    by (simp_all add: demo_channels_def demo_world_def no_faults_def claimT.wf_table_def zeroClaim_def claim_clash_def)
  from SyncClaimCntInChannel_counts [OF this] obtain w' where r: "SyncClaimCntInChannel ?w = (Ok (), w')"
    and c: "\<forall>c\<in>set (rows (claims w')). c_ClaimType c = 2 \<and> c_Height c \<le> 6000 \<longrightarrow>
      c_ClaimCount c = int (published_in (c_ClaimID c) (rows (claims w')))"
    and m: "map (\<lambda>c. c\<lparr>c_ClaimCount := 0, c_ModifiedAt := 0\<rparr>) (rows (claims w')) =
      map (\<lambda>c. c\<lparr>c_ClaimCount := 0, c_ModifiedAt := 0\<rparr>) (rows (claims ?w))"
    by auto
  from m obtain a d where rows: "rows (claims w') = [a, d]"
    and ad: "a\<lparr>c_ClaimCount := 0, c_ModifiedAt := 0\<rparr> = zeroClaim\<lparr>c_ID := 1, c_ClaimID := ''ch'', c_ClaimType := 2, c_Height := 5500, c_ClaimCount := 0, c_ModifiedAt := 0\<rparr>"
      "d\<lparr>c_ClaimCount := 0, c_ModifiedAt := 0\<rparr> = zeroClaim\<lparr>c_ID := 2, c_ClaimID := ''s'', c_PublisherID := Some ''ch'', c_ClaimCount := 0, c_ModifiedAt := 0\<rparr>"
    by (auto simp: demo_channels_def)
  have "c_ID a = 1" "c_ClaimID a = ''ch''" "c_ClaimType a = 2" "c_Height a = 5500" "c_PublisherID a = None" "c_PublisherID d = Some ''ch''"
    using arg_cong [OF ad(1), of c_ID] arg_cong [OF ad(1), of c_ClaimID] arg_cong [OF ad(1), of c_ClaimType] arg_cong [OF ad(1), of c_Height]
      arg_cong [OF ad(1), of c_PublisherID] arg_cong [OF ad(2), of c_PublisherID] by (simp_all add: zeroClaim_def)
  then have "c_ClaimCount a = 1" using c rows by (simp add: published_in_def)
  then show ?thesis using r rows \<open>c_ID a = 1\<close> by simp
qed

section \<open>Values of transactions\<close>

definition revalue :: "sums \<Rightarrow> world \<Rightarrow> Transaction \<Rightarrow> Transaction" where
  "revalue S w t =
     (let v = creditOf S (filter (\<lambda>ta. ta_TransactionID ta = t_ID t) (txAddresses w))
      in if t_Value t = v then t else t\<lparr>t_Value := v, t_ModifiedAt := clock w\<rparr>)"

text \<open>The transactions whose block is at a height of a set, revalued.\<close>

definition tx_at :: "nat set \<Rightarrow> world \<Rightarrow> Transaction \<Rightarrow> bool" where
  "tx_at hs w t \<longleftrightarrow> (\<exists>b\<in>set (rows (blocks w)). t_BlockHashID t = Some (b_Hash b) \<and> b_Height b \<in> hs)"

definition revalued :: "sums \<Rightarrow> nat set \<Rightarrow> world \<Rightarrow> world" where
  "revalued S hs w = w\<lparr>transactions := t_map (\<lambda>t. if tx_at hs w t then revalue S w t else t) (transactions w)\<rparr>"

lemma revalued_sel [simp]:
  "blocks (revalued S hs w) = blocks w" "txAddresses (revalued S hs w) = txAddresses w" "clock (revalued S hs w) = clock w"
  "no_faults (revalued S hs w) = no_faults w"
  by (simp_all add: revalued_def no_faults_def)

lemma revalue_again:
  "tx_at hs w (revalue S w' t) = tx_at hs w t" "revalue S w (revalue S w t) = revalue S w t"
  "tx_at hs (w\<lparr>stmts := n\<rparr>) = tx_at hs w" "revalue S (w\<lparr>stmts := n\<rparr>) = revalue S w"
  "tx_at hs (revalued S ks w) = tx_at hs w" "revalue S (revalued S ks w) = revalue S w"
  by (simp_all add: tx_at_def revalue_def Let_def fun_eq_iff)

lemma revalued_revalued: "revalued S hs (revalued S ks w) = revalued S (hs \<union> ks) w"
proof -
  have "tx_at (hs \<union> ks) w t \<longleftrightarrow> tx_at hs w t \<or> tx_at ks w t" for t by (auto simp: tx_at_def)
  then have "(\<lambda>t. if tx_at hs w t then revalue S w t else t) \<circ> (\<lambda>t. if tx_at ks w t then revalue S w t else t) =
      (\<lambda>t. if tx_at (hs \<union> ks) w t then revalue S w t else t)"
    by (auto simp: fun_eq_iff revalue_again)
  note comp = this
  have "revalued S hs (revalued S ks w) = (revalued S ks w)\<lparr>transactions :=
      t_map (\<lambda>t. if tx_at hs w t then revalue S w t else t) (transactions (revalued S ks w))\<rparr>"
    by (simp only: revalued_def [of S hs] revalue_again(5,6))
  also have "\<dots> = w\<lparr>transactions := t_map ((\<lambda>t. if tx_at hs w t then revalue S w t else t) \<circ>
      (\<lambda>t. if tx_at ks w t then revalue S w t else t)) (transactions w)\<rparr>"
    by (simp add: revalued_def t_map_def)
  finally show ?thesis by (simp only: comp revalued_def [of S "hs \<union> ks"])
qed

lemma revalued_stmts: "revalued S hs (w\<lparr>stmts := n\<rparr>) = (revalued S hs w)\<lparr>stmts := n\<rparr>"
  by (simp only: revalued_def revalue_again(3,4)) simp

lemma Transactions_setValue_run:
  assumes "no_faults w"
  shows "\<exists>n m. Transactions_setValue S i j w = (Ok n, (revalued S {i..j} w)\<lparr>stmts := m\<rparr>)"
proof -
  have "tx_between i j v t \<longleftrightarrow> tx_at {i..j} v t" for v t by (simp add: tx_between_def tx_at_def)
  then have tb: "tx_between i j = tx_at {i..j}" by (simp add: fun_eq_iff)
  have "\<exists>n. Transactions_setValue S i j w = (Ok n, revalued S {i..j} (w\<lparr>stmts := stmts w + 1\<rparr>))"
    unfolding Transactions_setValue_def tb revalue_def [symmetric]
    using assms by (simp add: stmt_def no_faults_def Let_def revalued_def)
  then show ?thesis unfolding revalued_stmts by blast
qed

lemma valueLoop_run:
  assumes "no_faults w" and "\<forall>i\<in>set xs. (i + 1) * k \<le> H"
  shows "\<exists>n m. valueLoop S H k xs a w = (Ok n, (revalued S (\<Union>i\<in>set xs. {i * k..(i + 1) * k}) w)\<lparr>stmts := m\<rparr>)"
  using assms
proof (induction xs arbitrary: a w)
  case Nil
  have "revalued S {} w = w" by (simp add: revalued_def tx_at_def t_map_def)
  then show ?case by (intro exI [of _ a] exI [of _ "stmts w"]) simp
next
  case (Cons i xs)
  obtain n m where s: "Transactions_setValue S (i * k) ((i + 1) * k) w = (Ok n, (revalued S {i * k..(i + 1) * k} w)\<lparr>stmts := m\<rparr>)"
    using Transactions_setValue_run [OF Cons.prems(1)] by blast
  let ?w = "(revalued S {i * k..(i + 1) * k} w)\<lparr>stmts := m\<rparr>"
  obtain n' m' where r: "valueLoop S H k xs (a + n) ?w = (Ok n', (revalued S (\<Union>i\<in>set xs. {i * k..(i + 1) * k}) ?w)\<lparr>stmts := m'\<rparr>)"
    using Cons.IH [of ?w "a + n"] Cons.prems by auto
  have "(revalued S hs ((revalued S ks w)\<lparr>stmts := m\<rparr>))\<lparr>stmts := m'\<rparr> = (revalued S (hs \<union> ks) w)\<lparr>stmts := m'\<rparr>" for hs ks
    unfolding revalued_stmts revalued_revalued by simp
  then show ?case
    using s r Cons.prems(2) by (intro exI [of _ n'] exI [of _ m']) (simp add: bind_def prefix_def Let_def Un_commute)
qed

lemma intervals_cover:
  assumes "0 < k" and "0 < n"
  shows "(\<Union>i\<in>{0..<n}. {i * k..(i + 1) * k}) = {0..n * (k :: nat)}"
proof (intro equalityI subsetI)
  fix x assume "x \<in> (\<Union>i\<in>{0..<n}. {i * k..(i + 1) * k})"
  then obtain i where "i < n" "x \<le> (i + 1) * k" by auto
  moreover have "(i + 1) * k \<le> n * k" using \<open>i < n\<close> by (intro mult_le_mono1) simp
  ultimately show "x \<in> {0..n * k}" by simp
next
  fix x assume x: "x \<in> {0..n * k}"
  show "x \<in> (\<Union>i\<in>{0..<n}. {i * k..(i + 1) * k})"
  proof (cases "x = n * k")
    case True
    then show ?thesis using assms by (intro UN_I [of "n - 1"]) (auto simp: algebra_simps)
  next
    case False
    then have "x div k < n" using x assms(1) by (simp add: less_mult_imp_div_less)
    moreover have "x div k * k \<le> x" "x \<le> (x div k + 1) * k"
      using dividend_less_div_times [OF assms(1), of x] by (simp_all add: algebra_simps)
    ultimately show ?thesis by (intro UN_I [of "x div k"]) auto
  qed
qed

text \<open>C23: \<^verbatim>\<open>SyncTransactionValue\<close> brings exactly the transactions of the blocks up to the last full batch up to date: with a highest
  block \<open>H\<close> above 5000, those of the heights above \<open>H div 5000 * 5000\<close>, the newest ones, are never written.\<close>

theorem SyncTransactionValue_heights:
  assumes "no_faults w" and "highest (rows (blocks w)) = Some b" and "0 < b_Height b"
  shows "\<exists>n w'. SyncTransactionValue S w = (Ok n, w') \<and>
    rows (transactions w') = map (\<lambda>t.
      if tx_at {0..(if b_Height b \<le> 5000 then b_Height b else b_Height b div 5000 * 5000)} w t then revalue S w t else t) (rows (transactions w))"
proof -
  let ?H = "b_Height b" and ?w = "w\<lparr>stmts := stmts w + 1\<rparr>"
  let ?k = "if 5000 \<ge> b_Height b then b_Height b else 5000"
  have k: "0 < ?k" "0 < ?H div ?k" using assms(3) by (simp_all add: div_greater_zero_iff)
  have "(i + 1) * ?k \<le> ?H" if "i \<in> set [0..<?H div ?k]" for i
  proof -
    have "(i + 1) * ?k \<le> ?H div ?k * ?k" using that by (intro mult_le_mono1) simp
    also have "\<dots> \<le> ?H" by simp
    finally show ?thesis .
  qed
  then obtain n m where r: "valueLoop S ?H ?k [0..<?H div ?k] 0 ?w =
      (Ok n, (revalued S (\<Union>i\<in>set [0..<?H div ?k]. {i * ?k..(i + 1) * ?k}) ?w)\<lparr>stmts := m\<rparr>)"
    using valueLoop_run [of ?w "[0..<?H div ?k]" ?k ?H S 0] assms(1) by auto
  have cov: "(\<Union>i\<in>set [0..<?H div ?k]. {i * ?k..(i + 1) * ?k}) = {0..?H div ?k * ?k}"
    using intervals_cover [OF k] by simp
  have top: "?H div ?k * ?k = (if ?H \<le> 5000 then ?H else ?H div 5000 * 5000)" using assms(3) by simp
  have "oneG (\<lambda>w. highest (rows (blocks w))) w = (Ok b, ?w)"
    using assms(1,2) by (simp add: oneG_def stmt_def no_faults_def)
  then have "SyncTransactionValue S w = valueLoop S ?H ?k [0..<?H div ?k] 0 ?w"
    using assms(3) unfolding SyncTransactionValue_def prefix_def bind_def Let_def by simp
  then show ?thesis
    unfolding r cov top
    by (intro exI [of _ n] exI [of _ "(revalued S {0..if ?H \<le> 5000 then ?H else ?H div 5000 * 5000} ?w)\<lparr>stmts := m\<rparr>"])
      (simp add: revalued_def t_map_def revalue_again)
qed

definition demo_sums :: sums where
  "demo_sums = \<lparr>balanceOf = (\<lambda>_. f64_zero), creditOf = (\<lambda>tas. foldr (f64_add \<circ> ta_CreditAmount) tas f64_zero)\<rparr>"

text \<open>Two transactions that received the same amount, one in the last full batch and one above it.\<close>

definition demo_values :: world where
  "demo_values = demo_world\<lparr>blocks := \<lparr>rows = [zeroBlock\<lparr>b_ID := 1, b_Hash := ''a'', b_Height := 5000\<rparr>, zeroBlock\<lparr>b_ID := 2, b_Hash := ''b'', b_Height := 6000\<rparr>], nextID = 3\<rparr>,
     transactions := \<lparr>rows = [zeroTransaction\<lparr>t_ID := 1, t_BlockHashID := Some ''a''\<rparr>, zeroTransaction\<lparr>t_ID := 2, t_BlockHashID := Some ''b''\<rparr>], nextID = 3\<rparr>,
     txAddresses := [zeroTransactionAddress\<lparr>ta_TransactionID := 1, ta_CreditAmount := Fin 7\<rparr>, zeroTransactionAddress\<lparr>ta_TransactionID := 2, ta_CreditAmount := Fin 7\<rparr>]\<rparr>"

theorem SyncTransactionValue_heights_witness:
  "\<exists>n w'. SyncTransactionValue demo_sums demo_values = (Ok n, w') \<and> map t_Value (rows (transactions w')) = [Fin 7, Fin 0]"
proof -
  let ?w = demo_values
  let ?b = "zeroBlock\<lparr>b_ID := 2, b_Hash := ''b'', b_Height := 6000\<rparr>"
  have "no_faults ?w" "highest (rows (blocks ?w)) = Some ?b" by (simp_all add: demo_values_def demo_world_def no_faults_def)
  from SyncTransactionValue_heights [OF this, of demo_sums] obtain n w' where r: "SyncTransactionValue demo_sums ?w = (Ok n, w')"
    and t: "rows (transactions w') = map (\<lambda>t. if tx_at {0..5000} ?w t then revalue demo_sums ?w t else t) (rows (transactions ?w))"
    by auto
  have "f64_round 7 = Fin 7" using f64_add_exact [of 7 0] by simp
  then have "map t_Value (rows (transactions w')) = [Fin 7, Fin 0]"
    unfolding t by (simp add: demo_values_def tx_at_def revalue_def Let_def demo_sums_def f64_zero_def f64_add_exact zeroTransaction_def zeroTransactionAddress_def)
  then show ?thesis using r by (intro exI [of _ n] exI [of _ w']) simp
qed

section \<open>Balances of addresses\<close>

text \<open>The loop over the addresses compares the last id with the number of rows adjusted, which starts at 0: nothing is ever updated.\<close>

lemma SyncAddressBalances_nothing:
  assumes "no_faults w" and "lastAddress (rows (addresses w)) = Some a"
  shows "SyncAddressBalances S (Suc fuel) w = (Ok (Some 0), w\<lparr>stmts := stmts w + 1\<rparr>)"
  using assms by (simp add: SyncAddressBalances_def bind_def oneG_def stmt_def no_faults_def)

end
