(* ===== verification/Mempool.thy ===== *)
theory Mempool
  imports Transactions
begin

text \<open>
  \<^verbatim>\<open>daemon/jobs/mempoolsync.go\<close>: the job that stores the transactions of the memory pool of the node under a block of
  its own, the row with the hash \<^verbatim>\<open>MEMPOOL\<close>, and removes those that are gone for an hour. The answer of the node is a
  parameter. A Go map is the list of its entries in the order a \<^verbatim>\<open>range\<close> over it takes.
\<close>

record mempoolFees =
  mf_Base :: f64
  mf_Modified :: f64
  mf_Ancestor :: f64
  mf_Descendant :: f64

record mempoolTx =
  mp_Vsize :: int
  mp_Size :: int
  mp_Weight :: int
  mp_Fee :: f64
  mp_ModifiedFee :: f64
  mp_Time :: int
  mp_Height :: int
  mp_DescendantCount :: int
  mp_DescendantSize :: int
  mp_DescendantFees :: f64
  mp_AncestorCount :: int
  mp_AncestorSize :: int
  mp_AncestorFees :: f64
  mp_WtxID :: string
  mp_Fees :: mempoolFees
  mp_Depends :: "txid list"
  mp_SpentBy :: "txid list"

type_synonym txSet = "(txid \<times> mempoolTx) list"

section \<open>Fetching\<close>

definition orderedTxIDs :: "txSet \<Rightarrow> txid list" where
  "orderedTxIDs txSet = sort (remdups (concat (map (\<lambda>(txID, txDetails). txID # mp_Depends txDetails) txSet)))"

fun fetchRaw :: "node \<Rightarrow> txid list \<Rightarrow> (txid \<rightharpoonup> TxRawResult) \<Rightarrow> (txid \<rightharpoonup> TxRawResult) db" where
  "fetchRaw N [] rawTxs = ret rawTxs"
| "fetchRaw N (txID # ids) rawTxs =
     bind (rpc (\<lambda>i. getRawTransaction N i txID)) (\<lambda>txjson. fetchRaw N ids (rawTxs(txID \<mapsto> txjson)))"

definition fetchMempoolRawTransactions :: "node \<Rightarrow> txSet \<Rightarrow> (txid \<rightharpoonup> TxRawResult) db" where
  "fetchMempoolRawTransactions N txSet = fetchRaw N (orderedTxIDs txSet) Map.empty"

section \<open>The block of the memory pool\<close>

definition newMempoolBlock :: Block where
  "newMempoolBlock = zeroBlock\<lparr>b_Height := 0, b_Confirmations := 0, b_Hash := MempoolBlockHash, b_BlockTime := 0,
     b_Bits := '''', b_BlockSize := 0, b_Chainwork := '''', b_Difficulty := f64_zero, b_MerkleRoot := '''',
     b_NameClaimRoot := '''', b_Nonce := 0, b_VersionHex := ''''\<rparr>"

definition getMempoolBlock :: "Block db" where
  "getMempoolBlock =
     bind (found (oneG (\<lambda>w. first_row (\<lambda>b. b_Hash b = MempoolBlockHash) (blocks w)))) (\<lambda>mempoolBlock.
       case mempoolBlock of
         Some b \<Rightarrow> ret b
       | None \<Rightarrow> Block_InsertG newMempoolBlock)"

section \<open>Processing\<close>

text \<open>A transaction that has a row, in whatever block, is left alone.\<close>

definition processMempoolTx :: "env \<Rightarrow> txOrder \<Rightarrow> txid \<Rightarrow> Block \<Rightarrow> TxRawResult option \<Rightarrow> unit db" where
  "processMempoolTx E sch txid block txjson =
     bind (found (oneG (\<lambda>w. first_row (\<lambda>x. t_Hash x = txid) (transactions w)))) (\<lambda>existingTx.
       case existingTx of
         Some _ \<Rightarrow> ret ()
       | None \<Rightarrow>
           (case txjson of
              None \<Rightarrow> fail (Msg ''missing fetched mempool transaction'')
            | Some j \<Rightarrow> ProcessTx E sch (j\<lparr>tx_BlockHash := b_Hash block\<rparr>) (b_BlockTime block) (b_Height block)))"

text \<open>\<open>left\<close> are the keys of \<^verbatim>\<open>currTxMap\<close>, the hashes of stale transactions that were not met yet.\<close>

fun dependLoop :: "env \<Rightarrow> txOrder \<Rightarrow> Block \<Rightarrow> (txid \<rightharpoonup> TxRawResult) \<Rightarrow> txid list \<Rightarrow> txid list \<Rightarrow> txid list db" where
  "dependLoop E sch block rawTxs [] left = ret left"
| "dependLoop E sch block rawTxs (dependentTxID # ds) left =
     bind (processMempoolTx E sch dependentTxID block (rawTxs dependentTxID)) (\<lambda>_.
       dependLoop E sch block rawTxs ds (removeAll dependentTxID left))"

text \<open>\<open>None\<close> is the return at a transaction the stored chain has not reached.\<close>

fun txSetLoop ::
    "env \<Rightarrow> txOrder \<Rightarrow> Block \<Rightarrow> Block \<Rightarrow> (txid \<rightharpoonup> TxRawResult) \<Rightarrow> txSet \<Rightarrow> txid list \<Rightarrow> txid list option db" where
  "txSetLoop E sch lastBlock block rawTxs [] left = ret (Some left)"
| "txSetLoop E sch lastBlock block rawTxs ((txid, txDetails) # txs) left =
     (if (b_Height lastBlock + 1) mod 2 ^ 64 \<ge> to_u64 (mp_Height txDetails) then
        bind (dependLoop E sch block rawTxs (mp_Depends txDetails) (removeAll txid left)) (\<lambda>left.
        bind (processMempoolTx E sch txid block (rawTxs txid)) (\<lambda>_.
          txSetLoop E sch lastBlock block rawTxs txs left))
      else ret None)"

definition Transaction_DeleteG :: "Transaction \<Rightarrow> unit db" where
  "Transaction_DeleteG t = stmt (\<lambda>w. (Ok (), delete_transactions (\<lambda>x. t_ID x = t_ID t) w))"

definition deleteStale :: "txid \<Rightarrow> unit db" where
  "deleteStale hash =
     bind (found (oneG (\<lambda>w. first_row (\<lambda>x. t_Hash x = hash \<and> t_BlockHashID x = Some MempoolBlockHash) (transactions w)))) (\<lambda>staleTx.
       case staleTx of
         None \<Rightarrow> ret ()
       | Some t \<Rightarrow> Transaction_DeleteG t)"

text \<open>The result says whether the stored chain is behind the memory pool.\<close>

definition processTxSet ::
    "env \<Rightarrow> txOrder \<Rightarrow> Block \<Rightarrow> txSet \<Rightarrow> (txid \<rightharpoonup> TxRawResult) \<Rightarrow> Block option \<Rightarrow> Transaction list \<Rightarrow> bool db" where
  "processTxSet E sch mempoolBlock txSet rawTxs lastBlock staleTxs =
     (case lastBlock of
        None \<Rightarrow> fail (Msg ''cannot process mempool without a chain head block'')
      | Some lastBlock \<Rightarrow>
          bind (txSetLoop E sch lastBlock mempoolBlock rawTxs txSet (remdups (map t_Hash staleTxs))) (\<lambda>r.
            case r of
              None \<Rightarrow> ret True
            | Some left \<Rightarrow> bind (forM (mapOrder sch left) deleteStale) (\<lambda>_. ret False)))"

section \<open>The job\<close>

text \<open>\<open>cached\<close> is the variable \<^verbatim>\<open>mempoolBlock\<close> of the package: the row that was found or made first. Times count seconds.\<close>

record mempoolState =
  mempoolSyncIsRunning :: bool
  cachedBlock :: "Block option"

definition stale :: "world \<Rightarrow> Transaction \<Rightarrow> bool" where
  "stale w t \<longleftrightarrow> t_BlockHashID t = Some MempoolBlockHash \<and> t_CreatedAt t + 3600 \<le> clock w"

definition mempoolRun :: "env \<Rightarrow> txOrder \<Rightarrow> txSet \<Rightarrow> (txid \<rightharpoonup> TxRawResult) \<Rightarrow> mempoolState \<Rightarrow> mempoolState db" where
  "mempoolRun E sch txSet rawTxs st =
     bind (attempt (case cachedBlock st of Some b \<Rightarrow> ret b | None \<Rightarrow> getMempoolBlock)) (\<lambda>b.
       case b of
         Inl _ \<Rightarrow> ret (st\<lparr>mempoolSyncIsRunning := False\<rparr>)
       | Inr block \<Rightarrow>
           bind (or_nil chainHeadBlock) (\<lambda>lastBlock.
           bind (attempt (query (\<lambda>w. filter (stale w) (rows (transactions w))))) (\<lambda>r.
           bind (attempt (processTxSet E sch block txSet rawTxs lastBlock (case r of Inl _ \<Rightarrow> [] | Inr ts \<Rightarrow> ts))) (\<lambda>running.
             ret (st\<lparr>cachedBlock := Some block, mempoolSyncIsRunning := (running = Inr True)\<rparr>)))))"

text \<open>While the flag is still set after a run the job waits a minute and clears it: \<^verbatim>\<open>delayMempoolSyncReset\<close>.\<close>

definition MempoolSync :: "env \<Rightarrow> txOrder \<Rightarrow> node \<Rightarrow> goerr + txSet \<Rightarrow> mempoolState \<Rightarrow> mempoolState db" where
  "MempoolSync E sch N pool st =
     (if mempoolSyncIsRunning st then ret st
      else
        (case pool of
           Inl _ \<Rightarrow> ret st
         | Inr txSet \<Rightarrow>
             bind (attempt (fetchMempoolRawTransactions N txSet)) (\<lambda>r.
               case r of
                 Inl _ \<Rightarrow> ret st
               | Inr rawTxs \<Rightarrow> mempoolRun E sch txSet rawTxs st)))"

definition delayMempoolSyncReset :: "mempoolState \<Rightarrow> mempoolState" where
  "delayMempoolSyncReset st = st\<lparr>mempoolSyncIsRunning := False\<rparr>"

end
