(* ===== verification/Mempool_Spec.thy ===== *)
theory Mempool_Spec
  imports Mempool TxFrame
begin

text \<open>
  What the synchronisation of the memory pool leaves alone: a transaction that already has a row, in a block or from an
  earlier run that was cut short, is never written again; the loop over the pool only adds transactions that are new.
\<close>

section \<open>The frame of a transaction that has a row\<close>

definition kept :: "txid \<Rightarrow> world \<Rightarrow> world \<Rightarrow> bool" where
  "kept h w w' \<longleftrightarrow> tx_rows h w' = tx_rows h w \<and> vouts_of h w' = vouts_of h w \<and> inkeys h w' = inkeys h w"

definition fetched :: "(txid \<rightharpoonup> TxRawResult) \<Rightarrow> bool" where
  "fetched rawTxs \<longleftrightarrow> (\<forall>t j. rawTxs t = Some j \<longrightarrow> tx_Txid j = t)"

definition pool_ok :: "(txid \<rightharpoonup> TxRawResult) \<Rightarrow> world \<Rightarrow> bool" where
  "pool_ok rawTxs w \<longleftrightarrow> rows_ok w \<and> (\<forall>j\<in>ran rawTxs. leftovers j w)"

definition pool_step :: "(txid \<rightharpoonup> TxRawResult) \<Rightarrow> txid \<Rightarrow> world \<Rightarrow> world \<Rightarrow> bool" where
  "pool_step rawTxs h w w' \<longleftrightarrow> (pool_ok rawTxs w \<and> tx_rows h w \<noteq> [] \<longrightarrow> pool_ok rawTxs w' \<and> kept h w w')"

lemma pool_step_same_rows: "same_rows w w' \<Longrightarrow> pool_step rawTxs h w w'"
  by (simp add: pool_step_def pool_ok_def same_rows_def same_outputs_def same_inputs_def same_transactions_def rows_ok_def
      outs_ok_def ins_ok_def leftovers_def vouts_of_def inkeys_def kept_def tx_rows_def honest_faults_def)

interpretation poolR: db_relation "pool_step rawTxs h"
proof unfold_locales
  show "pool_step rawTxs h w (w\<lparr>stmts := n\<rparr>)" for w n
    by (rule pool_step_same_rows) (simp add: same_rows_def same_outputs_def same_inputs_def same_transactions_def)
qed (auto simp: pool_step_def kept_def)

lemma tx_rows_empty: "tx_rows h w = [] \<longleftrightarrow> (\<forall>x\<in>set (rows (transactions w)). t_Hash x \<noteq> h)"
  by (simp add: tx_rows_def filter_empty_conv)

lemma leftovers_block [simp]: "leftovers (j\<lparr>tx_BlockHash := b\<rparr>) w = leftovers j w"
  by (simp add: leftovers_def)

lemma tx_step_pool:
  assumes "tx_step (j\<lparr>tx_BlockHash := b\<rparr>) w w'" and "fetched rawTxs" and "rawTxs t = Some j" and "t \<noteq> h"
  shows "pool_step rawTxs h w w'"
  unfolding pool_step_def
proof
  assume w: "pool_ok rawTxs w \<and> tx_rows h w \<noteq> []"
  have t: "tx_Txid j = t" using assms(2,3) by (simp add: fetched_def)
  have step: "rows_ok w'" "leftovers j w'" "others_same t w w'"
    using assms(1) w ranI [of rawTxs t j, OF assms(3)] by (simp_all add: tx_step_def pool_ok_def t)
  have "leftovers i w'" if i: "i \<in> ran rawTxs" for i
  proof (cases "tx_Txid i = t")
    case True
    then have "i = j" using i assms(2,3) by (auto simp: ran_def fetched_def)
    then show ?thesis using step(2) by simp
  next
    case False
    then show ?thesis using w i step(3) by (auto simp: pool_ok_def leftovers_def others_same_def)
  qed
  then show "pool_ok rawTxs w' \<and> kept h w w'"
    using step assms(4) by (auto simp: pool_ok_def others_same_def kept_def)
qed

lemma processMempoolTx_step:
  assumes "order_ok sch" and "fetched rawTxs"
  shows "within (pool_step rawTxs h) (processMempoolTx E sch t block (rawTxs t))"
proof (rule within_runs)
  fix w
  let ?find = "found (oneG (\<lambda>w. first_row (\<lambda>x. t_Hash x = t) (transactions w)))"
  show "runs (processMempoolTx E sch t block (rawTxs t)) w (\<lambda>_. pool_step rawTxs h w) (pool_step rawTxs h w)"
    unfolding processMempoolTx_def
  proof (rule runs_bind, rule runsI)
    fix r v assume "?find w = (r, v)"
    then show "pool_step rawTxs h w v" by (intro withinD [OF poolR.found [OF poolR.oneG]])
  next
    fix f v assume q: "?find w = (Ok f, v)"
    have v: "v = tick w" by (rule found_oneG(1) [OF q])
    have wv: "pool_step rawTxs h w v" by (rule withinD [OF poolR.found [OF poolR.oneG] q])
    show "runs (case f of Some _ \<Rightarrow> ret () | None \<Rightarrow> (case rawTxs t of
          None \<Rightarrow> fail (Msg ''missing fetched mempool transaction'')
        | Some j \<Rightarrow> ProcessTx E sch (j\<lparr>tx_BlockHash := b_Hash block\<rparr>) (b_BlockTime block) (b_Height block)))
      v (\<lambda>_. pool_step rawTxs h w) (pool_step rawTxs h w)"
    proof (intro runs_rules wv)
      fix j assume f: "f = None" and j: "rawTxs t = Some j"
      have new: "t \<noteq> h" if "pool_ok rawTxs w" "tx_rows h w \<noteq> []"
      proof -
        have "first_row (\<lambda>x. t_Hash x = t) (transactions w) = None"
          using found_oneG(2) [OF q _ refl] that f by (simp add: pool_ok_def rows_ok_def outs_ok_def)
        then show ?thesis using that by (auto simp: first_row_def find_None_iff tx_rows_empty)
      qed
      have "within (tx_step (j\<lparr>tx_BlockHash := b_Hash block\<rparr>))
          (ProcessTx E sch (j\<lparr>tx_BlockHash := b_Hash block\<rparr>) (b_BlockTime block) (b_Height block))"
        by (rule ProcessTx_step [OF assms(1)])
      moreover have "pool_step rawTxs h w z" if "tx_step (j\<lparr>tx_BlockHash := b_Hash block\<rparr>) v z" for z
        using poolR.trans [OF wv tx_step_pool [OF that assms(2) j]] new by (auto simp: pool_step_def)
      ultimately show "runs (ProcessTx E sch (j\<lparr>tx_BlockHash := b_Hash block\<rparr>) (b_BlockTime block) (b_Height block)) v
          (\<lambda>_. pool_step rawTxs h w) (pool_step rawTxs h w)"
        by (intro runs_within [where R = "tx_step (j\<lparr>tx_BlockHash := b_Hash block\<rparr>)"])
    qed
  qed
qed

lemma dependLoop_step:
  assumes "order_ok sch" and "fetched rawTxs"
  shows "within (pool_step rawTxs h) (dependLoop E sch block rawTxs ds left)"
  by (induction ds arbitrary: left) (auto intro: poolR.ret poolR.bind processMempoolTx_step [OF assms])

lemma txSetLoop_step:
  assumes "order_ok sch" and "fetched rawTxs"
  shows "within (pool_step rawTxs h) (txSetLoop E sch lastBlock block rawTxs txs left)"
  by (induction txs arbitrary: left)
    (auto intro!: poolR.ret poolR.bind processMempoolTx_step [OF assms] dependLoop_step [OF assms])

section \<open>Removing stale transactions\<close>

definition row_stays :: "Transaction \<Rightarrow> world \<Rightarrow> world \<Rightarrow> bool" where
  "row_stays x w w' \<longleftrightarrow> (honest_faults w \<and> txT.wf_table (transactions w) \<and> x \<in> set (rows (transactions w)) \<longrightarrow>
     honest_faults w' \<and> txT.wf_table (transactions w') \<and> x \<in> set (rows (transactions w')))"

interpretation stayR: db_relation "row_stays x"
proof unfold_locales
  show "row_stays x w (w\<lparr>stmts := n\<rparr>)" for w n by (simp add: row_stays_def honest_faults_def)
qed (blast intro: row_stays_def [THEN iffD2] dest: row_stays_def [THEN iffD1])+

lemma Transaction_DeleteG_row:
  assumes "Transaction_DeleteG t v = (r, z)"
  shows "fault z = fault v" and "transactions z = transactions v \<or> transactions z = t_filter (\<lambda>x. t_ID x \<noteq> t_ID t) (transactions v)"
  using assms by (auto simp: Transaction_DeleteG_def stmt_def delete_transactions_def Let_def split: option.splits)

lemma deleteStale_stays:
  assumes "t_BlockHashID x \<noteq> Some MempoolBlockHash \<or> t_Hash x \<noteq> hash"
  shows "within (row_stays x) (deleteStale hash)"
proof (rule within_runs)
  fix w
  let ?sel = "\<lambda>w. first_row (\<lambda>x. t_Hash x = hash \<and> t_BlockHashID x = Some MempoolBlockHash) (transactions w)"
  show "runs (deleteStale hash) w (\<lambda>_. row_stays x w) (row_stays x w)"
    unfolding deleteStale_def
  proof (rule runs_bind, rule runsI)
    fix r v assume "found (oneG ?sel) w = (r, v)"
    then show "row_stays x w v" by (intro withinD [OF stayR.found [OF stayR.oneG]])
  next
    fix f v assume q: "found (oneG ?sel) w = (Ok f, v)"
    have v: "v = tick w" by (rule found_oneG(1) [OF q])
    have wv: "row_stays x w v" by (rule withinD [OF stayR.found [OF stayR.oneG] q])
    have del: "row_stays x w z" if "Transaction_DeleteG t v = (r, z)" "f = Some t" for t r z
    proof -
      have "row_stays x v z"
        unfolding row_stays_def
      proof (intro impI)
        assume ok: "honest_faults v \<and> txT.wf_table (transactions v) \<and> x \<in> set (rows (transactions v))"
        have "t \<in> set (rows (transactions v))" "t_Hash t = hash" "t_BlockHashID t = Some MempoolBlockHash"
          using found_oneG(2) [OF q _ refl] ok unfolding that(2) v honest_faults_def first_row_def
          by (simp_all add: find_Some_iff2) (metis nth_mem)+
        then have "t_ID x \<noteq> t_ID t"
          using ok assms by (auto simp: txT.wf_table_def distinct_map inj_on_def)
        then show "honest_faults z \<and> txT.wf_table (transactions z) \<and> x \<in> set (rows (transactions z))"
          using Transaction_DeleteG_row [OF that(1)] ok txT.wf_filter [of "transactions v"]
          by (auto simp: honest_faults_def) (auto simp: t_filter_def)
      qed
      with wv show ?thesis by (rule stayR.trans)
    qed
    show "runs (case f of None \<Rightarrow> ret () | Some t \<Rightarrow> Transaction_DeleteG t) v (\<lambda>_. row_stays x w) (row_stays x w)"
      by (intro runs_rules wv runsI) (use del in blast)+
  qed
qed

lemma dependLoop_left: "dependLoop E sch block rawTxs ds left w = (Ok l, w') \<Longrightarrow> set l \<subseteq> set left"
  by (induction ds arbitrary: left w) (fastforce simp: bind_Ok_iff)+

lemma txSetLoop_left: "txSetLoop E sch lastBlock block rawTxs txs left w = (Ok (Some l), w') \<Longrightarrow> set l \<subseteq> set left"
proof (induction txs arbitrary: left w)
  case (Cons p txs)
  obtain txid d where p: "p = (txid, d)" by (cases p)
  from Cons.prems obtain l1 w1 w2 where 1: "dependLoop E sch block rawTxs (mp_Depends d) (removeAll txid left) w = (Ok l1, w1)"
    and 2: "txSetLoop E sch lastBlock block rawTxs txs l1 w2 = (Ok (Some l), w')"
    by (auto simp: p bind_Ok_iff split: if_splits)
  show ?case using dependLoop_left [OF 1] Cons.IH [OF 2] by auto
qed simp

section \<open>The whole pass\<close>

text \<open>C17: A pass over the memory pool, however it ends, leaves every transaction alone that had a row before it and is not stale: it does
  not rewrite transactions that a block has confirmed. The other side of this is that a transaction whose first processing failed
  half way is never completed by the job: its rows stay as that attempt left them.\<close>

theorem processTxSet_settled:
  assumes run: "processTxSet E sch block txSet rawTxs (Some lastBlock) staleTxs w = (r, w')"
    and sch: "order_ok sch" and perm: "\<And>xs. set (mapOrder sch xs) \<subseteq> set xs"
    and ok: "fetched rawTxs" "pool_ok rawTxs w" and x: "x \<in> set (rows (transactions w))"
    and live: "t_BlockHashID x \<noteq> Some MempoolBlockHash \<or> t_Hash x \<notin> t_Hash ` set staleTxs"
  shows "x \<in> set (rows (transactions w')) \<and> (staleTxs = [] \<longrightarrow> kept (t_Hash x) w w')"
proof -
  let ?h = "t_Hash x"
  let ?loop = "txSetLoop E sch lastBlock block rawTxs txSet (remdups (map t_Hash staleTxs))"
  have step: "pool_ok rawTxs v" "kept ?h w v" if "?loop w = (q, v)" for q v
    using withinD [OF txSetLoop_step [OF sch ok(1), where h = ?h] that] ok(2) x by (auto simp: pool_step_def tx_rows_empty)
  have stay: "x \<in> set (rows (transactions v))" if "kept ?h w v" for v
  proof -
    have "x \<in> set (tx_rows ?h w)" using x by (simp add: tx_rows_def)
    then have "x \<in> set (tx_rows ?h v)" using that by (simp add: kept_def)
    then show ?thesis by (simp add: tx_rows_def)
  qed
  from run show ?thesis
    unfolding processTxSet_def option.case
  proof (cases rule: bind_result)
    case stop
    then show ?thesis using step(2) [of "fst (?loop w)" "snd (?loop w)"] stay by auto
  next
    case (ok q v)
    note s = step [OF ok(1)] and sx = stay [OF step(2) [OF ok(1)]]
    show ?thesis
    proof (cases q)
      case None
      then show ?thesis using ok(2) s sx by simp
    next
      case (Some l)
      have l: "set (mapOrder sch l) \<subseteq> t_Hash ` set staleTxs" using txSetLoop_left ok(1) perm Some by fastforce
      have "within (row_stays x) (bind (forM (mapOrder sch l) deleteStale) (\<lambda>_. ret False))"
        by (intro stayR.bind stayR.ret stayR.forM deleteStale_stays) (use l live in blast)
      from withinD [OF this] have "x \<in> set (rows (transactions w'))"
        using ok(2) s(1) sx Some by (auto simp: row_stays_def pool_ok_def rows_ok_def outs_ok_def)
      moreover have "w' = v" if "staleTxs = []"
        using ok(2) l that Some by (simp add: bind_def)
      ultimately show ?thesis using s(2) by blast
    qed
  qed
qed

text \<open>A transaction of two outputs whose first processing failed before any of them was stored.\<close>

definition demo_cut :: world where
  "demo_cut = demo_world\<lparr>transactions := \<lparr>rows = [zeroTransaction\<lparr>t_ID := 1, t_Hash := ''t1'',
     t_BlockHashID := Some MempoolBlockHash, t_InputCount := 1, t_OutputCount := 2\<rparr>], nextID = 2\<rparr>\<rparr>"

definition demo_pool :: txSet where
  "demo_pool = [(''t1'', \<lparr>mp_Vsize = 10, mp_Size = 10, mp_Weight = 40, mp_Fee = Fin 0, mp_ModifiedFee = Fin 0, mp_Time = 0,
     mp_Height = 1, mp_DescendantCount = 0, mp_DescendantSize = 0, mp_DescendantFees = Fin 0, mp_AncestorCount = 0,
     mp_AncestorSize = 0, mp_AncestorFees = Fin 0, mp_WtxID = '''', mp_Fees = \<lparr>mf_Base = Fin 0, mf_Modified = Fin 0,
     mf_Ancestor = Fin 0, mf_Descendant = Fin 0\<rparr>, mp_Depends = [], mp_SpentBy = []\<rparr>)]"

definition demo_fetched :: "txid \<rightharpoonup> TxRawResult" where
  "demo_fetched = [''t1'' \<mapsto> demo_json ''t1'' [demo_vin '''']]"

theorem processTxSet_settled_witness:
  "\<exists>w'. processTxSet demo_env demo_order newMempoolBlock demo_pool demo_fetched (Some zeroBlock) [] demo_cut = (Ok False, w') \<and>
    card (vout_N ` set (tx_Vout (demo_json ''t1'' [demo_vin '''']))) = 2 \<and> vouts_of ''t1'' w' = {}"
proof -
  let ?x = "zeroTransaction\<lparr>t_ID := 1, t_Hash := ''t1'', t_BlockHashID := Some MempoolBlockHash, t_InputCount := 1, t_OutputCount := 2\<rparr>"
  obtain w' where run: "processTxSet demo_env demo_order newMempoolBlock demo_pool demo_fetched (Some zeroBlock) [] demo_cut = (Ok False, w')"
    by (simp add: processTxSet_def demo_pool_def to_u64_def zeroBlock_def processMempoolTx_def found_def attempt_def oneG_def
        stmt_def bind_def demo_cut_def demo_world_def first_row_def demo_order_def)
  have "pool_ok demo_fetched demo_cut"
    by (simp add: pool_ok_def rows_ok_def outs_ok_def ins_ok_def demo_cut_def demo_world_def demo_fetched_def honest_faults_def
        leftovers_def vouts_of_def inkeys_def outputT.wf_empty inputT.wf_empty txT.wf_table_def transaction_clash_def)
      (simp add: emptyTable_def)
  moreover have "fetched demo_fetched" by (simp add: fetched_def demo_fetched_def demo_json_def)
  moreover have "set (mapOrder demo_order xs) \<subseteq> set xs" for xs by (simp add: demo_order_def)
  ultimately have "kept ''t1'' demo_cut w'"
    using processTxSet_settled [OF run order_ok_demo, of ?x] by (simp add: demo_cut_def)
  moreover have "vouts_of ''t1'' demo_cut = {}" by (simp add: demo_cut_def demo_world_def vouts_of_def emptyTable_def)
  ultimately show ?thesis using run by (auto simp: kept_def demo_json_def demo_vout_def)
qed

end
