(* ===== verification/BlockSync_Abort.thy ===== *)
theory BlockSync_Abort
  imports BlockSync_Spec
begin

text \<open>
  What a block run leaves in the database when it fails: the tables stay well formed, the transactions of the block hold only
  rows their JSON announces, and the cleanup takes back the marks its inputs left on outputs. So the hypotheses under
  which the next attempt completes the block hold again.
\<close>

section \<open>The cleanup of an aborted block\<close>

definition reset_spent :: "nat list \<Rightarrow> Output \<Rightarrow> Output" where
  "reset_spent ids x = (if spent_by ids x then x\<lparr>o_IsSpent := False, o_SpentByInputID := None\<rparr> else x)"

lemma reset_spent [simp]: "o_ID (reset_spent ids x) = o_ID x" "o_Vout (reset_spent ids x) = o_Vout x"
  "o_TransactionHash (reset_spent ids x) = o_TransactionHash x" "\<not> spent_by ids (reset_spent ids x)"
  by (simp_all add: reset_spent_def spent_by_def)

text \<open>The inputs and transactions stay, and of the outputs at most the marks of a spend are taken back.\<close>

definition cleaned :: "world \<Rightarrow> world \<Rightarrow> bool" where
  "cleaned w w' \<longleftrightarrow> inputs w' = inputs w \<and> transactions w' = transactions w \<and> blocks w' = blocks w \<and> fault w' = fault w \<and>
     nextID (outputs w') = nextID (outputs w) \<and>
     map (\<lambda>x. (o_ID x, o_TransactionHash x, o_Vout x)) (rows (outputs w')) = map (\<lambda>x. (o_ID x, o_TransactionHash x, o_Vout x)) (rows (outputs w))"

interpretation cleanR: db_relation cleaned
  by unfold_locales (auto simp: cleaned_def)

lemma cleanup_cleaned: "within cleaned (cleanupAbortedBlockTransactions txIDs)"
  unfolding cleanupAbortedBlockTransactions_def
proof (intro cleanR.cond cleanR.bind cleanR.query cleanR.ret cleanR.fail)
  fix ids
  have "map (\<lambda>x. (o_ID x, o_TransactionHash x, o_Vout x)) (map (reset_spent ids) xs) = map (\<lambda>x. (o_ID x, o_TransactionHash x, o_Vout x)) xs" for xs
    by simp
  then show "within cleaned (stmt (\<lambda>w. (Ok (), w\<lparr>outputs := t_map (\<lambda>x. if spent_by ids x
      then x\<lparr>o_IsSpent := False, o_SpentByInputID := None\<rparr> else x) (outputs w)\<rparr>)))"
    unfolding reset_spent_def [symmetric] by (intro cleanR.stmt) (simp add: cleaned_def t_map_def)
qed

lemma wf_outputs_key:
  assumes "map (\<lambda>x. (o_ID x, o_TransactionHash x, o_Vout x)) (rows t') = map (\<lambda>x. (o_ID x, o_TransactionHash x, o_Vout x)) (rows t)"
    and "nextID t' = nextID t" and "outputT.wf_table t"
  shows "outputT.wf_table t'"
proof -
  let ?k = "\<lambda>x. (o_ID x, o_TransactionHash x, o_Vout x)"
  have set: "?k ` set (rows t') = ?k ` set (rows t)" using arg_cong [OF assms(1), of set] by simp
  have twin: "\<exists>y\<in>set (rows t). ?k x = ?k y" if "x \<in> set (rows t')" for x using imageI [OF that, of ?k] unfolding set by auto
  have "map o_ID (rows t') = map o_ID (rows t)" using arg_cong [OF assms(1), of "map fst"] by (simp add: comp_def)
  moreover have "0 < o_ID x \<and> o_ID x < nextID t" if "x \<in> set (rows t')" for x
    using twin [OF that] assms(3) by (auto simp: outputT.wf_table_def)
  moreover have "\<not> output_clash x y" if xy: "x \<in> set (rows t')" "y \<in> set (rows t')" "o_ID x \<noteq> o_ID y" for x y
  proof -
    obtain a b where "a \<in> set (rows t)" "?k x = ?k a" "b \<in> set (rows t)" "?k y = ?k b" using twin xy by meson
    then show ?thesis using assms(3) xy(3) by (auto simp: outputT.wf_table_def output_clash_def)
  qed
  ultimately show ?thesis using assms(2,3) by (simp add: outputT.wf_table_def)
qed

lemma cleaned_rows:
  assumes "cleaned w w'"
  shows "rows_ok w \<Longrightarrow> rows_ok w'" and "leftovers j w' = leftovers j w" and "transactions w' = transactions w"
proof -
  let ?k = "\<lambda>x. (o_ID x, o_TransactionHash x, o_Vout x)"
  have c: "inputs w' = inputs w" "transactions w' = transactions w" "fault w' = fault w"
    "nextID (outputs w') = nextID (outputs w)" "map ?k (rows (outputs w')) = map ?k (rows (outputs w))"
    using assms by (simp_all add: cleaned_def)
  show "transactions w' = transactions w" by (rule c(2))
  show "rows_ok w'" if "rows_ok w"
    using that wf_outputs_key [OF c(5,4)] by (simp add: rows_ok_def outs_ok_def ins_ok_def c honest_faults_def)
  have "vouts_of h v = (\<lambda>(i, g, n). n) ` {p \<in> set (map ?k (rows (outputs v))). fst (snd p) = h}" for h v
    by (auto simp: vouts_of_def image_iff) (metis fst_conv snd_conv)+
  then have "vouts_of h w' = vouts_of h w" for h by (simp only: c(5))
  then show "leftovers j w' = leftovers j w" by (simp add: leftovers_def inkeys_def c)
qed

lemma cleanup_unspends:
  assumes "cleanupAbortedBlockTransactions txIDs w = (Ok (), w')" and "txIDs \<noteq> []"
  shows "\<forall>x\<in>set (rows (outputs w')). \<not> spent_by (map i_ID (filter (\<lambda>i. i_TransactionHash i \<in> set txIDs) (rows (inputs w)))) x"
proof -
  let ?ids = "map i_ID (filter (\<lambda>i. i_TransactionHash i \<in> set txIDs) (rows (inputs w)))"
  show ?thesis
  proof (cases "?ids = []")
    case True
    then show ?thesis by (simp only: True) (simp add: spent_by_def split: option.split)
  next
    case False
    have "outputs w' = t_map (reset_spent ?ids) (outputs w)"
      using assms False unfolding cleanupAbortedBlockTransactions_def reset_spent_def [symmetric]
      by (auto simp: bind_Ok_iff stmt_def Let_def dest!: query_Ok split: if_splits option.splits)
    then show ?thesis by (simp add: t_map_def)
  qed
qed

text \<open>No output is marked as spent by an input of one of the transactions.\<close>

definition unspent :: "txid list \<Rightarrow> world \<Rightarrow> bool" where
  "unspent txIDs w \<longleftrightarrow>
     (\<forall>x\<in>set (rows (outputs w)). \<forall>i\<in>set (rows (inputs w)). i_TransactionHash i \<in> set txIDs \<longrightarrow> o_SpentByInputID x \<noteq> Some (i_ID i))"

lemma cleanup_unspent:
  assumes "cleanupAbortedBlockTransactions txIDs w = (Ok (), w')" and "txIDs \<noteq> []"
  shows "unspent txIDs w'"
proof -
  have "inputs w' = inputs w" using withinD [OF cleanup_cleaned assms(1)] by (simp add: cleaned_def)
  then show ?thesis using cleanup_unspends [OF assms] by (force simp: unspent_def spent_by_def split: option.splits)
qed

lemma run_result_unspent:
  assumes "run_result r = (Err e, w')" and "\<And>c. e \<noteq> Prefixed ''scheduler error'' c" and "order (graph (sched r)) \<noteq> []"
  shows "unspent (order (graph (sched r))) w'"
  using assms cleanup_unspent [of "order (graph (sched r))" "db r" w'] unfolding run_result_def
  by (auto split: option.splits prod.splits outcome.splits)

section \<open>A block can be tried again\<close>

text \<open>C4: However the synchronisation of a block's transactions ends, with success, with a fatal error of a transaction, a
  stop in the middle or a failed cleanup, the database is left well typed for the next attempt: the tables of transactions,
  outputs and inputs have unique keys, every transaction of the block holds only inputs and outputs its JSON announces, and no
  other row is filed under the block. These are the hypotheses under which processing the block completes it. And unless the
  cleanup itself failed or nothing was written at all, a failure leaves no output marked as spent by an input of the block.\<close>

theorem sync_keeps_block_clean:
  assumes f: "answers_ok txIDs hash f" and ev: "distinct arrived" "set arrived = {..<length txIDs}"
    and clean: "block_clean txIDs hash f w"
    and sync: "syncTransactionsDependencyAware E conf txIDs (answered f arrived) w res w'"
  shows "block_clean txIDs hash f w' \<and>
    (\<forall>e. res = Err e \<longrightarrow> (\<forall>c. e \<noteq> Prefixed ''scheduler error'' c) \<longrightarrow> w' = w \<or> unspent txIDs w')"
  using sync
proof (cases rule: syncTransactionsDependencyAware.cases)
  case (Run txs byID g r)
  note g = fetched_graph [OF f ev Run(1,2)]
  have ready: "block_ready g w" using g clean by (auto simp: block_ready_def block_clean_def)
  have inv: "run_inv conf g w r" by (rule run_inv_reachable [OF ready Run(4)])
  have ord: "order (graph (sched r)) = txIDs" using inv order_sched_inv [of conf g] g(1) by (simp add: run_inv_def)
  have db: "cleaned (db r) w'"
    using Run(6) withinD [OF cleanup_cleaned] cleanR.refl unfolding run_result_def
    by (auto split: option.splits prod.splits outcome.splits)
  have "t_Hash x \<in> set txIDs" if x: "x \<in> set (rows (transactions (db r)))" "t_BlockHashID x = Some hash" for x
  proof (rule ccontr)
    assume n: "t_Hash x \<notin> set txIDs"
    have "x \<in> set (tx_rows (t_Hash x) (db r))" using x(1) by (simp add: tx_rows_def)
    then have "x \<in> set (tx_rows (t_Hash x) w)" using inv g(4) n by (simp add: run_inv_def)
    then show False using clean x(2) n by (auto simp: block_clean_def tx_rows_def)
  qed
  then have "block_clean txIDs hash f w'"
    using inv g(3) cleaned_rows [OF db] by (auto simp: block_clean_def run_inv_def)
  moreover have "unspent txIDs w'" if "res = Err e" "\<forall>c. e \<noteq> Prefixed ''scheduler error'' c" for e
    using run_result_unspent [of r e w'] Run(3,6) that ord g(1) by simp
  ultimately show ?thesis by blast
qed (use clean in simp_all)

end
