(* ===== verification/BlockSync_Abort_Demo.thy ===== *)
theory BlockSync_Abort_Demo
  imports BlockSync_Abort BlockSync_Demo
begin

text \<open>A run of a block that a database error ends while its transaction is half stored.\<close>

lemma single_abort:
  assumes "ProcessTx E sch tx (blockTime conf) (blockHeight conf) w = (Err e, w')" and "order_ok sch"
    and "MaxParallelTxProcessing conf \<ge> 1" and "missingSourceOutputFromError e = None" and "\<not> isRetryableScheduledTxError e"
  shows "\<exists>r. block_reachable E conf (single_graph tx) w r \<and> \<not> looping (sched r) \<and> terminalErr (sched r) = Some e \<and> db r = w' \<and>
    order (graph (sched r)) = [tx_Txid tx]"
proof -
  let ?g = "single_graph tx" and ?never = "\<lambda>_::nat. False"
  let ?job = "\<lparr>job_tx = Some tx, job_blockTime = blockTime conf, job_blockHeight = blockHeight conf, job_failcount = 0\<rparr>"
  let ?s = "initSched ?g"
  have wc: "workerCount conf ?g = 1" using assms(3) by (simp add: workerCount_def single_graph_def Let_def Util.Min_def)
  have d: "dispatchPhase conf ?never ?never ?s = ?s\<lparr>graph := ?g\<lparr>ready := []\<rparr>, inflight := [?job], active := 1\<rparr>"
    using wc by (simp add: dispatchPhase_def dispatchReadyTransactions_def initSched_def single_graph_def Let_def)
  let ?s1 = "?s\<lparr>graph := ?g\<lparr>ready := []\<rparr>, inflight := [?job], active := 1\<rparr>"
  let ?res = "\<lparr>res_tx = tx, res_blockTime = blockTime conf, res_blockHeight = blockHeight conf, res_err = Some e, res_failcount = 1\<rparr>"
  let ?s2 = "onResult conf False ?res (?s1\<lparr>inflight := remove_nth 0 (inflight ?s1)\<rparr>)"
  let ?r0 = "initRun ?g w"
  let ?r1 = "?r0\<lparr>db := w', processed := [(tx_Txid tx, Some e)]\<rparr>"
  have more: "more_to_do ?s" by (simp add: more_to_do_def initSched_def single_graph_def)
  have out: "jobs_out conf ?s ?job" unfolding jobs_out_def by (intro exI) (subst d, simp)
  from block_step.Work [of ?r0 conf ?job tx sch E "Err e" w']
  have 1: "block_step E conf ?r0 ?r1"
    using more out assms(1,2) by (simp add: initRun_def answer_def)
  have step: "sched_step conf ?s ?s2"
    by (rule sched_step.Result [OF more d [symmetric], where err = "Some e"])
      (simp_all add: stalled_def initSched_def runScheduledTxWorker_def)
  have s2: "\<not> completed (graph ?s2) t" "completedCount ?s2 = 0" "order (graph ?s2) = [tx_Txid tx]" "looping ?s2" "terminalErr ?s2 = Some e"
    "active ?s2 = 0" "ready (graph ?s2) = []" for t
    using assms(4,5) by (simp_all add: onResult_def initSched_def single_graph_def handleScheduledTxError_def Let_def)
  have 2: "block_step E conf ?r1 (?r1\<lparr>sched := ?s2\<rparr>)"
    by (rule block_step.Loop) (use step s2(1) in \<open>auto simp: initRun_def\<close>)
  have d2: "dispatchPhase conf ?never ?never ?s2 = ?s2"
    using s2(5,7) by (simp add: dispatchPhase_def dispatchReadyTransactions_def)
  have more2: "more_to_do ?s2" using s2 by (simp add: more_to_do_def)
  have 3: "block_step E conf (?r1\<lparr>sched := ?s2\<rparr>) (?r1\<lparr>sched := ?s2\<lparr>looping := False\<rparr>\<rparr>)"
    using block_step.Loop [of conf "?r1\<lparr>sched := ?s2\<rparr>" "?s2\<lparr>looping := False\<rparr>" E]
      sched_step.Break [OF more2 d2 [symmetric]] s2 by simp
  let ?r3 = "?r1\<lparr>sched := ?s2\<lparr>looping := False\<rparr>\<rparr>"
  have "block_reachable E conf ?g w ?r3"
    using 1 2 3 unfolding block_reachable_def by (meson converse_rtranclp_into_rtranclp r_into_rtranclp)
  then show ?thesis using s2 by (intro exI [of _ ?r3]) simp
qed

definition demo_broken :: world where
  "demo_broken = demo_world\<lparr>fault := (\<lambda>k. if k = 22 then Some (MySQLError 1062) else None)\<rparr>"

definition demo_stopped :: "unit outcome \<times> world" where
  "demo_stopped = ProcessTx demo_env demo_order demo_single 7 1 demo_broken"

lemma demo_stopped: "fst demo_stopped = Err (Prefixed ''Vout Error->'' (Prefixed ''Datastore(PUTOUTPUT)'' (MySQLError 1062)))"
  "length (rows (outputs (snd demo_stopped))) = 1"
  by code_simp+

lemma demo_cleanup: "fst (cleanupAbortedBlockTransactions [''t1''] (snd demo_stopped)) = Ok ()"
  by code_simp

lemma demo_broken_clean: "block_clean [''t1''] ''b1'' (\<lambda>_. demo_single) demo_broken"
  by (simp add: block_clean_def rows_ok_def outs_ok_def ins_ok_def demo_broken_def demo_world_def demo_single_def honest_faults_def
      leftovers_def vouts_of_def inkeys_def outputT.wf_empty inputT.wf_empty txT.wf_empty) (simp add: emptyTable_def)

theorem sync_keeps_block_clean_witness:
  "\<exists>res w'. syncTransactionsDependencyAware demo_env (demo_conf_at 7 1) [''t1''] (answered (\<lambda>_. demo_single) [0]) demo_broken res w' \<and>
     res = Err (Prefixed ''Vout Error->'' (Prefixed ''Datastore(PUTOUTPUT)'' (MySQLError 1062))) \<and> length (rows (outputs w')) = 1 \<and>
     block_clean [''t1''] ''b1'' (\<lambda>_. demo_single) w' \<and> (w' = demo_broken \<or> unspent [''t1''] w')"
proof -
  let ?e = "Prefixed ''Vout Error->'' (Prefixed ''Datastore(PUTOUTPUT)'' (MySQLError 1062))"
  have v: "tx_Vin demo_single = [demo_vin '''']" "vin_TxID (demo_vin '''') \<noteq> tx_Txid demo_single" "tx_Txid demo_single = ''t1''"
    by (simp_all add: demo_single_def Transactions_Spec.demo_json_def demo_vin_def)
  have "claimGraphEvents (ext demo_env) demo_single = []" by code_simp
  note g = single_graph [OF v(1,2) this]
  have p: "ProcessTx demo_env demo_order demo_single 7 1 demo_broken = (Err ?e, snd demo_stopped)"
    using demo_stopped(1) by (simp add: demo_stopped_def prod_eq_iff)
  have e: "missingSourceOutputFromError ?e = None" "\<not> isRetryableScheduledTxError ?e" by code_simp+
  obtain r where r: "block_reachable demo_env (demo_conf_at 7 1) (single_graph demo_single) demo_broken r" "\<not> looping (sched r)"
    "terminalErr (sched r) = Some ?e" "db r = snd demo_stopped" "order (graph (sched r)) = [''t1'']"
    using single_abort [of demo_env demo_order demo_single "demo_conf_at 7 1" demo_broken, OF _ order_ok_demo _ e] p v(3)
    by (auto simp: demo_conf_at_def)
  obtain res w' where res: "run_result r = (res, w')" by (cases "run_result r")
  have fetch: "fetchBlockRawTransactions [''t1''] (answered (\<lambda>_. demo_single) [0]) = Some (Ok ([Some demo_single], [tx_Txid demo_single \<mapsto> demo_single]))"
    by (simp add: fetchBlockRawTransactions_def answered_def fetchLoop.simps v)
  have sync: "syncTransactionsDependencyAware demo_env (demo_conf_at 7 1) [''t1''] (answered (\<lambda>_. demo_single) [0]) demo_broken res w'"
    by (rule syncTransactionsDependencyAware.Run [OF fetch g _ r(1,2) res]) (simp add: single_graph_def)
  have ans: "answers_ok [''t1''] ''b1'' (\<lambda>_. demo_single)"
    by (simp add: answers_ok_def demo_single_def Transactions_Spec.demo_json_def demo_vout_def)
  have out: "res = Err ?e" "cleaned (db r) w'"
    using res r(3,4,5) demo_cleanup withinD [OF cleanup_cleaned] by (auto simp: run_result_def split: prod.splits outcome.splits)
  have "block_clean [''t1''] ''b1'' (\<lambda>_. demo_single) w' \<and> (w' = demo_broken \<or> unspent [''t1''] w')"
    using sync_keeps_block_clean [OF ans _ _ demo_broken_clean sync] out(1) by (simp add: lessThan_Suc)
  moreover have "length (rows (outputs w')) = 1"
    using out(2) demo_stopped(2) r(4) arg_cong [of _ _ length] by (fastforce simp: cleaned_def dest: map_eq_imp_length_eq)
  ultimately show ?thesis using sync out(1) by blast
qed

end
