(* ===== verification/Validation.thy ===== *)
theory Validation
  imports ClaimTrie
begin

text \<open>
  \<^verbatim>\<open>daemon/jobs/chainvalidation.go\<close>: comparing a range of heights with what the node reports. The heights are those of a
  chain, far below the largest \<^verbatim>\<open>uint64\<close>.
\<close>

record BlockData =
  bd_Block :: nat
  bd_TxHash :: string
  bd_MissingOutputs :: int
  bd_MissingInputs :: int

text \<open>The loop over the transactions of the table keeps the last one that matches.\<close>

definition recordedTx :: "string \<Rightarrow> Transaction list \<Rightarrow> Transaction option" where
  "recordedTx lbryTxHash txs = find (\<lambda>t. t_Hash t = lbryTxHash) (rev txs)"

fun checkTxs :: "node \<Rightarrow> nat \<Rightarrow> BlockData list \<Rightarrow> string list \<Rightarrow> Transaction list \<Rightarrow> BlockData list db" where
  "checkTxs N height missingData [] txs = ret missingData"
| "checkTxs N height missingData (lbryTxHash # hs) txs =
     (case recordedTx lbryTxHash txs of
        Some tx \<Rightarrow>
          bind (rpc (\<lambda>i. getRawTransaction N i lbryTxHash)) (\<lambda>lbryTx.
          bind (query (\<lambda>w. length (filter (\<lambda>x. o_TransactionID x = t_ID tx) (rows (outputs w))))) (\<lambda>nrOutputs.
          bind (query (\<lambda>w. length (filter (\<lambda>x. i_TransactionID x = t_ID tx) (rows (inputs w))))) (\<lambda>nrInputs.
            if nrOutputs \<noteq> length (tx_Vout lbryTx) \<or> nrInputs \<noteq> length (tx_Vin lbryTx)
            then checkTxs N height (missingData @ [\<lparr>bd_Block = height, bd_TxHash = lbryTxHash,
                   bd_MissingOutputs = int (length (tx_Vout lbryTx)) - int nrOutputs,
                   bd_MissingInputs = int (length (tx_Vin lbryTx)) - int nrInputs\<rparr>]) hs txs
            else checkTxs N height missingData hs txs)))
      | None \<Rightarrow>
          checkTxs N height (missingData @ [\<lparr>bd_Block = height, bd_TxHash = lbryTxHash, bd_MissingOutputs = 0,
            bd_MissingInputs = 0\<rparr>]) hs txs)"

text \<open>One height. The row is read before the code looks whether it exists.\<close>

definition validateHeight :: "node \<Rightarrow> nat \<Rightarrow> BlockData list \<Rightarrow> BlockData list db" where
  "validateHeight N height missingData =
     bind (query (\<lambda>w. first_row (\<lambda>b. b_Height b = height) (blocks w) \<noteq> None)) (\<lambda>haveBlock.
     bind (oneG (\<lambda>w. first_row (\<lambda>b. b_Height b = height) (blocks w))) (\<lambda>block.
       if haveBlock then
         bind (rpc (\<lambda>i. getBlockHash N i height)) (\<lambda>hash.
         bind (rpc (\<lambda>i. getBlock N i hash)) (\<lambda>lbryBlock.
         bind (query (\<lambda>w. filter (\<lambda>t. t_BlockHashID t = Some (b_Hash block)) (rows (transactions w)))) (\<lambda>txs.
           checkTxs N (to_u64 (bl_Height lbryBlock)) missingData (bl_Tx lbryBlock) txs)))
       else ret (missingData @ [\<lparr>bd_Block = height, bd_TxHash = '''', bd_MissingOutputs = 0, bd_MissingInputs = 0\<rparr>])))"

function validateLoop :: "node \<Rightarrow> nat \<Rightarrow> nat \<Rightarrow> BlockData list \<Rightarrow> BlockData list db" where
  "validateLoop N from to missingData =
     (if from \<le> to then bind (validateHeight N from missingData) (\<lambda>missingData. validateLoop N (from + 1) to missingData)
      else ret missingData)"
  by pat_completeness auto
termination by (relation "measure (\<lambda>(N, from, to, missingData). to + 1 - from)") auto

declare validateLoop.simps [simp del]

text \<open>\<open>currHeight\<close> is \<^verbatim>\<open>GetBlockCount\<close>, asked when no end is given.\<close>

definition ValidateChainRange :: "node \<Rightarrow> (nat \<Rightarrow> goerr + nat) \<Rightarrow> nat option \<Rightarrow> nat option \<Rightarrow> BlockData list db" where
  "ValidateChainRange N currHeight from to =
     bind (case to of Some t \<Rightarrow> ret t | None \<Rightarrow> rpc currHeight) (\<lambda>to.
       validateLoop N (case from of Some f \<Rightarrow> f | None \<Rightarrow> 0) to [])"

section \<open>The job\<close>

definition chainValidationJob :: string where "chainValidationJob = ''chainvalidationjob''"

text \<open>\<open>errText\<close> and \<open>missingText\<close> are the texts of an error and of a number of differences. Nothing sets \<^verbatim>\<open>validatingChain\<close>, so every call
  starts a run; the result of a run is not marked as a success either.\<close>

definition ValidateChain :: "(goerr \<Rightarrow> string) \<Rightarrow> (nat \<Rightarrow> string) \<Rightarrow> node \<Rightarrow> (nat \<Rightarrow> goerr + nat) \<Rightarrow> unit db" where
  "ValidateChain errText missingText N currHeight =
     bind (attempt (bind (query (\<lambda>w. chainValidationJob \<in> js_JobName ` set (jobStatuses w))) (\<lambda>ex.
       if \<not> ex then ret (zeroJobStatus\<lparr>js_JobName := chainValidationJob\<rparr>)
       else oneG (\<lambda>w. find (\<lambda>j. js_JobName j = chainValidationJob) (jobStatuses w))))) (\<lambda>r.
       case r of
         Inl _ \<Rightarrow> ret ()
       | Inr job \<Rightarrow>
           bind (attempt (ValidateChainRange N currHeight (Some 0) None)) (\<lambda>r2.
             let job = (case r2 of
                   Inl e \<Rightarrow> job\<lparr>js_ErrorMessage := Some (errText e), js_IsSuccess := False\<rparr>
                 | Inr missingData \<Rightarrow>
                     if missingData \<noteq> [] then job\<lparr>js_ErrorMessage := Some (missingText (length missingData))\<rparr> else job)
             in (\<lambda>w. bind (attempt (JobStatus_UpsertG (job\<lparr>js_LastSync := clock w\<rparr>))) (\<lambda>_. ret ()) w)))"

end
