(* ===== verification/Validation_Spec.thy ===== *)
theory Validation_Spec
  imports Validation Blocks_Spec Transactions_Spec
begin

text \<open>The validation of a range reports nothing exactly when the tables agree with the node there.\<close>

section \<open>Reading\<close>

definition reading :: "world \<Rightarrow> world \<Rightarrow> bool" where
  "reading w w' \<longleftrightarrow> w' = w\<lparr>stmts := stmts w', rpcs := rpcs w'\<rparr>"

lemma reading_tables: "reading w w' \<Longrightarrow> blocks w' = blocks w \<and> transactions w' = transactions w \<and> outputs w' = outputs w \<and> inputs w' = inputs w"
  by (cases w; cases w') (simp add: reading_def)

lemma reading_refl: "reading w w"
  by (simp add: reading_def)

lemma reading_trans: "reading u v \<Longrightarrow> reading v w \<Longrightarrow> reading u w"
  by (cases u; cases v; cases w) (simp add: reading_def)

lemma reading_tick: "reading w (tick w)"
  by (cases w) (simp add: reading_def)

lemma rpc_Ok: "rpc f w = (Ok x, w') \<Longrightarrow> reading w w' \<and> f (rpcs w) = Inr x"
  by (cases w) (auto simp: rpc_def reading_def split: sum.splits)

section \<open>Agreement with the node\<close>

text \<open>A node whose answers do not change while a range is checked.\<close>

record chainView =
  hashAt :: "nat \<Rightarrow> string"
  blockOf :: "string \<Rightarrow> GetBlockResponse"
  txOf :: "txid \<Rightarrow> TxRawResult"

definition answers :: "node \<Rightarrow> chainView \<Rightarrow> bool" where
  "answers N V \<longleftrightarrow> (\<forall>i h x. getBlockHash N i h = Inr x \<longrightarrow> x = hashAt V h) \<and> (\<forall>i h x. getBlock N i h = Inr x \<longrightarrow> x = blockOf V h) \<and>
     (\<forall>i t x. getRawTransaction N i t = Inr x \<longrightarrow> x = txOf V t)"

definition counts_agree :: "chainView \<Rightarrow> world \<Rightarrow> string \<Rightarrow> Transaction \<Rightarrow> bool" where
  "counts_agree V w h t \<longleftrightarrow> length (filter (\<lambda>x. o_TransactionID x = t_ID t) (rows (outputs w))) = length (tx_Vout (txOf V h)) \<and>
     length (filter (\<lambda>x. i_TransactionID x = t_ID t) (rows (inputs w))) = length (tx_Vin (txOf V h))"

definition height_agrees :: "chainView \<Rightarrow> world \<Rightarrow> nat \<Rightarrow> bool" where
  "height_agrees V w height \<longleftrightarrow> (\<exists>b. first_row (\<lambda>b. b_Height b = height) (blocks w) = Some b \<and>
     (\<forall>h\<in>set (bl_Tx (blockOf V (hashAt V height))). \<exists>t\<in>set (rows (transactions w)).
        t_Hash t = h \<and> t_BlockHashID t = Some (b_Hash b) \<and> counts_agree V w h t))"

lemma reading_agrees: "reading w w' \<Longrightarrow> counts_agree V w' = counts_agree V w \<and> height_agrees V w' = height_agrees V w"
  using reading_tables [of w w'] by (simp add: counts_agree_def [abs_def] height_agrees_def [abs_def])

lemma checkTxs_agree:
  assumes "answers N V" and "checkTxs N height md hs txs w = (Ok md', w')"
  shows "reading w w' \<and> (md' = [] \<longleftrightarrow> md = [] \<and> (\<forall>h\<in>set hs. \<exists>t. recordedTx h txs = Some t \<and> counts_agree V w h t))"
  using assms(2)
proof (induction hs arbitrary: md w)
  case Nil
  then show ?case by (simp add: reading_refl)
next
  case (Cons h hs)
  show ?case
  proof (cases "recordedTx h txs")
    case None
    then show ?thesis using Cons.IH [of _ w] Cons.prems by auto
  next
    case (Some t)
    obtain raw w1 n w2 m w3 where 1: "rpc (\<lambda>i. getRawTransaction N i h) w = (Ok raw, w1)"
      and 2: "query (\<lambda>w. length (filter (\<lambda>x. o_TransactionID x = t_ID t) (rows (outputs w)))) w1 = (Ok n, w2)"
      and 3: "query (\<lambda>w. length (filter (\<lambda>x. i_TransactionID x = t_ID t) (rows (inputs w)))) w2 = (Ok m, w3)"
      and rest: "(if n \<noteq> length (tx_Vout raw) \<or> m \<noteq> length (tx_Vin raw)
        then checkTxs N height (md @ [\<lparr>bd_Block = height, bd_TxHash = h, bd_MissingOutputs = int (length (tx_Vout raw)) - int n,
          bd_MissingInputs = int (length (tx_Vin raw)) - int m\<rparr>]) hs txs
        else checkTxs N height md hs txs) w3 = (Ok md', w')"
      using Cons.prems unfolding checkTxs.simps Some option.case bind_Ok_iff by blast
    note q = query_Ok [OF 2] query_Ok [OF 3]
    have r: "reading w w1" "raw = txOf V h" using rpc_Ok [OF 1] assms(1) by (auto simp: answers_def)
    have r2: "reading w w3" using r(1) q reading_tick reading_trans by metis
    have agree: "counts_agree V w h t \<longleftrightarrow> n = length (tx_Vout raw) \<and> m = length (tx_Vin raw)"
      using reading_tables [OF r(1)] q by (simp add: counts_agree_def r(2))
    show ?thesis
      using rest Cons.IH [of _ w3] reading_agrees [OF r2] reading_trans [OF r2] agree Some by (auto split: if_splits)
  qed
qed

lemma find_mem: "find P xs = Some x \<Longrightarrow> x \<in> set xs \<and> P x"
  by (induction xs) (auto split: if_splits)

lemma recordedTx_row:
  assumes "txT.wf_table T"
  shows "(\<exists>t. recordedTx h (filter P (rows T)) = Some t \<and> Q t) \<longleftrightarrow> (\<exists>t\<in>set (rows T). t_Hash t = h \<and> P t \<and> Q t)"
proof
  assume "\<exists>t. recordedTx h (filter P (rows T)) = Some t \<and> Q t"
  then obtain t where t: "find (\<lambda>t. t_Hash t = h) (rev (filter P (rows T))) = Some t" "Q t" by (auto simp: recordedTx_def)
  have "t \<in> set (rev (filter P (rows T)))" "t_Hash t = h" using find_mem [OF t(1)] by simp_all
  then show "\<exists>t\<in>set (rows T). t_Hash t = h \<and> P t \<and> Q t" using t(2) by auto
next
  assume "\<exists>t\<in>set (rows T). t_Hash t = h \<and> P t \<and> Q t"
  then obtain t where t: "t \<in> set (rows T)" "t_Hash t = h" "P t" "Q t" by blast
  have same: "x = t" if "x \<in> set (rows T)" "t_Hash x = h" for x
  proof -
    have "t_ID x = t_ID t" using that t(1,2) assms unfolding txT.wf_table_def transaction_clash_def by metis
    then show ?thesis using that(1) t(1) assms by (simp add: txT.wf_table_def distinct_map inj_on_def)
  qed
  have "find (\<lambda>t. t_Hash t = h) (rev (filter P (rows T))) \<noteq> None" using t by (auto simp: find_None_iff)
  then obtain x where x: "find (\<lambda>t. t_Hash t = h) (rev (filter P (rows T))) = Some x" by blast
  then have "x \<in> set (rev (filter P (rows T)))" "t_Hash x = h" using find_mem [OF x] by simp_all
  then have "x = t" using same by auto
  then show "\<exists>t. recordedTx h (filter P (rows T)) = Some t \<and> Q t" using x t(4) by (auto simp: recordedTx_def)
qed

lemma validateHeight_agree:
  assumes "answers N V" and "txT.wf_table (transactions w)" and "validateHeight N h md w = (Ok md', w')"
  shows "reading w w' \<and> (md' = [] \<longleftrightarrow> md = [] \<and> height_agrees V w h)"
proof -
  obtain have_block w1 b w2 where 1: "query (\<lambda>w. first_row (\<lambda>b. b_Height b = h) (blocks w) \<noteq> None) w = (Ok have_block, w1)"
    and 2: "oneG (\<lambda>w. first_row (\<lambda>b. b_Height b = h) (blocks w)) w1 = (Ok b, w2)"
    and rest: "(if have_block then bind (rpc (\<lambda>i. getBlockHash N i h)) (\<lambda>hash.
         bind (rpc (\<lambda>i. getBlock N i hash)) (\<lambda>lbryBlock.
         bind (query (\<lambda>w. filter (\<lambda>t. t_BlockHashID t = Some (b_Hash b)) (rows (transactions w)))) (\<lambda>txs.
           checkTxs N (to_u64 (bl_Height lbryBlock)) md (bl_Tx lbryBlock) txs)))
       else ret (md @ [\<lparr>bd_Block = h, bd_TxHash = '''', bd_MissingOutputs = 0, bd_MissingInputs = 0\<rparr>])) w2 = (Ok md', w')"
    using assms(3) unfolding validateHeight_def bind_Ok_iff by blast
  note q = query_Ok [OF 1] oneG_OkD [OF 2]
  have b: "first_row (\<lambda>b. b_Height b = h) (blocks w) = Some b" and have_block using q by simp_all
  obtain hash w3 jb w4 txs w5 where 3: "rpc (\<lambda>i. getBlockHash N i h) w2 = (Ok hash, w3)"
    and 4: "rpc (\<lambda>i. getBlock N i hash) w3 = (Ok jb, w4)"
    and 5: "query (\<lambda>w. filter (\<lambda>t. t_BlockHashID t = Some (b_Hash b)) (rows (transactions w))) w4 = (Ok txs, w5)"
    and 6: "checkTxs N (to_u64 (bl_Height jb)) md (bl_Tx jb) txs w5 = (Ok md', w')"
    using rest \<open>have_block\<close> by (simp only: if_True bind_Ok_iff) blast
  have r4: "reading w w4" using q rpc_Ok [OF 3] rpc_Ok [OF 4] reading_tick reading_trans by metis
  then have r5: "reading w w5" using query_Ok [OF 5] reading_tick reading_trans by metis
  have txs: "txs = filter (\<lambda>t. t_BlockHashID t = Some (b_Hash b)) (rows (transactions w))"
    using query_Ok [OF 5] reading_tables [OF r4] by simp
  have jb: "jb = blockOf V (hashAt V h)" using rpc_Ok [OF 3] rpc_Ok [OF 4] assms(1) by (auto simp: answers_def)
  show ?thesis
    using checkTxs_agree [OF assms(1) 6] reading_trans [OF r5] reading_agrees [OF r5] recordedTx_row [OF assms(2)]
    by (simp add: height_agrees_def b jb txs)
qed

lemma validateLoop_agree:
  assumes "answers N V" and "txT.wf_table (transactions w)" and "validateLoop N lo hi md w = (Ok md', w')"
  shows "reading w w' \<and> (md' = [] \<longleftrightarrow> md = [] \<and> (\<forall>h\<in>{lo..hi}. height_agrees V w h))"
  using assms(2,3)
proof (induction "hi + 1 - lo" arbitrary: lo md w)
  case 0
  then show ?case by (subst (asm) validateLoop.simps) (simp add: reading_refl)
next
  case (Suc n)
  then have lo: "lo \<le> hi" by simp
  obtain md1 w1 where 1: "validateHeight N lo md w = (Ok md1, w1)" and 2: "validateLoop N (lo + 1) hi md1 w1 = (Ok md', w')"
    using Suc.prems(2) lo by (subst (asm) validateLoop.simps) (auto simp: bind_Ok_iff)
  note h = validateHeight_agree [OF assms(1) Suc.prems(1) 1]
  have "txT.wf_table (transactions w1)" using Suc.prems(1) reading_tables h by metis
  then have "reading w1 w' \<and> (md' = [] \<longleftrightarrow> md1 = [] \<and> (\<forall>h\<in>{lo + 1..hi}. height_agrees V w1 h))"
    using Suc.hyps(1) [of "lo + 1" w1 md1] Suc.hyps(2) 2 by simp
  moreover have "{lo..hi} = insert lo {lo + 1..hi}" using lo by auto
  ultimately show ?case using h reading_agrees [of w w1] reading_trans [of w w1 w'] by auto
qed

text \<open>C18: The validation of a range of heights is exact: on a well formed table of transactions and while the node keeps its answers, a
  run that returns reports no difference exactly when every height of the range is stored and every transaction the node lists
  for it has a row under that block with the reported numbers of outputs and inputs. The validation writes nothing.\<close>

theorem ValidateChainRange_exact:
  assumes "answers N V" and "txT.wf_table (transactions w)"
    and "ValidateChainRange N currHeight (Some lo) (Some hi) w = (Ok missingData, w')"
  shows "(missingData = [] \<longleftrightarrow> (\<forall>h\<in>{lo..hi}. height_agrees V w h)) \<and> reading w w'"
proof -
  have "validateLoop N lo hi [] w = (Ok missingData, w')" using assms(3) by (simp add: ValidateChainRange_def bind_def)
  from validateLoop_agree [OF assms(1,2) this] show ?thesis by simp
qed

text \<open>A transaction whose outputs and input are not stored.\<close>

definition demo_view :: chainView where
  "demo_view = \<lparr>hashAt = (\<lambda>_. ''b1''), blockOf = (\<lambda>_. (Blocks_Spec.demo_json ''b1'' '''')\<lparr>bl_Tx := [''t1'']\<rparr>),
     txOf = (\<lambda>_. Transactions_Spec.demo_json ''t1'' [demo_vin ''''])\<rparr>"

definition demo_teller :: node where
  "demo_teller = \<lparr>getBlockHash = (\<lambda>_ h. Inr (hashAt demo_view h)), getBlock = (\<lambda>_ h. Inr (blockOf demo_view h)),
     getRawTransaction = (\<lambda>_ t. Inr (txOf demo_view t))\<rparr>"

definition demo_gap :: world where
  "demo_gap = demo_world\<lparr>blocks := \<lparr>rows = [demo_block 1 7 ''b1''], nextID = 2\<rparr>,
     transactions := \<lparr>rows = [zeroTransaction\<lparr>t_ID := 1, t_Hash := ''t1'', t_BlockHashID := Some ''b1''\<rparr>], nextID = 2\<rparr>\<rparr>"

theorem ValidateChainRange_exact_witness:
  "\<exists>md w'. ValidateChainRange demo_teller (\<lambda>_. Inr 7) (Some 7) (Some 7) demo_gap = (Ok md, w') \<and>
     map (\<lambda>d. (bd_TxHash d, bd_MissingOutputs d, bd_MissingInputs d)) md = [(''t1'', 2, 1)] \<and> \<not> height_agrees demo_view demo_gap 7"
proof -
  obtain md w' where run: "ValidateChainRange demo_teller (\<lambda>_. Inr 7) (Some 7) (Some 7) demo_gap = (Ok md, w')"
    and md: "map (\<lambda>d. (bd_TxHash d, bd_MissingOutputs d, bd_MissingInputs d)) md = [(''t1'', 2, 1)]"
    by (simp add: ValidateChainRange_def validateLoop.simps validateHeight_def query_def oneG_def stmt_def rpc_def bind_def demo_gap_def
        demo_world_def first_row_def demo_block_def zeroBlock_def demo_teller_def demo_view_def recordedTx_def emptyTable_def
        Blocks_Spec.demo_json_def Transactions_Spec.demo_json_def demo_vout_def)
  have "answers demo_teller demo_view" by (simp add: answers_def demo_teller_def)
  moreover have "txT.wf_table (transactions demo_gap)" by (simp add: txT.wf_table_def demo_gap_def)
  ultimately have "md = [] \<longleftrightarrow> (\<forall>h\<in>{7..7}. height_agrees demo_view demo_gap h)" using ValidateChainRange_exact [OF _ _ run] by blast
  then show ?thesis using run md by auto
qed

end
