(* ===== verification/CertSync.thy ===== *)
theory CertSync
  imports ClaimMeta Blocks
begin

text \<open>
  Two jobs that look again at claims: \<^verbatim>\<open>daemon/jobs/certificatesync.go\<close> checks the signatures of claims published in a channel,
  \<^verbatim>\<open>daemon/jobs/outputfixsync.go\<close> takes back claims that are wrongly marked as spent. The cryptography is a parameter, and so
  is the order in which the database returns rows.
\<close>

section \<open>Certificates\<close>

record signatures =
  outpointHash :: "string \<Rightarrow> nat \<Rightarrow> goerr + string"
  validateSignature :: "StakeHelper option \<Rightarrow> StakeHelper option \<Rightarrow> string \<Rightarrow> string \<Rightarrow> bool \<times> goerr option"

record claimToBeSynced =
  cs_ID :: nat
  cs_SignedClaimHex :: string
  cs_SignedClaimAddress :: string
  cs_TransactionHashUpdate :: string
  cs_ChannelHex :: string
  cs_ChannelClaimID :: string
  cs_FirstInputTxHash :: string
  cs_FirstInputTxOPosition :: nat

definition certsProcessedPerIteration :: nat where "certsProcessedPerIteration = 1000"

text \<open>The rows of the join of unprocessed claims with their channels.\<close>

definition toBeSynced :: "Claim \<Rightarrow> Claim \<Rightarrow> string \<Rightarrow> claimToBeSynced" where
  "toBeSynced claim channel txUpdate = \<lparr>cs_ID = c_ID claim, cs_SignedClaimHex = c_ValueAsHex claim,
     cs_SignedClaimAddress = c_ClaimAddress claim, cs_TransactionHashUpdate = txUpdate, cs_ChannelHex = c_ValueAsHex channel,
     cs_ChannelClaimID = c_ClaimID channel, cs_FirstInputTxHash = '''', cs_FirstInputTxOPosition = 0\<rparr>"

definition unprocessed :: "world \<Rightarrow> (Claim \<times> Claim) list" where
  "unprocessed w = filter (\<lambda>(claim, channel). c_PublisherID claim = Some (c_ClaimID channel) \<and> \<not> c_IsCertProcessed claim)
     (List.product (rows (claims w)) (rows (claims w)))"

text \<open>A null hash cannot be read into the string of the struct and fails the query.\<close>

fun bindRows :: "(Claim \<times> Claim) list \<Rightarrow> claimToBeSynced list outcome" where
  "bindRows [] = Ok []"
| "bindRows ((claim, channel) # rs) =
     (case c_TransactionHashUpdate claim of
        None \<Rightarrow> Err (Msg ''converting NULL to string is unsupported'')
      | Some t \<Rightarrow> andThen (bindRows rs) (\<lambda>xs. Ok (toBeSynced claim channel t # xs)))"

definition getClaimsToBeSynced :: "((Claim \<times> Claim) list \<Rightarrow> (Claim \<times> Claim) list) \<Rightarrow> claimToBeSynced list db" where
  "getClaimsToBeSynced joinOrder =
     stmt (\<lambda>w. (bindRows (take certsProcessedPerIteration (joinOrder (unprocessed w))), w))"

definition first_input :: "string \<Rightarrow> Input \<Rightarrow> bool" where
  "first_input txHash i \<longleftrightarrow> i_TransactionHash i = txHash \<and> i_Vin i = Some 0"

definition populateFirstInputInfo :: "claimToBeSynced \<Rightarrow> claimToBeSynced db" where
  "populateFirstInputInfo c =
     bind (oneG (\<lambda>w. first_row (first_input (cs_TransactionHashUpdate c)) (inputs w))) (\<lambda>input.
       ret (c\<lparr>cs_FirstInputTxHash := (case i_PrevoutHash input of Some h \<Rightarrow> h | None \<Rightarrow> ''''),
         cs_FirstInputTxOPosition := (case i_PrevoutN input of Some n \<Rightarrow> n | None \<Rightarrow> 0)\<rparr>))"

definition certifyClaim :: "env \<Rightarrow> signatures \<Rightarrow> claimToBeSynced \<Rightarrow> bool \<times> goerr option" where
  "certifyClaim E V c =
     (case decodeClaimHex E (cs_SignedClaimHex c) (chainName E) of
        Inl e \<Rightarrow> (False, Some e)
      | Inr signedHelper \<Rightarrow>
          (case decodeClaimHex E (cs_ChannelHex c) (chainName E) of
             Inl e \<Rightarrow> (False, Some e)
           | Inr certHelper \<Rightarrow>
               let byAddress = validateSignature V signedHelper certHelper (cs_SignedClaimAddress c) (cs_ChannelClaimID c) in
               if cs_FirstInputTxHash c \<noteq> '''' then
                 (case outpointHash V (cs_FirstInputTxHash c) (cs_FirstInputTxOPosition c mod 2 ^ 32) of
                    Inl e \<Rightarrow> (False, Some e)
                  | Inr firstInputHash \<Rightarrow>
                      let r = validateSignature V signedHelper certHelper firstInputHash (cs_ChannelClaimID c)
                      in if fst r then r else byAddress)
               else byAddress))"

text \<open>An update of some columns; the database stamps a row it changes.\<close>

definition stampClaim :: "time \<Rightarrow> (Claim \<Rightarrow> Claim) \<Rightarrow> Claim \<Rightarrow> Claim" where
  "stampClaim now f x = (if f x = x then x else (f x)\<lparr>c_ModifiedAt := now\<rparr>)"

definition certColumns :: "bool \<Rightarrow> Claim \<Rightarrow> Claim" where
  "certColumns certified x = (if certified then x\<lparr>c_IsCertValid := True, c_IsCertProcessed := True\<rparr> else x\<lparr>c_IsCertProcessed := True\<rparr>)"

definition Claim_UpdateCertG :: "nat \<Rightarrow> bool \<Rightarrow> unit db" where
  "Claim_UpdateCertG k certified =
     stmt (\<lambda>w. (Ok (), w\<lparr>claims := t_map (\<lambda>x. if c_ID x = k then stampClaim (clock w) (certColumns certified) x else x) (claims w)\<rparr>))"

text \<open>A claim whose first input is not stored is left as it is; all errors are only logged.\<close>

definition certifyOne :: "env \<Rightarrow> signatures \<Rightarrow> claimToBeSynced \<Rightarrow> unit db" where
  "certifyOne E V c =
     bind (attempt (populateFirstInputInfo c)) (\<lambda>r.
       case r of
         Inl _ \<Rightarrow> ret ()
       | Inr c \<Rightarrow> bind (attempt (Claim_UpdateCertG (cs_ID c) (fst (certifyClaim E V c)))) (\<lambda>_. ret ()))"

text \<open>\<open>running\<close> is the variable \<^verbatim>\<open>certificateSyncRunning\<close>: it is reset at the end, also by \<^verbatim>\<open>endCertificateSync\<close> after a panic.\<close>

definition CertificateSync :: "env \<Rightarrow> signatures \<Rightarrow> ((Claim \<times> Claim) list \<Rightarrow> (Claim \<times> Claim) list) \<Rightarrow> bool \<Rightarrow> unit db" where
  "CertificateSync E V joinOrder running =
     (if running then ret ()
      else bind (attempt (getClaimsToBeSynced joinOrder)) (\<lambda>r.
             forM (case r of Inl _ \<Rightarrow> [] | Inr cs \<Rightarrow> cs) (certifyOne E V)))"

section \<open>Claims wrongly marked as spent\<close>

definition spent_claims :: "nat \<Rightarrow> world \<Rightarrow> Claim list" where
  "spent_claims lastClaimRecordID w = filter (\<lambda>c. c_BidState c = ''Spent'' \<and> c_ID c > lastClaimRecordID) (rows (claims w))"

definition really_spent :: "Claim \<Rightarrow> Output \<Rightarrow> bool" where
  "really_spent claim x \<longleftrightarrow> o_ClaimID x = Some (c_ClaimID claim) \<and>
     o_TransactionHash x = (case c_TransactionHashUpdate claim of Some h \<Rightarrow> h | None \<Rightarrow> '''') \<and>
     o_Vout x = (case c_VoutUpdate claim of Some n \<Rightarrow> n | None \<Rightarrow> 0) \<and> o_IsSpent x"

definition Claim_UpdateStateG :: "nat \<Rightarrow> string \<Rightarrow> unit db" where
  "Claim_UpdateStateG k state =
     stmt (\<lambda>w. (Ok (), w\<lparr>claims := t_map (\<lambda>x. if c_ID x = k then x\<lparr>c_BidState := state, c_ModifiedAt := clock w\<rparr> else x) (claims w)\<rparr>))"

definition fixClaim :: "Claim \<Rightarrow> unit db" where
  "fixClaim claim =
     bind (query (\<lambda>w. first_row (really_spent claim) (outputs w) \<noteq> None)) (\<lambda>isSpent.
       if \<not> isSpent then Claim_UpdateStateG (c_ID claim) ''Active'' else ret ())"

end
