(* ===== verification/CertSync_Spec.thy ===== *)
theory CertSync_Spec
  imports CertSync Effects Claims_Spec
begin

text \<open>A claim only becomes valid by a signature of its channel.\<close>

section \<open>What may happen to a row\<close>

text \<open>\<open>signed E V w x\<close>: in \<open>w\<close> the claim \<open>x\<close> names a channel and its first input is stored, and the signature check passes.\<close>

definition signed :: "env \<Rightarrow> signatures \<Rightarrow> world \<Rightarrow> Claim \<Rightarrow> bool" where
  "signed E V w x \<longleftrightarrow> (\<exists>channel t c. channel \<in> set (rows (claims w)) \<and> c_PublisherID x = Some (c_ClaimID channel) \<and>
     c_TransactionHashUpdate x = Some t \<and> fst (populateFirstInputInfo (toBeSynced x channel t) (w\<lparr>fault := (\<lambda>_. None)\<rparr>)) = Ok c \<and>
     fst (certifyClaim E V c))"

definition uncertified :: "Claim \<Rightarrow> Claim" where
  "uncertified x = x\<lparr>c_IsCertValid := False, c_IsCertProcessed := False, c_ModifiedAt := 0\<rparr>"

definition cert_step :: "env \<Rightarrow> signatures \<Rightarrow> world \<Rightarrow> Claim \<Rightarrow> Claim \<Rightarrow> bool" where
  "cert_step E V w x y \<longleftrightarrow> uncertified y = uncertified x \<and> (c_IsCertValid y \<longrightarrow> c_IsCertValid x \<or> signed E V w x)"

lemma uncertified_ID: "c_ID (uncertified x) = c_ID x"
  by (simp add: uncertified_def)

lemma cert_step_keeps: "cert_step E V w x y \<Longrightarrow> c_ID y = c_ID x"
  using uncertified_ID by (metis cert_step_def)

definition cert_state :: "env \<Rightarrow> signatures \<Rightarrow> world \<Rightarrow> world \<Rightarrow> bool" where
  "cert_state E V w v \<longleftrightarrow> inputs v = inputs w \<and> list_all2 (cert_step E V w) (rows (claims w)) (rows (claims v))"

definition cert_rel :: "env \<Rightarrow> signatures \<Rightarrow> world \<Rightarrow> world \<Rightarrow> world \<Rightarrow> bool" where
  "cert_rel E V w u v \<longleftrightarrow> (cert_state E V w u \<longrightarrow> cert_state E V w v)"

interpretation certR: db_relation "cert_rel E V w"
  by unfold_locales (auto simp: cert_rel_def cert_state_def)

lemma list_all2_id_update:
  assumes "list_all2 (cert_step E V w) xs ys" and "distinct (map c_ID xs)" and "x \<in> set xs"
    and "\<And>y. cert_step E V w x y \<Longrightarrow> cert_step E V w x (g y)"
  shows "list_all2 (cert_step E V w) xs (map (\<lambda>y. if c_ID y = c_ID x then g y else y) ys)"
proof (rule list_all2_all_nthI)
  show len: "length xs = length (map (\<lambda>y. if c_ID y = c_ID x then g y else y) ys)"
    using list_all2_lengthD [OF assms(1)] by simp
  fix i assume i: "i < length xs"
  then have step: "cert_step E V w (xs ! i) (ys ! i)" using list_all2_nthD [OF assms(1)] by blast
  have "xs ! i = x" if "c_ID (ys ! i) = c_ID x"
    using that cert_step_keeps [OF step] assms(2,3) i by (auto simp: distinct_map inj_on_def)
  then show "cert_step E V w (xs ! i) (map (\<lambda>y. if c_ID y = c_ID x then g y else y) ys ! i)"
    using step assms(4) i len by (cases "c_ID (ys ! i) = c_ID x") auto
qed

lemma stampClaim_cert:
  assumes "cert_step E V w x y" and "certified \<Longrightarrow> signed E V w x"
  shows "cert_step E V w x (stampClaim now (certColumns certified) y)"
  using assms by (auto simp: cert_step_def stampClaim_def certColumns_def uncertified_def)

lemma cert_step_refl: "cert_step E V w x x"
  by (simp add: cert_step_def)

lemma populate_same:
  assumes "populateFirstInputInfo c u = (Ok c', v)" and "inputs u = inputs w"
  shows "fst (populateFirstInputInfo c (w\<lparr>fault := (\<lambda>_. None)\<rparr>)) = Ok c'" and "cs_ID c' = cs_ID c"
  using assms by (auto simp: populateFirstInputInfo_def bind_Ok_iff bind_def oneG_def stmt_def Let_def split: option.splits)

lemma populate_within: "within (cert_rel E V w) (populateFirstInputInfo c)"
  unfolding populateFirstInputInfo_def by (intro certR.rules)

lemma Claim_UpdateCertG_within:
  assumes "distinct (map c_ID (rows (claims w)))" and "x \<in> set (rows (claims w))" and "certified \<Longrightarrow> signed E V w x"
  shows "within (cert_rel E V w) (Claim_UpdateCertG (c_ID x) certified)"
  unfolding Claim_UpdateCertG_def
proof (rule certR.stmt)
  fix u
  show "cert_rel E V w u (snd (Ok (), u\<lparr>claims := t_map (\<lambda>y. if c_ID y = c_ID x then stampClaim (clock u) (certColumns certified) y else y) (claims u)\<rparr>))"
    using list_all2_id_update [where ys = "rows (claims u)" and g = "stampClaim (clock u) (certColumns certified)", OF _ assms(1,2) stampClaim_cert [OF _ assms(3)]]
    by (simp add: cert_rel_def cert_state_def t_map_def)
qed

lemma certifyOne_within:
  assumes "distinct (map c_ID (rows (claims w)))" and "x \<in> set (rows (claims w))" and "ch \<in> set (rows (claims w))"
    and "c_PublisherID x = Some (c_ClaimID ch)" and "c_TransactionHashUpdate x = Some t"
  shows "within (cert_rel E V w) (certifyOne E V (toBeSynced x ch t))"
proof (rule within_runs)
  fix u
  let ?c = "toBeSynced x ch t"
  show "runs (certifyOne E V ?c) u (\<lambda>_. cert_rel E V w u) (cert_rel E V w u)"
    unfolding certifyOne_def
  proof (rule runs_bind, rule runsI)
    fix r v assume "attempt (populateFirstInputInfo ?c) u = (r, v)"
    then show "cert_rel E V w u v" by (rule withinD [OF certR.attempt [OF populate_within]])
  next
    fix r v assume p: "attempt (populateFirstInputInfo ?c) u = (Ok r, v)"
    have uv: "cert_rel E V w u v" by (rule withinD [OF certR.attempt [OF populate_within] p])
    show "runs (case r of Inl _ \<Rightarrow> ret () | Inr c \<Rightarrow> bind (attempt (Claim_UpdateCertG (cs_ID c) (fst (certifyClaim E V c)))) (\<lambda>_. ret ())) v
        (\<lambda>_. cert_rel E V w u) (cert_rel E V w u)"
    proof (cases "cert_state E V w u")
      case False
      then show ?thesis by (auto simp: cert_rel_def intro: runs_within [where R = "\<lambda>_ _. True"] simp: within_def)
    next
      case True
      show ?thesis
      proof (cases r)
        case (Inl e)
        then show ?thesis using uv by (simp add: runs_def)
      next
        case (Inr c)
        have c: "populateFirstInputInfo ?c u = (Ok c, v)"
          using p Inr by (auto simp: attempt_def split: prod.splits outcome.splits)
        note same = populate_same [OF c, of w]
        have "signed E V w x" if "fst (certifyClaim E V c)"
          using same(1) True that assms(3-5) unfolding signed_def cert_state_def by blast
        then have "within (cert_rel E V w) (bind (attempt (Claim_UpdateCertG (c_ID x) (fst (certifyClaim E V c)))) (\<lambda>_. ret ()))"
          by (intro certR.bind certR.attempt certR.ret Claim_UpdateCertG_within [OF assms(1,2)])
        moreover have "cs_ID c = c_ID x" using same(2) True by (simp add: cert_state_def toBeSynced_def)
        ultimately show ?thesis
          unfolding Inr sum.case using certR.trans [OF uv] by (intro runs_within [where R = "cert_rel E V w"]) simp_all
      qed
    qed
  qed
qed

lemma bindRows_Ok:
  assumes "bindRows rs = Ok cs" and "c \<in> set cs"
  shows "\<exists>x ch t. (x, ch) \<in> set rs \<and> c_TransactionHashUpdate x = Some t \<and> c = toBeSynced x ch t"
  using assms by (induction rs arbitrary: cs rule: bindRows.induct) (fastforce simp: outcome_simps split: option.splits)+

text \<open>C21: The certificate sync never makes a claim valid without its signature: whatever statements fail, every row it leaves is the row it
  found up to the two certificate columns and the time stamp, and where a claim is newly valid, it names a stored channel, its
  first input is stored and the check of its signature by the key of that channel has passed.\<close>

theorem CertificateSync_signed:
  assumes "CertificateSync E V joinOrder running w = (r, w')" and "distinct (map c_ID (rows (claims w)))"
    and "\<And>xs. set (joinOrder xs) \<subseteq> set xs"
  shows "list_all2 (cert_step E V w) (rows (claims w)) (rows (claims w'))"
proof -
  have start: "cert_state E V w w" using cert_step_refl by (auto simp: cert_state_def intro: list.rel_refl)
  have "runs (CertificateSync E V joinOrder running) w (\<lambda>_. cert_state E V w) (cert_state E V w)"
    unfolding CertificateSync_def
  proof (intro runs_cond runs_ret start, rule runs_bind, rule runsI)
    fix r v assume run: "attempt (getClaimsToBeSynced joinOrder) w = (r, v)"
    have "within (cert_rel E V w) (getClaimsToBeSynced joinOrder)"
      unfolding getClaimsToBeSynced_def by (rule certR.stmt) (simp add: certR.refl)
    then have "cert_rel E V w w v" by (rule withinD [OF certR.attempt run])
    then show "cert_state E V w v" using start by (simp add: cert_rel_def)
  next
    fix q v assume q: "attempt (getClaimsToBeSynced joinOrder) w = (Ok q, v)"
    have v: "cert_state E V w v" "q = Inr cs \<Longrightarrow> bindRows (take certsProcessedPerIteration (joinOrder (unprocessed (tick w)))) = Ok cs" for cs
      using q start by (auto simp: getClaimsToBeSynced_def attempt_def stmt_def Let_def cert_state_def split: option.splits outcome.splits)
    have "within (cert_rel E V w) (certifyOne E V c)" if c: "c \<in> set (case q of Inl _ \<Rightarrow> [] | Inr cs \<Rightarrow> cs)" for c
    proof -
      obtain cs where cs: "q = Inr cs" "c \<in> set cs" using c by (cases q) auto
      obtain x ch t where x: "(x, ch) \<in> set (take certsProcessedPerIteration (joinOrder (unprocessed (tick w))))"
        "c_TransactionHashUpdate x = Some t" "c = toBeSynced x ch t"
        using bindRows_Ok [OF v(2) [OF cs(1)] cs(2)] by blast
      have "(x, ch) \<in> set (unprocessed (tick w))" using subsetD [OF assms(3) in_set_takeD [OF x(1)]] .
      then have "(x, ch) \<in> set (unprocessed w)" by (simp add: unprocessed_def)
      then show ?thesis unfolding x(3) by (intro certifyOne_within assms(2) x(2)) (auto simp: unprocessed_def)
    qed
    then show "runs (forM (case q of Inl _ \<Rightarrow> [] | Inr cs \<Rightarrow> cs) (certifyOne E V)) v (\<lambda>_. cert_state E V w) (cert_state E V w)"
      using v(1) by (intro runs_within [OF certR.forM]) (auto simp: cert_rel_def)
  qed
  from runsD [OF this assms(1)] show ?thesis by (cases r) (simp_all add: cert_state_def)
qed

text \<open>A claim with an accepted signature and one whose first input is missing.\<close>

definition demo_certified :: world where
  "demo_certified = demo_world\<lparr>claims := \<lparr>rows = [zeroClaim\<lparr>c_ID := 1, c_ClaimID := ''ch''\<rparr>,
       zeroClaim\<lparr>c_ID := 2, c_ClaimID := ''c2'', c_PublisherID := Some ''ch'', c_TransactionHashUpdate := Some ''t2''\<rparr>,
       zeroClaim\<lparr>c_ID := 3, c_ClaimID := ''c3'', c_PublisherID := Some ''ch'', c_TransactionHashUpdate := Some ''t3''\<rparr>], nextID = 4\<rparr>,
     inputs := \<lparr>rows = [zeroInput\<lparr>i_ID := 1, i_TransactionHash := ''t2'', i_PrevoutHash := Some ''t1'', i_Vin := Some 0\<rparr>], nextID = 2\<rparr>\<rparr>"

definition demo_signatures :: signatures where
  "demo_signatures = \<lparr>outpointHash = (\<lambda>h _. Inr h), validateSignature = (\<lambda>_ _ h ch. (h = ''t1'' \<and> ch = ''ch'', None))\<rparr>"

definition demo_decoder :: env where
  "demo_decoder = demo_env\<lparr>decodeClaimHex := (\<lambda>_ _. Inr None)\<rparr>"

lemma certColumns_same: "certColumns certified x = x \<longleftrightarrow> c_IsCertProcessed x \<and> (certified \<longrightarrow> c_IsCertValid x)"
proof
  assume e: "certColumns certified x = x"
  show "c_IsCertProcessed x \<and> (certified \<longrightarrow> c_IsCertValid x)"
    using arg_cong [OF e, of c_IsCertProcessed] arg_cong [OF e, of c_IsCertValid] by (cases certified) (auto simp: certColumns_def)
qed (cases x, simp add: certColumns_def)

lemma zeroClaim_fields: "c_PublisherID zeroClaim = None" "c_IsCertProcessed zeroClaim = False" "c_IsCertValid zeroClaim = False"
  by (simp_all add: zeroClaim_def)

theorem CertificateSync_signed_witness:
  "\<exists>w'. CertificateSync demo_decoder demo_signatures id False demo_certified = (Ok (), w') \<and>
     map (\<lambda>x. (c_IsCertProcessed x, c_IsCertValid x)) (rows (claims w')) = [(False, False), (True, True), (False, False)] \<and>
     signed demo_decoder demo_signatures demo_certified (rows (claims demo_certified) ! 1)"
proof -
  let ?run = "CertificateSync demo_decoder demo_signatures id False demo_certified"
  have r: "fst ?run = Ok ()"
    "map (\<lambda>x. (c_IsCertProcessed x, c_IsCertValid x)) (rows (claims (snd ?run))) = [(False, False), (True, True), (False, False)]"
    by (simp_all add: CertificateSync_def getClaimsToBeSynced_def unprocessed_def demo_certified_def zeroClaim_fields attempt_def stmt_def
        bind_def demo_world_def certsProcessedPerIteration_def toBeSynced_def certifyOne_def populateFirstInputInfo_def oneG_def
        first_row_def first_input_def zeroInput_def certifyClaim_def demo_decoder_def demo_signatures_def Claim_UpdateCertG_def t_map_def
        stampClaim_def certColumns_same) (simp add: certColumns_def)
  have "list_all2 (cert_step demo_decoder demo_signatures demo_certified) (rows (claims demo_certified)) (rows (claims (snd ?run)))"
    by (rule CertificateSync_signed [of _ _ id False _ "fst ?run"]) (simp_all add: demo_certified_def)
  moreover have "1 < length (rows (claims demo_certified))" by (simp add: demo_certified_def)
  ultimately have "cert_step demo_decoder demo_signatures demo_certified (rows (claims demo_certified) ! 1) (rows (claims (snd ?run)) ! 1)"
    by (rule list_all2_nthD)
  moreover have "\<not> c_IsCertValid (rows (claims demo_certified) ! 1)" by (simp add: demo_certified_def zeroClaim_def)
  moreover have "c_IsCertValid (rows (claims (snd ?run)) ! 1)"
    using r(2) by (auto simp: map_eq_Cons_conv)
  ultimately show ?thesis using r by (intro exI [of _ "snd ?run"]) (auto simp: cert_step_def prod_eq_iff)
qed

end
