(* ===== verification/ChainSync.thy ===== *)
theory ChainSync
  imports Transactions ClaimTrie
begin

text \<open>
  \<^verbatim>\<open>daemon/jobs/chainsync.go\<close>: the job that walks over all stored heights and brings rows in line with what the node
  reports. The pointers of \<^verbatim>\<open>chainSyncStatus\<close> to the current rows are arguments here. Of a recorded error the model keeps
  the area and the text, not the list of heights it was found at. Heights are far below the largest \<^verbatim>\<open>int64\<close>.
\<close>

section \<open>Aligning a row\<close>

text \<open>A row is compared column by column; the columns that differ are set in the struct and written.\<close>

definition diff :: "bool \<Rightarrow> ('r \<Rightarrow> 'r) \<Rightarrow> ('r \<Rightarrow> 'r) list" where
  "diff b f = (if b then [f] else [])"

definition applyAll :: "('r \<Rightarrow> 'r) list \<Rightarrow> 'r \<Rightarrow> 'r" where
  "applyAll fs x = fold (\<lambda>f x. f x) fs x"

definition f64_ne :: "f64 \<Rightarrow> f64 \<Rightarrow> bool" where
  "f64_ne x y \<longleftrightarrow> x \<noteq> y \<or> x = NaN"

definition opt_f64 :: "f64 option \<Rightarrow> f64" where
  "opt_f64 x = (case x of None \<Rightarrow> f64_zero | Some v \<Rightarrow> v)"

definition opt_num :: "nat option \<Rightarrow> nat" where
  "opt_num x = (case x of None \<Rightarrow> 0 | Some v \<Rightarrow> v)"

text \<open>The text of a column with the empty text stored as null.\<close>

definition or_null :: "string \<Rightarrow> string option" where
  "or_null s = (if s \<noteq> '''' then Some s else None)"

definition Transaction_UpdateWith :: "nat \<Rightarrow> (Transaction \<Rightarrow> Transaction) \<Rightarrow> unit db" where
  "Transaction_UpdateWith k f = change transactions (\<lambda>t w. w\<lparr>transactions := t\<rparr>)
     (\<lambda>t. andThen (t_update t_ID transaction_clash k f t) (\<lambda>t. Ok ((), t)))"

definition Output_UpdateWith :: "nat \<Rightarrow> (Output \<Rightarrow> Output) \<Rightarrow> unit db" where
  "Output_UpdateWith k f = change outputs (\<lambda>t w. w\<lparr>outputs := t\<rparr>)
     (\<lambda>t. andThen (t_update o_ID output_clash k f t) (\<lambda>t. Ok ((), t)))"

definition Input_UpdateWith :: "nat \<Rightarrow> (Input \<Rightarrow> Input) \<Rightarrow> unit db" where
  "Input_UpdateWith k f = change inputs (\<lambda>t w. w\<lparr>inputs := t\<rparr>)
     (\<lambda>t. andThen (t_update i_ID input_clash k f t) (\<lambda>t. Ok ((), t)))"

definition Claim_UpdateWith :: "nat \<Rightarrow> (Claim \<Rightarrow> Claim) \<Rightarrow> unit db" where
  "Claim_UpdateWith k f = change claims (\<lambda>t w. w\<lparr>claims := t\<rparr>)
     (\<lambda>t. andThen (t_update c_ID claim_clash k f t) (\<lambda>t. Ok ((), t)))"

definition Support_UpdateWith :: "nat \<Rightarrow> (Support \<Rightarrow> Support) \<Rightarrow> unit db" where
  "Support_UpdateWith k f = change supports (\<lambda>t w. w\<lparr>supports := t\<rparr>)
     (\<lambda>t. andThen (t_update s_ID support_clash k f t) (\<lambda>t. Ok ((), t)))"

text \<open>\<open>six\<close> is the difficulty printed with six decimals and read again.\<close>

definition blockDiffs :: "(f64 \<Rightarrow> f64) \<Rightarrow> GetBlockResponse \<Rightarrow> Block \<Rightarrow> (Block \<Rightarrow> Block) list" where
  "blockDiffs six l b =
     diff (b_Hash b \<noteq> bl_Hash l) (b_Hash_update (\<lambda>_. bl_Hash l)) @
     diff (b_BlockTime b \<noteq> to_u64 (bl_Time l)) (b_BlockTime_update (\<lambda>_. to_u64 (bl_Time l))) @
     diff (b_Version b \<noteq> to_u64 (bl_Version l)) (b_Version_update (\<lambda>_. to_u64 (bl_Version l))) @
     diff (b_Bits b \<noteq> bl_Bits l) (b_Bits_update (\<lambda>_. bl_Bits l)) @
     diff (b_BlockSize b \<noteq> to_u64 (bl_Size l)) (b_BlockSize_update (\<lambda>_. to_u64 (bl_Size l))) @
     diff (b_Chainwork b \<noteq> bl_ChainWork l) (b_Chainwork_update (\<lambda>_. bl_ChainWork l)) @
     diff (f64_ne (six (b_Difficulty b)) (six (bl_Difficulty l))) (b_Difficulty_update (\<lambda>_. six (bl_Difficulty l))) @
     diff (b_MerkleRoot b \<noteq> bl_MerkleRoot l) (b_MerkleRoot_update (\<lambda>_. bl_MerkleRoot l)) @
     diff (b_NameClaimRoot b \<noteq> bl_NameClaimRoot l) (b_NameClaimRoot_update (\<lambda>_. bl_NameClaimRoot l)) @
     diff (opt_text (b_PreviousBlockHash b) \<noteq> bl_PreviousBlockHash l) (b_PreviousBlockHash_update (\<lambda>_. Some (bl_PreviousBlockHash l))) @
     diff (b_Nonce b \<noteq> bl_Nonce l) (b_Nonce_update (\<lambda>_. bl_Nonce l)) @
     diff (b_VersionHex b \<noteq> bl_VersionHex l) (b_VersionHex_update (\<lambda>_. bl_VersionHex l))"

definition alignBlock :: "(f64 \<Rightarrow> f64) \<Rightarrow> GetBlockResponse \<Rightarrow> Block \<Rightarrow> unit db" where
  "alignBlock six l b =
     (if blockDiffs six l b \<noteq> [] then Block_UpdateWith (b_ID b) (applyAll (blockDiffs six l b)) else ret ())"

text \<open>The time of a transaction is set without marking it as present, so a null stays null.\<close>

definition txDiffs :: "TxRawResult \<Rightarrow> Transaction \<Rightarrow> (Transaction \<Rightarrow> Transaction) list" where
  "txDiffs l t =
     diff (t_Version t \<noteq> tx_Version l) (t_Version_update (\<lambda>_. tx_Version l)) @
     diff (opt_num (t_TransactionTime t) \<noteq> to_u64 (tx_Time l)) (t_TransactionTime_update (map_option (\<lambda>_. to_u64 (tx_Time l)))) @
     diff (t_TransactionSize t \<noteq> to_u64 (tx_Size l)) (t_TransactionSize_update (\<lambda>_. to_u64 (tx_Size l))) @
     diff (t_LockTime t \<noteq> tx_LockTime l) (t_LockTime_update (\<lambda>_. tx_LockTime l)) @
     diff (t_InputCount t \<noteq> length (tx_Vin l)) (t_InputCount_update (\<lambda>_. length (tx_Vin l))) @
     diff (t_OutputCount t \<noteq> length (tx_Vout l)) (t_OutputCount_update (\<lambda>_. length (tx_Vout l)))"

definition alignTx :: "TxRawResult \<Rightarrow> Transaction \<Rightarrow> unit db" where
  "alignTx l t = (if txDiffs l t \<noteq> [] then Transaction_UpdateWith (t_ID t) (applyAll (txDiffs l t)) else ret ())"

definition vinDiffs :: "Vin \<Rightarrow> Output option \<Rightarrow> Input \<Rightarrow> (Input \<Rightarrow> Input) list" where
  "vinDiffs v srcOutput i =
     diff (opt_text (i_Coinbase i) \<noteq> vin_Coinbase v) (i_Coinbase_update (\<lambda>_. or_null (vin_Coinbase v))) @
     diff (opt_text (i_Witness i) \<noteq> join_comma (vin_Witness v)) (i_Witness_update (\<lambda>_. or_null (join_comma (vin_Witness v)))) @
     (case vin_ScriptSig v of
        Some s \<Rightarrow>
          diff (opt_text (i_ScriptSigHex i) \<noteq> sig_Hex s) (i_ScriptSigHex_update (\<lambda>_. or_null (sig_Hex s))) @
          diff (opt_text (i_ScriptSigAsm i) \<noteq> sig_Asm s) (i_ScriptSigAsm_update (\<lambda>_. or_null (sig_Asm s)))
      | None \<Rightarrow>
          diff (i_ScriptSigHex i \<noteq> None) (i_ScriptSigHex_update (\<lambda>_. None)) @
          diff (i_ScriptSigAsm i \<noteq> None) (i_ScriptSigAsm_update (\<lambda>_. None))) @
     (case srcOutput of
        Some x \<Rightarrow> diff (f64_ne (opt_f64 (i_Value i)) (opt_f64 (o_Value x))) (i_Value_update (\<lambda>_. Some (opt_f64 (o_Value x))))
      | None \<Rightarrow> [])"

definition alignVin :: "Vin \<Rightarrow> Input \<Rightarrow> unit db" where
  "alignVin v i =
     bind (GetOutput (opt_text (i_PrevoutHash i)) (opt_num (i_PrevoutN i))) (\<lambda>srcOutput.
       if vinDiffs v srcOutput i \<noteq> [] then Input_UpdateWith (i_ID i) (applyAll (vinDiffs v srcOutput i)) else ret ())"

section \<open>Claims and supports of an output\<close>

definition claimDiffs :: "Output \<Rightarrow> Claim \<Rightarrow> Claim \<Rightarrow> (Claim \<Rightarrow> Claim) list" where
  "claimDiffs out original c =
     diff (c_VoutUpdate c = None) (c_VoutUpdate_update (\<lambda>_. Some (o_Vout out))) @
     diff (c_TransactionHashUpdate c = None) (c_TransactionHashUpdate_update (\<lambda>_. Some (opt_text (c_TransactionHashID c)))) @
     diff (opt_text (c_License original) \<noteq> opt_text (c_License c)) (c_License_update (\<lambda>_. c_License c))"

definition alignClaim :: "env \<Rightarrow> Output \<Rightarrow> unit db" where
  "alignClaim E out =
     bind (GetClaim (opt_text (o_ClaimID out))) (\<lambda>storedClaim.
       case storedClaim of
         None \<Rightarrow> fail (Msg ''could not find claim'')
       | Some original \<Rightarrow>
           (case decodeClaimHex E (c_ValueAsHex original) (chainName E) of
              Inl e \<Rightarrow> fail e
            | Inr None \<Rightarrow> fail (Msg ''could not create help for claim'')
            | Inr (Some helper) \<Rightarrow>
                bind (UpdateClaimData E helper original) (\<lambda>c.
                  if claimDiffs out original c \<noteq> []
                  then Claim_UpdateWith (c_ID original) (applyAll (claimDiffs out original c)) else ret ())))"

text \<open>The claim a support is made by, for a spent output.\<close>

definition alignSupport :: "env \<Rightarrow> Transaction \<Rightarrow> Output \<Rightarrow> unit db" where
  "alignSupport E t out =
     (case hex_decode (opt_text (o_ScriptPubKeyHex out)) of
        None \<Rightarrow> fail (Msg ''encoding/hex'')
      | Some scriptBytes \<Rightarrow>
          (if \<not> IsClaimSupportScript (slice_of scriptBytes) then ret ()
           else bind (GetSupport (t_Hash t) (o_Vout out)) (\<lambda>support.
             case support of
               None \<Rightarrow> ret ()
             | Some s \<Rightarrow>
                 bind (lift (ParseClaimSupportScript (slice_of scriptBytes))) (\<lambda>(_, _, val, _).
                   if val = [] then ret ()
                   else (case decodeSupportBytes E val (chainName E) of
                           Inl e \<Rightarrow> fail e
                         | Inr sh \<Rightarrow> Support_UpdateWith (s_ID s)
                             (s_SupportedByClaimID_update (\<lambda>_. Some (hex_encode (ReverseBytes (sh_ClaimID sh))))))))))"

definition voutDiffs :: "Vout \<Rightarrow> Output \<Rightarrow> (Output \<Rightarrow> Output) list" where
  "voutDiffs v out = diff (f64_ne (opt_f64 (o_Value out)) (vout_Value v)) (o_Value_update (\<lambda>_. Some (vout_Value v)))"

definition alignVout :: "env \<Rightarrow> Transaction \<Rightarrow> Vout \<Rightarrow> Output \<Rightarrow> unit db" where
  "alignVout E t v out =
     bind (if voutDiffs v out \<noteq> [] then Output_UpdateWith (o_ID out) (applyAll (voutDiffs v out)) else ret ()) (\<lambda>_.
       if o_ClaimID out \<noteq> None \<and> \<not> o_IsSpent out then alignClaim E out
       else if o_ClaimID out \<noteq> None \<and> o_Type out = Some NonStandard then alignSupport E t out
       else ret ())"

text \<open>The receiver of \<^verbatim>\<open>alignVouts\<close> is a copy, so an error it records is lost.\<close>

definition alignVouts :: "env \<Rightarrow> Transaction \<Rightarrow> Vout list \<Rightarrow> unit db" where
  "alignVouts E t vouts =
     forM vouts (\<lambda>v.
       bind (GetOutput (t_Hash t) (vout_N v)) (\<lambda>out.
         case out of
           None \<Rightarrow> fail (Msg ''missing vout after transaction reprocessing'')
         | Some x \<Rightarrow> bind (attempt (alignVout E t v x)) (\<lambda>_. ret ())))"

section \<open>Aligning a block\<close>

text \<open>The errors the job remembers, the newest at the end: an area and a text, each pair once.\<close>

type_synonym syncErrors = "(string \<times> string) list"

definition maxChainSyncErrors :: nat where "maxChainSyncErrors = 1000"

definition recordError :: "(goerr \<Rightarrow> string) \<Rightarrow> string \<Rightarrow> goerr \<Rightarrow> syncErrors \<Rightarrow> syncErrors" where
  "recordError errText area e errs =
     (if (area, errText e) \<in> set errs then errs
      else let errs' = errs @ [(area, errText e)]
           in if length errs' > maxChainSyncErrors then drop (length errs' - maxChainSyncErrors) errs' else errs')"

definition recordAndReturnError :: "(goerr \<Rightarrow> string) \<Rightarrow> string \<Rightarrow> goerr \<Rightarrow> syncErrors \<Rightarrow> (syncErrors \<times> goerr option) db" where
  "recordAndReturnError errText area e errs = ret (recordError errText area e errs, Some e)"

text \<open>A call whose error is recorded under an area and ends the function.\<close>

definition recordOnError :: "(goerr \<Rightarrow> string) \<Rightarrow> string \<Rightarrow> 'a db \<Rightarrow> syncErrors \<Rightarrow> ('a \<Rightarrow> (syncErrors \<times> goerr option) db) \<Rightarrow> (syncErrors \<times> goerr option) db" where
  "recordOnError errText area m errs k =
     bind (attempt m) (\<lambda>r. case r of Inl e \<Rightarrow> recordAndReturnError errText area e errs | Inr x \<Rightarrow> k x)"

definition txPartsMissing :: "Transaction \<Rightarrow> TxRawResult \<Rightarrow> bool db" where
  "txPartsMissing t raw =
     bind (query (\<lambda>w. length (filter (\<lambda>x. i_TransactionHash x = t_Hash t) (rows (inputs w))))) (\<lambda>inputCount.
     bind (query (\<lambda>w. length (filter (\<lambda>x. o_TransactionHash x = t_Hash t) (rows (outputs w))))) (\<lambda>outputCount.
       ret (inputCount < length (tx_Vin raw) \<or> outputCount < length (tx_Vout raw))))"

fun alignVins :: "(goerr \<Rightarrow> string) \<Rightarrow> Transaction \<Rightarrow> Vin list \<Rightarrow> syncErrors \<Rightarrow> (syncErrors \<times> goerr option) db" where
  "alignVins errText t [] errs = ret (errs, None)"
| "alignVins errText t (v # vs) errs =
     bind (GetInput (t_Hash t) False (vin_TxID v) (vin_Vout v)) (\<lambda>input.
     bind (if input = None \<and> length (vin_Coinbase v) > 0 then GetInput (t_Hash t) True (vin_TxID v) (vin_Vout v) else ret input) (\<lambda>input.
       case input of
         None \<Rightarrow> ret (errs, Some (Msg ''missing vin after transaction reprocessing''))
       | Some i \<Rightarrow>
           bind (attempt (alignVin v i)) (\<lambda>r.
             alignVins errText t vs (case r of Inl e \<Rightarrow> recordError errText ''vin-alignment'' e errs | Inr _ \<Rightarrow> errs))))"

definition txOfBlock :: "Block \<Rightarrow> string \<Rightarrow> Transaction db" where
  "txOfBlock block txHash =
     oneG (\<lambda>w. first_row (\<lambda>x. t_BlockHashID x = Some (b_Hash block) \<and> t_Hash x = txHash) (transactions w))"

text \<open>The rest of an iteration once the transaction is stored.\<close>

definition alignRecorded ::
    "(goerr \<Rightarrow> string) \<Rightarrow> env \<Rightarrow> txOrder \<Rightarrow> Block \<Rightarrow> nat \<Rightarrow> string \<times> TxRawResult \<Rightarrow> syncErrors \<Rightarrow> Transaction \<Rightarrow> (syncErrors \<times> goerr option) db" where
  "alignRecorded errText E sch block height = (\<lambda>(txHash, raw) errs t.
     recordOnError errText ''tx-part-count'' (txPartsMissing t raw) errs (\<lambda>missingParts.
     recordOnError errText ''tx-reprocessing'' (if missingParts then ProcessTx E sch raw (b_BlockTime block) height else ret ()) errs (\<lambda>_.
     recordOnError errText ''mysql-tx'' (if missingParts then txOfBlock block txHash else ret t) errs (\<lambda>t.
     recordOnError errText ''tx-alignment'' (alignTx raw t) errs (\<lambda>_.
     recordOnError errText ''vout-alignment'' (alignVouts E t (tx_Vout raw)) errs (\<lambda>_.
       bind (alignVins errText t (tx_Vin raw) errs) (\<lambda>(errs, res).
         case res of
           Some e \<Rightarrow> recordAndReturnError errText ''vin-alignment'' e errs
         | None \<Rightarrow> ret (errs, None))))))))"

fun alignTxs ::
    "(goerr \<Rightarrow> string) \<Rightarrow> env \<Rightarrow> txOrder \<Rightarrow> Block \<Rightarrow> nat \<Rightarrow> (string \<times> TxRawResult) list \<Rightarrow> syncErrors \<Rightarrow> (syncErrors \<times> goerr option) db" where
  "alignTxs errText E sch block height [] errs = ret (errs, None)"
| "alignTxs errText E sch block height (tx # txs) errs =
     bind (attempt (txOfBlock block (fst tx))) (\<lambda>r.
     bind (case r of
             Inr t \<Rightarrow> alignRecorded errText E sch block height tx errs t
           | Inl e \<Rightarrow>
               if err_cause e = ErrNoRows then
                 bind (attempt (ProcessTx E sch (snd tx) (b_BlockTime block) height)) (\<lambda>p.
                   case p of
                     Inl e \<Rightarrow> ret (recordError errText ''tx-processing'' e errs, None)
                   | Inr _ \<Rightarrow> recordOnError errText ''mysql-tx'' (txOfBlock block (fst tx)) errs (alignRecorded errText E sch block height tx errs))
               else recordAndReturnError errText ''mysql-tx'' e errs) (\<lambda>(errs, res).
       case res of
         Some e \<Rightarrow> ret (errs, Some e)
       | None \<Rightarrow> alignTxs errText E sch block height txs errs))"

fun fetchBlockTransactions :: "node \<Rightarrow> string list \<Rightarrow> (string \<times> TxRawResult) list db" where
  "fetchBlockTransactions N [] = ret []"
| "fetchBlockTransactions N (txHash # hs) =
     bind (rpc (\<lambda>i. getRawTransaction N i txHash)) (\<lambda>raw.
     bind (fetchBlockTransactions N hs) (\<lambda>xs. ret ((txHash, raw) # xs)))"

section \<open>The walk\<close>

record chainSyncStatus =
  ch_LastHeight :: int
  ch_MaxHeightStored :: int
  ch_Errors :: syncErrors

text \<open>\<open>runBlock\<close> is \<^verbatim>\<open>processing.RunBlockProcessing\<close>, \<open>heightError\<close> the error of a height it did not reach.\<close>

record syncParams =
  errText :: "goerr \<Rightarrow> string"
  six :: "f64 \<Rightarrow> f64"
  runBlock :: "nat \<Rightarrow> nat db"
  heightError :: "nat \<Rightarrow> nat \<Rightarrow> goerr"

definition blockOfHash :: "string \<Rightarrow> Block db" where
  "blockOfHash hash = oneG (\<lambda>w. first_row (\<lambda>b. b_Hash b = hash) (blocks w))"

text \<open>A block that is not stored is processed first.\<close>

definition fillMissingBlock ::
    "syncParams \<Rightarrow> nat \<Rightarrow> string \<Rightarrow> syncErrors \<Rightarrow> (syncErrors \<times> goerr option) db \<Rightarrow> (syncErrors \<times> goerr option) db" where
  "fillMissingBlock P height hash errs k =
     bind (attempt (blockOfHash hash)) (\<lambda>r.
       case r of
         Inr _ \<Rightarrow> k
       | Inl e \<Rightarrow>
           if err_cause e = ErrNoRows then
             bind (runBlock P height) (\<lambda>processedHeight.
               if processedHeight \<noteq> height
               then recordAndReturnError (errText P) ''daemon-process-block'' (heightError P processedHeight height) errs
               else recordOnError (errText P) ''mysql-getblock'' (blockOfHash hash) errs (\<lambda>_. k))
           else recordAndReturnError (errText P) ''mysql-getblock'' e errs)"

definition alignHeight ::
    "syncParams \<Rightarrow> env \<Rightarrow> txOrder \<Rightarrow> node \<Rightarrow> nat \<Rightarrow> syncErrors \<Rightarrow> (syncErrors \<times> goerr option) db" where
  "alignHeight P E sch N height errs =
     recordOnError (errText P) ''lbrycrd-getblockhash'' (rpc (\<lambda>i. getBlockHash N i height)) errs (\<lambda>blockHash.
     recordOnError (errText P) ''mysql-getblock'' (rpc (\<lambda>i. getBlock N i blockHash)) errs (\<lambda>lbrycrdBlock.
     fillMissingBlock P height blockHash errs (
     recordOnError (errText P) ''tx-hash-creation'' (fetchBlockTransactions N (bl_Tx lbrycrdBlock)) errs (\<lambda>lbrycrdTxs.
     recordOnError (errText P) ''mysql-getblock'' (blockOfHash blockHash) errs (\<lambda>recordedBlock.
     recordOnError (errText P) ''block-alignment'' (alignBlock (six P) lbrycrdBlock recordedBlock) errs (\<lambda>_.
       bind (alignTxs (errText P) E sch (applyAll (blockDiffs (six P) lbrycrdBlock recordedBlock) recordedBlock) height lbrycrdTxs errs)
         (\<lambda>(errs, res).
           case res of
             Some e \<Rightarrow> recordAndReturnError (errText P) ''tx-alignment'' e errs
           | None \<Rightarrow> ret (errs, None))))))))"

definition processNextBlock :: "syncParams \<Rightarrow> env \<Rightarrow> txOrder \<Rightarrow> node \<Rightarrow> chainSyncStatus \<Rightarrow> (chainSyncStatus \<times> goerr option) db" where
  "processNextBlock P E sch N c =
     (let height = ch_LastHeight c + 1 in
      bind (alignHeight P E sch N (to_u64 height) (ch_Errors c)) (\<lambda>(errs, err).
        ret (c\<lparr>ch_LastHeight := height, ch_Errors := errs\<rparr>, err)))"

definition updateMaxHeightStored :: "chainSyncStatus \<Rightarrow> chainSyncStatus db" where
  "updateMaxHeightStored c =
     bind (oneG (\<lambda>w. highest (rows (blocks w)))) (\<lambda>lastBlock.
       ret (if ch_LastHeight c \<ge> int (b_Height lastBlock) then c\<lparr>ch_LastHeight := 0, ch_Errors := []\<rparr>
            else c\<lparr>ch_MaxHeightStored := int (b_Height lastBlock)\<rparr>))"

text \<open>\<open>n\<close> is the number of blocks the run has time for; errors are only logged.\<close>

fun walk :: "syncParams \<Rightarrow> env \<Rightarrow> txOrder \<Rightarrow> node \<Rightarrow> nat \<Rightarrow> chainSyncStatus \<Rightarrow> chainSyncStatus db" where
  "walk P E sch N 0 c = ret c"
| "walk P E sch N (Suc n) c =
     (if ch_LastHeight c < ch_MaxHeightStored c
      then bind (processNextBlock P E sch N c) (\<lambda>(c, _). walk P E sch N n c) else ret c)"

section \<open>The job\<close>

record chainSyncCodec =
  marshalChainSync :: "chainSyncStatus \<Rightarrow> string"
  unmarshalChainSync :: "string \<Rightarrow> chainSyncStatus \<Rightarrow> goerr + chainSyncStatus"

definition chainSyncJob :: string where "chainSyncJob = ''chainsync''"

definition initialStatus :: chainSyncStatus where
  "initialStatus = \<lparr>ch_LastHeight = 0, ch_MaxHeightStored = 0, ch_Errors = []\<rparr>"

text \<open>The row of the job, which is created on the first run, and the status read from it; an error may come with or without the row.\<close>

definition getChainSyncJobStatus ::
    "chainSyncCodec \<Rightarrow> chainSyncStatus \<Rightarrow> (JobStatus option \<times> chainSyncStatus \<times> goerr option) db" where
  "getChainSyncJobStatus cod c =
     bind (attempt (oneG (\<lambda>w. find (\<lambda>j. js_JobName j = chainSyncJob) (jobStatuses w)))) (\<lambda>row.
     bind (case row of
             Inr j \<Rightarrow> ret (Inr j)
           | Inl e \<Rightarrow>
               if e \<noteq> ErrNoRows then ret (Inl e)
               else
                 (let j = zeroJobStatus\<lparr>js_JobName := chainSyncJob, js_LastSync := 0, js_State := Some (marshalChainSync cod initialStatus)\<rparr>
                  in bind (attempt (JobStatus_InsertG j)) (\<lambda>r.
                       case r of Inl _ \<Rightarrow> lift (Panic (Raised ''Cannot Retrieve/Create JobStatus'')) | Inr _ \<Rightarrow> ret (Inr j)))) (\<lambda>r.
       case r of
         Inl e \<Rightarrow> ret (None, c, Some e)
       | Inr jobStatus \<Rightarrow>
           (case (case js_State jobStatus of None \<Rightarrow> Inl EOF | Some s \<Rightarrow> unmarshalChainSync cod s c) of
              Inl e \<Rightarrow> ret (None, c, Some e)
            | Inr c \<Rightarrow>
                if ch_MaxHeightStored c = 0 then
                  bind (attempt (updateMaxHeightStored c)) (\<lambda>u.
                    case u of Inl e \<Rightarrow> ret (Some jobStatus, c, Some e) | Inr c \<Rightarrow> ret (Some jobStatus, c, None))
                else ret (Some jobStatus, c, None))))"

text \<open>Saving an error without a row dereferences a nil pointer; \<^verbatim>\<open>endChainSync\<close> recovers from the panic.\<close>

definition saveChainSyncError :: "(goerr \<Rightarrow> string) \<Rightarrow> JobStatus option \<Rightarrow> goerr \<Rightarrow> unit db" where
  "saveChainSyncError txt job e =
     (case job of
        None \<Rightarrow> lift (Panic NilDereference)
      | Some j \<Rightarrow> bind (attempt (JobStatus_UpsertG (j\<lparr>js_ErrorMessage := Some (txt e), js_IsSuccess := False\<rparr>))) (\<lambda>_. ret ()))"

definition doneChainSyncJob :: "chainSyncCodec \<Rightarrow> JobStatus \<Rightarrow> chainSyncStatus \<Rightarrow> unit db" where
  "doneChainSyncJob cod j c = (\<lambda>w.
     bind (attempt (JobStatus_UpdateG (j\<lparr>js_LastSync := clock w, js_IsSuccess := True, js_State := Some (marshalChainSync cod c)\<rparr>))) (\<lambda>r.
       case r of Inl e \<Rightarrow> lift (Panic (Raised ''update of the job status'')) | Inr _ \<Rightarrow> ret ()) w)"

definition ChainSync :: "chainSyncCodec \<Rightarrow> syncParams \<Rightarrow> env \<Rightarrow> txOrder \<Rightarrow> node \<Rightarrow> nat \<Rightarrow> chainSyncStatus \<Rightarrow> chainSyncStatus db" where
  "ChainSync cod P E sch N n c =
     bind (getChainSyncJobStatus cod c) (\<lambda>(job, c, err).
       case (job, err) of
         (_, Some e) \<Rightarrow> bind (saveChainSyncError (errText P) job e) (\<lambda>_. ret c)
       | (None, None) \<Rightarrow> lift (Panic NilDereference)
       | (Some j, None) \<Rightarrow>
           bind (if ch_LastHeight c \<ge> ch_MaxHeightStored c then attempt (updateMaxHeightStored c) else ret (Inr c)) (\<lambda>u.
             case u of
               Inl e \<Rightarrow> bind (saveChainSyncError (errText P) (Some j) e) (\<lambda>_. ret c)
             | Inr c \<Rightarrow> bind (walk P E sch N n c) (\<lambda>c. bind (doneChainSyncJob cod j c) (\<lambda>_. ret c))))"

end
