(* ===== verification/ChainSync_Spec.thy ===== *)
theory ChainSync_Spec
  imports ChainSync Transactions_Spec Blocks
begin

text \<open>The walk over the heights always moves on, its memory of errors is bounded, and aligning a row settles.\<close>

section \<open>The recorded errors\<close>

definition errors_ok :: "syncErrors \<Rightarrow> bool" where
  "errors_ok errs \<longleftrightarrow> distinct errs \<and> length errs \<le> maxChainSyncErrors"

lemma recordError_ok: "errors_ok errs \<Longrightarrow> errors_ok (recordError txt area e errs)"
proof -
  assume ok: "errors_ok errs"
  have d: "distinct (errs @ [(area, txt e)])" if "(area, txt e) \<notin> set errs" using ok that by (simp add: errors_ok_def)
  show ?thesis
    using ok distinct_drop [OF d] d by (auto simp: errors_ok_def recordError_def Let_def simp del: drop_append distinct_append)
qed

text \<open>A part of the walk keeps the errors well formed, if it returns.\<close>

definition keeps_errors :: "(syncErrors \<Rightarrow> (syncErrors \<times> goerr option) db) \<Rightarrow> bool" where
  "keeps_errors f \<longleftrightarrow> (\<forall>errs w errs' res w'. errors_ok errs \<longrightarrow> f errs w = (Ok (errs', res), w') \<longrightarrow> errors_ok errs')"

lemma keeps_record: "keeps_errors (recordAndReturnError txt area e)"
  by (auto simp: keeps_errors_def recordAndReturnError_def recordError_ok)

lemma keeps_ret: "keeps_errors (\<lambda>errs. ret (errs, res))"
  by (simp add: keeps_errors_def)

lemma keeps_bind: "(\<And>x. keeps_errors (\<lambda>errs. f errs x)) \<Longrightarrow> keeps_errors (\<lambda>errs. bind m (f errs))"
  by (fastforce simp: keeps_errors_def bind_Ok_iff)

lemma keeps_cond: "keeps_errors f \<Longrightarrow> keeps_errors g \<Longrightarrow>
    keeps_errors (\<lambda>errs. if b then f errs else g errs)"
  by (cases b) simp_all

lemma keeps_sum:
  "(\<And>x. keeps_errors (\<lambda>errs. f errs x)) \<Longrightarrow> (\<And>y. keeps_errors (\<lambda>errs. g errs y)) \<Longrightarrow>
    keeps_errors (\<lambda>errs. case r of Inl x \<Rightarrow> f errs x | Inr y \<Rightarrow> g errs y)"
  by (cases r) simp_all

lemma keeps_guarded: "(\<And>x. keeps_errors (\<lambda>errs. k errs x)) \<Longrightarrow> keeps_errors (\<lambda>errs. recordOnError txt area m errs (k errs))"
  unfolding recordOnError_def by (intro keeps_bind keeps_sum keeps_record)

text \<open>What follows a part that returns errors goes on with them.\<close>

lemma keeps_then:
  assumes "keeps_errors m" and "\<And>res. keeps_errors (\<lambda>errs. f errs res)"
  shows "keeps_errors (\<lambda>errs. bind (m errs) (\<lambda>(errs, res). f errs res))"
  unfolding keeps_errors_def
proof (intro allI impI)
  fix errs w errs' res w'
  assume e: "errors_ok errs" and run: "bind (m errs) (\<lambda>(errs, res). f errs res) w = (Ok (errs', res), w')"
  then obtain e1 r1 w1 where "m errs w = (Ok (e1, r1), w1)" "f e1 r1 w1 = (Ok (errs', res), w')"
    by (auto simp: bind_Ok_iff)
  then show "errors_ok errs'" using assms e unfolding keeps_errors_def by blast
qed

lemma keeps_option:
  "keeps_errors (\<lambda>errs. f errs) \<Longrightarrow> (\<And>y. keeps_errors (\<lambda>errs. g errs y)) \<Longrightarrow>
    keeps_errors (\<lambda>errs. case r of None \<Rightarrow> f errs | Some y \<Rightarrow> g errs y)"
  by (cases r) simp_all

lemma keeps_recording: "keeps_errors f \<Longrightarrow> keeps_errors (\<lambda>errs. f (recordError txt area e errs))"
  unfolding keeps_errors_def using recordError_ok by blast

lemmas keeps_rules = keeps_record keeps_ret keeps_cond keeps_guarded keeps_sum keeps_option keeps_bind

lemma keeps_alignVins: "keeps_errors (alignVins txt t vs)"
proof (induction vs)
  case Nil
  show ?case by (simp add: keeps_errors_def)
next
  case (Cons v vs)
  have "keeps_errors (\<lambda>errs. alignVins txt t vs (case r of Inl e \<Rightarrow> recordError txt ''vin-alignment'' e errs | Inr _ \<Rightarrow> errs))"
    for r :: "goerr + unit" using Cons by (cases r) (auto intro: keeps_recording)
  then show ?case unfolding alignVins.simps by (intro keeps_bind keeps_option keeps_ret)
qed

lemma keeps_alignRecorded: "keeps_errors (\<lambda>errs. alignRecorded txt E sch block height tx errs t)"
  unfolding alignRecorded_def
  by (cases tx) (auto intro!: keeps_guarded keeps_then keeps_alignVins keeps_option keeps_ret keeps_record)

lemma keeps_alignTxs: "keeps_errors (alignTxs txt E sch block height txs)"
proof (induction txs)
  case Nil
  show ?case by (simp add: keeps_errors_def)
next
  case (Cons tx txs)
  show ?case
    unfolding alignTxs.simps
    by (intro keeps_bind keeps_then keeps_sum keeps_cond keeps_option keeps_alignRecorded keeps_record keeps_guarded Cons keeps_ret
        keeps_recording [OF keeps_ret])
qed

lemma keeps_alignHeight: "keeps_errors (alignHeight P E sch N height)"
  unfolding alignHeight_def [abs_def] fillMissingBlock_def
  by (intro keeps_guarded keeps_bind keeps_sum keeps_cond keeps_record keeps_then keeps_alignTxs keeps_option keeps_ret)

section \<open>The walk\<close>

lemma processNextBlock_Ok:
  assumes "processNextBlock P E sch N c w = (Ok (c', err), w')" and "errors_ok (ch_Errors c)"
  shows "ch_LastHeight c' = ch_LastHeight c + 1" and "ch_MaxHeightStored c' = ch_MaxHeightStored c" and "errors_ok (ch_Errors c')"
proof -
  obtain errs v where run: "alignHeight P E sch N (to_u64 (ch_LastHeight c + 1)) (ch_Errors c) w = (Ok (errs, err), v)"
    and c': "c' = c\<lparr>ch_LastHeight := ch_LastHeight c + 1, ch_Errors := errs\<rparr>"
    using assms(1) by (auto simp: processNextBlock_def Let_def bind_Ok_iff)
  show "ch_LastHeight c' = ch_LastHeight c + 1" "ch_MaxHeightStored c' = ch_MaxHeightStored c" by (simp_all add: c')
  show "errors_ok (ch_Errors c')"     using keeps_alignHeight [of P E sch N "to_u64 (ch_LastHeight c + 1)"] run assms(2) unfolding keeps_errors_def c' by fastforce
qed

section \<open>No error ends the walk\<close>

lemma errorless_record: "errorless (recordAndReturnError txt area e errs)"
  unfolding recordAndReturnError_def by (rule errorless_ret)

lemma errorless_guarded: "(\<And>x. errorless (k x)) \<Longrightarrow> errorless (recordOnError txt area m errs k)"
  unfolding recordOnError_def by (intro errorless_rules errorless_record)

lemma errorless_alignVins: "errorless (alignVins txt t vs errs)"
proof (induction vs arbitrary: errs)
  case (Cons v vs)
  then show ?case unfolding alignVins.simps GetInput_def by (intro errorless_rules)
qed (simp add: errorless_ret)

lemma errorless_alignRecorded: "errorless (alignRecorded txt E sch block height tx errs t)"
  unfolding alignRecorded_def
  by (cases tx, simp only: prod.case) (intro errorless_rules errorless_guarded errorless_alignVins errorless_record)

lemma errorless_alignTxs: "errorless (alignTxs txt E sch block height txs errs)"
proof (induction txs arbitrary: errs)
  case (Cons tx txs)
  then show ?case unfolding alignTxs.simps
    by (intro errorless_rules errorless_guarded errorless_alignRecorded errorless_record)
qed (simp add: errorless_ret)

lemma errorless_alignHeight:
  assumes "\<And>h. errorless (runBlock P h)"
  shows "errorless (alignHeight P E sch N height errs)"
  unfolding alignHeight_def fillMissingBlock_def
  by (intro errorless_rules errorless_guarded errorless_alignTxs errorless_record assms)

lemma errorless_walk:
  assumes "\<And>h. errorless (runBlock P h)"
  shows "errorless (walk P E sch N n c)"
proof (induction n arbitrary: c)
  case (Suc n)
  then show ?case unfolding walk.simps processNextBlock_def Let_def
    by (intro errorless_rules errorless_alignHeight assms)
qed (simp add: errorless_ret)

text \<open>The function the job calls for a block that is not stored is one that returns no error.\<close>

lemma errorless_RunBlockProcessing:
  assumes "errorless genesis"
  shows "errorless (RunBlockProcessing N genesis sync height)"
  unfolding RunBlockProcessing_def ProcessBlock_def by (intro errorless_rules assms)

lemma walk_goes_on:
  assumes "walk P E sch N n c w = (Ok c', w')" and "ch_LastHeight c \<le> ch_MaxHeightStored c" and "errors_ok (ch_Errors c)"
  shows "ch_LastHeight c' = min (ch_LastHeight c + int n) (ch_MaxHeightStored c) \<and> errors_ok (ch_Errors c')"
  using assms
proof (induction n arbitrary: c w)
  case 0
  then show ?case by simp
next
  case (Suc n)
  show ?case
  proof (cases "ch_LastHeight c < ch_MaxHeightStored c")
    case True
    then obtain c1 err w1 where 1: "processNextBlock P E sch N c w = (Ok (c1, err), w1)" "walk P E sch N n c1 w1 = (Ok c', w')"
      using Suc.prems(1) by (auto simp: bind_Ok_iff)
    note next_block = processNextBlock_Ok [OF 1(1) Suc.prems(3)]
    show ?thesis using Suc.IH [OF 1(2)] next_block True by simp
  next
    case False
    then show ?thesis using Suc.prems by simp
  qed
qed

section \<open>Where the walk can panic\<close>

lemma calm_rpc: "calm (rpc f)"
  by (auto simp: calm_def rpc_def split: sum.split)

text \<open>The transactions the node answers with can be processed, and their outputs aligned, without a panic.\<close>

definition tame_tx :: "env \<Rightarrow> txOrder \<Rightarrow> TxRawResult \<Rightarrow> bool" where
  "tame_tx E sch raw \<longleftrightarrow> (\<forall>seconds height. calm (ProcessTx E sch raw seconds height)) \<and>
     (\<forall>t x. \<forall>v\<in>set (tx_Vout raw). calm (alignVout E t v x))"

definition tame :: "env \<Rightarrow> txOrder \<Rightarrow> node \<Rightarrow> bool" where
  "tame E sch N \<longleftrightarrow> (\<forall>i h raw. getRawTransaction N i h = Inr raw \<longrightarrow> tame_tx E sch raw)"

lemma calm_guarded: "calm m \<Longrightarrow> (\<And>x. calm (k x)) \<Longrightarrow> calm (recordOnError txt area m errs k)"
  unfolding recordOnError_def recordAndReturnError_def by (intro calm_steps calm_rpc)

lemma calm_aligns: "calm (alignTx raw t)" "calm (alignBlock s l b)" "calm (alignVin v i)"
  unfolding alignTx_def alignBlock_def alignVin_def GetOutput_def Transaction_UpdateWith_def Block_UpdateWith_def Input_UpdateWith_def
  by (intro calm_steps calm_rpc calm_change; simp add: t_update_def)+

lemma calm_alignVins: "calm (alignVins txt t vs errs)"
proof (induction vs arbitrary: errs)
  case (Cons v vs)
  then show ?case unfolding alignVins.simps GetInput_def by (intro calm_steps calm_rpc calm_aligns)
qed (simp add: calm_rules)

lemma calm_alignRecorded:
  assumes "tame_tx E sch (snd tx)"
  shows "calm (alignRecorded txt E sch block height tx errs t)"
proof -
  obtain h raw where tx: "tx = (h, raw)" by (cases tx)
  have p: "calm (ProcessTx E sch raw s k)" for s k using assms tx by (simp add: tame_tx_def)
  have v: "calm (alignVouts E t' (tx_Vout raw))" for t'
    unfolding alignVouts_def GetOutput_def using assms tx
    by (intro calm_forM calm_steps calm_rpc) (simp add: tame_tx_def)
  show ?thesis
    unfolding tx alignRecorded_def prod.case txPartsMissing_def txOfBlock_def recordAndReturnError_def
    by (intro calm_steps calm_rpc calm_guarded calm_aligns calm_alignVins p v)
qed

lemma calm_alignTxs:
  assumes "\<forall>tx\<in>set txs. tame_tx E sch (snd tx)"
  shows "calm (alignTxs txt E sch block height txs errs)"
  using assms
proof (induction txs arbitrary: errs)
  case (Cons tx txs)
  have t: "tame_tx E sch (snd tx)" using Cons.prems by simp
  then have p: "calm (ProcessTx E sch (snd tx) s k)" for s k by (simp add: tame_tx_def)
  show ?case unfolding alignTxs.simps txOfBlock_def recordAndReturnError_def
    by (intro calm_steps calm_rpc calm_guarded calm_alignRecorded [OF t] p) (use Cons in simp_all)
qed (simp add: calm_rules)

lemma fetched:
  assumes "fetchBlockTransactions N hs w = (Ok txs, w')" and "tame E sch N"
  shows "\<forall>tx\<in>set txs. tame_tx E sch (snd tx)"
  using assms
proof (induction hs arbitrary: w txs)
  case (Cons h hs)
  then obtain raw v xs where "rpc (\<lambda>i. getRawTransaction N i h) w = (Ok raw, v)" and rest: "fetchBlockTransactions N hs v = (Ok xs, w')" and txs: "txs = (h, raw) # xs"
    by (auto simp: bind_Ok_iff)
  then have "\<exists>i. getRawTransaction N i h = Inr raw" by (auto simp: rpc_def split: sum.splits)
  then show ?case using Cons.IH [OF rest Cons.prems(2)] Cons.prems(2) txs by (auto simp: tame_def)
qed simp

lemma calm_fetch: "calm (fetchBlockTransactions N hs)"
  by (induction hs) (simp only: fetchBlockTransactions.simps, intro calm_steps calm_rpc)+

lemma calm_walk:
  assumes run: "\<And>h. calm (runBlock P h)" and quiet: "tame E sch N"
  shows "calm (walk P E sch N n c)"
proof -
  have fetching: "calm (recordOnError et area (fetchBlockTransactions N hs) errs k)"
    if "\<And>txs. \<forall>tx\<in>set txs. tame_tx E sch (snd tx) \<Longrightarrow> calm (k txs)" for et area hs errs k
    unfolding recordOnError_def recordAndReturnError_def
  proof (rule calm_bind_results)
    show "calm (attempt (fetchBlockTransactions N hs))" by (intro calm_attempt calm_fetch)
    fix w x w' assume "attempt (fetchBlockTransactions N hs) w = (Ok x, w')"
    then show "calm (case x of Inl e \<Rightarrow> ret (recordError et area e errs, Some e) | Inr x \<Rightarrow> k x)"
      using that fetched [OF _ quiet] by (cases x) (auto simp: attempt_Ok_iff intro: calm_rules)
  qed
  have step: "calm (alignHeight P E sch N h errs)" for h errs
    unfolding alignHeight_def fillMissingBlock_def blockOfHash_def recordAndReturnError_def
    by (intro fetching calm_steps calm_rpc calm_guarded calm_aligns calm_alignTxs run) 
  show ?thesis
  proof (induction n arbitrary: c)
    case (Suc n)
    then show ?case unfolding walk.simps processNextBlock_def Let_def by (intro calm_steps calm_rpc step)
  qed (simp add: calm_rules)
qed

text \<open>C19: No error holds up the chain sync: whatever statements of the database and calls of the node fail, the walk itself never ends
  with an error. With time for \<open>n\<close> blocks it goes \<open>n\<close> heights further, or to the highest stored one, and remembers at most a thousand
  errors, each of them once. Its only other ending is a panic, and that only if storing a missing block can panic, or storing a transaction
  the node answers with or aligning one of its outputs. The hypothesis on the processing of a block that is not stored is that it returns no error,
  as \<^verbatim>\<open>RunBlockProcessing\<close> does not.\<close>

theorem walk_progress:
  assumes "\<forall>h. errorless (runBlock P h)" and "walk P E sch N n c w = (r, w')"
    and "ch_LastHeight c \<le> ch_MaxHeightStored c" and "errors_ok (ch_Errors c)"
  shows "case r of
      Ok c' \<Rightarrow> ch_LastHeight c' = min (ch_LastHeight c + int n) (ch_MaxHeightStored c) \<and> errors_ok (ch_Errors c')
    | Err e \<Rightarrow> False
    | Panic p \<Rightarrow> (\<exists>h. \<not> calm (runBlock P h)) \<or> \<not> tame E sch N"
proof (cases r)
  case (Ok c')
  then show ?thesis using walk_goes_on assms(2-4) by simp
next
  case (Err e)
  then show ?thesis using errorlessD [OF errorless_walk assms(2), of e] assms(1) by simp
next
  case (Panic p)
  have "\<not> ((\<forall>h. calm (runBlock P h)) \<and> tame E sch N)"
    using calm_walk [of P E sch N n c] assms(2) Panic unfolding calm_def by (metis fst_conv)
  then show ?thesis using Panic by simp
qed

text \<open>A node that answers nothing: three blocks are passed, one error is remembered.\<close>

definition demo_dead_node :: node where
  "demo_dead_node = \<lparr>getBlockHash = (\<lambda>_ _. Inl EOF), getBlock = (\<lambda>_ _. Inl EOF), getRawTransaction = (\<lambda>_ _. Inl EOF)\<rparr>"

definition demo_params :: syncParams where
  "demo_params = \<lparr>errText = (\<lambda>_. ''EOF''), six = id, runBlock = RunBlockProcessing demo_dead_node (ret ()) (\<lambda>_ _ _. ret ()),
     heightError = (\<lambda>_ _. EOF)\<rparr>"

theorem walk_progress_witness:
  "\<exists>c'. fst (walk demo_params demo_env demo_order demo_dead_node 3 (initialStatus\<lparr>ch_MaxHeightStored := 9\<rparr>) demo_world) = Ok c' \<and>
     ch_LastHeight c' = 3 \<and> ch_Errors c' = [(''lbrycrd-getblockhash'', ''EOF'')] \<and> tame demo_env demo_order demo_dead_node"
proof -
  let ?c = "initialStatus\<lparr>ch_MaxHeightStored := 9\<rparr>"
  obtain c' w' where run: "walk demo_params demo_env demo_order demo_dead_node 3 ?c demo_world = (Ok c', w')"
    and errs: "ch_Errors c' = [(''lbrycrd-getblockhash'', ''EOF'')]"
    by (simp add: numeral_3_eq_3 initialStatus_def processNextBlock_def alignHeight_def recordOnError_def attempt_def rpc_def bind_def
        demo_dead_node_def demo_params_def recordAndReturnError_def recordError_def maxChainSyncErrors_def)
  have "\<forall>h. errorless (runBlock demo_params h)" by (simp add: demo_params_def errorless_RunBlockProcessing errorless_ret)
  from walk_progress [OF this run] show ?thesis using run errs by (simp add: initialStatus_def errors_ok_def tame_def demo_dead_node_def)
qed

section \<open>Aligning a transaction\<close>

definition tx_agrees :: "TxRawResult \<Rightarrow> Transaction \<Rightarrow> bool" where
  "tx_agrees l t \<longleftrightarrow> t_Version t = tx_Version l \<and> t_TransactionSize t = to_u64 (tx_Size l) \<and> t_LockTime t = tx_LockTime l \<and>
     t_InputCount t = length (tx_Vin l) \<and> t_OutputCount t = length (tx_Vout l)"

lemma applyAll_Cons: "applyAll [] x = x" "applyAll (f # fs) x = applyAll fs (f x)" "applyAll (fs @ gs) x = applyAll gs (applyAll fs x)"
  by (simp_all add: applyAll_def)

lemma aligned_columns:
  fixes l t defines "t' \<equiv> applyAll (txDiffs l t) t"
  shows "tx_agrees l t'" and "t_TransactionTime t' = map_option (\<lambda>_. to_u64 (tx_Time l)) (t_TransactionTime t)"
    and "t_ID t' = t_ID t" and "t_Hash t' = t_Hash t"
  unfolding t'_def txDiffs_def tx_agrees_def applyAll_Cons diff_def opt_num_def
  by (auto simp: applyAll_Cons split: option.splits)

lemma aligned_once: "t_TransactionTime t \<noteq> None \<Longrightarrow> txDiffs l (applyAll (txDiffs l t) t) = []"
  using aligned_columns [of l t] by (auto simp: txDiffs_def [of l "applyAll (txDiffs l t) t"] tx_agrees_def diff_def opt_num_def)

text \<open>C20: Aligning a stored transaction settles: without faults its row afterwards agrees with the node in every compared column but
  possibly the time, no other row changes, and if the row has a time, that agrees too and a second pass writes nothing. A row whose time is
  null keeps it: the code sets the number but not the mark that says it is present.\<close>

theorem alignTx_settles:
  assumes "no_faults w" and "txT.wf_table (transactions w)" and "t \<in> set (rows (transactions w))"
  shows "\<exists>t' w'. alignTx l t w = (Ok (), w') \<and> rows (transactions w') = map (\<lambda>x. if x = t then t' else x) (rows (transactions w)) \<and>
    tx_agrees l t' \<and> t_TransactionTime t' = map_option (\<lambda>_. to_u64 (tx_Time l)) (t_TransactionTime t) \<and>
    (t_TransactionTime t = None \<or> alignTx l t' w' = (Ok (), w'))"
proof -
  let ?t' = "applyAll (txDiffs l t) t"
  note cols = aligned_columns [of l t]
  show ?thesis
  proof (cases "txDiffs l t = []")
    case True
    then have same: "?t' = t" by (simp add: applyAll_def)
    have "alignTx l t w = (Ok (), w)" using True by (simp add: alignTx_def)
    moreover have "map (\<lambda>x. if x = t then t else x) xs = xs" for xs :: "Transaction list" by (induction xs) auto
    ultimately show ?thesis using cols unfolding same by (intro exI [of _ t] exI [of _ w]) simp
  next
    case False
    have only: "x = t" if "x \<in> set (rows (transactions w))" "t_ID x = t_ID t" for x
      using that assms(2,3) by (simp add: txT.wf_table_def distinct_map inj_on_def)
    have fits: "\<not> (\<exists>x\<in>set (rows (transactions w)). t_ID x = t_ID t \<and>
        (\<exists>y\<in>set (rows (transactions w)). t_ID y \<noteq> t_ID t \<and> transaction_clash y (applyAll (txDiffs l t) x)))"
    proof (intro notI, elim bexE conjE)
      fix x y assume x: "x \<in> set (rows (transactions w))" "t_ID x = t_ID t" and y: "y \<in> set (rows (transactions w))" "t_ID y \<noteq> t_ID t"
        and clash: "transaction_clash y (applyAll (txDiffs l t) x)"
      have "transaction_clash y t" using clash only [OF x] cols(4) by (simp add: transaction_clash_def)
      then show False using y assms(2,3) by (auto simp: txT.wf_table_def)
    qed
    let ?T = "transactions w\<lparr>rows := map (\<lambda>x. if t_ID x = t_ID t then applyAll (txDiffs l t) x else x) (rows (transactions w))\<rparr>"
    have run: "alignTx l t w = (Ok (), (tick w)\<lparr>transactions := ?T\<rparr>)"
    proof -
      have up: "t_update t_ID transaction_clash (t_ID t) (applyAll (txDiffs l t)) (transactions w) = Ok ?T"
        unfolding t_update_def using fits by (rule if_not_P)
      have "fault w (stmts w) = None" using assms(1) by (simp add: no_faults_def)
      then show ?thesis using False by (simp add: alignTx_def Transaction_UpdateWith_def change_def stmt_run up)
    qed
    have rows: "map (\<lambda>x. if t_ID x = t_ID t then applyAll (txDiffs l t) x else x) (rows (transactions w)) =
        map (\<lambda>x. if x = t then ?t' else x) (rows (transactions w))"
      using only by auto
    have again: "t_TransactionTime t = None \<or> alignTx l ?t' v = (Ok (), v)" for v
      using aligned_once [of t l] by (cases "t_TransactionTime t = None") (simp_all add: alignTx_def)
    have "rows (transactions ((tick w)\<lparr>transactions := ?T\<rparr>)) = map (\<lambda>x. if x = t then ?t' else x) (rows (transactions w))"
      unfolding rows by simp
    then show ?thesis using run cols(1,2) again by blast
  qed
qed

theorem alignTx_settles_witness:
  "\<exists>t' w'. alignTx (Transactions_Spec.demo_json ''t1'' []) (zeroTransaction\<lparr>t_ID := 1, t_Hash := ''t1''\<rparr>)
      (demo_world\<lparr>transactions := \<lparr>rows = [zeroTransaction\<lparr>t_ID := 1, t_Hash := ''t1''\<rparr>], nextID = 2\<rparr>\<rparr>) = (Ok (), w') \<and>
    rows (transactions w') = [t'] \<and> t_OutputCount t' = 2 \<and> t_TransactionTime t' = None"
proof -
  let ?t = "zeroTransaction\<lparr>t_ID := 1, t_Hash := ''t1''\<rparr>"
  have "no_faults (demo_world\<lparr>transactions := \<lparr>rows = [?t], nextID = 2\<rparr>\<rparr>)" by (simp add: no_faults_def demo_world_def)
  from alignTx_settles [OF this, of ?t "Transactions_Spec.demo_json ''t1'' []"] show ?thesis
    by (auto simp: txT.wf_table_def tx_agrees_def Transactions_Spec.demo_json_def zeroTransaction_def)
qed

end
