(* ===== verification/OutputFix.thy ===== *)
theory OutputFix
  imports CertSync
begin

text \<open>
  \<^verbatim>\<open>daemon/jobs/outputfixsync.go\<close>: the job that takes back claims wrongly marked as spent. The job itself reads the claims page
  by page and sends them through a channel with room for one hundred; \<^verbatim>\<open>runtime.NumCPU()-1\<close> workers receive them. A worker that
  meets an error reports it and ends. A run is a step relation over all interleavings; what a worker does with one claim is one
  step: different claims are different rows, and of a claim that was sent twice the second update writes what the first one wrote. The order in which the database returns a page is a parameter.
\<close>

section \<open>A run\<close>

text \<open>Only the selected columns of a claim are loaded.\<close>

definition fixColumns :: "Claim \<Rightarrow> Claim" where
  "fixColumns c = zeroClaim\<lparr>c_ID := c_ID c, c_ClaimID := c_ClaimID c, c_TransactionHashID := c_TransactionHashID c,
     c_TransactionHashUpdate := c_TransactionHashUpdate c, c_VoutUpdate := c_VoutUpdate c\<rparr>"

definition fixPage :: "(Claim list \<Rightarrow> Claim list) \<Rightarrow> nat \<Rightarrow> world \<Rightarrow> Claim list" where
  "fixPage ord lastClaimRecordID w = map fixColumns (take 15000 (ord (spent_claims lastClaimRecordID w)))"

record fixRun =
  fx_db :: world
  fx_claims :: "Claim list"
  fx_last :: nat
  fx_spentClaims :: "Claim list"
  fx_closed :: bool
  fx_busy :: "Claim list"
  fx_workers :: nat
  fx_errors :: "goerr list"
  fx_result :: "goerr option option"

definition startFix :: "nat \<Rightarrow> world \<Rightarrow> fixRun" where
  "startFix numCPU w =
     \<lparr>fx_db = w, fx_claims = [], fx_last = 0, fx_spentClaims = [], fx_closed = False, fx_busy = [],
      fx_workers = numCPU - 1, fx_errors = [], fx_result = None\<rparr>"

text \<open>
  \<open>Fetch\<close> is the query before the loop and at its end; an empty page ends the loop and closes the channel. \<open>Finish\<close> is
  \<^verbatim>\<open>wg.Wait\<close>: every worker has ended, on an error or because the channel is closed and empty.
\<close>

inductive fix_step :: "(Claim list \<Rightarrow> Claim list) \<Rightarrow> fixRun \<Rightarrow> fixRun \<Rightarrow> bool" for ord where
  Fetch: "fx_result r = None \<Longrightarrow> \<not> fx_closed r \<Longrightarrow> fx_claims r = [] \<Longrightarrow> query (fixPage ord (fx_last r)) (fx_db r) = (Ok cs, w) \<Longrightarrow>
    fix_step ord r (r\<lparr>fx_db := w, fx_claims := cs, fx_closed := (cs = [])\<rparr>)"
| FetchFailed: "fx_result r = None \<Longrightarrow> \<not> fx_closed r \<Longrightarrow> fx_claims r = [] \<Longrightarrow> query (fixPage ord (fx_last r)) (fx_db r) = (Err e, w) \<Longrightarrow>
    fix_step ord r (r\<lparr>fx_db := w, fx_result := Some (Some e)\<rparr>)"
| Send: "fx_result r = None \<Longrightarrow> fx_claims r = c # cs \<Longrightarrow> length (fx_spentClaims r) < 100 \<Longrightarrow>
    fix_step ord r (r\<lparr>fx_claims := cs, fx_last := c_ID c, fx_spentClaims := fx_spentClaims r @ [c]\<rparr>)"
| Receive: "fx_spentClaims r = c # cs \<Longrightarrow> length (fx_busy r) < fx_workers r \<Longrightarrow>
    fix_step ord r (r\<lparr>fx_spentClaims := cs, fx_busy := fx_busy r @ [c]\<rparr>)"
| Work: "fx_busy r = xs @ c # ys \<Longrightarrow> fixClaim c (fx_db r) = (Ok (), w) \<Longrightarrow>
    fix_step ord r (r\<lparr>fx_db := w, fx_busy := xs @ ys\<rparr>)"
| WorkFailed: "fx_busy r = xs @ c # ys \<Longrightarrow> fixClaim c (fx_db r) = (Err e, w) \<Longrightarrow>
    fix_step ord r (r\<lparr>fx_db := w, fx_busy := xs @ ys, fx_workers := fx_workers r - 1, fx_errors := fx_errors r @ [e]\<rparr>)"
| Finish: "fx_result r = None \<Longrightarrow> fx_closed r \<Longrightarrow> fx_busy r = [] \<Longrightarrow> fx_spentClaims r = [] \<or> fx_workers r = 0 \<Longrightarrow>
    fix_step ord r (r\<lparr>fx_result := Some None\<rparr>)"

inductive_cases fix_stepE: "fix_step ord r r'"

definition fix_reachable :: "(Claim list \<Rightarrow> Claim list) \<Rightarrow> nat \<Rightarrow> world \<Rightarrow> fixRun \<Rightarrow> bool" where
  "fix_reachable ord numCPU w r \<longleftrightarrow> (fix_step ord)\<^sup>*\<^sup>* (startFix numCPU w) r"

end
