(* ===== verification/OutputFix_Spec.thy ===== *)
theory OutputFix_Spec
  imports OutputFix CertSync_Spec Validation_Spec Systems "HOL-Library.Multiset"
begin

text \<open>
  What the repair of spent claims does, in every interleaving of the job and its workers and in whatever order the database returns its
  pages: when no worker fails, only claims without a spending output become active, and all of them if they fit a page;
  the job takes a bounded number of steps, and it gets stuck in exactly one situation.
\<close>

section \<open>One claim\<close>

text \<open>The query does not ask for an order: all that is known of a page is that it holds the rows, each once. A favourable order is by
  increasing id.\<close>

definition rows_once :: "(Claim list \<Rightarrow> Claim list) \<Rightarrow> bool" where
  "rows_once ord \<longleftrightarrow> (\<forall>xs. mset (ord xs) = mset xs)"

definition by_id :: "(Claim list \<Rightarrow> Claim list) \<Rightarrow> bool" where
  "by_id ord \<longleftrightarrow> (\<forall>xs. sorted (map c_ID (ord xs)) \<and> mset (ord xs) = mset xs)"

definition wrongly_spent :: "world \<Rightarrow> Claim \<Rightarrow> bool" where
  "wrongly_spent w c \<longleftrightarrow> c_BidState c = ''Spent'' \<and> (\<forall>x\<in>set (rows (outputs w)). \<not> really_spent c x)"

definition fixRow :: "world \<Rightarrow> Claim \<Rightarrow> Claim" where
  "fixRow w c = (if wrongly_spent w c then c\<lparr>c_BidState := ''Active'', c_ModifiedAt := clock w\<rparr> else c)"

lemma fixColumns [simp]: "c_ID (fixColumns c) = c_ID c" "really_spent (fixColumns c) = really_spent c"
  by (simp_all add: fixColumns_def really_spent_def fun_eq_iff)

lemma c_ID_fixRow [simp]: "c_ID (fixRow w c) = c_ID c" by (simp add: fixRow_def)

text \<open>Only claims and the number of statements change.\<close>

definition only_fixed :: "world \<Rightarrow> world \<Rightarrow> bool" where
  "only_fixed w v \<longleftrightarrow> (\<exists>cs n. v = w\<lparr>claims := cs, stmts := n\<rparr> \<and> map c_ID (rows cs) = map c_ID (rows (claims w)))"

lemma only_fixed_rows:
  assumes "only_fixed w v"
  shows "outputs v = outputs w" and "clock v = clock w" and "map c_ID (rows (claims v)) = map c_ID (rows (claims w))"
  using assms by (auto simp: only_fixed_def)

lemma fixClaim_cases:
  assumes "fixClaim c v = (q, v')"
  obtains (failed) e n where "q = Err e" "v' = v\<lparr>stmts := n\<rparr>"
  | (spent) x n where "q = Ok ()" "v' = v\<lparr>stmts := n\<rparr>" "x \<in> set (rows (outputs v))" "really_spent c x"
  | (fixed) n where "q = Ok ()" "\<forall>x\<in>set (rows (outputs v)). \<not> really_spent c x"
      "v' = v\<lparr>stmts := n, claims := t_map (\<lambda>x. if c_ID x = c_ID c then x\<lparr>c_BidState := ''Active'', c_ModifiedAt := clock v\<rparr> else x) (claims v)\<rparr>"
proof -
  let ?find = "first_row (really_spent c) (outputs v)"
  have find: "?find = None \<longleftrightarrow> (\<forall>x\<in>set (rows (outputs v)). \<not> really_spent c x)"
    by (auto simp: first_row_def find_None_iff)
  have found: "x \<in> set (rows (outputs v)) \<and> really_spent c x" if "?find = Some x" for x
    using that unfolding first_row_def by (rule find_mem)
  consider (q) e where "fault v (stmts v) = Some e" | (s) x where "fault v (stmts v) = None" "?find = Some x"
    | (u) e where "fault v (stmts v) = None" "?find = None" "fault v (Suc (stmts v)) = Some e"
    | (f) "fault v (stmts v) = None" "?find = None" "fault v (Suc (stmts v)) = None" by fastforce
  then show thesis
  proof cases
    case q
    then show ?thesis using assms failed by (auto simp: fixClaim_def bind_def query_def stmt_def)
  next
    case s
    then show ?thesis using assms spent found [OF s(2)] by (auto simp: fixClaim_def bind_def query_def stmt_def)
  next
    case u
    then show ?thesis using assms failed by (auto simp: fixClaim_def Claim_UpdateStateG_def bind_def query_def stmt_def)
  next
    case f
    then show ?thesis using assms find by (intro fixed [of "stmts v + 2"]) (auto simp: fixClaim_def Claim_UpdateStateG_def bind_def query_def stmt_def Let_def cong: if_cong)
  qed
qed

lemma stmts_claims: "w\<lparr>stmts := n, claims := cs\<rparr> = w\<lparr>claims := cs, stmts := n\<rparr>"
  by (cases w) simp

lemma fixClaim_only:
  assumes "fixClaim c v = (q, v')" and "only_fixed w v"
  shows "only_fixed w v'"
proof -
  obtain cs n where v: "v = w\<lparr>claims := cs, stmts := n\<rparr>" "map c_ID (rows cs) = map c_ID (rows (claims w))"
    using assms(2) by (auto simp: only_fixed_def)
  have "\<exists>n. v' = w\<lparr>claims := claims v', stmts := n\<rparr> \<and> map c_ID (rows (claims v')) = map c_ID (rows cs)"
    using assms(1) by (cases rule: fixClaim_cases) (auto simp: v(1) stmts_claims t_map_def comp_def cong: if_cong)
  then show ?thesis using v(2) by (auto simp: only_fixed_def)
qed

section \<open>One page\<close>

lemma sorted_prefix:
  assumes "sorted (map c_ID xs)" and "distinct (map c_ID xs)" and "x \<in> set xs" and "take k xs \<noteq> []" and "c_ID x \<le> c_ID (last (take k xs))"
  shows "x \<in> set (take k xs)"
proof (rule ccontr)
  assume n: "x \<notin> set (take k xs)"
  have xs: "xs = take k xs @ drop k xs" by simp
  have "x \<in> set (take k xs) \<union> set (drop k xs)" using assms(3) by (metis append_take_drop_id set_append)
  then have d: "x \<in> set (drop k xs)" using n by simp
  have l: "last (take k xs) \<in> set (take k xs)" using assms(4) by simp
  have "sorted (map c_ID (take k xs @ drop k xs))" "distinct (map c_ID (take k xs @ drop k xs))" using assms(1,2) by simp_all
  then have "c_ID (last (take k xs)) \<le> c_ID x" "c_ID (last (take k xs)) \<noteq> c_ID x"
    using d l unfolding map_append sorted_append distinct_append by (auto simp: disjoint_iff)
  then show False using assms(5) by simp
qed

lemma fixPage:
  fixes l :: nat
  assumes ord: "rows_once ord" and ids: "distinct (map c_ID (rows (claims v)))"
  defines "p \<equiv> fixPage ord l v"
  shows "\<And>c. c \<in> set p \<Longrightarrow> \<exists>x\<in>set (spent_claims l v). c = fixColumns x"
    and "p = [] \<Longrightarrow> spent_claims l v = []"
    and "length p \<le> min 15000 (length (rows (claims v)))"
    and "\<And>x. length (spent_claims l v) \<le> 15000 \<Longrightarrow> x \<in> set (spent_claims l v) \<Longrightarrow> fixColumns x \<in> set p"
    and "distinct (map c_ID p)"
proof -
  let ?xs = "spent_claims l v"
  have o: "mset (ord ?xs) = mset ?xs" using ord by (simp add: rows_once_def)
  have set: "set (ord ?xs) = set ?xs" and len: "length (ord ?xs) = length ?xs" using mset_eq_setD [OF o] mset_eq_length [OF o] .
  show "\<exists>x\<in>set ?xs. c = fixColumns x" if "c \<in> set p" for c
    using that set by (auto simp: p_def fixPage_def dest: in_set_takeD)
  show "?xs = []" if "p = []"
    using that set by (cases "ord ?xs") (auto simp: p_def fixPage_def)
  have "length ?xs \<le> length (rows (claims v))" by (simp add: spent_claims_def)
  then show "length p \<le> min 15000 (length (rows (claims v)))" using len by (simp add: p_def fixPage_def)
  show "fixColumns x \<in> set p" if "length ?xs \<le> 15000" "x \<in> set ?xs" for x
    using that set len by (simp add: p_def fixPage_def)
  have "distinct (map c_ID ?xs)" using ids by (simp add: spent_claims_def distinct_map_filter)
  moreover have "mset (map c_ID (ord ?xs)) = mset (map c_ID ?xs)" using o by simp
  ultimately have "distinct (map c_ID (ord ?xs))" by (metis mset_eq_imp_distinct_iff)
  moreover have "map c_ID p = take 15000 (map c_ID (ord ?xs))" by (simp add: p_def fixPage_def take_map comp_def)
  ultimately show "distinct (map c_ID p)" by simp
qed

lemma by_id_once: "by_id ord \<Longrightarrow> rows_once ord"
  by (simp add: by_id_def rows_once_def)

lemma fixPage_by_id:
  fixes l :: nat
  assumes ord: "by_id ord" and ids: "distinct (map c_ID (rows (claims v)))"
  defines "p \<equiv> fixPage ord l v"
  shows "sorted (map c_ID p)" and "\<And>x. p \<noteq> [] \<Longrightarrow> x \<in> set (spent_claims l v) \<Longrightarrow> c_ID x \<le> c_ID (last p) \<Longrightarrow> fixColumns x \<in> set p"
proof -
  let ?xs = "spent_claims l v"
  have o: "sorted (map c_ID (ord ?xs))" "mset (ord ?xs) = mset ?xs" using ord by (simp_all add: by_id_def)
  have set: "set (ord ?xs) = set ?xs" by (rule mset_eq_setD [OF o(2)])
  have "distinct (map c_ID ?xs)" using ids by (simp add: spent_claims_def distinct_map_filter)
  moreover have "mset (map c_ID (ord ?xs)) = mset (map c_ID ?xs)" using o(2) by simp
  ultimately have d: "distinct (map c_ID (ord ?xs))" by (metis mset_eq_imp_distinct_iff)
  have "map c_ID p = take 15000 (map c_ID (ord ?xs))" by (simp add: p_def fixPage_def take_map comp_def)
  then show "sorted (map c_ID p)" using o(1) by (simp add: sorted_wrt_take)
  show "fixColumns x \<in> set p" if "p \<noteq> []" "x \<in> set ?xs" "c_ID x \<le> c_ID (last p)" for x
  proof -
    have ne: "take 15000 (ord ?xs) \<noteq> []" using that(1) by (auto simp: p_def fixPage_def)
    then have "c_ID (last p) = c_ID (last (take 15000 (ord ?xs)))" by (simp add: p_def fixPage_def last_map)
    then have "x \<in> set (take 15000 (ord ?xs))" using sorted_prefix [OF o(1) d _ ne] that(2,3) set by simp
    then show ?thesis by (auto simp: p_def fixPage_def)
  qed
qed

section \<open>The invariant of a run\<close>

definition fix_ok :: "nat \<Rightarrow> world \<Rightarrow> fixRun \<Rightarrow> bool" where
  "fix_ok numCPU w r \<longleftrightarrow> only_fixed w (fx_db r) \<and> length (fx_busy r) \<le> fx_workers r \<and>
     fx_workers r + length (fx_errors r) = numCPU - 1 \<and> length (fx_spentClaims r) \<le> 100 \<and> (fx_closed r \<longrightarrow> fx_claims r = []) \<and>
     (fx_result r = Some None \<longrightarrow> fx_closed r \<and> fx_busy r = [] \<and> (fx_spentClaims r = [] \<or> fx_workers r = 0))"

lemma only_fixed_ids: "only_fixed w v \<Longrightarrow> c_ID ` set (rows (claims v)) = c_ID ` set (rows (claims w))"
  using only_fixed_rows(3) [of w v] by (metis list.set_map)

lemma query_only: "query f v = (q, v') \<Longrightarrow> only_fixed w v \<Longrightarrow> only_fixed w v' \<and> v' = v\<lparr>stmts := stmts v + 1\<rparr> \<and> (\<forall>x. q = Ok x \<longrightarrow> x = f v') \<and> (\<forall>p. q \<noteq> Panic p)"
  by (auto simp: query_def stmt_def Let_def only_fixed_def split: option.splits)

lemma fix_ok_step:
  assumes ok: "fix_ok numCPU w r" and step: "fix_step ord r r'"
  shows "fix_ok numCPU w r'"
  using step
proof (cases rule: fix_step.cases)
  case (Fetch cs v)
  then show ?thesis using ok query_only [OF Fetch(5)] by (simp add: fix_ok_def)
next
  case (FetchFailed e v)
  then show ?thesis using ok query_only [OF FetchFailed(5)] by (simp add: fix_ok_def)
next
  case (Send c cs)
  then show ?thesis using ok by (simp add: fix_ok_def)
next
  case (Receive c cs)
  then show ?thesis using ok by (simp add: fix_ok_def)
next
  case (Work xs c ys v)
  then show ?thesis using ok fixClaim_only [OF Work(3)] by (simp add: fix_ok_def)
next
  case (WorkFailed xs c ys v e)
  then show ?thesis using ok fixClaim_only [OF WorkFailed(3)] by (auto simp: fix_ok_def)
next
  case Finish
  then show ?thesis using ok by (simp add: fix_ok_def)
qed

section \<open>What has been settled\<close>

definition on_the_way :: "fixRun \<Rightarrow> Claim set" where
  "on_the_way r = set (fx_claims r) \<union> set (fx_spentClaims r) \<union> set (fx_busy r)"

definition spent_rows :: "world \<Rightarrow> Claim set" where
  "spent_rows w = {x \<in> set (rows (claims w)). c_BidState x = ''Spent''}"

text \<open>The first page has been read.\<close>

definition started :: "fixRun \<Rightarrow> bool" where
  "started r \<longleftrightarrow> fx_claims r \<noteq> [] \<or> 0 < fx_last r \<or> fx_closed r"

text \<open>\<open>D\<close> are the ids a worker is done with. If one page holds all spent claims, each of them is done or on its way from then on. In any
  order the last id sent is done or on its way, and at the end what is above it is done.\<close>

definition settled :: "world \<Rightarrow> fixRun \<Rightarrow> nat set \<Rightarrow> bool" where
  "settled w r D \<longleftrightarrow> claims (fx_db r) = t_map (\<lambda>c. if c_ID c \<in> D then fixRow w c else c) (claims w) \<and> D \<subseteq> c_ID ` spent_rows w \<and>
     on_the_way r \<subseteq> fixColumns ` spent_rows w \<and>
     (card (spent_rows w) \<le> 15000 \<and> started r \<longrightarrow> (\<forall>x\<in>spent_rows w. c_ID x \<in> D \<or> fixColumns x \<in> on_the_way r)) \<and>
     (fx_last r = 0 \<or> fx_last r \<in> D \<or> fx_last r \<in> c_ID ` on_the_way r) \<and>
     (fx_closed r \<longrightarrow> (\<forall>x\<in>spent_rows w. c_ID x \<le> fx_last r \<or> c_ID x \<in> D))"

lemma now_spent:
  assumes "claims v = t_map (\<lambda>c. if c_ID c \<in> D then fixRow w c else c) (claims w)"
  shows "set (spent_claims l v) \<subseteq> {x \<in> spent_rows w. l < c_ID x}"
    and "\<And>x. x \<in> spent_rows w \<Longrightarrow> l < c_ID x \<Longrightarrow> c_ID x \<notin> D \<Longrightarrow> x \<in> set (spent_claims l v)"
proof -
  have keep: "(if c_ID x \<in> D then fixRow w x else x) = x" if "c_BidState (if c_ID x \<in> D then fixRow w x else x) = ''Spent''" for x
  proof (cases "c_ID x \<in> D \<and> wrongly_spent w x")
    case True
    then show ?thesis using that by (simp add: fixRow_def)
  qed (auto simp: fixRow_def)
  show "set (spent_claims l v) \<subseteq> {x \<in> spent_rows w. l < c_ID x}"
  proof
    fix y assume y: "y \<in> set (spent_claims l v)"
    then obtain x where x: "x \<in> set (rows (claims w))" "y = (if c_ID x \<in> D then fixRow w x else x)"
      unfolding spent_claims_def assms t_map_def by auto
    have "c_BidState y = ''Spent''" "l < c_ID y" using y by (simp_all add: spent_claims_def)
    moreover have "y = x" using keep [of x] calculation(1) x(2) by simp
    ultimately show "y \<in> {x \<in> spent_rows w. l < c_ID x}" using x(1) by (simp add: spent_rows_def)
  qed
  show "x \<in> set (spent_claims l v)" if "x \<in> spent_rows w" "l < c_ID x" "c_ID x \<notin> D" for x
  proof -
    have "x \<in> set (rows (claims w))" using that(1) by (simp add: spent_rows_def)
    then have "(if c_ID x \<in> D then fixRow w x else x) \<in> set (rows (claims v))" unfolding assms t_map_def by simp
    then show ?thesis using that by (simp add: spent_claims_def spent_rows_def)
  qed
qed

lemma settled_Fetch:
  assumes ord: "rows_once ord" and wf: "claimT.wf_table (claims w)" and ok: "fix_ok numCPU w r" and D: "settled w r D"
    and q: "query (fixPage ord (fx_last r)) (fx_db r) = (Ok cs, v)" and none: "fx_claims r = []" "\<not> fx_closed r"
  shows "settled w (r\<lparr>fx_db := v, fx_claims := cs, fx_closed := (cs = [])\<rparr>) D"
proof -
  let ?l = "fx_last r" and ?r = "r\<lparr>fx_db := v, fx_claims := cs, fx_closed := (cs = [])\<rparr>"
  have v: "only_fixed w v" "cs = fixPage ord ?l v" "claims v = claims (fx_db r)" using query_only [OF q] ok by (auto simp: fix_ok_def)
  have d: "distinct (map c_ID (rows (claims v)))" using wf only_fixed_rows(3) [OF v(1)] by (simp add: claimT.wf_table_def)
  note p = fixPage [OF ord d, where l = ?l, folded v(2)]
  have cv: "claims v = t_map (\<lambda>c. if c_ID c \<in> D then fixRow w c else c) (claims w)" using D v(3) by (simp add: settled_def)
  note sp = now_spent [OF cv, where l = ?l]
  have way: "on_the_way ?r = set cs \<union> on_the_way r" using none by (auto simp: on_the_way_def)
  have new: "set cs \<subseteq> fixColumns ` spent_rows w" using p(1) sp(1) by blast
  have small: "c_ID x \<in> D \<or> fixColumns x \<in> on_the_way ?r" if c: "card (spent_rows w) \<le> 15000" and x: "x \<in> spent_rows w" for x
  proof (cases "started r")
    case True
    then show ?thesis using D c x way by (auto simp: settled_def)
  next
    case False
    then have l: "?l = 0" by (simp add: started_def)
    have "distinct (spent_claims ?l v)" using d by (simp add: spent_claims_def distinct_map)
    then have "length (spent_claims ?l v) = card (set (spent_claims ?l v))" by (simp add: distinct_card)
    also have "\<dots> \<le> card (spent_rows w)" using sp(1) by (intro card_mono) (auto simp: spent_rows_def)
    finally have "length (spent_claims ?l v) \<le> 15000" using c by simp
    moreover have "0 < c_ID x" using wf x by (simp add: claimT.wf_table_def spent_rows_def)
    ultimately show ?thesis using p(4) [of x] sp(2) [of x] x l way by auto
  qed
  have closed: "c_ID x \<le> ?l \<or> c_ID x \<in> D" if "cs = []" "x \<in> spent_rows w" for x
    using p(2) [OF that(1)] sp(2) [OF that(2)] by (metis empty_iff empty_set not_le)
  have last: "?l = 0 \<or> ?l \<in> D \<or> ?l \<in> c_ID ` on_the_way ?r" using D way by (auto simp: settled_def)
  have old: "D \<subseteq> c_ID ` spent_rows w" "on_the_way r \<subseteq> fixColumns ` spent_rows w" using D by (simp_all add: settled_def)
  show ?thesis unfolding settled_def using cv old new way small closed last by auto
qed

lemma work_rows:
  assumes w: "distinct (map c_ID (rows (claims w)))" and only: "only_fixed w v" and x: "x \<in> spent_rows w"
    and old: "claims v = t_map (\<lambda>c. if c_ID c \<in> D then fixRow w c else c) (claims w)" and work: "fixClaim (fixColumns x) v = (Ok (), v')"
  shows "claims v' = t_map (\<lambda>c. if c_ID c \<in> insert (c_ID x) D then fixRow w c else c) (claims w)"
proof -
  let ?f = "\<lambda>E c. if c_ID c \<in> E then fixRow w c else c"
  have inj: "y = x" if "y \<in> set (rows (claims w))" "c_ID y = c_ID x" for y
    using w x that by (auto simp: spent_rows_def distinct_map dest: inj_onD)
  have o: "outputs v = outputs w" "clock v = clock w" using only only_fixed_rows by auto
  show ?thesis
    using work
  proof (cases rule: fixClaim_cases)
    case (failed e n)
    then show ?thesis by simp
  next
    case (spent z n)
    have "z \<in> set (rows (outputs w))" "really_spent x z" using spent(3,4) o(1) by simp_all
    then have "fixRow w x = x" unfolding fixRow_def wrongly_spent_def by meson
    then have "?f (insert (c_ID x) D) y = ?f D y" if "y \<in> set (rows (claims w))" for y using inj [OF that] by auto
    then show ?thesis using spent(2) old by (simp add: t_map_def)
  next
    case (fixed n)
    have "wrongly_spent w x" using fixed(2) o(1) x by (simp add: wrongly_spent_def spent_rows_def)
    then have fx: "fixRow w x = x\<lparr>c_BidState := ''Active'', c_ModifiedAt := clock w\<rparr>" by (simp add: fixRow_def)
    have "(if c_ID (?f D y) = c_ID x then (?f D y)\<lparr>c_BidState := ''Active'', c_ModifiedAt := clock w\<rparr> else ?f D y) =
        ?f (insert (c_ID x) D) y" if y: "y \<in> set (rows (claims w))" for y
    proof (cases "c_ID y = c_ID x")
      case True
      then have "y = x" using inj [OF y] by simp
      then show ?thesis using fx by simp
    qed simp
    then have "t_map (\<lambda>z. if c_ID z = c_ID x then z\<lparr>c_BidState := ''Active'', c_ModifiedAt := clock w\<rparr> else z) (t_map (?f D) (claims w)) =
        t_map (?f (insert (c_ID x) D)) (claims w)"
      unfolding t_map_t_map by (rule t_map_cong)
    moreover have "claims v' = t_map (\<lambda>z. if c_ID z = c_ID x then z\<lparr>c_BidState := ''Active'', c_ModifiedAt := clock w\<rparr> else z) (claims v)"
      unfolding fixed(3) o(2) by simp
    ultimately show ?thesis unfolding old by simp
  qed
qed

lemma settled_Work:
  assumes w: "distinct (map c_ID (rows (claims w)))" and ok: "fix_ok numCPU w r" and D: "settled w r D"
    and work: "fx_busy r = xs @ c # ys" "fixClaim c (fx_db r) = (Ok (), v)"
  shows "settled w (r\<lparr>fx_db := v, fx_busy := xs @ ys\<rparr>) (insert (c_ID c) D)"
proof -
  let ?r = "r\<lparr>fx_db := v, fx_busy := xs @ ys\<rparr>"
  have way: "on_the_way r = insert c (on_the_way ?r)" using work(1) by (auto simp: on_the_way_def)
  have s: "started ?r = started r" by (simp add: started_def)
  obtain x where x: "x \<in> spent_rows w" "c = fixColumns x" using D way by (auto simp: settled_def)
  have only: "only_fixed w (fx_db r)" using ok by (simp add: fix_ok_def)
  have old: "claims (fx_db r) = t_map (\<lambda>c. if c_ID c \<in> D then fixRow w c else c) (claims w)" using D by (simp add: settled_def)
  have "claims v = t_map (\<lambda>y. if c_ID y \<in> insert (c_ID c) D then fixRow w y else y) (claims w)"
    using work_rows [OF w only x(1) old] work(2) x(2) by simp
  moreover have "insert (c_ID c) D \<subseteq> c_ID ` spent_rows w" "on_the_way ?r \<subseteq> fixColumns ` spent_rows w" using D x way by (auto simp: settled_def)
  moreover have "c_ID z \<in> insert (c_ID c) D \<or> fixColumns z \<in> on_the_way ?r" if "card (spent_rows w) \<le> 15000" "started r" "z \<in> spent_rows w" for z
  proof -
    have "c_ID z \<in> D \<or> fixColumns z \<in> insert c (on_the_way ?r)" using D that unfolding settled_def way by blast
    then show ?thesis using fixColumns(1) [of z] by auto
  qed
  moreover have "fx_last r = 0 \<or> fx_last r \<in> insert (c_ID c) D \<or> fx_last r \<in> c_ID ` on_the_way ?r" using D unfolding settled_def way by auto
  moreover have "fx_closed r \<longrightarrow> (\<forall>x\<in>spent_rows w. c_ID x \<le> fx_last r \<or> c_ID x \<in> insert (c_ID c) D)" using D by (auto simp: settled_def)
  ultimately show ?thesis unfolding settled_def s by simp
qed

text \<open>Steps that only move claims along.\<close>

lemma settled_moved:
  assumes "settled w r D" and "claims (fx_db r') = claims (fx_db r)" and "on_the_way r' = on_the_way r" and "started r' = started r"
    and "fx_last r' = fx_last r" and "fx_closed r' = fx_closed r"
  shows "settled w r' D"
  using assms by (simp add: settled_def)

lemma settled_Send:
  assumes "settled w r D" and "fx_claims r = c # cs" and "\<not> fx_closed r" and pos: "\<forall>x\<in>spent_rows w. 0 < c_ID x"
  shows "settled w (r\<lparr>fx_claims := cs, fx_last := c_ID c, fx_spentClaims := fx_spentClaims r @ [c]\<rparr>) D"
proof -
  let ?r = "r\<lparr>fx_claims := cs, fx_last := c_ID c, fx_spentClaims := fx_spentClaims r @ [c]\<rparr>"
  have way: "on_the_way ?r = on_the_way r" "c \<in> on_the_way r" using assms(2) by (auto simp: on_the_way_def)
  have "started r" using assms(2) by (simp add: started_def)
  then show ?thesis using assms(1,3) way by (auto simp: settled_def)
qed

lemma settled_step:
  assumes ord: "rows_once ord" and wf: "claimT.wf_table (claims w)" and ok: "fix_ok numCPU w r" and step: "fix_step ord r r'"
    and D: "settled w r D" and errs: "fx_errors r' = []"
  shows "\<exists>D. settled w r' D"
  using step
proof (cases rule: fix_step.cases)
  case (Fetch cs v)
  then show ?thesis using settled_Fetch [OF ord wf ok D Fetch(5,4,3)] by auto
next
  case (FetchFailed e v)
  have "v = (fx_db r)\<lparr>stmts := stmts (fx_db r) + 1\<rparr>" using query_only [OF FetchFailed(5)] ok by (auto simp: fix_ok_def)
  then have "settled w r' D" using FetchFailed(1) by (intro settled_moved [OF D]) (simp_all add: on_the_way_def started_def)
  then show ?thesis ..
next
  case (Send c cs)
  have "\<forall>x\<in>spent_rows w. 0 < c_ID x" using wf by (simp add: claimT.wf_table_def spent_rows_def)
  then show ?thesis using settled_Send [OF D Send(3)] ok Send(1,3) by (auto simp: fix_ok_def)
next
  case (Receive c cs)
  then have "settled w r' D" by (intro settled_moved [OF D]) (auto simp: on_the_way_def started_def)
  then show ?thesis ..
next
  case (Work xs c ys v)
  have "distinct (map c_ID (rows (claims w)))" using wf by (simp add: claimT.wf_table_def)
  then show ?thesis using settled_Work [OF _ ok D Work(2,3)] Work(1) by auto
next
  case (WorkFailed xs c ys v e)
  then show ?thesis using errs by simp
next
  case Finish
  then have "settled w r' D" by (intro settled_moved [OF D]) (auto simp: on_the_way_def started_def)
  then show ?thesis ..
qed

section \<open>The favourable order\<close>

text \<open>When pages come by id, the job has seen the claims up to the horizon; each of them is done or on its way.\<close>

definition horizon :: "fixRun \<Rightarrow> nat" where
  "horizon r = (if fx_claims r = [] then fx_last r else c_ID (last (fx_claims r)))"

definition seen :: "world \<Rightarrow> fixRun \<Rightarrow> nat set \<Rightarrow> bool" where
  "seen w r D \<longleftrightarrow> (\<forall>x\<in>spent_rows w. c_ID x \<le> horizon r \<longrightarrow> c_ID x \<in> D \<or> fixColumns x \<in> on_the_way r)"

lemma seen_Fetch:
  assumes ord: "by_id ord" and wf: "claimT.wf_table (claims w)" and ok: "fix_ok numCPU w r" and D: "settled w r D" "seen w r D"
    and q: "query (fixPage ord (fx_last r)) (fx_db r) = (Ok cs, v)" and none: "fx_claims r = []" "\<not> fx_closed r"
  shows "seen w (r\<lparr>fx_db := v, fx_claims := cs, fx_closed := (cs = [])\<rparr>) D"
proof -
  let ?l = "fx_last r" and ?r = "r\<lparr>fx_db := v, fx_claims := cs, fx_closed := (cs = [])\<rparr>"
  have v: "only_fixed w v" "cs = fixPage ord ?l v" "claims v = claims (fx_db r)" using query_only [OF q] ok by (auto simp: fix_ok_def)
  have d: "distinct (map c_ID (rows (claims v)))" using wf only_fixed_rows(3) [OF v(1)] by (simp add: claimT.wf_table_def)
  note p = fixPage_by_id [OF ord d, where l = ?l, folded v(2)]
  have cv: "claims v = t_map (\<lambda>c. if c_ID c \<in> D then fixRow w c else c) (claims w)" using D(1) v(3) by (simp add: settled_def)
  have way: "on_the_way ?r = set cs \<union> on_the_way r" using none by (auto simp: on_the_way_def)
  have "c_ID x \<in> D \<or> fixColumns x \<in> on_the_way ?r" if x: "x \<in> spent_rows w" "c_ID x \<le> horizon ?r" for x
  proof (cases "c_ID x \<le> ?l")
    case True
    then show ?thesis using D(2) x(1) none way by (auto simp: seen_def horizon_def)
  next
    case False
    then have "cs \<noteq> []" using x(2) by (auto simp: horizon_def)
    then show ?thesis using p(2) [of x] now_spent(2) [OF cv x(1), of ?l] x False way by (auto simp: horizon_def)
  qed
  then show ?thesis by (simp add: seen_def)
qed

lemma seen_step:
  assumes ord: "by_id ord" and wf: "claimT.wf_table (claims w)" and ok: "fix_ok numCPU w r" and step: "fix_step ord r r'"
    and D: "settled w r D" "seen w r D" and errs: "fx_errors r' = []"
  shows "\<exists>D. settled w r' D \<and> seen w r' D"
  using step
proof (cases rule: fix_step.cases)
  case (Fetch cs v)
  then show ?thesis using settled_Fetch [OF by_id_once [OF ord] wf ok D(1) Fetch(5,4,3)] seen_Fetch [OF ord wf ok D Fetch(5,4,3)] by auto
next
  case (FetchFailed e v)
  have "v = (fx_db r)\<lparr>stmts := stmts (fx_db r) + 1\<rparr>" using query_only [OF FetchFailed(5)] ok by (auto simp: fix_ok_def)
  then have "settled w r' D" using FetchFailed(1) by (intro settled_moved [OF D(1)]) (simp_all add: on_the_way_def started_def)
  moreover have "on_the_way r' = on_the_way r" "horizon r' = horizon r" using FetchFailed(1) by (simp_all add: on_the_way_def horizon_def)
  then have "seen w r' D" using D(2) by (simp add: seen_def)
  ultimately show ?thesis by blast
next
  case (Send c cs)
  have "\<forall>x\<in>spent_rows w. 0 < c_ID x" using wf by (simp add: claimT.wf_table_def spent_rows_def)
  then have "settled w r' D" using settled_Send [OF D(1) Send(3)] ok Send(1,3) by (auto simp: fix_ok_def)
  moreover have "on_the_way r' = on_the_way r" "horizon r' = horizon r" using Send by (auto simp: on_the_way_def horizon_def)
  then have "seen w r' D" using D(2) by (simp add: seen_def)
  ultimately show ?thesis by blast
next
  case (Receive c cs)
  then have "settled w r' D" by (intro settled_moved [OF D(1)]) (auto simp: on_the_way_def started_def)
  moreover have "on_the_way r' = on_the_way r" "horizon r' = horizon r" using Receive by (auto simp: on_the_way_def horizon_def)
  then have "seen w r' D" using D(2) by (simp add: seen_def)
  ultimately show ?thesis by blast
next
  case (Work xs c ys v)
  have "distinct (map c_ID (rows (claims w)))" using wf by (simp add: claimT.wf_table_def)
  then have "settled w r' (insert (c_ID c) D)" using settled_Work [OF _ ok D(1) Work(2,3)] Work(1) by auto
  moreover have "seen w r' (insert (c_ID c) D)"
  proof -
    have way: "on_the_way r = insert c (on_the_way r')" "horizon r' = horizon r" using Work by (auto simp: on_the_way_def horizon_def)
    have "c_ID z \<in> insert (c_ID c) D \<or> fixColumns z \<in> on_the_way r'" if "z \<in> spent_rows w" "c_ID z \<le> horizon r'" for z
    proof -
      have "c_ID z \<in> D \<or> fixColumns z \<in> insert c (on_the_way r')" using D(2) that unfolding seen_def way by blast
      then show ?thesis using fixColumns(1) [of z] by auto
    qed
    then show ?thesis by (simp add: seen_def)
  qed
  ultimately show ?thesis by blast
next
  case (WorkFailed xs c ys v e)
  then show ?thesis using errs by simp
next
  case Finish
  then have "settled w r' D" by (intro settled_moved [OF D(1)]) (auto simp: on_the_way_def started_def)
  moreover have "on_the_way r' = on_the_way r" "horizon r' = horizon r" using Finish(1) by (simp_all add: on_the_way_def horizon_def)
  then have "seen w r' D" using D(2) by (simp add: seen_def)
  ultimately show ?thesis by blast
qed

section \<open>Whole runs\<close>

text \<open>Each page ends with a larger id than the one before, so there are at most as many pages as claims, and each claim of a page takes
  three steps: it is sent, received and settled.\<close>

definition ahead :: "world \<Rightarrow> nat \<Rightarrow> nat" where
  "ahead w l = card {i \<in> c_ID ` set (rows (claims w)). l < i}"

definition page_steps :: "world \<Rightarrow> nat" where
  "page_steps w = 3 * min 15000 (length (rows (claims w))) + 1"

definition fix_rank :: "world \<Rightarrow> fixRun \<Rightarrow> nat" where
  "fix_rank w r = page_steps w * ahead w (horizon r) + 3 * length (fx_claims r) + 2 * length (fx_spentClaims r) + length (fx_busy r) +
     (if fx_closed r then 0 else 1) + (if fx_result r = None then 1 else 0)"

definition fix_run_step :: "(Claim list \<Rightarrow> Claim list) \<Rightarrow> world \<Rightarrow> fixRun \<Rightarrow> fixRun \<Rightarrow> bool" where
  "fix_run_step ord w r r' \<longleftrightarrow> rows_once ord \<and> claimT.wf_table (claims w) \<and> fix_step ord r r'"

definition fix_inv :: "(Claim list \<Rightarrow> Claim list) \<Rightarrow> nat \<Rightarrow> world \<Rightarrow> fixRun \<Rightarrow> bool" where
  "fix_inv ord numCPU w r \<longleftrightarrow>
     (claimT.wf_table (claims w) \<longrightarrow> fix_ok numCPU w r \<and> (fx_errors r = [] \<longrightarrow> (\<exists>D. settled w r D \<and> (by_id ord \<longrightarrow> seen w r D))))"

lemma wf_ids: "claimT.wf_table t \<Longrightarrow> distinct (map c_ID (rows t))" "claimT.wf_table t \<Longrightarrow> c \<in> set (rows t) \<Longrightarrow> 0 < c_ID c"
  by (simp_all add: claimT.wf_table_def)

lemma ahead_less:
  assumes "l < i" and "i \<in> c_ID ` set (rows (claims w))"
  shows "ahead w i < ahead w l"
  unfolding ahead_def by (rule psubset_card_mono) (use assms in auto)

lemma fix_rank_step:
  assumes ord: "rows_once ord" and w: "distinct (map c_ID (rows (claims w)))" and ok: "fix_ok numCPU w r" and step: "fix_step ord r r'"
  shows "fix_rank w r' < fix_rank w r"
  using step
proof (cases rule: fix_step.cases)
  case (Fetch cs v)
  have v: "only_fixed w v" "cs = fixPage ord (fx_last r) v" using query_only [OF Fetch(5)] ok by (auto simp: fix_ok_def)
  have ids: "map c_ID (rows (claims v)) = map c_ID (rows (claims w))" by (rule only_fixed_rows(3) [OF v(1)])
  have d: "distinct (map c_ID (rows (claims v)))" using w ids by simp
  note p = fixPage [OF ord d, where l = "fx_last r", folded v(2)]
  show ?thesis
  proof (cases "cs = []")
    case True
    then show ?thesis using Fetch(1-4) by (simp add: fix_rank_def horizon_def)
  next
    case False
    then obtain x where x: "x \<in> set (spent_claims (fx_last r) v)" "last cs = fixColumns x" using p(1) [of "last cs"] by auto
    then have "fx_last r < c_ID (last cs)" "c_ID (last cs) \<in> c_ID ` set (rows (claims w))"
      using only_fixed_ids [OF v(1)] by (auto simp: spent_claims_def)
    then have "Suc (ahead w (c_ID (last cs))) \<le> ahead w (fx_last r)" using ahead_less by (simp add: Suc_le_eq)
    then have "page_steps w * Suc (ahead w (c_ID (last cs))) \<le> page_steps w * ahead w (fx_last r)" by (rule mult_le_mono2)
    moreover have "3 * length cs < page_steps w" using p(3) map_eq_imp_length_eq [OF ids] by (simp add: page_steps_def min_def split: if_splits)
    ultimately have "page_steps w * ahead w (c_ID (last cs)) + 3 * length cs < page_steps w * ahead w (fx_last r)" by simp
    then show ?thesis using Fetch(1-4) False by (simp add: fix_rank_def horizon_def)
  qed
qed (simp_all add: fix_rank_def horizon_def)

lemma fix_inv_step: "fix_inv ord numCPU w r \<Longrightarrow> fix_run_step ord w r r' \<Longrightarrow> fix_inv ord numCPU w r'"
proof -
  assume inv: "fix_inv ord numCPU w r" and step: "fix_run_step ord w r r'"
  then have s: "rows_once ord" "claimT.wf_table (claims w)" "fix_step ord r r'" by (simp_all add: fix_run_step_def)
  have ok: "fix_ok numCPU w r" using inv s(2) by (simp add: fix_inv_def)
  have "fx_errors r' = [] \<Longrightarrow> fx_errors r = []" using s(3) by (cases rule: fix_step.cases) simp_all
  then show "fix_inv ord numCPU w r'"
    using fix_ok_step [OF ok s(3)] settled_step [OF s(1,2) ok s(3)] seen_step [OF _ s(2) ok s(3)] inv
    unfolding fix_inv_def by blast
qed

lemma fix_inv_start: "fix_inv ord numCPU w (startFix numCPU w)"
proof -
  have "only_fixed w w" unfolding only_fixed_def by (intro exI [of _ "claims w"] exI [of _ "stmts w"]) simp
  moreover have "settled w (startFix numCPU w) {}" by (auto simp: settled_def startFix_def on_the_way_def started_def t_map_def)
  moreover have "seen w (startFix numCPU w) {}" if "claimT.wf_table (claims w)"
    using wf_ids(2) [OF that] by (force simp: seen_def startFix_def horizon_def spent_rows_def)
  ultimately show ?thesis unfolding fix_inv_def by (auto simp: fix_ok_def startFix_def)
qed

interpretation fixing: ranked_system "fix_run_step ord w" "startFix numCPU w" "fix_inv ord numCPU w" "fix_rank w"
proof
  show "fix_inv ord numCPU w (startFix numCPU w)" by (rule fix_inv_start)
  show "fix_inv ord numCPU w t" if "fix_inv ord numCPU w s" "fix_run_step ord w s t" for s t by (rule fix_inv_step [OF that])
  show "fix_rank w t < fix_rank w s" if "fix_inv ord numCPU w s" "fix_run_step ord w s t" for s t
    using that fix_rank_step [OF _ wf_ids(1)] by (auto simp: fix_run_step_def fix_inv_def)
qed

lemma fix_run_step_eq: "rows_once ord \<Longrightarrow> claimT.wf_table (claims w) \<Longrightarrow> fix_run_step ord w = fix_step ord"
  by (simp add: fix_run_step_def fun_eq_iff)

text \<open>The claims a run is done with when it returns, by their rows.\<close>

lemma settled_end:
  assumes wf: "claimT.wf_table (claims w)" and D: "settled w r D" and closed: "fx_closed r" and way: "on_the_way r = {}"
  defines "F \<equiv> {x \<in> spent_rows w. c_ID x \<in> D}"
  shows "claims (fx_db r) = t_map (\<lambda>c. if c \<in> F then fixRow w c else c) (claims w)"
    and "x \<in> spent_rows w \<Longrightarrow> x \<notin> F \<Longrightarrow> \<exists>y\<in>F. c_ID x < c_ID y"
    and "card (spent_rows w) \<le> 15000 \<Longrightarrow> F = spent_rows w"
    and "seen w r D \<Longrightarrow> F = spent_rows w"
proof -
  have "(if c_ID c \<in> D then fixRow w c else c) = (if c \<in> F then fixRow w c else c)" if "c \<in> set (rows (claims w))" for c
    using that by (auto simp: F_def fixRow_def wrongly_spent_def spent_rows_def)
  then have "t_map (\<lambda>c. if c_ID c \<in> D then fixRow w c else c) (claims w) = t_map (\<lambda>c. if c \<in> F then fixRow w c else c) (claims w)"
    by (rule t_map_cong)
  then show "claims (fx_db r) = t_map (\<lambda>c. if c \<in> F then fixRow w c else c) (claims w)" using D by (simp add: settled_def)
  show lost: "\<exists>y\<in>F. c_ID x < c_ID y" if x: "x \<in> spent_rows w" "x \<notin> F" for x
  proof -
    have n: "c_ID x \<notin> D" using x by (simp add: F_def)
    then have le: "c_ID x \<le> fx_last r" using D closed x(1) by (auto simp: settled_def)
    have "0 < c_ID x" using x(1) wf_ids(2) [OF wf] by (simp add: spent_rows_def)
    then have "fx_last r \<in> D" using D le way by (auto simp: settled_def)
    moreover have "D \<subseteq> c_ID ` spent_rows w" using D by (simp add: settled_def)
    then obtain y where y: "y \<in> spent_rows w" "c_ID y = fx_last r" using \<open>fx_last r \<in> D\<close> by auto
    ultimately have "y \<in> F" "c_ID x \<noteq> c_ID y" using n by (auto simp: F_def)
    then show ?thesis using le y(2) by (intro bexI [of _ y]) simp_all
  qed
  have "started r" using closed by (simp add: started_def)
  then show "F = spent_rows w" if "card (spent_rows w) \<le> 15000" using D way that by (auto simp: settled_def F_def)
  show "F = spent_rows w" if "seen w r D"
  proof -
    have "fx_claims r = []" using way by (simp add: on_the_way_def)
    then have "c_ID x \<in> D" if "x \<in> spent_rows w" for x using D \<open>seen w r D\<close> that closed way by (auto simp: settled_def seen_def horizon_def)
    then show ?thesis by (auto simp: F_def)
  qed
qed

text \<open>C24: When the repair of spent claims returns and no worker reported an error, all it has done is this, for every interleaving of the
  job with its workers: it went through some of the claims that were marked as spent, and those of them that no existing output
  spends became active, stamped with the time; no other column, row or table has changed. It went through all of them, and so
  made active exactly the wrongly spent claims of the table, if at most 15000 claims are marked as spent, the size of a page. With more of them it may
  leave one out, as the query asks for no order, but only one whose id is below that of a claim it did go through; if the database happens to
  return pages by increasing id, none is left out. The hypotheses are that claims have unique ids, that a page holds the rows in any order, each
  once, and that there is more than one processor.\<close>

theorem OutputFixSync_exact:
  assumes "rows_once ord" and "claimT.wf_table (claims w)" and "2 \<le> numCPU"
    and "fix_reachable ord numCPU w r" and "fx_result r = Some None" and "fx_errors r = []"
  shows "\<exists>F n. F \<subseteq> spent_rows w \<and> fx_db r = w\<lparr>claims := t_map (\<lambda>c. if c \<in> F then fixRow w c else c) (claims w), stmts := n\<rparr> \<and>
    (\<forall>x\<in>spent_rows w - F. \<exists>y\<in>F. c_ID x < c_ID y) \<and>
    (card (spent_rows w) \<le> 15000 \<or> by_id ord \<longrightarrow> fx_db r = w\<lparr>claims := t_map (fixRow w) (claims w), stmts := n\<rparr>)"
proof -
  have inv: "fix_inv ord numCPU w r"
    using assms(4) unfolding fix_reachable_def fix_run_step_eq [OF assms(1,2), symmetric] by (rule fixing.reachable_inv)
  then obtain D where ok: "fix_ok numCPU w r" and D: "settled w r D" "by_id ord \<longrightarrow> seen w r D" using assms(2,6) by (auto simp: fix_inv_def)
  have "fx_closed r" "fx_busy r = []" "fx_claims r = []" "fx_spentClaims r = []" using ok assms(3,5,6) by (auto simp: fix_ok_def)
  then have f: "fx_closed r" "on_the_way r = {}" by (simp_all add: on_the_way_def)
  let ?F = "{x \<in> spent_rows w. c_ID x \<in> D}"
  note fin = settled_end [OF assms(2) D(1) f]
  obtain cs n where db: "fx_db r = w\<lparr>claims := cs, stmts := n\<rparr>" using ok by (auto simp: fix_ok_def only_fixed_def)
  have run: "fx_db r = w\<lparr>claims := t_map (\<lambda>c. if c \<in> ?F then fixRow w c else c) (claims w), stmts := n\<rparr>" using db fin(1) by simp
  have all: "t_map (\<lambda>c. if c \<in> spent_rows w then fixRow w c else c) (claims w) = t_map (fixRow w) (claims w)"
    by (rule t_map_cong) (auto simp: fixRow_def wrongly_spent_def spent_rows_def)
  have "fx_db r = w\<lparr>claims := t_map (fixRow w) (claims w), stmts := n\<rparr>" if "card (spent_rows w) \<le> 15000 \<or> by_id ord"
  proof -
    have "?F = spent_rows w" using that fin(3,4) D(2) by blast
    then show ?thesis using run unfolding all by (simp only: all)
  qed
  moreover have "\<forall>x\<in>spent_rows w - ?F. \<exists>y\<in>?F. c_ID x < c_ID y" using fin(2) by blast
  ultimately show ?thesis using run by (intro exI [of _ ?F] exI [of _ n]) blast
qed

lemma fix_moves:
  assumes "fx_busy r \<noteq> []"
  shows "\<exists>r'. fix_step ord r r'"
proof -
  obtain c ys where b: "fx_busy r = [] @ c # ys" using assms by (cases "fx_busy r") auto
  obtain q v where f: "fixClaim c (fx_db r) = (q, v)" by (cases "fixClaim c (fx_db r)")
  from f show ?thesis
    by (cases rule: fixClaim_cases) (use fix_step.Work [OF b, of v ord] fix_step.WorkFailed [OF b, of _ v ord] f in blast)+
qed

lemma fix_stuck:
  assumes ok: "fix_ok numCPU w r" and running: "fx_result r = None"
  shows "(\<nexists>r'. fix_step ord r r') \<longleftrightarrow> fx_workers r = 0 \<and> length (fx_spentClaims r) = 100 \<and> fx_claims r \<noteq> []"
proof
  assume stuck: "\<nexists>r'. fix_step ord r r'"
  then have busy: "fx_busy r = []" using fix_moves by blast
  have "\<not> (fx_spentClaims r \<noteq> [] \<and> fx_workers r \<noteq> 0)"
    using stuck busy fix_step.Receive [of r _ _ ord] by (cases "fx_spentClaims r") auto
  moreover have "\<not> (fx_closed r \<and> (fx_spentClaims r = [] \<or> fx_workers r = 0))"
    using stuck busy running fix_step.Finish [of r ord] by auto
  moreover have "\<not> (\<not> fx_closed r \<and> fx_claims r = [])"
  proof
    assume f: "\<not> fx_closed r \<and> fx_claims r = []"
    obtain q v where q: "query (fixPage ord (fx_last r)) (fx_db r) = (q, v)" by (cases "query (fixPage ord (fx_last r)) (fx_db r)")
    moreover have "\<forall>p. q \<noteq> Panic p" using query_only [OF q, of w] ok by (simp add: fix_ok_def)
    ultimately show False using stuck f running fix_step.Fetch [of r ord] fix_step.FetchFailed [of r ord] by (cases q) blast+
  qed
  moreover have "\<not> (fx_claims r \<noteq> [] \<and> length (fx_spentClaims r) < 100)"
    using stuck running fix_step.Send [of r _ _ ord] by (cases "fx_claims r") auto
  ultimately show "fx_workers r = 0 \<and> length (fx_spentClaims r) = 100 \<and> fx_claims r \<noteq> []" using ok by (auto simp: fix_ok_def)
next
  assume dead: "fx_workers r = 0 \<and> length (fx_spentClaims r) = 100 \<and> fx_claims r \<noteq> []"
  then have "fx_busy r = []" "\<not> fx_closed r" using ok by (auto simp: fix_ok_def)
  then show "\<nexists>r'. fix_step ord r r'" using dead by (auto elim!: fix_step.cases)
qed

text \<open>C25: A run of the repair of spent claims ends, in whatever order the database returns its pages: with \<open>n\<close> claims in the table it takes at
  most three steps for each claim of a page and one for the page, \<open>n\<close> times, and two more. It can only end without
  the job returning in one situation, a deadlock: every worker has ended, which takes as many errors as there are workers, or a
  machine with one processor, the channel is full and there are claims left to send.\<close>

theorem OutputFixSync_ends:
  assumes "rows_once ord" and "claimT.wf_table (claims w)" and "(fix_step ord ^^ k) (startFix numCPU w) r"
  shows "k \<le> (3 * min 15000 (length (rows (claims w))) + 1) * length (rows (claims w)) + 2 \<and> (fx_result r = None \<longrightarrow>
    (\<forall>r'. \<not> fix_step ord r r') = (length (fx_errors r) = numCPU - 1 \<and> length (fx_spentClaims r) = 100 \<and> fx_claims r \<noteq> []))"
proof -
  have run: "(fix_run_step ord w ^^ k) (startFix numCPU w) r" using assms(3) unfolding fix_run_step_eq [OF assms(1,2)] .
  then have "(fix_run_step ord w)\<^sup>*\<^sup>* (startFix numCPU w) r" by (rule relpowp_imp_rtranclp)
  then have "fix_inv ord numCPU w r" by (rule fixing.reachable_inv)
  then have ok: "fix_ok numCPU w r" using assms(2) by (simp add: fix_inv_def)
  have "ahead w 0 \<le> length (rows (claims w))"
    using card_mono [of "c_ID ` set (rows (claims w))" "{i \<in> c_ID ` set (rows (claims w)). 0 < i}"] card_image_le [of "set (rows (claims w))" c_ID]
      card_length [of "rows (claims w)"] by (simp add: ahead_def)
  then have "page_steps w * ahead w 0 \<le> page_steps w * length (rows (claims w))" by (rule mult_le_mono2)
  moreover have "k \<le> fix_rank w (startFix numCPU w)" using fixing.run_bound [OF run] by simp
  ultimately have bound: "k \<le> (3 * min 15000 (length (rows (claims w))) + 1) * length (rows (claims w)) + 2"
    by (simp add: fix_rank_def startFix_def horizon_def page_steps_def)
  have workers: "length (fx_errors r) = numCPU - 1 \<longleftrightarrow> fx_workers r = 0" using ok by (auto simp: fix_ok_def)
  have "(\<forall>r'. \<not> fix_step ord r r') = (fx_workers r = 0 \<and> length (fx_spentClaims r) = 100 \<and> fx_claims r \<noteq> [])" if "fx_result r = None"
    using fix_stuck [OF ok that] by blast
  then show ?thesis using bound workers by simp
qed

section \<open>Concrete runs\<close>

definition demo_spent :: "nat \<Rightarrow> world" where
  "demo_spent n = demo_world\<lparr>claims :=
     \<lparr>rows = map (\<lambda>i. zeroClaim\<lparr>c_ID := Suc i, c_ClaimID := replicate (Suc i) CHR ''c'', c_BidState := ''Spent''\<rparr>) [0..<n], nextID = Suc n\<rparr>\<rparr>"

definition id_order :: "Claim list \<Rightarrow> Claim list" where "id_order = sort_key c_ID"

lemma by_id_order: "by_id id_order" "rows_once id_order"
  by (simp_all add: by_id_def rows_once_def id_order_def)

lemma demo_spent_wf: "claimT.wf_table (claims (demo_spent n))"
  by (auto simp: demo_spent_def claimT.wf_table_def comp_def distinct_map inj_on_def claim_clash_def zeroClaim_def)

lemma demo_page: "spent_claims 0 (demo_spent n) = rows (claims (demo_spent n))" "sorted (map c_ID (rows (claims (demo_spent n))))"
  by (simp_all add: demo_spent_def spent_claims_def comp_def filter_map sorted_map)

text \<open>Sending without a worker.\<close>

lemma sends:
  assumes "fx_result r = None" and "fx_claims r = xs @ ys" and "length (fx_spentClaims r) + length xs \<le> 100"
  shows "\<exists>r'. (fix_step ord ^^ length xs) r r' \<and> fx_claims r' = ys \<and> length (fx_spentClaims r') = length (fx_spentClaims r) + length xs \<and>
    fx_result r' = None \<and> fx_errors r' = fx_errors r"
  using assms
proof (induction xs arbitrary: r)
  case (Cons c xs)
  let ?r = "r\<lparr>fx_claims := xs @ ys, fx_last := c_ID c, fx_spentClaims := fx_spentClaims r @ [c]\<rparr>"
  have "fix_step ord r ?r" using Cons.prems by (intro fix_step.Send) auto
  moreover have "\<exists>r'. (fix_step ord ^^ length xs) ?r r' \<and> fx_claims r' = ys \<and> length (fx_spentClaims r') = length (fx_spentClaims ?r) + length xs \<and>
      fx_result r' = None \<and> fx_errors r' = fx_errors ?r"
    using Cons.prems by (intro Cons.IH) auto
  ultimately show ?case using relpowp_Suc_I2 [of "fix_step ord" r ?r "length xs"] by (auto simp del: relpowp.simps)
qed auto

lemma demo_fetch:
  assumes "0 < n" and "n \<le> 15000"
  shows "fix_step id_order (startFix numCPU (demo_spent n))
    ((startFix numCPU (demo_spent n))\<lparr>fx_db := (demo_spent n)\<lparr>stmts := 1\<rparr>, fx_claims := map fixColumns (rows (claims (demo_spent n))), fx_closed := False\<rparr>)"
proof -
  let ?w = "(demo_spent n)\<lparr>stmts := 1\<rparr>" and ?rows = "rows (claims (demo_spent n))"
  have "spent_claims 0 ?w = ?rows" using demo_page(1) [of n] by (simp add: spent_claims_def)
  moreover have "id_order ?rows = ?rows" using demo_page(2) by (simp add: id_order_def sort_key_id_if_sorted)
  moreover have "length ?rows = n" by (simp add: demo_spent_def)
  ultimately have "query (fixPage id_order 0) (demo_spent n) = (Ok (map fixColumns ?rows), ?w)"
    using assms(2) by (simp add: query_def stmt_def fixPage_def) (simp add: demo_spent_def demo_world_def)
  moreover have "map fixColumns ?rows \<noteq> []" using assms(1) by (simp add: demo_spent_def)
  ultimately show ?thesis using fix_step.Fetch [of "startFix numCPU (demo_spent n)" id_order] by (simp add: startFix_def)
qed

text \<open>One processor and 101 claims: the job waits for ever with one claim left.\<close>

theorem OutputFixSync_ends_witness:
  "\<exists>r. (fix_step id_order ^^ 101) (startFix 1 (demo_spent 101)) r \<and> fx_result r = None \<and> (\<forall>r'. \<not> fix_step id_order r r')"
proof -
  define r0 where "r0 = startFix 1 (demo_spent 101)"
  define cs where "cs = map fixColumns (rows (claims (demo_spent 101)))"
  define r1 where "r1 = r0\<lparr>fx_db := (demo_spent 101)\<lparr>stmts := 1\<rparr>, fx_claims := cs, fx_closed := False\<rparr>"
  have l: "length cs = 101" by (simp add: cs_def demo_spent_def)
  have r1: "fx_result r1 = None" "fx_claims r1 = take 100 cs @ drop 100 cs" "length (fx_spentClaims r1) + length (take 100 cs) \<le> 100"
    "fx_spentClaims r1 = []" "fx_errors r1 = []" "length (take 100 cs) = 100"
    using l by (simp_all add: r1_def r0_def startFix_def)
  obtain r where r: "(fix_step id_order ^^ 100) r1 r" "fx_claims r = drop 100 cs" "length (fx_spentClaims r) = 100" "fx_result r = None" "fx_errors r = []"
    using sends [OF r1(1-3), of id_order] unfolding r1(4-6) by auto
  have "fix_step id_order r0 r1" unfolding r0_def r1_def cs_def by (rule demo_fetch) simp_all
  then have run: "(fix_step id_order ^^ Suc 100) r0 r" using r(1) by (rule relpowp_Suc_I2)
  have "length (drop 100 cs) = 1" by (simp add: l)
  then have "fx_claims r \<noteq> []" using r(2) by (metis list.size(3) zero_neq_one)
  then have "\<forall>r'. \<not> fix_step id_order r r'"
    using OutputFixSync_ends [OF by_id_order(2) demo_spent_wf run [unfolded r0_def]] r(3-5) by simp
  then show ?thesis using run r(4) unfolding r0_def by (intro exI [of _ r]) simp
qed

text \<open>Two processors and one claim: it becomes active.\<close>

definition demo_fixed :: world where
  "demo_fixed = snd (fixClaim (fixColumns (hd (rows (claims (demo_spent 1))))) ((demo_spent 1)\<lparr>stmts := 1\<rparr>))"

lemma demo_fixed: "fixClaim (fixColumns (hd (rows (claims (demo_spent 1))))) ((demo_spent 1)\<lparr>stmts := 1\<rparr>) = (Ok (), demo_fixed)"
  "query (fixPage id_order 1) demo_fixed = (Ok [], demo_fixed\<lparr>stmts := 4\<rparr>)"
proof -
  have f: "fixClaim (fixColumns (hd (rows (claims (demo_spent 1))))) ((demo_spent 1)\<lparr>stmts := 1\<rparr>) =
      (Ok (), (demo_spent 1)\<lparr>claims := t_map (\<lambda>x. if c_ID x = 1 then x\<lparr>c_BidState := ''Active'', c_ModifiedAt := 0\<rparr> else x) (claims (demo_spent 1)), stmts := 3\<rparr>)"
    by (simp add: fixClaim_def Claim_UpdateStateG_def bind_def query_def stmt_def demo_spent_def demo_world_def first_row_def emptyTable_def zeroClaim_def
        fixColumns_def cong: if_cong)
  then show "fixClaim (fixColumns (hd (rows (claims (demo_spent 1))))) ((demo_spent 1)\<lparr>stmts := 1\<rparr>) = (Ok (), demo_fixed)"
    by (simp add: demo_fixed_def)
  show "query (fixPage id_order 1) demo_fixed = (Ok [], demo_fixed\<lparr>stmts := 4\<rparr>)"
    unfolding demo_fixed_def f by (simp add: query_def stmt_def fixPage_def spent_claims_def t_map_def demo_spent_def demo_world_def zeroClaim_def id_order_def)
qed

theorem OutputFixSync_exact_witness:
  "\<exists>r n. fix_reachable id_order 2 (demo_spent 1) r \<and> fx_result r = Some None \<and>
     fx_db r = (demo_spent 1)\<lparr>claims := t_map (fixRow (demo_spent 1)) (claims (demo_spent 1)), stmts := n\<rparr> \<and>
     map c_BidState (rows (claims (fx_db r))) = [''Active'']"
proof -
  define w where "w = demo_spent 1"
  define c where "c = fixColumns (hd (rows (claims w)))"
  have cs: "map fixColumns (rows (claims w)) = [c]" "c_ID c = 1" by (simp_all add: w_def c_def demo_spent_def)
  let ?r0 = "startFix 2 w"
  let ?r1 = "?r0\<lparr>fx_db := w\<lparr>stmts := 1\<rparr>, fx_claims := [c], fx_closed := False\<rparr>"
  let ?r2 = "?r1\<lparr>fx_claims := [], fx_last := 1, fx_spentClaims := [c]\<rparr>"
  let ?r3 = "?r2\<lparr>fx_spentClaims := [], fx_busy := [c]\<rparr>"
  let ?r4 = "?r3\<lparr>fx_db := demo_fixed, fx_busy := []\<rparr>"
  let ?r5 = "?r4\<lparr>fx_db := demo_fixed\<lparr>stmts := 4\<rparr>, fx_claims := [], fx_closed := True\<rparr>"
  let ?r6 = "?r5\<lparr>fx_result := Some None\<rparr>"
  have 1: "fix_step id_order ?r0 ?r1" using demo_fetch [of 1 2, folded w_def, unfolded cs(1)] by simp
  have 2: "fix_step id_order ?r1 ?r2" using fix_step.Send [of ?r1 c "[]" id_order] cs(2) by (simp add: startFix_def)
  have 3: "fix_step id_order ?r2 ?r3" using fix_step.Receive [of ?r2 c "[]" id_order] by (simp add: startFix_def)
  have 4: "fix_step id_order ?r3 ?r4" using fix_step.Work [of ?r3 "[]" c "[]" demo_fixed id_order] demo_fixed(1) by (simp add: startFix_def c_def w_def)
  have 5: "fix_step id_order ?r4 ?r5" using fix_step.Fetch [of ?r4 id_order "[]"] demo_fixed(2) by (simp add: startFix_def)
  have 6: "fix_step id_order ?r5 ?r6" using fix_step.Finish [of ?r5 id_order] by (simp add: startFix_def)
  have reach: "fix_reachable id_order 2 w ?r6"
    unfolding fix_reachable_def using 1 2 3 4 5 6 by (meson converse_rtranclp_into_rtranclp r_into_rtranclp)
  have "card (spent_rows w) \<le> card (set (rows (claims w)))" by (rule card_mono) (auto simp: spent_rows_def)
  also have "\<dots> \<le> length (rows (claims w))" by (rule card_length)
  finally have few: "card (spent_rows w) \<le> 15000" by (simp add: w_def demo_spent_def)
  have "\<exists>n. fx_db ?r6 = w\<lparr>claims := t_map (fixRow w) (claims w), stmts := n\<rparr>"
    using OutputFixSync_exact [OF by_id_order(2) _ _ reach] demo_spent_wf few by (auto simp: w_def startFix_def)
  then obtain n where n: "fx_db ?r6 = w\<lparr>claims := t_map (fixRow w) (claims w), stmts := n\<rparr>" by blast
  moreover have "map c_BidState (rows (claims (fx_db ?r6))) = [''Active'']"
    unfolding n by (simp add: w_def t_map_def demo_spent_def demo_world_def zeroClaim_def fixRow_def wrongly_spent_def emptyTable_def)
  ultimately show ?thesis using reach unfolding w_def by (intro exI [of _ ?r6] exI [of _ n]) (simp add: w_def)
qed

end
