(* ===== verification/Upgrades.thy ===== *)
theory Upgrades
  imports ClaimTrie CertSync Transactions
begin

text \<open>
  \<^verbatim>\<open>daemon/upgrademanager\<close>: the upgrades of the data when a new version of the program starts. The row with id 1 of
  \<^verbatim>\<open>application_status\<close> holds the version the data was last upgraded to; each upgrade looks at that version and decides whether it
  runs. The \<^verbatim>\<open>GP\<close> calls of the generated code panic where others return an error, and so does \<^verbatim>\<open>logrus.Panic\<close>.
\<close>

definition currentVersion :: int where "currentVersion = 13"

definition orPanic :: "string \<Rightarrow> 'a db \<Rightarrow> 'a db" where
  "orPanic msg m = bind (attempt m) (\<lambda>r. case r of Inl _ \<Rightarrow> lift (Panic (Raised msg)) | Inr x \<Rightarrow> ret x)"

text \<open>An error that is only logged.\<close>

definition logged :: "unit db \<Rightarrow> unit db" where
  "logged m = bind (attempt m) (\<lambda>_. ret ())"

section \<open>Processing claims again\<close>

definition processClaimOut :: "env \<Rightarrow> txOrder \<Rightarrow> node \<Rightarrow> string \<Rightarrow> unit db" where
  "processClaimOut E sch N txHash =
     bind (orPanic ''transaction'' (oneG (\<lambda>w. first_row (\<lambda>t. t_Hash t = txHash) (transactions w)))) (\<lambda>tx.
     bind (orPanic ''raw transaction'' (rpc (\<lambda>i. getRawTransaction N i (t_Hash tx)))) (\<lambda>txResult.
     bind (orPanic ''block'' (oneG (\<lambda>w. first_row (\<lambda>b. b_Hash b = tx_BlockHash txResult) (blocks w)))) (\<lambda>block.
       logged (ProcessTx E sch txResult (b_BlockTime block) (b_Height block)))))"

definition nonstandard :: "world \<Rightarrow> Output list" where
  "nonstandard w = filter (\<lambda>x. o_Type x = Some NonStandard) (rows (outputs w))"

definition reProcessAllClaims :: "env \<Rightarrow> txOrder \<Rightarrow> node \<Rightarrow> unit db" where
  "reProcessAllClaims E sch N =
     bind (orPanic ''outputs'' (query (\<lambda>w. map o_TransactionHash (nonstandard w)))) (\<lambda>outs.
       forM outs (processClaimOut E sch N))"

text \<open>The inner joins with the transaction and its block.\<close>

definition outputs_from :: "nat \<Rightarrow> world \<Rightarrow> string list" where
  "outputs_from height w =
     concat (map (\<lambda>x. concat (map (\<lambda>t. if t_Hash t = o_TransactionHash x
         then map (\<lambda>_. o_TransactionHash x) (filter (\<lambda>b. t_BlockHashID t = Some (b_Hash b) \<and> b_Height b \<ge> height) (rows (blocks w)))
         else []) (rows (transactions w)))) (nonstandard w))"

definition reProcessAllClaimsFromHeight :: "env \<Rightarrow> txOrder \<Rightarrow> node \<Rightarrow> nat \<Rightarrow> unit db" where
  "reProcessAllClaimsFromHeight E sch N height =
     bind (orPanic ''outputs'' (query (outputs_from height))) (\<lambda>outs. forM outs (processClaimOut E sch N))"

section \<open>Columns of claims\<close>

definition Claim_UpdateColumnG :: "nat \<Rightarrow> (Claim \<Rightarrow> Claim) \<Rightarrow> unit db" where
  "Claim_UpdateColumnG k f =
     stmt (\<lambda>w. (Ok (), w\<lparr>claims := t_map (\<lambda>x. if c_ID x = k then stampClaim (clock w) f x else x) (claims w)\<rparr>))"

text \<open>A left join: a claim without match has one row of nulls.\<close>

definition left_join :: "Claim \<Rightarrow> 'a option list \<Rightarrow> (nat \<times> 'a option) list" where
  "left_join c matches = (if matches = [] then [(c_ID c, None)] else map (\<lambda>m. (c_ID c, m)) matches)"

text \<open>Scanning a null into a field that cannot be null is an error, which panics here.\<close>

fun scanRows :: "(nat \<times> 'a option) list \<Rightarrow> (nat \<times> 'a) list outcome" where
  "scanRows [] = Ok []"
| "scanRows ((k, None) # rs) = Panic (Raised ''Error During Upgrade: '')"
| "scanRows ((k, Some x) # rs) = andThen (scanRows rs) (\<lambda>xs. Ok ((k, x) # xs))"

definition claims_without_address :: "world \<Rightarrow> (nat \<times> string option) list" where
  "claims_without_address w =
     concat (map (\<lambda>c. left_join c (map o_ScriptPubKeyHex
         (filter (\<lambda>x. c_TransactionHashID c = Some (o_TransactionHash x) \<and> o_Vout x = c_Vout c) (rows (outputs w)))))
       (filter (\<lambda>c. c_ClaimAddress c = '''') (rows (claims w))))"

text \<open>The public key script inside a claim script; \<open>None\<close> skips the claim.\<close>

definition pkscriptOf :: "byte list \<Rightarrow> byte list option outcome" where
  "pkscriptOf scriptBytes =
     (let s = slice_of scriptBytes in
      andThen (IsClaimScript s) (\<lambda>isClaim.
        if \<not> isClaim then Ok None
        else if IsClaimNameScript s then andThen (ParseClaimNameScript s) (\<lambda>(_, _, pkscript). Ok (Some pkscript))
        else if IsClaimUpdateScript s then andThen (ParseClaimUpdateScript s) (\<lambda>(_, _, _, pkscript). Ok (Some pkscript))
        else if IsClaimSupportScript s then andThen (ParseClaimSupportScript s) (\<lambda>(_, _, _, pkscript). Ok (Some pkscript))
        else Ok None))"

definition setClaimAddress :: "env \<Rightarrow> nat \<times> string \<Rightarrow> unit db" where
  "setClaimAddress E = (\<lambda>(k, scriptHex).
     case hex_decode scriptHex of
       None \<Rightarrow> lift (Panic (Raised ''Error During Upgrade: ''))
     | Some scriptBytes \<Rightarrow>
         (case pkscriptOf scriptBytes of
            Panic p \<Rightarrow> lift (Panic p)
          | Err e \<Rightarrow> ret ()
          | Ok None \<Rightarrow> ret ()
          | Ok (Some pkscript) \<Rightarrow>
              logged (Claim_UpdateColumnG k (\<lambda>x. x\<lparr>c_ClaimAddress := GetAddressFromPublicKeyScript (ext E) (chainName E) pkscript\<rparr>))))"

definition setClaimAddresses :: "env \<Rightarrow> unit db" where
  "setClaimAddresses E =
     bind (orPanic ''Error During Upgrade: '' (query claims_without_address)) (\<lambda>rs.
     bind (lift (scanRows rs)) (\<lambda>slice. forM slice (setClaimAddress E)))"

definition claims_without_height :: "world \<Rightarrow> (nat \<times> nat option) list" where
  "claims_without_height w =
     concat (map (\<lambda>c. left_join c (concat (map (\<lambda>t.
          let bs = map (\<lambda>b. Some (b_Height b)) (filter (\<lambda>b. t_BlockHashID t = Some (b_Hash b)) (rows (blocks w)))
          in if bs = [] then [None] else bs)
         (filter (\<lambda>t. c_TransactionHashID c = Some (t_Hash t)) (rows (transactions w))))))
       (filter (\<lambda>c. c_Height c = 0) (rows (claims w))))"

definition setBlockHeightOnAllClaims :: "unit db" where
  "setBlockHeightOnAllClaims =
     bind (orPanic ''Error During Upgrade: '' (query claims_without_height)) (\<lambda>rs.
     bind (lift (scanRows rs)) (\<lambda>slice.
       forM slice (\<lambda>(k, height). logged (Claim_UpdateColumnG k (\<lambda>x. x\<lparr>c_Height := height\<rparr>)))))"

section \<open>The upgrades\<close>

definition reProcessAllBelow :: "int \<Rightarrow> env \<Rightarrow> txOrder \<Rightarrow> node \<Rightarrow> int \<Rightarrow> unit db" where
  "reProcessAllBelow limit E sch N version = (if version < limit then reProcessAllClaims E sch N else ret ())"

definition upgradeFrom1 :: "env \<Rightarrow> txOrder \<Rightarrow> node \<Rightarrow> int \<Rightarrow> unit db" where "upgradeFrom1 = reProcessAllBelow 2"
definition upgradeFrom2 :: "env \<Rightarrow> txOrder \<Rightarrow> node \<Rightarrow> int \<Rightarrow> unit db" where "upgradeFrom2 = reProcessAllBelow 3"
definition upgradeFrom3 :: "env \<Rightarrow> txOrder \<Rightarrow> node \<Rightarrow> int \<Rightarrow> unit db" where "upgradeFrom3 = reProcessAllBelow 4"
definition upgradeFrom8 :: "env \<Rightarrow> txOrder \<Rightarrow> node \<Rightarrow> int \<Rightarrow> unit db" where "upgradeFrom8 = reProcessAllBelow 9"
definition upgradeFrom10 :: "env \<Rightarrow> txOrder \<Rightarrow> node \<Rightarrow> int \<Rightarrow> unit db" where "upgradeFrom10 = reProcessAllBelow 10"

definition upgradeFrom4 :: "env \<Rightarrow> int \<Rightarrow> unit db" where
  "upgradeFrom4 E version = (if version < 5 then setClaimAddresses E else ret ())"

text \<open>The height is unsigned, so the difference wraps; deleting an empty slice is no statement.\<close>

definition Blocks_DeleteAllG :: "Block list \<Rightarrow> unit db" where
  "Blocks_DeleteAllG bs = (if bs = [] then ret () else stmt (\<lambda>w. (Ok (), fold delete_block (map b_ID bs) w)))"

definition upgradeFrom5 :: "int \<Rightarrow> unit db" where
  "upgradeFrom5 version =
     (if version < 6 then
        logged (bind (oneG (\<lambda>w. highest (rows (blocks w)))) (\<lambda>highestBlock.
          bind (query (\<lambda>w. filter (\<lambda>b. b_Height b \<ge> to_u64 (int (b_Height highestBlock) - 50)) (rows (blocks w)))) Blocks_DeleteAllG))
      else ret ())"

definition upgradeFrom6 :: "int \<Rightarrow> unit db" where
  "upgradeFrom6 version = (if version < 7 then setBlockHeightOnAllClaims else ret ())"

definition upgradeFrom7 :: "env \<Rightarrow> txOrder \<Rightarrow> node \<Rightarrow> int \<Rightarrow> unit db" where
  "upgradeFrom7 E sch N version =
     (if version < 8 then
        bind (attempt (oneG (\<lambda>w. highest (rows (blocks w))))) (\<lambda>r.
          case r of
            Inl _ \<Rightarrow> ret ()
          | Inr block \<Rightarrow> if b_Height block < 400155 then reProcessAllClaimsFromHeight E sch N 400155 else ret ())
      else ret ())"

definition reviveExpired :: "nat \<Rightarrow> Claim \<Rightarrow> unit db" where
  "reviveExpired height expiredClaim =
     (if \<not> GetIsExpiredAtHeight (of_nat (c_Height expiredClaim)) (of_nat height)
      then (\<lambda>w. logged (Claim_UpdateG (expiredClaim\<lparr>c_BidState := ''Active'', c_ModifiedAt := clock w\<rparr>)) w)
      else ret ())"

definition upgradeFrom9 :: "trieNode \<Rightarrow> int \<Rightarrow> unit db" where
  "upgradeFrom9 T version =
     (if version < 10 then
        bind (attempt (rpc (getBlockCount T))) (\<lambda>r.
          case r of
            Inl _ \<Rightarrow> ret ()
          | Inr height \<Rightarrow>
              bind (attempt (query (\<lambda>w. filter (\<lambda>c. c_BidState c = ''Expired'') (rows (claims w))))) (\<lambda>r.
                forM (case r of Inl _ \<Rightarrow> [] | Inr cs \<Rightarrow> cs) (reviveExpired height)))
      else ret ())"

text \<open>Whether the claims are being processed again in a goroutine of its own from then on.\<close>

definition upgradeFrom11 :: "int \<Rightarrow> bool" where "upgradeFrom11 version \<longleftrightarrow> version < 12"

definition upgradeFrom12 :: "int \<Rightarrow> unit db" where
  "upgradeFrom12 version =
     (if version < 13 then
        logged (stmt (\<lambda>w. (Ok (), w\<lparr>jobStatuses := map (\<lambda>j. if js_JobName j = ''claimtriesyncjob''
          then j\<lparr>js_State := Some ''{\"JobStatus\": null, \"previous_sync\": \"2019-02-13T16:35:14Z\", \"last_height\": 530000}''\<rparr>
          else j) (jobStatuses w)\<rparr>)))
      else ret ())"

section \<open>The manager\<close>

definition ApplicationStatus_InsertG :: "ApplicationStatus \<Rightarrow> ApplicationStatus db" where
  "ApplicationStatus_InsertG r = change applicationStatuses (\<lambda>t w. w\<lparr>applicationStatuses := t\<rparr>)
     (t_insert as_ID (\<lambda>k r. r\<lparr>as_ID := k\<rparr>) (\<lambda>_ _. False) r)"

definition ApplicationStatus_UpdateG :: "ApplicationStatus \<Rightarrow> unit db" where
  "ApplicationStatus_UpdateG r = change applicationStatuses (\<lambda>t w. w\<lparr>applicationStatuses := t\<rparr>)
     (\<lambda>t. andThen (t_update as_ID (\<lambda>_ _. False) (as_ID r) (\<lambda>_. r) t) (\<lambda>t. Ok ((), t)))"

definition runUpgrades :: "env \<Rightarrow> txOrder \<Rightarrow> node \<Rightarrow> trieNode \<Rightarrow> int \<Rightarrow> bool db" where
  "runUpgrades E sch N T version =
     bind (upgradeFrom1 E sch N version) (\<lambda>_. bind (upgradeFrom2 E sch N version) (\<lambda>_.
     bind (upgradeFrom3 E sch N version) (\<lambda>_. bind (upgradeFrom4 E version) (\<lambda>_.
     bind (upgradeFrom5 version) (\<lambda>_. bind (upgradeFrom6 version) (\<lambda>_.
     bind (upgradeFrom7 E sch N version) (\<lambda>_. bind (upgradeFrom8 E sch N version) (\<lambda>_.
     bind (upgradeFrom9 T version) (\<lambda>_. bind (upgradeFrom10 E sch N version) (\<lambda>_.
     bind (upgradeFrom12 version) (\<lambda>_. ret (upgradeFrom11 version))))))))))))"

definition versioned :: "ApplicationStatus \<Rightarrow> ApplicationStatus" where
  "versioned s = s\<lparr>as_AppVersion := currentVersion, as_DataVersion := currentVersion, as_APIVersion := currentVersion\<rparr>"

text \<open>The result is whether the goroutine of \<^verbatim>\<open>upgradeFrom11\<close> was started.\<close>

definition RunUpgradesForVersion :: "env \<Rightarrow> txOrder \<Rightarrow> node \<Rightarrow> trieNode \<Rightarrow> bool db" where
  "RunUpgradesForVersion E sch N T =
     bind (orPanic ''exists'' (query (\<lambda>w. first_row (\<lambda>s. as_ID s = 1) (applicationStatuses w) \<noteq> None))) (\<lambda>found.
       if \<not> found
       then bind (orPanic ''App Status Error'' (ApplicationStatus_InsertG (versioned zeroApplicationStatus))) (\<lambda>appStatus.
            bind (orPanic ''App Status Error'' (ApplicationStatus_UpdateG appStatus)) (\<lambda>_. ret False))
       else bind (attempt (oneG (\<lambda>w. first_row (\<lambda>s. as_ID s = 1) (applicationStatuses w)))) (\<lambda>r.
              case r of
                Inl _ \<Rightarrow> ret False
              | Inr appStatus \<Rightarrow>
                  bind (runUpgrades E sch N T (as_AppVersion appStatus)) (\<lambda>background.
                  bind (orPanic ''App Status Error'' (ApplicationStatus_UpdateG (versioned appStatus))) (\<lambda>_. ret background))))"

end
