(* ===== verification/Upgrades_Spec.thy ===== *)
theory Upgrades_Spec
  imports Upgrades Validation_Spec Transactions_Spec
begin

text \<open>
  What the upgrades leave behind: the version is recorded and a second start changes nothing, whatever the first one did; which blocks
  the upgrade from version 5 deletes; and that the upgrade from version 7 never does anything.
\<close>

section \<open>What upgrades do not touch\<close>

definition same_status :: "world \<Rightarrow> world \<Rightarrow> bool" where
  "same_status w w' \<longleftrightarrow> applicationStatuses w' = applicationStatuses w \<and> fault w' = fault w"

interpretation status: tx_relation same_status by unfold_locales (auto simp: same_status_def)

lemma status_rpc: "within same_status (rpc f)"
  by (rule withinI) (auto simp: rpc_def same_status_def)

lemma status_orPanic: "within same_status m \<Longrightarrow> within same_status (orPanic msg m)"
  unfolding orPanic_def by (intro status.rules)

lemma status_logged: "within same_status m \<Longrightarrow> within same_status (logged m)"
  unfolding logged_def by (intro status.rules)

lemma status_stmt: "(\<And>w. same_status w (g w)) \<Longrightarrow> within same_status (stmt (\<lambda>w. (Ok (), g w)))"
  by (rule status.stmt) simp

lemma status_processClaimOut: "within same_status (processClaimOut E sch N h)"
  unfolding processClaimOut_def by (intro status.rules status_orPanic status_logged status_rpc status.ProcessTx)

lemma status_reProcess: "within same_status (reProcessAllClaims E sch N)" "within same_status (reProcessAllClaimsFromHeight E sch N k)"
  unfolding reProcessAllClaims_def reProcessAllClaimsFromHeight_def by (intro status.rules status_orPanic status_processClaimOut)+

lemma delete_block_status: "same_status w (delete_block k w)"
  by (simp add: delete_block_def delete_transactions_def Let_def same_status_def)

lemma delete_blocks_status: "same_status w (fold delete_block ks w)"
  by (induction ks arbitrary: w) (auto simp: status.refl intro: status.trans delete_block_status)

lemma status_columns: "within same_status (setClaimAddresses E)" "within same_status setBlockHeightOnAllClaims"
proof -
  have column: "within same_status (logged (Claim_UpdateColumnG k f))" for k f
    unfolding Claim_UpdateColumnG_def by (intro status_logged status_stmt) (simp add: same_status_def)
  have one: "within same_status (setClaimAddress E p)" for p
    unfolding setClaimAddress_def by (auto split: option.split outcome.split intro!: status.rules column)
  show "within same_status (setClaimAddresses E)" unfolding setClaimAddresses_def by (intro status.rules status_orPanic one)
  show "within same_status setBlockHeightOnAllClaims"
    unfolding setBlockHeightOnAllClaims_def by (intro status.rules status_orPanic column)
qed

lemma status_revive: "within same_status (reviveExpired k c)"
proof (rule withinI)
  fix w r w'
  assume run: "reviveExpired k c w = (r, w')"
  have "within same_status (logged (Claim_UpdateG c'))" for c'
    unfolding Claim_UpdateG_def by (intro status_logged status.change) (simp add: same_status_def)
  then show "same_status w w'" using run status.refl by (auto simp: reviveExpired_def within_def split: if_splits) (metis snd_conv)
qed

lemma status_runUpgrades: "within same_status (runUpgrades E sch N T v)"
  unfolding runUpgrades_def upgradeFrom1_def upgradeFrom2_def upgradeFrom3_def upgradeFrom8_def upgradeFrom10_def reProcessAllBelow_def
    upgradeFrom4_def upgradeFrom5_def upgradeFrom6_def upgradeFrom7_def upgradeFrom9_def upgradeFrom12_def Blocks_DeleteAllG_def
  by (intro status.rules status_reProcess status_columns status_logged status_stmt status_rpc status_revive delete_blocks_status)
    (simp add: same_status_def)

section \<open>Upgrades return no error\<close>

lemma errorless_orPanic: "errorless (orPanic msg m)"
  unfolding orPanic_def by (intro errorless_rules)

lemma errorless_logged: "errorless (logged m)"
  unfolding logged_def by (intro errorless_rules)

lemma errorless_reProcess: "errorless (reProcessAllClaims E sch N)" "errorless (reProcessAllClaimsFromHeight E sch N k)"
  unfolding reProcessAllClaims_def reProcessAllClaimsFromHeight_def processClaimOut_def
  by (intro errorless_rules errorless_orPanic errorless_logged)+

lemma errorless_scanRows: "errorless (lift (scanRows rs))"
proof -
  have "scanRows rs \<noteq> Err e" for e
  proof (induction rs rule: scanRows.induct)
    case (3 k x rs)
    then show ?case by (cases "scanRows rs") simp_all
  qed simp_all
  then show ?thesis by (simp add: errorless_def)
qed

lemma errorless_columns: "errorless (setClaimAddresses E)" "errorless setBlockHeightOnAllClaims"
proof -
  have one: "errorless (setClaimAddress E p)" for p
    unfolding setClaimAddress_def by (auto split: option.split outcome.split intro!: errorless_rules errorless_logged)
  show "errorless (setClaimAddresses E)" "errorless setBlockHeightOnAllClaims"
    unfolding setClaimAddresses_def setBlockHeightOnAllClaims_def
    by (intro errorless_rules errorless_orPanic errorless_logged errorless_scanRows one)+
qed

lemma errorless_revive: "errorless (reviveExpired k c)"
proof -
  have "errorless (\<lambda>w. logged (m w) w)" for m :: "world \<Rightarrow> unit db"
    using errorless_logged by (fastforce simp: errorless_def)
  then show ?thesis unfolding reviveExpired_def by (auto intro: errorless_ret)
qed

lemma errorless_runUpgrades: "errorless (runUpgrades E sch N T v)"
  unfolding runUpgrades_def upgradeFrom1_def upgradeFrom2_def upgradeFrom3_def upgradeFrom8_def upgradeFrom10_def reProcessAllBelow_def
    upgradeFrom4_def upgradeFrom5_def upgradeFrom6_def upgradeFrom7_def upgradeFrom9_def upgradeFrom12_def
  by (intro errorless_rules errorless_reProcess errorless_columns errorless_logged errorless_revive)

section \<open>The version is recorded\<close>

text \<open>The table is fresh, or it has the row the program looks for; its ids are unique.\<close>

definition status_ok :: "world \<Rightarrow> bool" where
  "status_ok w \<longleftrightarrow> applicationStatuses w = emptyTable \<or>
     (distinct (map as_ID (rows (applicationStatuses w))) \<and> 1 \<in> as_ID ` set (rows (applicationStatuses w)))"

definition recorded :: "world \<Rightarrow> bool" where
  "recorded w \<longleftrightarrow> distinct (map as_ID (rows (applicationStatuses w))) \<and>
     (\<exists>s\<in>set (rows (applicationStatuses w)). as_ID s = 1 \<and> versioned s = s)"

lemma versioned [simp]: "as_ID (versioned s) = as_ID s" "versioned (versioned s) = versioned s"
  by (simp_all add: versioned_def)

lemma orPanic_Ok: "orPanic msg m w = (Ok x, w') \<longleftrightarrow> m w = (Ok x, w')"
  by (auto simp: orPanic_def attempt_def bind_def split: prod.splits outcome.splits)

lemma status_write:
  assumes "ApplicationStatus_UpdateG s w = (Ok (), w')"
  shows "rows (applicationStatuses w') = map (\<lambda>x. if as_ID x = as_ID s then s else x) (rows (applicationStatuses w))" and "fault w' = fault w"
proof -
  have "rows (applicationStatuses w') = map (\<lambda>x. if as_ID x = as_ID s then s else x) (rows (applicationStatuses w)) \<and> fault w' = fault w"
    using assms unfolding ApplicationStatus_UpdateG_def change_def stmt_def
    by (auto simp: t_update_def Let_def split: option.splits outcome.splits if_splits)
  then show "rows (applicationStatuses w') = map (\<lambda>x. if as_ID x = as_ID s then s else x) (rows (applicationStatuses w))" "fault w' = fault w"
    by simp_all
qed

lemma status_rows:
  assumes "applicationStatuses v = applicationStatuses w" and "s \<in> set (rows (applicationStatuses w))" and "as_ID s = 1"
    and "distinct (map as_ID (rows (applicationStatuses w)))" and "ApplicationStatus_UpdateG (versioned s) v = (Ok (), w')"
  shows "recorded w'"
proof -
  let ?rows = "rows (applicationStatuses w)"
  have r: "rows (applicationStatuses w') = map (\<lambda>x. if as_ID x = 1 then versioned s else x) ?rows"
    using status_write(1) [OF assms(5)] assms(1,3) by simp
  have "map as_ID (rows (applicationStatuses w')) = map as_ID ?rows" unfolding r using assms(3) by simp
  moreover have "versioned s \<in> set (rows (applicationStatuses w'))" unfolding r using assms(2,3) by force
  ultimately show ?thesis using assms(3,4) by (auto simp: recorded_def intro!: bexI [of _ "versioned s"])
qed

lemma runUpgrades_current: "13 \<le> v \<Longrightarrow> runUpgrades E sch N T v w = (Ok False, w)"
  by (simp add: runUpgrades_def upgradeFrom1_def upgradeFrom2_def upgradeFrom3_def upgradeFrom8_def upgradeFrom10_def reProcessAllBelow_def
      upgradeFrom4_def upgradeFrom5_def upgradeFrom6_def upgradeFrom7_def upgradeFrom9_def upgradeFrom11_def upgradeFrom12_def bind_def)

lemma same_row:
  assumes "distinct (map as_ID xs)" and "s \<in> set xs"
  shows "map (\<lambda>x. if as_ID x = as_ID s then s else x) xs = xs"
  using assms by (auto simp: distinct_map dest: inj_onD intro!: map_idI)

text \<open>A start with the version recorded does nothing: its three statements are two reads and an update to the same values.\<close>

lemma RunUpgradesForVersion_again:
  assumes "recorded w" and "no_faults w"
  shows "RunUpgradesForVersion E sch N T w = (Ok False, w\<lparr>stmts := stmts w + 3\<rparr>)"
proof -
  obtain s where s: "s \<in> set (rows (applicationStatuses w))" "as_ID s = 1" "versioned s = s"
    and d: "distinct (map as_ID (rows (applicationStatuses w)))" using assms(1) by (auto simp: recorded_def)
  have f: "find (\<lambda>s. as_ID s = 1) (rows (applicationStatuses w)) = Some s"
  proof (cases "find (\<lambda>s. as_ID s = 1) (rows (applicationStatuses w))")
    case None
    then show ?thesis using s(1,2) by (auto simp: find_None_iff)
  next
    case (Some x)
    then show ?thesis using find_mem [OF Some] s(1,2) d inj_onD [of as_ID _ x s] by (auto simp: distinct_map)
  qed
  have v: "13 \<le> as_AppVersion s" using arg_cong [OF s(3), of as_AppVersion] by (simp add: versioned_def currentVersion_def)
  have t: "t_update as_ID (\<lambda>_ _. False) 1 (\<lambda>_. s) (applicationStatuses w) = Ok (applicationStatuses w)"
    using same_row [OF d s(1)] s(2) by (simp add: t_update_def)
  have u: "ApplicationStatus_UpdateG s (w\<lparr>stmts := Suc (Suc (stmts w))\<rparr>) = (Ok (), w\<lparr>stmts := stmts w + 3\<rparr>)"
    using assms(2) s(2) t by (simp add: ApplicationStatus_UpdateG_def change_def stmt_def no_faults_def Let_def)
  show ?thesis
    using assms(2) f u runUpgrades_current [OF v] s(3)
    by (simp add: RunUpgradesForVersion_def orPanic_def attempt_def bind_def query_def oneG_def stmt_def no_faults_def first_row_def)
qed

lemma inserted:
  assumes "applicationStatuses w = emptyTable" and "ApplicationStatus_InsertG (versioned zeroApplicationStatus) w = (Ok s, v)"
  shows "s = (versioned zeroApplicationStatus)\<lparr>as_ID := 1\<rparr> \<and> rows (applicationStatuses v) = [s] \<and> fault v = fault w"
  using assms unfolding ApplicationStatus_InsertG_def change_def stmt_def
  by (auto simp: t_insert_def emptyTable_def Let_def zeroApplicationStatus_def versioned_def split: option.splits if_splits)

lemma orPanic_run: "orPanic msg m w = (case m w of (Ok x, w') \<Rightarrow> (Ok x, w') | (Err e, w') \<Rightarrow> (Panic (Raised msg), w') | (Panic p, w') \<Rightarrow> (Panic p, w'))"
  by (simp add: orPanic_def attempt_def bind_def split: prod.split outcome.split)

text \<open>A failing write changes no row.\<close>

lemma status_failed:
  assumes "ApplicationStatus_UpdateG s w = (r, w')" and "r \<noteq> Ok ()"
  shows "applicationStatuses w' = applicationStatuses w"
  using assms unfolding ApplicationStatus_UpdateG_def change_def stmt_def
  by (auto simp: t_update_def Let_def split: option.splits outcome.splits if_splits)

lemma insert_failed:
  assumes "ApplicationStatus_InsertG s w = (r, w')" and "\<nexists>x. r = Ok x"
  shows "applicationStatuses w' = applicationStatuses w"
  using assms unfolding ApplicationStatus_InsertG_def change_def stmt_def
  by (auto simp: Let_def split: option.splits outcome.splits)

text \<open>How the upgrade manager can end.\<close>

definition upgrade_ending :: "world \<Rightarrow> bool outcome \<Rightarrow> world \<Rightarrow> bool" where
  "upgrade_ending w r w' \<longleftrightarrow>
     (case r of
        Ok background \<Rightarrow> recorded w' \<or> (fault w (stmts w + 1) \<noteq> None \<and> \<not> background \<and> w' = w\<lparr>stmts := stmts w + 2\<rparr>)
      | Err e \<Rightarrow> False
      | Panic p \<Rightarrow> applicationStatuses w' = applicationStatuses w \<or> recorded w')"

lemma ending_new:
  assumes "RunUpgradesForVersion E sch N T w = (r, w')" and "applicationStatuses w = emptyTable" and "fault w (stmts w) = None"
  shows "upgrade_ending w r w'"
proof -
  let ?w = "w\<lparr>stmts := Suc (stmts w)\<rparr>" and ?s0 = "versioned zeroApplicationStatus"
  obtain q v where i: "ApplicationStatus_InsertG ?s0 ?w = (q, v)" by fastforce
  have run: "RunUpgradesForVersion E sch N T w = bind (orPanic ''App Status Error'' (ApplicationStatus_InsertG ?s0))
      (\<lambda>s. bind (orPanic ''App Status Error'' (ApplicationStatus_UpdateG s)) (\<lambda>_. ret False)) ?w"
    using assms(2,3) by (simp add: RunUpgradesForVersion_def bind_def [of "orPanic ''exists'' _"] orPanic_run query_def stmt_def first_row_def emptyTable_def)
  show ?thesis
  proof (cases q)
    case (Ok s)
    have s: "s = ?s0\<lparr>as_ID := 1\<rparr>" "rows (applicationStatuses v) = [s]" using inserted [of ?w s v] i assms(2) Ok by simp_all
    then have v: "versioned s = s" "as_ID s = 1" "recorded v" by (simp_all add: versioned_def recorded_def)
    obtain p x where u: "ApplicationStatus_UpdateG s v = (p, x)" by fastforce
    have end_run: "(r, w') = (case p of Ok _ \<Rightarrow> (Ok False, x) | Err e \<Rightarrow> (Panic (Raised ''App Status Error''), x) | Panic p \<Rightarrow> (Panic p, x))"
      using assms(1) unfolding run by (cases p) (simp_all add: bind_def orPanic_run i Ok u)
    show ?thesis
    proof (cases p)
      case (Ok y)
      then have "recorded x" using status_rows [of v v s x] u s(2) v(1,2) by simp
      then show ?thesis using end_run Ok by (simp add: upgrade_ending_def)
    next
      case (Err e)
      then have "recorded x" using status_failed [OF u] v(3) by (simp add: recorded_def)
      then show ?thesis using end_run Err by (simp add: upgrade_ending_def)
    next
      case (Panic y)
      then have "recorded x" using status_failed [OF u] v(3) by (simp add: recorded_def)
      then show ?thesis using end_run Panic by (simp add: upgrade_ending_def)
    qed
  next
    case (Err e)
    then show ?thesis using assms(1) insert_failed [OF i] unfolding run by (auto simp: bind_def orPanic_run i upgrade_ending_def)
  next
    case (Panic p)
    then show ?thesis using assms(1) insert_failed [OF i] unfolding run by (auto simp: bind_def orPanic_run i upgrade_ending_def)
  qed
qed

lemma ending_row:
  assumes run: "RunUpgradesForVersion E sch N T w = (r, w')" and "first_row (\<lambda>s. as_ID s = 1) (applicationStatuses w) = Some s"
    and d: "distinct (map as_ID (rows (applicationStatuses w)))" and "fault w (stmts w) = None"
  shows "upgrade_ending w r w'"
proof -
  have s: "s \<in> set (rows (applicationStatuses w))" "as_ID s = 1" using find_mem [OF assms(2) [unfolded first_row_def]] by simp_all
  let ?w = "w\<lparr>stmts := Suc (Suc (stmts w))\<rparr>"
  show ?thesis
  proof (cases "fault w (Suc (stmts w))")
    case (Some e)
    then have "RunUpgradesForVersion E sch N T w = (Ok False, ?w)"
      using assms(2,4) by (simp add: RunUpgradesForVersion_def bind_def orPanic_run query_def oneG_def attempt_def stmt_def)
    then show ?thesis using run Some by (simp add: upgrade_ending_def)
  next
    case None
    obtain q v where u: "runUpgrades E sch N T (as_AppVersion s) ?w = (q, v)" by fastforce
    have same: "applicationStatuses v = applicationStatuses w" using withinD [OF status_runUpgrades u] by (simp add: same_status_def)
    have step: "RunUpgradesForVersion E sch N T w = (case q of
        Ok b \<Rightarrow> bind (orPanic ''App Status Error'' (ApplicationStatus_UpdateG (versioned s))) (\<lambda>_. ret b) v | Err e \<Rightarrow> (Err e, v) | Panic p \<Rightarrow> (Panic p, v))"
      using assms(2,4) None u by (simp add: RunUpgradesForVersion_def bind_def orPanic_run query_def oneG_def attempt_def stmt_def split: outcome.split)
    show ?thesis
    proof (cases q)
      case (Ok b)
      obtain p x where u2: "ApplicationStatus_UpdateG (versioned s) v = (p, x)" by fastforce
      have end_run: "(r, w') = (case p of Ok _ \<Rightarrow> (Ok b, x) | Err e \<Rightarrow> (Panic (Raised ''App Status Error''), x) | Panic p \<Rightarrow> (Panic p, x))"
        using run step Ok u2 by (cases p) (simp_all add: bind_def orPanic_run)
      show ?thesis
      proof (cases p)
        case (Ok y)
        then have "recorded x" using status_rows [OF same s d] u2 by simp
        then show ?thesis using end_run Ok by (simp add: upgrade_ending_def)
      next
        case (Err e)
        then show ?thesis using end_run Err status_failed [OF u2] same by (simp add: upgrade_ending_def)
      next
        case (Panic y)
        then show ?thesis using end_run Panic status_failed [OF u2] same by (simp add: upgrade_ending_def)
      qed
    next
      case (Err e)
      then show ?thesis using errorlessD [OF errorless_runUpgrades u] by blast
    next
      case (Panic p)
      then have "r = Panic p" "w' = v" using run step by simp_all
      then show ?thesis using same by (simp add: upgrade_ending_def)
    qed
  qed
qed

text \<open>On a database at version 10, 11 or 12 only the upgrade from version 12 has a statement of its own, the third of the start.\<close>

lemma RunUpgradesForVersion_absorbs:
  assumes "first_row (\<lambda>s. as_ID s = 1) (applicationStatuses w) = Some s" and "10 \<le> as_AppVersion s" and "as_AppVersion s < 13"
    and "\<forall>k. k \<noteq> stmts w + 2 \<longrightarrow> fault w k = None"
  shows "fst (RunUpgradesForVersion E sch N T w) = Ok (as_AppVersion s < 12)"
proof -
  have f: "fault w (stmts w) = None" "fault w (Suc (stmts w)) = None" "fault w (Suc (Suc (Suc (stmts w)))) = None" using assms(4) by simp_all
  have u: "fst (ApplicationStatus_UpdateG x v) = Ok ()" if "fault v (stmts v) = None" for x v
    using that by (simp add: ApplicationStatus_UpdateG_def change_def stmt_def t_update_def)
  obtain v where v: "runUpgrades E sch N T (as_AppVersion s) (w\<lparr>stmts := Suc (Suc (stmts w))\<rparr>) = (Ok (as_AppVersion s < 12), v)"
    "fault v (stmts v) = None"
    using assms(2,3) f
    by (cases "fault w (Suc (Suc (stmts w)))")
      (simp_all add: runUpgrades_def upgradeFrom1_def upgradeFrom2_def upgradeFrom3_def upgradeFrom8_def upgradeFrom10_def reProcessAllBelow_def
        upgradeFrom4_def upgradeFrom5_def upgradeFrom6_def upgradeFrom7_def upgradeFrom9_def upgradeFrom11_def upgradeFrom12_def bind_def
        logged_def attempt_def stmt_def)
  have "RunUpgradesForVersion E sch N T w =
      bind (orPanic ''App Status Error'' (ApplicationStatus_UpdateG (versioned s))) (\<lambda>_. ret (as_AppVersion s < 12)) v"
    using assms(1) f v(1) by (simp add: RunUpgradesForVersion_def bind_def orPanic_run query_def oneG_def attempt_def stmt_def)
  then show ?thesis using u [OF v(2), of "versioned s"] by (auto simp: bind_def orPanic_run split: prod.split outcome.splits)
qed

text \<open>C26: Whatever statements of the database, calls of the node and upgrades fail, the upgrade manager never ends with an error. When
  it returns, the version of the program is recorded in the row with id 1, although upgrades may have failed on the way, unless the
  very read of that row failed, in which case it has done nothing at all; when it panics, the row is as it was or the version is recorded. In
  particular a start from version 10, 11 or 12 returns and records the version also when the one statement of the upgrades it runs fails. Once the
  version is recorded, the next start without faults runs no upgrade: its only effect are two reads and an update to
  the same values, so what failed before stays undone. The hypothesis is a table that is new or has the row, with unique ids.\<close>

theorem RunUpgradesForVersion_recorded:
  assumes "RunUpgradesForVersion E sch N T w = (r, w')" and "status_ok w"
  shows "(case r of
      Ok background \<Rightarrow> recorded w' \<or> (fault w (stmts w + 1) \<noteq> None \<and> \<not> background \<and> w' = w\<lparr>stmts := stmts w + 2\<rparr>)
    | Err e \<Rightarrow> False
    | Panic p \<Rightarrow> applicationStatuses w' = applicationStatuses w \<or> recorded w') \<and>
    (\<forall>s. first_row (\<lambda>s. as_ID s = 1) (applicationStatuses w) = Some s \<and> 10 \<le> as_AppVersion s \<and> as_AppVersion s < 13 \<and>
       (\<forall>k. k \<noteq> stmts w + 2 \<longrightarrow> fault w k = None) \<longrightarrow> r = Ok (as_AppVersion s < 12) \<and> recorded w') \<and>
    (recorded w' \<and> no_faults w'' \<and> applicationStatuses w'' = applicationStatuses w' \<longrightarrow>
      RunUpgradesForVersion E' sch' N' T' w'' = (Ok False, w''\<lparr>stmts := stmts w'' + 3\<rparr>))"
proof -
  have ending: "upgrade_ending w r w'"
  proof (cases "fault w (stmts w)")
    case (Some e)
    then have "RunUpgradesForVersion E sch N T w = (Panic (Raised ''exists''), w\<lparr>stmts := stmts w + 1\<rparr>)"
      by (simp add: RunUpgradesForVersion_def bind_def orPanic_run query_def stmt_def)
    then show ?thesis using assms(1) by (auto simp: upgrade_ending_def)
  next
    case None
    show ?thesis
    proof (cases "first_row (\<lambda>s. as_ID s = 1) (applicationStatuses w)")
      case none: None
      then have "applicationStatuses w = emptyTable" using assms(2) by (auto simp: status_ok_def first_row_def find_None_iff)
      then show ?thesis using ending_new assms(1) None by blast
    next
      case (Some s)
      then have "distinct (map as_ID (rows (applicationStatuses w)))" using assms(2) by (auto simp: status_ok_def emptyTable_def)
      then show ?thesis using ending_row [OF assms(1) Some _ None] by blast
    qed
  qed
  have absorbs: "r = Ok (as_AppVersion s < 12) \<and> recorded w'"
    if "first_row (\<lambda>s. as_ID s = 1) (applicationStatuses w) = Some s" "10 \<le> as_AppVersion s" "as_AppVersion s < 13"
      "\<forall>k. k \<noteq> stmts w + 2 \<longrightarrow> fault w k = None" for s
  proof -
    have "r = Ok (as_AppVersion s < 12)" using RunUpgradesForVersion_absorbs [OF that, of E sch N T] assms(1) by simp
    then show ?thesis using ending that(4) by (simp add: upgrade_ending_def)
  qed
  have again: "RunUpgradesForVersion E' sch' N' T' w'' = (Ok False, w''\<lparr>stmts := stmts w'' + 3\<rparr>)"
    if "recorded w'" "no_faults w''" "applicationStatuses w'' = applicationStatuses w'"
    using RunUpgradesForVersion_again [of w''] that by (simp add: recorded_def)
  show ?thesis using ending absorbs again unfolding upgrade_ending_def by blast
qed

section \<open>The upgrade from version 7\<close>

lemma highest_None: "highest bs = None \<longleftrightarrow> bs = []"
  by (cases bs) (auto split: option.splits)

lemma highest_height: "highest bs = Some t \<Longrightarrow> b \<in> set bs \<Longrightarrow> b_Height b \<le> b_Height t"
  by (induction bs arbitrary: t) (fastforce simp: highest_None split: option.splits if_splits)+

lemma highest_mem: "highest bs = Some t \<Longrightarrow> t \<in> set bs"
  by (induction bs arbitrary: t) (auto split: option.splits if_splits)

text \<open>C27: The upgrade from version 7, which is to process the claims again that the expiration fork at height 400155 affects, never processes
  any: it looks for outputs at or above that height only when the highest block is below it. Whatever the tables, the node and the
  version, no row changes.\<close>

theorem upgradeFrom7_nothing: "\<exists>n. snd (upgradeFrom7 E sch N version w) = w\<lparr>stmts := n\<rparr>"
proof -
  have none: "outputs_from 400155 v = []" if "highest (rows (blocks v)) = Some t" "b_Height t < 400155" for v t
  proof -
    have "b_Height b < 400155" if "b \<in> set (rows (blocks v))" for b
      using highest_height [OF \<open>highest _ = _\<close> that] \<open>b_Height t < 400155\<close> by simp
    then show ?thesis by (auto simp: outputs_from_def concat_eq_Nil_conv not_le)
  qed
  let ?v = "w\<lparr>stmts := stmts w + 1\<rparr>"
  consider (old) "\<not> version < 8" | (failed) e where "version < 8" "oneG (\<lambda>w. highest (rows (blocks w))) w = (Err e, ?v)"
    | (some) t where "version < 8" "highest (rows (blocks w)) = Some t" "oneG (\<lambda>w. highest (rows (blocks w))) w = (Ok t, ?v)"
    by (cases "fault w (stmts w)"; cases "highest (rows (blocks w))") (auto simp: oneG_def stmt_def)
  then show ?thesis
  proof cases
    case old
    then show ?thesis by (intro exI [of _ "stmts w"]) (simp add: upgradeFrom7_def)
  next
    case failed
    then show ?thesis by (intro exI [of _ "stmts w + 1"]) (simp add: upgradeFrom7_def bind_def attempt_def)
  next
    case some
    show ?thesis
    proof (cases "b_Height t < 400155")
      case True
      then have o: "outputs_from 400155 (?v\<lparr>stmts := stmts w + 2\<rparr>) = []" using none [of "?v\<lparr>stmts := stmts w + 2\<rparr>"] some(2) by simp
      show ?thesis using some True o
        by (intro exI [of _ "stmts w + 2"])
          (cases "fault w (Suc (stmts w))", simp_all add: upgradeFrom7_def bind_def attempt_def reProcessAllClaimsFromHeight_def orPanic_def
            query_def stmt_def)
    next
      case False
      then show ?thesis using some by (intro exI [of _ "stmts w + 1"]) (simp add: upgradeFrom7_def bind_def attempt_def)
    qed
  qed
qed

section \<open>The upgrade from version 5\<close>

lemma blocks_deleted: "rows (blocks (fold delete_block ks w)) = filter (\<lambda>b. b_ID b \<notin> set ks) (rows (blocks w))"
proof (induction ks arbitrary: w)
  case (Cons k ks)
  have "rows (blocks (delete_block k w)) = filter (\<lambda>b. b_ID b \<noteq> k) (rows (blocks w))"
    by (simp add: delete_block_def delete_transactions_def Let_def t_filter_def)
  then show ?case using Cons.IH [of "delete_block k w"] by (auto intro: filter_cong)
qed simp

lemma fifty_below: "h < 2 ^ 64 \<Longrightarrow> to_u64 (int h - 50) = (if 50 \<le> h then h - 50 else 2 ^ 64 - (50 - h))"
proof (cases "50 \<le> h")
  case True
  assume "h < 2 ^ 64"
  then show ?thesis using True by (simp add: to_u64_def nat_diff_distrib' of_nat_diff [symmetric] del: of_nat_diff)
next
  case False
  have "(int h - 50) mod 2 ^ 64 = (int h - 50 + 2 ^ 64) mod 2 ^ 64" by (rule mod_add_self2 [symmetric])
  also have "\<dots> = int h - 50 + 2 ^ 64" using False by (intro mod_pos_pos_trivial) simp_all
  finally show ?thesis using False by (simp add: to_u64_def)
qed

text \<open>The upgrade from version 5 deletes every block from fifty below the highest one on, which are fifty-one heights where the log says
  fifty, and of a chain lower than fifty, where the unsigned difference wraps around, nothing.\<close>

theorem upgradeFrom5_exact:
  assumes "no_faults w" and "distinct (map b_ID (rows (blocks w)))" and "highest (rows (blocks w)) = Some t" and "b_Height t < 2 ^ 64"
    and "version < 6"
  shows "rows (blocks (snd (upgradeFrom5 version w))) = filter (\<lambda>b. b_Height t < 50 \<or> b_Height b < b_Height t - 50) (rows (blocks w))"
proof -
  let ?rows = "rows (blocks w)" and ?from = "to_u64 (int (b_Height t) - 50)"
  define bs where "bs = filter (\<lambda>b. b_Height b \<ge> ?from) ?rows"
  have "snd (upgradeFrom5 version w) = (if bs = [] then w\<lparr>stmts := stmts w + 2\<rparr> else fold delete_block (map b_ID bs) (w\<lparr>stmts := stmts w + 3\<rparr>))"
    using assms(1,3,5) by (auto simp: upgradeFrom5_def logged_def attempt_def bind_def oneG_def query_def stmt_def Blocks_DeleteAllG_def bs_def no_faults_def
        numeral_3_eq_3)
  then have r: "rows (blocks (snd (upgradeFrom5 version w))) = filter (\<lambda>b. b_ID b \<notin> set (map b_ID bs)) ?rows"
    by (auto simp: blocks_deleted)
  have "b_ID b \<notin> set (map b_ID bs) \<longleftrightarrow> b_Height b < ?from" if "b \<in> set ?rows" for b
    using assms(2) that inj_onD [of b_ID "set ?rows" b] by (auto simp: bs_def distinct_map)
  moreover have "b_Height b < ?from \<longleftrightarrow> b_Height t < 50 \<or> b_Height b < b_Height t - 50" if "b \<in> set ?rows" for b
    using highest_height [OF assms(3) that] assms(4) by (auto simp: fifty_below)
  ultimately show ?thesis unfolding r by (intro filter_cong) auto
qed

section \<open>Concrete runs\<close>

definition demo_heights :: world where
  "demo_heights = demo_world\<lparr>blocks := \<lparr>rows = map (\<lambda>h. zeroBlock\<lparr>b_ID := Suc h, b_Height := h\<rparr>) [48, 49, 50, 100], nextID = 200\<rparr>,
     applicationStatuses := \<lparr>rows = [zeroApplicationStatus\<lparr>as_ID := 1, as_AppVersion := 9\<rparr>], nextID = 2\<rparr>\<rparr>"

theorem upgradeFrom5_exact_witness:
  "map b_Height (rows (blocks (snd (upgradeFrom5 1 demo_heights)))) = [48, 49]"
proof -
  have h: "highest (rows (blocks demo_heights)) = Some (zeroBlock\<lparr>b_ID := 101, b_Height := 100\<rparr>)"
    by (simp add: demo_heights_def zeroBlock_def)
  have d: "distinct (map b_ID (rows (blocks demo_heights)))" "no_faults demo_heights"
    by (simp_all add: demo_heights_def no_faults_def demo_world_def)
  show ?thesis
    unfolding upgradeFrom5_exact [OF d(2,1) h, of 1, simplified] by (simp add: demo_heights_def)
qed

definition demo_count :: trieNode where
  "demo_count = \<lparr>getClaimsForName = (\<lambda>_ _. Inl EOF), getBlockCount = (\<lambda>_. Inr 100)\<rparr>"

definition demo_silent :: node where
  "demo_silent = \<lparr>getBlockHash = (\<lambda>_ _. Inl EOF), getBlock = (\<lambda>_ _. Inl EOF), getRawTransaction = (\<lambda>_ _. Inl EOF)\<rparr>"

text \<open>The statement of the upgrade from version 12 fails; the version is recorded nevertheless.\<close>

definition demo_failing :: world where
  "demo_failing = demo_heights\<lparr>jobStatuses := [zeroJobStatus\<lparr>js_JobName := ''claimtriesyncjob''\<rparr>], fault := (\<lambda>n. if n = 4 then Some EOF else None)\<rparr>"

theorem RunUpgradesForVersion_recorded_witness:
  "\<exists>w'. RunUpgradesForVersion demo_env demo_order demo_silent demo_count demo_failing = (Ok True, w') \<and> recorded w' \<and>
     map js_State (jobStatuses w') = [None] \<and>
     RunUpgradesForVersion demo_env demo_order demo_silent demo_count (w'\<lparr>fault := \<lambda>_. None\<rparr>) =
       (Ok False, w'\<lparr>fault := \<lambda>_. None, stmts := stmts w' + 3\<rparr>)"
proof -
  let ?run = "RunUpgradesForVersion demo_env demo_order demo_silent demo_count demo_failing"
  have first: "fst ?run = Ok True \<and> map js_State (jobStatuses (snd ?run)) = [None]"
    by (simp add: RunUpgradesForVersion_def runUpgrades_def upgradeFrom1_def upgradeFrom2_def upgradeFrom3_def upgradeFrom8_def upgradeFrom10_def
      reProcessAllBelow_def upgradeFrom4_def upgradeFrom5_def upgradeFrom6_def upgradeFrom7_def upgradeFrom9_def upgradeFrom11_def upgradeFrom12_def
      reProcessAllClaims_def orPanic_def logged_def attempt_def bind_def query_def oneG_def stmt_def rpc_def nonstandard_def first_row_def
      ApplicationStatus_UpdateG_def change_def t_update_def demo_failing_def demo_heights_def demo_world_def demo_count_def zeroApplicationStatus_def zeroJobStatus_def emptyTable_def)
  then obtain w' where run: "RunUpgradesForVersion demo_env demo_order demo_silent demo_count demo_failing = (Ok True, w')"
    by (metis prod.collapse)
  have "status_ok demo_failing" by (simp add: status_ok_def demo_failing_def demo_heights_def)
  moreover have "no_faults (w'\<lparr>fault := \<lambda>_. None\<rparr>)" by (simp add: no_faults_def)
  ultimately have r: "recorded w'" and again: "RunUpgradesForVersion demo_env demo_order demo_silent demo_count (w'\<lparr>fault := \<lambda>_. None\<rparr>) =
       (Ok False, w'\<lparr>fault := \<lambda>_. None, stmts := stmts w' + 3\<rparr>)"
    using RunUpgradesForVersion_recorded [OF run, of "w'\<lparr>fault := \<lambda>_. None\<rparr>"] by (auto simp: demo_failing_def demo_heights_def demo_world_def)
  show ?thesis using run r again first by (intro exI [of _ w']) simp
qed

end
