(* ===== verification/Actions.thy ===== *)
theory Actions
  imports ClaimTrie ValueSync Validation
begin

text \<open>
  \<^verbatim>\<open>apiactions\<close>: the routes of the HTTP interface that change the database or look at the chain, and \<^verbatim>\<open>auth/auth.go\<close>, which guards
  them. Reading the form of a request is the work of a library: its result, an error or the parameters, is an argument here.
\<close>

section \<open>Requests and responses\<close>

fun IsAuthorized :: "string list \<Rightarrow> string \<Rightarrow> bool" where
  "IsAuthorized [] key = False"
| "IsAuthorized (k # ks) key = (if k = key then True else IsAuthorized ks key)"

datatype apiData = NoData | Text string | Number nat | Differences "BlockData list"

record apiResponse =
  re_Data :: apiData
  re_Error :: "goerr option"
  re_Status :: nat

definition ok_response :: "apiData \<Rightarrow> apiResponse" where
  "ok_response d = \<lparr>re_Data = d, re_Error = None, re_Status = 0\<rparr>"

definition error_response :: "goerr \<Rightarrow> nat \<Rightarrow> apiResponse" where
  "error_response e status = \<lparr>re_Data = NoData, re_Error = Some e, re_Status = status\<rparr>"

definition notAuthorized :: apiResponse where
  "notAuthorized = error_response (Msg ''not authorized'') 401"

text \<open>Every guarded route begins like this; the status is bad request or unauthorized.\<close>

definition guarded :: "string list \<Rightarrow> ('p \<Rightarrow> string) \<Rightarrow> goerr + 'p \<Rightarrow> (apiResponse \<Rightarrow> 'r) \<Rightarrow> ('p \<Rightarrow> 'r db) \<Rightarrow> 'r db" where
  "guarded keys keyOf form wrap action =
     (case form of
        Inl e \<Rightarrow> ret (wrap (error_response e 400))
      | Inr p \<Rightarrow> if \<not> IsAuthorized keys (keyOf p) then ret (wrap notAuthorized) else action p)"

definition respond :: "('a \<Rightarrow> apiData) \<Rightarrow> 'a db \<Rightarrow> apiResponse db" where
  "respond f m = bind (attempt m) (\<lambda>r. ret (case r of Inl e \<Rightarrow> error_response e 0 | Inr x \<Rightarrow> ok_response (f x)))"

section \<open>Processing a range of blocks\<close>

record processParams =
  pp_Block :: "64 word option"
  pp_From :: "64 word option"
  pp_To :: "64 word option"
  pp_Key :: string

text \<open>
  The height is incremented in place and wraps; \<open>None\<close> means that the fuel has run out. What the processing of a height returns
  is not looked at.
\<close>

fun processRange :: "(nat \<Rightarrow> nat db) \<Rightarrow> nat \<Rightarrow> 64 word \<Rightarrow> 64 word \<Rightarrow> unit option db" where
  "processRange run 0 from to = ret None"
| "processRange run (Suc fuel) from to =
     (if from \<le> to then bind (run (unat from)) (\<lambda>_. processRange run fuel (from + 1) to) else ret (Some ()))"

definition processBlocks ::
    "(nat \<Rightarrow> nat db) \<Rightarrow> trieNode \<Rightarrow> nat \<Rightarrow> 64 word option \<Rightarrow> 64 word option \<Rightarrow> 64 word option \<Rightarrow> unit option db" where
  "processBlocks run T fuel block from to =
     (case block of
        Some b \<Rightarrow> processRange run fuel b b
      | None \<Rightarrow>
          bind (case to of Some t \<Rightarrow> ret t | None \<Rightarrow> bind (rpc (getBlockCount T)) (\<lambda>c. ret (of_nat c))) (\<lambda>to.
            processRange run fuel (case from of Some f \<Rightarrow> f | None \<Rightarrow> 0) to))"

definition ProcessBlocks ::
    "string list \<Rightarrow> (nat \<Rightarrow> nat db) \<Rightarrow> trieNode \<Rightarrow> nat \<Rightarrow> goerr + processParams \<Rightarrow> apiResponse option db" where
  "ProcessBlocks keys run T fuel form =
     guarded keys pp_Key form Some (\<lambda>p.
       bind (attempt
         (if pp_Block p \<noteq> None then processBlocks run T fuel (pp_Block p) None None
          else if pp_To p \<noteq> None then processBlocks run T fuel None (pp_From p) (pp_To p)
          else processBlocks run T fuel None (pp_From p) None)) (\<lambda>r.
         ret (case r of Inl e \<Rightarrow> Some (error_response e 0) | Inr None \<Rightarrow> None | Inr (Some _) \<Rightarrow> Some (ok_response (Text ''OK'')))))"

section \<open>Synchronising a name\<close>

record nameParams =
  np_Name :: string
  np_Key :: string

definition SyncName :: "string list \<Rightarrow> trieNode \<Rightarrow> trieOrder \<Rightarrow> goerr + nameParams \<Rightarrow> apiResponse db" where
  "SyncName keys T sch form =
     guarded keys np_Key form id (\<lambda>p.
       respond (\<lambda>_. Text ''ok'')
         (bind (query (\<lambda>w. take 1 (filter (\<lambda>c. c_Name c = np_Name p) (rows (claims w))))) (\<lambda>cs.
          bind (rpc (getBlockCount T)) (\<lambda>c.
          bind (SyncClaims T sch cs) (\<lambda>_. SetControllingClaimForNames sch cs c)))))"

section \<open>Jobs on request\<close>

definition SyncAddressBalance :: "string list \<Rightarrow> sums \<Rightarrow> nat \<Rightarrow> goerr + string \<Rightarrow> apiResponse option db" where
  "SyncAddressBalance keys S fuel form =
     guarded keys id form Some (\<lambda>_.
       bind (attempt (SyncAddressBalances S fuel)) (\<lambda>r.
         ret (case r of Inl e \<Rightarrow> Some (error_response e 0) | Inr None \<Rightarrow> None | Inr (Some n) \<Rightarrow> Some (ok_response (Number n)))))"

definition SyncTransactionValueAction :: "string list \<Rightarrow> sums \<Rightarrow> goerr + string \<Rightarrow> apiResponse db" where
  "SyncTransactionValueAction keys S form =
     guarded keys id form id (\<lambda>_. respond Number (SyncTransactionValue S))"

record rangeParams =
  rp_From :: nat
  rp_To :: "nat option"
  rp_Key :: string

definition ValidateChainData :: "string list \<Rightarrow> node \<Rightarrow> trieNode \<Rightarrow> goerr + rangeParams \<Rightarrow> apiResponse db" where
  "ValidateChainData keys N T form =
     guarded keys rp_Key form id (\<lambda>p.
       respond Differences (ValidateChainRange N (getBlockCount T) (Some (rp_From p)) (rp_To p)))"

end
