(* ===== verification/Actions_Spec.thy ===== *)
theory Actions_Spec
  imports Actions Datastore_Spec
begin

text \<open>What the routes guarantee: without a key nothing happens, and a range of blocks is processed height by height.\<close>

section \<open>Keys\<close>

lemma IsAuthorized: "IsAuthorized keys key \<longleftrightarrow> key \<in> set keys"
  by (induction keys) auto

definition without_key :: "string list \<Rightarrow> ('p \<Rightarrow> string) \<Rightarrow> goerr + 'p \<Rightarrow> bool" where
  "without_key keys keyOf form \<longleftrightarrow> (\<forall>p. form = Inr p \<longrightarrow> keyOf p \<notin> set keys)"

definition refused :: "apiResponse \<Rightarrow> bool" where
  "refused r \<longleftrightarrow> re_Data r = NoData \<and> re_Error r \<noteq> None \<and> re_Status r \<in> {400, 401}"

lemma guarded_refuses:
  "without_key keys keyOf form \<Longrightarrow> \<exists>r. refused r \<and> guarded keys keyOf form wrap action w = (Ok (wrap r), w)"
proof (cases form)
  case (Inl e)
  then show ?thesis by (intro exI [of _ "error_response e 400"]) (simp add: guarded_def refused_def error_response_def)
next
  case (Inr p)
  then show "without_key keys keyOf form \<Longrightarrow> ?thesis"
    by (intro exI [of _ notAuthorized]) (simp add: guarded_def without_key_def IsAuthorized refused_def error_response_def notAuthorized_def)
qed

text \<open>C28: A request with a form that cannot be read or with a key that is not configured is refused by every guarded route, with an error and
  the status bad request or unauthorized, and without any effect: not one statement is sent to the database and not one call to the node.\<close>

theorem unauthorized_no_effect:
  assumes "without_key keys pp_Key f1" and "without_key keys np_Key f2" and "without_key keys id f3" and "without_key keys id f4"
    and "without_key keys rp_Key f5"
  shows "(\<exists>r. refused r \<and> ProcessBlocks keys run T fuel f1 w = (Ok (Some r), w)) \<and> (\<exists>r. refused r \<and> SyncName keys T sch f2 w = (Ok r, w)) \<and>
    (\<exists>r. refused r \<and> SyncAddressBalance keys S fuel f3 w = (Ok (Some r), w)) \<and>
    (\<exists>r. refused r \<and> SyncTransactionValueAction keys S f4 w = (Ok r, w)) \<and> (\<exists>r. refused r \<and> ValidateChainData keys N T f5 w = (Ok r, w))"
  unfolding ProcessBlocks_def SyncName_def SyncAddressBalance_def SyncTransactionValueAction_def ValidateChainData_def
  using guarded_refuses [OF assms(1), of Some] guarded_refuses [OF assms(2), of id] guarded_refuses [OF assms(3), of Some]
    guarded_refuses [OF assms(4), of id] guarded_refuses [OF assms(5), of id] by simp

section \<open>Ranges of blocks\<close>

lemma range_next:
  fixes a b :: "64 word"
  assumes "a \<le> b" and "b \<noteq> - 1"
  shows "unat (a + 1) = unat a + 1"
proof -
  have "a \<noteq> - 1" using assms by (metis order_antisym word_n1_ge)
  then have "1 + a \<noteq> 0" by (metis add_eq_0_iff2 add.commute)
  then show ?thesis using unatSuc [of a] by (simp add: add.commute)
qed

lemma bind_assoc: "bind (bind m f) g = bind m (\<lambda>x. bind (f x) g)"
  by (simp add: fun_eq_iff bind_def split: prod.split outcome.split)

lemma bind_ret: "bind (ret x) f = f x"
  by (simp add: fun_eq_iff bind_def)

lemma processRange_ends:
  assumes "to \<noteq> - 1" and "unat to + 2 \<le> fuel + unat from" and "0 < fuel"
  shows "processRange run fuel from to = bind (forM [unat from..<unat to + 1] (\<lambda>h. bind (run h) (\<lambda>_. ret ()))) (\<lambda>_. ret (Some ()))"
  using assms(2,3)
proof (induction fuel arbitrary: "from")
  case (Suc fuel)
  show ?case
  proof (cases "from \<le> to")
    case True
    note n = range_next [OF True assms(1)]
    have le: "unat from \<le> unat to" using True by (simp add: word_le_nat_alt)
    have "processRange run fuel (from + 1) to = bind (forM [unat (from + 1)..<unat to + 1] (\<lambda>h. bind (run h) (\<lambda>_. ret ()))) (\<lambda>_. ret (Some ()))"
      using Suc.prems le n by (intro Suc.IH) auto
    moreover have "[unat from..<unat to + 1] = unat from # [unat (from + 1)..<unat to + 1]" using le n by (simp add: upt_conv_Cons)
    ultimately show ?thesis using True by (simp add: bind_assoc bind_ret del: upt_Suc ret_run)
  next
    case False
    then have "[unat from..<unat to + 1] = []" by (simp add: word_le_nat_alt)
    then show ?thesis using False by (simp add: bind_ret del: upt_Suc ret_run)
  qed
qed simp

lemma processRange_forever:
  assumes "\<And>h v. \<exists>x v'. run h v = (Ok x, v')"
  shows "\<exists>v. processRange run fuel from (- 1) w = (Ok None, v)"
proof (induction fuel arbitrary: "from" w)
  case (Suc fuel)
  obtain x v where "run (unat from) w = (Ok x, v)" using assms by meson
  then show ?case using Suc.IH [of "from + 1" v] by (simp add: bind_def)
qed simp

text \<open>The heights a request asks for: one block, or a range that starts at zero unless it says otherwise.\<close>

definition asks_for :: "64 word option \<Rightarrow> 64 word option \<Rightarrow> 64 word option \<Rightarrow> 64 word \<Rightarrow> 64 word \<Rightarrow> bool" where
  "asks_for block start stop lo hi \<longleftrightarrow> block = Some hi \<and> lo = hi \<or> block = None \<and> stop = Some hi \<and> lo = (case start of Some f \<Rightarrow> f | None \<Rightarrow> 0)"

text \<open>C29: A request for blocks processes the heights it asks for one after the other, each once and in increasing order, and ends, whatever
  the processing of a height returns; only a panic of it ends the request early. The one exception is a range that ends at the largest
  64-bit number: the counter wraps around and the request never ends, whatever fuel.\<close>

theorem processBlocks_range:
  assumes "asks_for block start stop lo hi"
  shows "(hi \<noteq> - 1 \<and> unat hi + 2 \<le> fuel \<longrightarrow> processBlocks run T fuel block start stop =
      bind (forM [unat lo..<unat hi + 1] (\<lambda>h. bind (run h) (\<lambda>_. ret ()))) (\<lambda>_. ret (Some ()))) \<and>
    (hi = - 1 \<and> (\<forall>h v. \<exists>x v'. run h v = (Ok x, v')) \<longrightarrow> (\<exists>v. processBlocks run T fuel block start stop w = (Ok None, v)))"
proof -
  have "processBlocks run T fuel block start stop = processRange run fuel lo hi"
    using assms by (auto simp: asks_for_def processBlocks_def bind_ret simp del: ret_run split: option.splits)
  then show ?thesis using processRange_ends [of hi fuel lo run] processRange_forever [of run fuel lo w] by auto
qed

definition demo_tip :: trieNode where
  "demo_tip = \<lparr>getClaimsForName = (\<lambda>_ _. Inl EOF), getBlockCount = (\<lambda>_. Inr 5)\<rparr>"

theorem processBlocks_range_witness:
  "processBlocks (\<lambda>h w. (Ok h, w\<lparr>rpcs := rpcs w + h\<rparr>)) demo_tip 9 None (Some 3) (Some 5) demo_world = (Ok (Some ()), demo_world\<lparr>rpcs := 12\<rparr>) \<and>
   (\<exists>v. processBlocks (\<lambda>h w. (Ok h, w)) demo_tip 9 (Some (- 1)) None None demo_world = (Ok None, v))"
proof -
  have "asks_for None (Some 3) (Some 5) 3 5" "asks_for (Some (- 1)) None None (- 1) (- 1)" by (simp_all add: asks_for_def)
  note r = processBlocks_range [OF this(1), of 9 "\<lambda>h w. (Ok h, w\<lparr>rpcs := rpcs w + h\<rparr>)" demo_tip demo_world]
    processBlocks_range [OF this(2), of 9 "\<lambda>h w. (Ok h, w)" demo_tip demo_world]
  have u: "[unat (3 :: 64 word)..<unat (5 :: 64 word) + 1] = [3, 4, 5]" by (simp add: upt_conv_Cons)
  show ?thesis using r unfolding u by (simp add: bind_def demo_world_def)
qed

definition demo_form :: "goerr + processParams" where
  "demo_form = Inr \<lparr>pp_Block = Some 7, pp_From = None, pp_To = None, pp_Key = ''guess''\<rparr>"

theorem unauthorized_no_effect_witness:
  "\<exists>r. refused r \<and> ProcessBlocks [''secret''] (\<lambda>h w. (Ok h, w\<lparr>rpcs := rpcs w + h\<rparr>)) demo_tip 9 demo_form demo_world = (Ok (Some r), demo_world)"
proof -
  have "without_key [''secret''] pp_Key demo_form" "without_key [''secret''] np_Key (Inl EOF)" "without_key [''secret''] id (Inl EOF)"
    "without_key [''secret''] rp_Key (Inl EOF)" by (simp_all add: without_key_def demo_form_def)
  then show ?thesis using unauthorized_no_effect [of "[''secret'']" demo_form "Inl EOF" "Inl EOF" "Inl EOF" "Inl EOF"] by blast
qed

end
