(* ===== verification/Spec2Isabelle.thy ===== *)
theory Spec2Isabelle
  imports Script_Spec Scheduler_Spec TopoOrder Datastore_Spec Blocks_Spec BlockSync_Demo Scheduler_Refine ClaimTrie_Spec Daemon_Spec ValueSync_Spec Mempool_Spec BlockSync_Abort_Demo Validation_Spec CertSync_Spec ChainSync_Spec OutputFix_Spec Upgrades_Spec Actions_Spec
begin

text \<open>
  Chainquery follows the LBRY blockchain of a full node and stores it in a relational database: blocks, transactions with
  their inputs and outputs, addresses, and the claims, supports and purchases in the scripts of the outputs. A daemon
  hands the heights of the chain one after the other to the block processing, which parses a block, orders its
  transactions by what they depend on and stores them with several workers; jobs on timers correct afterwards what block
  processing cannot know. This library models that program from its Go source and proves what keeps its tables right.

  \<^bold>\<open>Theories and the code they model.\<close>
    \<^item> \<open>Prelude\<close>: the outcome of a Go call (a value, an error or a panic), slices with a capacity, bytes, hexadecimal
      and little-endian numbers. \<open>Systems\<close>: the interfaces of a step relation with an invariant and with a measure.
    \<^item> \<open>Util\<close>: \<^verbatim>\<open>util/utility.go\<close>. \<open>Utf8\<close> and \<open>Json\<close>: what the program uses of \<^verbatim>\<open>unicode/utf8\<close> and \<^verbatim>\<open>encoding/json\<close>.
    \<^item> \<open>Chain_Types\<close>: the responses of the node, \<^verbatim>\<open>lbrycrd/reponse.go\<close>, and \<^verbatim>\<open>float64\<close> amounts with their rounding.
    \<^item> \<open>Script\<close>: \<^verbatim>\<open>lbrycrd/script.go\<close> and \<^verbatim>\<open>lbrycrd/blockchain.go\<close>, the parsers of claim scripts.
    \<^item> \<open>TxGraph\<close> and \<open>Scheduler\<close>: \<^verbatim>\<open>daemon/processing/block_scheduler.go\<close>, the dependency graph of a block and the loop
      that dispatches its transactions to workers; \<open>TopoOrder\<close>: the spend order of \<^verbatim>\<open>daemon/processing/block.go\<close>.
    \<^item> \<open>Model\<close>: the rows of \<^verbatim>\<open>model/\<close>, a record per struct. \<open>DB\<close>: tables with keys and unique indexes, the world (the
      tables, the answers of the node, the schedule of faults) and the programs on it. \<open>Datastore\<close>:
      \<^verbatim>\<open>datastore/datastore.go\<close>.
    \<^item> \<open>Transactions\<close>: \<^verbatim>\<open>transaction.go\<close>, \<^verbatim>\<open>outpoint.go\<close> and \<^verbatim>\<open>address.go\<close> of \<^verbatim>\<open>daemon/processing\<close>; \<open>ClaimMeta\<close> and
      \<open>Claims\<close>: its \<^verbatim>\<open>claim.go\<close> and \<^verbatim>\<open>metadata.go\<close>; \<open>Blocks\<close>: its \<^verbatim>\<open>block.go\<close>; \<open>BlockSync\<close>: the run of one block,
      that is the scheduler composed with the storing of transactions, \<^verbatim>\<open>block_scheduler.go\<close> and \<^verbatim>\<open>errors.go\<close>.
    \<^item> \<open>Daemon\<close>: \<^verbatim>\<open>daemon/daemon.go\<close> and the settings of \<^verbatim>\<open>global/global.go\<close> it reads.
    \<^item> the jobs of \<^verbatim>\<open>daemon/jobs\<close>: \<open>ClaimTrie\<close> (\<^verbatim>\<open>claimtriesync.go\<close>), \<open>ValueSync\<close> (\<^verbatim>\<open>valuesync.go\<close>), \<open>Mempool\<close>
      (\<^verbatim>\<open>mempoolsync.go\<close>), \<open>Validation\<close> (\<^verbatim>\<open>chainvalidation.go\<close>), \<open>CertSync\<close> (\<^verbatim>\<open>certificatesync.go\<close>),
      \<open>OutputFix\<close> (\<^verbatim>\<open>outputfixsync.go\<close>, of which \<open>CertSync\<close> holds what a worker does) and \<open>ChainSync\<close> (\<^verbatim>\<open>chainsync.go\<close>).
    \<^item> \<open>Upgrades\<close>: \<^verbatim>\<open>daemon/upgrademanager\<close>. \<open>Actions\<close>: the guarded routes of \<^verbatim>\<open>apiactions\<close> and \<^verbatim>\<open>auth/auth.go\<close>.
    \<^item> \<open>Effects\<close>, \<open>TxFrame\<close>: what programs on the database leave unchanged; the theories that end in \<open>_Spec\<close>, \<open>_Refine\<close>
      and \<open>_Abort\<close> hold the properties of the theory they name, those that end in \<open>_Demo\<close> concrete runs.

  \<^bold>\<open>What is proved.\<close>
    \<^item> Scripts: parsing undoes the layout of claim, update and support scripts, no slice index leaves its capacity, and
      which input makes a parser panic.
    \<^item> Graph and scheduler: counters and adjacency lists agree with the edges; every two transactions that conflict on a
      claim are ordered as in the block; references that only point back give an acyclic graph. For every interleaving of
      workers, retries and stop signals, a transaction is dispatched only when all it depends on is done, the loop cannot
      stall, it ends, and success means that every transaction was processed. The scheduler refines a machine that does
      one permitted transaction at a time.
    \<^item> Storing: a processed transaction has exactly the rows the node reported whatever failed before; a block that ends without
      error is complete; a block that fails leaves tables from which the next attempt can complete it; unique keys and
      claim ids survive every handler; columns fit the widths the program cuts them to; a reader finds the
      fields of a claim in its JSON column.
    \<^item> Chain: a reorganisation removes exactly the blocks above the height it returns; the daemon skips no height, and a
      block missing below the head is never filled in.
    \<^item> Jobs: which claim of a name controls it, when claims expire, what paging by id may miss when a query asks for no order and that
      one page misses nothing, that repeating a job with the same answers writes nothing, that no error holds up the chain sync, that the validation of a range reports nothing exactly when the tables agree with
      the node, that the repair of spent claims ends and its one deadlock, and which errors and rows the jobs miss.
    \<^item> Around them: the version is recorded although upgrades may have failed and the next start runs none; a request without a key has
      no effect; a range of blocks is processed height by height.

  \<^bold>\<open>Interfaces.\<close> \<open>keyed_table\<close> is the contract of a table, interpreted on each table with its unique indexes;
  \<open>row_store\<close> that of reading after writing in the datastore; \<open>db_relation\<close> and its extensions that of a relation between
  worlds that every program of a component keeps, interpreted once per frame; \<open>step_system\<close>, \<open>ranked_system\<close> and
  \<open>simulation\<close> those of step relations, interpreted on the scheduler, the daemon, the repair of claims and the serial machine.

  \<^bold>\<open>Choices of the model.\<close>
    \<^item> A program on the database takes a world to a result and a world. Statements are counted, and the world holds a
      schedule that may fail any statement with any error; a theorem without hypothesis on the schedule therefore holds
      whatever the database does. Node answers are indexed by the number of calls made, so they may change between calls.
    \<^item> Rows are compared by exact text. Unique indexes and the cascading deletes the program relies on are modelled;
      checks of foreign keys and triggers are not. A time stamp is kept where the program reads it.
    \<^item> Workers appear as orders: the jobs of a transaction, of the claim trie or of a page run one after the other in an
      order that is a parameter, so theorems hold for every order. In the run of a block, storing one transaction is one
      step, and dispatch, answers, retries and stops interleave freely. The order in which Go walks a map is
      a parameter as well.
    \<^item> The order of the rows of a query is a parameter. Only where the query has \<^verbatim>\<open>ORDER BY\<close> is it assumed to be kept; a page of a
      query without it holds the rows in any order.
    \<^item> Columns hold the numbers the program writes; that MySQL rejects one outside the range of its column is not modelled.
    \<^item> Loops are recursive functions with a measure. Fuel is used in two places: in \<^verbatim>\<open>SyncAddressBalances\<close>, whose exit depends on
      the database and whose loop is proved never to be entered, so one unit is enough; and for the range of blocks of a request,
      which needs two units more than its last height and, it is proved, never ends when that is the largest number.
    \<^item> Times of waiting and retry delays are not numbers: a timer is a step that may happen at any point.

  \<^bold>\<open>Parameters.\<close> Code that is not in the repository is an argument of what uses it: the answers of the node, hash
  functions, the protobuf decoding of claims (\<^verbatim>\<open>schema/stake\<close> of \<^verbatim>\<open>lbry.go\<close>), the address codecs of \<^verbatim>\<open>btcutil\<close>, the check of
  signatures, and sums the database computes. What is assumed of them is a hypothesis of the theorem that needs it, and
  a witness instantiates it.

  \<^bold>\<open>Not modelled.\<close>
    \<^item> \<^verbatim>\<open>model/\<close> beyond the structs and unique keys: about thirty thousand lines that \<^verbatim>\<open>sqlboiler\<close> generates, the same
      for each table (hooks, eager loading, query text); the statements the program issues through them are modelled in
      \<open>DB\<close> and where they occur. Likewise the generated API server, the embedded migrations, assets and clients.
    \<^item> \<^verbatim>\<open>lbrycrd/client.go\<close>: HTTP requests and decoding of answers by reflection.
    \<^item> \<^verbatim>\<open>syncTransactionsOfBlockLegacy\<close> and its workers in \<^verbatim>\<open>block.go\<close>, which nothing calls.
    \<^item> \<^verbatim>\<open>apiactions/default.go\<close>, \<^verbatim>\<open>db\<close>, \<^verbatim>\<open>e2e\<close>, configuration, metrics, notifications, sockets and commands: input and
      output of the process around the operations above.
\<close>

end
